(* ===== verification/Prelude.thy ===== *)
theory Prelude
  imports Main "HOL-Library.Word"
begin

unbundle bit_operations_syntax

text \<open>
  The vocabulary shared by every component of the development: bytes and Go's
  big-endian integer codecs, \<open>io.ReadFull\<close> on a finite input, the random tape behind
  \<open>crypto/rand\<close>, \<open>(value, error)\<close> results as sums, number formatting
  (\<open>fmt.Sprintf\<close> with \<open>%d\<close> and \<open>%x\<close>), and two interfaces: a message codec on a byte
  stream and a transition system with an invariant.
\<close>

section \<open>Types and automation\<close>

type_synonym byte = "8 word"
type_synonym bytes = "8 word list"

text \<open>Lengths of encodings and framing equations, used by the wire-format components.\<close>

named_theorems wire_len "lengths of encoded messages"
named_theorems wire_defs "definitions of message builders"

text \<open>A Go call returning \<open>(value, error)\<close>: \<open>Inl\<close> is the error.\<close>

type_synonym ('e, 'a) result = "'e + 'a"

definition bindR :: "'e + 'a \<Rightarrow> ('a \<Rightarrow> 'e + 'b) \<Rightarrow> 'e + 'b" where
  "bindR r f = (case r of Inl e \<Rightarrow> Inl e | Inr a \<Rightarrow> f a)"

definition map_err :: "('e \<Rightarrow> 'f) \<Rightarrow> 'e + 'a \<Rightarrow> 'f + 'a" where
  "map_err g r = (case r of Inl e \<Rightarrow> Inl (g e) | Inr a \<Rightarrow> Inr a)"

lemma bindR_simps [simp]:
  "bindR (Inl e) f = Inl e"
  "bindR (Inr a) f = f a"
  by (simp_all add: bindR_def)

lemma map_err_simps [simp]:
  "map_err g (Inl e) = Inl (g e)"
  "map_err g (Inr a) = Inr a"
  by (simp_all add: map_err_def)

lemma bindR_eq_Inr_iff: "bindR r f = Inr b \<longleftrightarrow> (\<exists>a. r = Inr a \<and> f a = Inr b)"
  by (cases r) simp_all

lemma map_err_eq_Inr_iff [simp]: "map_err g r = Inr a \<longleftrightarrow> r = Inr a"
  by (cases r) simp_all

section \<open>Big-endian integers (\<open>encoding/binary\<close>)\<close>

definition put_u16 :: "16 word \<Rightarrow> bytes" where
  "put_u16 v = [ucast (drop_bit 8 v), ucast v]"

definition put_u32 :: "32 word \<Rightarrow> bytes" where
  "put_u32 v = [ucast (drop_bit 24 v), ucast (drop_bit 16 v), ucast (drop_bit 8 v), ucast v]"

definition put_u64 :: "64 word \<Rightarrow> bytes" where
  "put_u64 v =
     [ucast (drop_bit 56 v), ucast (drop_bit 48 v), ucast (drop_bit 40 v), ucast (drop_bit 32 v),
      ucast (drop_bit 24 v), ucast (drop_bit 16 v), ucast (drop_bit 8 v), ucast v]"

definition get_u16 :: "bytes \<Rightarrow> 16 word" where
  "get_u16 b = push_bit 8 (ucast (b ! 0)) OR ucast (b ! 1)"

definition get_u32 :: "bytes \<Rightarrow> 32 word" where
  "get_u32 b = push_bit 24 (ucast (b ! 0)) OR push_bit 16 (ucast (b ! 1))
     OR push_bit 8 (ucast (b ! 2)) OR ucast (b ! 3)"

definition get_u64 :: "bytes \<Rightarrow> 64 word" where
  "get_u64 b = push_bit 56 (ucast (b ! 0)) OR push_bit 48 (ucast (b ! 1))
     OR push_bit 40 (ucast (b ! 2)) OR push_bit 32 (ucast (b ! 3))
     OR push_bit 24 (ucast (b ! 4)) OR push_bit 16 (ucast (b ! 5))
     OR push_bit 8 (ucast (b ! 6)) OR ucast (b ! 7)"

lemma unat_u16: "unat (v :: 16 word) < 65536"
  using unsigned_less [of v, where ?'a = nat] by simp

lemma unat_u32: "unat (v :: 32 word) < 4294967296"
  using unsigned_less [of v, where ?'a = nat] by simp

lemma unat_byte: "unat (v :: byte) < 256"
  using unsigned_less [of v, where ?'a = nat] by simp

lemma length_put [simp, wire_len]:
  "length (put_u16 v) = 2"
  "length (put_u32 w) = 4"
  "length (put_u64 x) = 8"
  by (simp_all add: put_u16_def put_u32_def put_u64_def)

lemma put_not_Nil [simp]: "put_u16 v \<noteq> []" "put_u32 w \<noteq> []" "put_u64 x \<noteq> []"
  by (simp_all add: put_u16_def put_u32_def put_u64_def)

lemma get_put_u16 [simp]: "get_u16 (put_u16 v @ r) = v"
  by (rule bit_word_eqI) (auto simp: put_u16_def get_u16_def bit_simps nth_append)

lemma get_put_u32 [simp]: "get_u32 (put_u32 v @ r) = v"
proof (rule bit_word_eqI)
  fix n
  assume "n < LENGTH(32)"
  then consider "n < 8" | "8 \<le> n" "n < 16" | "16 \<le> n" "n < 24" | "24 \<le> n" "n < 32"
    by (simp, linarith)
  then show "bit (get_u32 (put_u32 v @ r)) n = bit v n"
    by cases (simp_all add: put_u32_def get_u32_def bit_simps less_diff_conv2)
qed

lemma get_put_u64 [simp]: "get_u64 (put_u64 v @ r) = v"
proof (rule bit_word_eqI)
  fix n
  assume "n < LENGTH(64)"
  then consider "n < 8" | "8 \<le> n" "n < 16" | "16 \<le> n" "n < 24" | "24 \<le> n" "n < 32" | "32 \<le> n" "n < 40" | "40 \<le> n" "n < 48" | "48 \<le> n" "n < 56" | "56 \<le> n" "n < 64"
    by (simp, linarith)
  then show "bit (get_u64 (put_u64 v @ r)) n = bit v n"
    by cases (simp_all add: put_u64_def get_u64_def bit_simps less_diff_conv2)
qed

lemmas get_put_Nil [simp] =
  get_put_u16 [of _ "[]", simplified] get_put_u32 [of _ "[]", simplified]
  get_put_u64 [of _ "[]", simplified]

lemma put_inject [simp]:
  "put_u16 a = put_u16 b \<longleftrightarrow> a = b"
  "put_u32 c = put_u32 d \<longleftrightarrow> c = d"
  "put_u64 e = put_u64 f \<longleftrightarrow> e = f"
  by (metis get_put_Nil)+

lemma bit_byte_high: "8 \<le> n \<Longrightarrow> \<not> bit (w :: byte) n"
  using bit_imp_le_length [of w n] by auto

lemma put_get_u16: "length b = 2 \<Longrightarrow> put_u16 (get_u16 b) = b"
proof -
  have "put_u16 (get_u16 [x, y]) = [x, y]" for x y
    unfolding put_u16_def get_u16_def
    by (auto intro!: bit_word_eqI simp: bit_simps bit_byte_high)
  then show "length b = 2 \<Longrightarrow> ?thesis"
    by (auto simp: numeral_2_eq_2 length_Suc_conv)
qed

lemma put_get_u32: "length b = 4 \<Longrightarrow> put_u32 (get_u32 b) = b"
proof -
  have "put_u32 (get_u32 [w, x, y, z]) = [w, x, y, z]" for w x y z
    unfolding put_u32_def get_u32_def
    by (auto intro!: bit_word_eqI simp: bit_simps bit_byte_high)
  then show "length b = 4 \<Longrightarrow> ?thesis"
    by (auto simp: eval_nat_numeral length_Suc_conv)
qed

section \<open>Copying into a buffer (\<open>copy(dst[off:], src)\<close>)\<close>

definition copy_at :: "nat \<Rightarrow> bytes \<Rightarrow> bytes \<Rightarrow> bytes" where
  "copy_at off src dst = take off dst @ take (length dst - off) src @ drop (off + length src) dst"

text \<open>Filling a fresh buffer from left to right is concatenation while everything fits.\<close>

lemma copy_at_fresh:
  "length b \<le> n \<Longrightarrow> copy_at (length a) b (a @ replicate n 0) = (a @ b) @ replicate (n - length b) 0"
  by (simp add: copy_at_def)

lemma copy_at_start:
  "length b \<le> n \<Longrightarrow> copy_at 0 b (replicate n 0) = b @ replicate (n - length b) 0"
  by (simp add: copy_at_def)

section \<open>Reading from a finite input (\<open>io.ReadFull\<close>)\<close>

datatype io_error = EOF | ErrUnexpectedEOF

definition read_full :: "nat \<Rightarrow> bytes \<Rightarrow> io_error + (bytes \<times> bytes)" where
  "read_full n s =
     (if n \<le> length s then Inr (take n s, drop n s)
      else Inl (if s = [] then EOF else ErrUnexpectedEOF))"

lemma read_full_append [simp]: "length a = n \<Longrightarrow> read_full n (a @ s) = Inr (a, s)"
  by (simp add: read_full_def)

lemma read_full_Inr:
  "read_full n s = Inr (a, s') \<longleftrightarrow> s = a @ s' \<and> length a = n"
  by (auto simp: read_full_def append_eq_conv_conj)

lemma read_full_Inl:
  "read_full n s = Inl e \<longleftrightarrow> length s < n \<and> e = (if s = [] then EOF else ErrUnexpectedEOF)"
  by (auto simp: read_full_def)

lemma read_full_shrinks: "read_full n s = Inr (a, s') \<Longrightarrow> length s = n + length s'"
  by (auto simp: read_full_Inr)

section \<open>Randomness (\<open>crypto/rand\<close>)\<close>

text \<open>
  The module targets Go 1.24, where \<open>crypto/rand.Read\<close> never fails and fills the whole
  buffer: reading \<open>n\<close> bytes takes the next \<open>n\<close> bytes of an arbitrary tape.
\<close>

type_synonym tape = "nat \<Rightarrow> byte"

definition rand_read :: "nat \<Rightarrow> tape \<Rightarrow> bytes \<times> tape" where
  "rand_read n t = (map t [0..<n], \<lambda>i. t (i + n))"

lemma length_rand_read [simp]: "length (fst (rand_read n t)) = n"
  by (simp add: rand_read_def)

lemma rand_read_length: "rand_read n t = (b, t') \<Longrightarrow> length b = n"
  by (auto simp: rand_read_def)

section \<open>Strings and number formatting\<close>

definition bytes_of :: "string \<Rightarrow> bytes" where
  "bytes_of s = map of_char s"

definition string_of :: "bytes \<Rightarrow> string" where
  "string_of b = map (\<lambda>x. char_of (unat x)) b"

lemma length_bytes_of [simp, wire_len]: "length (bytes_of s) = length s"
  by (simp add: bytes_of_def)

lemma length_string_of [simp]: "length (string_of b) = length b"
  by (simp add: string_of_def)

lemma bytes_of_append [simp]: "bytes_of (a @ b) = bytes_of a @ bytes_of b"
  by (simp add: bytes_of_def)

lemma bytes_of_Nil [simp]: "bytes_of [] = []" "bytes_of s = [] \<longleftrightarrow> s = []"
  by (auto simp: bytes_of_def)

lemma string_of_append [simp]: "string_of (a @ b) = string_of a @ string_of b"
  by (simp add: string_of_def)

lemma unat_of_char [simp]: "unat (of_char c :: byte) = of_char c"
proof -
  have "unat (of_char c :: byte) = unat (of_nat (of_char c) :: byte)" by (simp only: of_nat_of_char)
  also have "\<dots> = of_char c" by (simp add: unat_of_nat)
  finally show ?thesis .
qed

lemma string_of_bytes_of [simp]: "string_of (bytes_of s) = s"
  by (induction s) (simp_all add: string_of_def bytes_of_def)

lemma bytes_of_inject [simp]: "bytes_of a = bytes_of b \<longleftrightarrow> a = b"
  by (metis string_of_bytes_of)

lemma zero_in_bytes_of: "0 \<in> set (bytes_of s) \<longleftrightarrow> CHR 0x00 \<in> set s"
proof -
  have "(of_char c :: byte) = 0 \<longleftrightarrow> c = CHR 0x00" for c
  proof
    assume "(of_char c :: byte) = 0"
    then have "(of_char c :: nat) = of_char (CHR 0x00)" using unat_of_char [of c] by simp
    then show "c = CHR 0x00" by (simp only: of_char_eq_iff)
  qed simp
  then show ?thesis by (auto simp: bytes_of_def image_iff)
qed

text \<open>Digits of \<open>n\<close> in base \<open>b\<close>, most significant first; \<open>%d\<close>, \<open>%x\<close> and \<open>%X\<close>.\<close>

function digits :: "nat \<Rightarrow> nat \<Rightarrow> nat list" where
  "digits b n = (if b < 2 \<or> n < b then [n] else digits b (n div b) @ [n mod b])"
  by pat_completeness auto
termination
  by (relation "measure snd") (auto intro!: div_less_dividend)

declare digits.simps [simp del]

definition lower_digit :: "nat \<Rightarrow> char" where
  "lower_digit d = ''0123456789abcdef'' ! d"

definition upper_digit :: "nat \<Rightarrow> char" where
  "upper_digit d = ''0123456789ABCDEF'' ! d"

definition fmt_d :: "nat \<Rightarrow> string" where
  "fmt_d n = map lower_digit (digits 10 n)"

definition fmt_x :: "nat \<Rightarrow> string" where
  "fmt_x n = map lower_digit (digits 16 n)"

definition fmt_X :: "nat \<Rightarrow> string" where
  "fmt_X n = map upper_digit (digits 16 n)"

definition undigits :: "nat \<Rightarrow> nat list \<Rightarrow> nat" where
  "undigits b ds = foldl (\<lambda>a d. a * b + d) 0 ds"

lemma undigits_digits: "2 \<le> b \<Longrightarrow> undigits b (digits b n) = n"
proof (induction b n rule: digits.induct)
  case (1 b n)
  then show ?case
    by (subst digits.simps) (auto simp: undigits_def)
qed

lemma digits_inject: "2 \<le> b \<Longrightarrow> digits b m = digits b n \<longleftrightarrow> m = n"
  by (metis undigits_digits)

lemma digits_less: "2 \<le> b \<Longrightarrow> d \<in> set (digits b n) \<Longrightarrow> d < b"
proof (induction b n rule: digits.induct)
  case (1 b n)
  from 1(2,3) show ?case
    by (subst (asm) digits.simps) (auto simp: "1.IH" split: if_splits)
qed

lemma digits_not_Nil [simp]: "digits b n \<noteq> []"
  by (subst digits.simps) simp

text \<open>Most significant digit first: the length is bounded by the number's size.\<close>

lemma length_digits_le: "2 \<le> b \<Longrightarrow> n < b ^ k \<Longrightarrow> 0 < k \<Longrightarrow> length (digits b n) \<le> k"
proof (induction b n arbitrary: k rule: digits.induct)
  case (1 b n)
  show ?case
  proof (cases "n < b")
    case True
    with "1.prems" show ?thesis by (subst digits.simps) simp
  next
    case False
    from "1.prems"(3) obtain j where k: "k = Suc j"
      by (auto simp: gr0_conv_Suc)
    with False "1.prems"(2) have "0 < j"
      by (cases j) simp_all
    have "n div b < b ^ j"
      using "1.prems"(2) k by (simp add: less_mult_imp_div_less mult.commute)
    with "1.IH" [of j] "1.prems"(1) False k \<open>0 < j\<close> show ?thesis
      by (subst digits.simps) simp
  qed
qed

text \<open>No leading zero: the head of the digits of a positive number is positive.\<close>

lemma hd_digits_pos: "2 \<le> b \<Longrightarrow> 0 < n \<Longrightarrow> 0 < hd (digits b n)"
proof (induction b n rule: digits.induct)
  case (1 b n)
  then show ?case
    by (subst digits.simps) (auto simp: hd_append div_greater_zero_iff)
qed

lemma lower_digit_inj: "inj_on lower_digit {..<16}"
  by (rule inj_onI)
     (auto simp: lower_digit_def lessThan_nat_numeral lessThan_Suc numeral_eq_Suc)

lemma fmt_d_inject [simp]: "fmt_d m = fmt_d n \<longleftrightarrow> m = n"
proof
  assume "fmt_d m = fmt_d n"
  moreover have "set (digits 10 k) \<subseteq> {..<16}" for k
    using digits_less [of 10 _ k] by fastforce
  ultimately have "digits 10 m = digits 10 n"
    unfolding fmt_d_def
    by (intro map_inj_on [where f = lower_digit] inj_on_subset [OF lower_digit_inj] Un_least)
  then show "m = n"
    by (simp add: digits_inject)
qed simp

definition is_digit :: "char \<Rightarrow> bool" where
  "is_digit c \<longleftrightarrow> c \<in> set ''0123456789''"

lemma lower_digit_is_digit: "d < 10 \<Longrightarrow> is_digit (lower_digit d)"
  by (auto simp: is_digit_def lower_digit_def less_Suc_eq numeral_eq_Suc)

lemma fmt_d_digits: "c \<in> set (fmt_d n) \<Longrightarrow> is_digit c"
  by (auto simp: fmt_d_def dest!: digits_less [rotated] intro: lower_digit_is_digit)

lemma fmt_d_not_Nil [simp]: "fmt_d n \<noteq> []"
  by (simp add: fmt_d_def)

text \<open>\<open>hex.EncodeToString\<close>.\<close>

definition hex_string :: "bytes \<Rightarrow> string" where
  "hex_string b = concat (map (\<lambda>x. [lower_digit (unat x div 16), lower_digit (unat x mod 16)]) b)"

section \<open>Interface: a message codec on a byte stream\<close>

text \<open>
  Reading \<open>n\<close> messages in sequence from one input, stopping at the first error: what every
  receive loop of the program does.
\<close>

primrec read_msgs ::
  "(bytes \<Rightarrow> 'e + ('m \<times> bytes)) \<Rightarrow> nat \<Rightarrow> bytes \<Rightarrow> 'e + ('m list \<times> bytes)" where
  "read_msgs dec 0 s = Inr ([], s)"
| "read_msgs dec (Suc n) s =
     bindR (dec s) (\<lambda>(m, s'). bindR (read_msgs dec n s') (\<lambda>(ms, s''). Inr (m # ms, s'')))"

text \<open>
  The provider promises that decoding an encoded message followed by anything gives the
  message back and leaves exactly the rest. Framing correctness of a whole session and the
  absence of frame confusion follow once for all codecs.
\<close>

locale stream_codec =
  fixes enc :: "'x \<Rightarrow> bytes"
    and msg :: "'x \<Rightarrow> 'm"
    and dec :: "bytes \<Rightarrow> 'e + ('m \<times> bytes)"
    and ok :: "'x \<Rightarrow> bool"
  assumes dec_enc: "ok x \<Longrightarrow> dec (enc x @ rest) = Inr (msg x, rest)"
begin

lemma read_msgs_enc:
  "list_all ok xs \<Longrightarrow>
     read_msgs dec (length xs) (concat (map enc xs) @ rest) = Inr (map msg xs, rest)"
  by (induction xs arbitrary: rest) (simp_all add: dec_enc)

lemma frames_unambiguous:
  assumes "list_all ok xs" "list_all ok ys" "length xs = length ys"
    and "concat (map enc xs) @ r = concat (map enc ys) @ r'"
  shows "map msg xs = map msg ys \<and> r = r'"
proof -
  from read_msgs_enc [OF assms(1), of r] read_msgs_enc [OF assms(2), of r'] assms(3,4)
  show ?thesis by simp
qed

lemma msg_determined: "ok x \<Longrightarrow> ok y \<Longrightarrow> enc x = enc y \<Longrightarrow> msg x = msg y"
  using dec_enc [of x "[]"] dec_enc [of y "[]"] by simp

end

section \<open>Interface: a transition system with an invariant\<close>

inductive reach :: "('s \<Rightarrow> bool) \<Rightarrow> ('s \<Rightarrow> 's \<Rightarrow> bool) \<Rightarrow> 's \<Rightarrow> bool"
  for init step where
  reach_init: "init s \<Longrightarrow> reach init step s"
| reach_step: "reach init step s \<Longrightarrow> step s t \<Longrightarrow> reach init step t"

locale invariant_system =
  fixes init :: "'s \<Rightarrow> bool"
    and step :: "'s \<Rightarrow> 's \<Rightarrow> bool"
    and inv :: "'s \<Rightarrow> bool"
  assumes inv_init: "init s \<Longrightarrow> inv s"
    and inv_step: "inv s \<Longrightarrow> step s t \<Longrightarrow> inv t"
begin

lemma reach_inv: "reach init step s \<Longrightarrow> inv s"
  by (induction rule: reach.induct) (auto intro: inv_init inv_step)

end

end
