(* ===== verification/PgWire.thy ===== *)
theory PgWire
  imports Prelude "HOL-Library.Multiset"
begin

text \<open>
  Component \<open>internal/transport/pgproto\<close>: \<open>wire.go\<close>, \<open>auth.go\<close>, \<open>time.go\<close> and the readers of
  \<open>handshake.go\<close>. Builders and parsers of the PostgreSQL messages the disguise uses. Go strings
  are byte lists on the wire; string constants are written as HOL strings. MD5 is an argument of
  the one function that computes it, and the clock (nanoseconds since 1970) of those that read it.
\<close>

section \<open>Tags and codes\<close>

definition tagAuthRequest :: byte where "tagAuthRequest = of_char (CHR ''R'')"
definition tagParameterStatus :: byte where "tagParameterStatus = of_char (CHR ''S'')"
definition tagBackendKeyData :: byte where "tagBackendKeyData = of_char (CHR ''K'')"
definition tagReadyForQuery :: byte where "tagReadyForQuery = of_char (CHR ''Z'')"
definition tagQuery :: byte where "tagQuery = of_char (CHR ''Q'')"
definition tagPassword :: byte where "tagPassword = of_char (CHR ''p'')"
definition tagCopyBoth :: byte where "tagCopyBoth = of_char (CHR ''W'')"
definition tagCopyData :: byte where "tagCopyData = of_char (CHR ''d'')"
definition tagErrorResponse :: byte where "tagErrorResponse = of_char (CHR ''E'')"
definition tagRowDescription :: byte where "tagRowDescription = of_char (CHR ''T'')"
definition tagDataRow :: byte where "tagDataRow = of_char (CHR ''D'')"
definition tagCommandComplete :: byte where "tagCommandComplete = of_char (CHR ''C'')"

lemmas pg_tags =
  tagAuthRequest_def tagParameterStatus_def tagBackendKeyData_def tagReadyForQuery_def tagQuery_def
  tagPassword_def tagCopyBoth_def tagCopyData_def tagErrorResponse_def tagRowDescription_def
  tagDataRow_def tagCommandComplete_def

definition pgTypeOIDText :: "32 word" where "pgTypeOIDText = 25"
definition pgTypeOIDInt4 :: "32 word" where "pgTypeOIDInt4 = 23"
definition authOK :: "32 word" where "authOK = 0"
definition authMD5Password :: "32 word" where "authMD5Password = 5"
definition sslRequestCode :: "32 word" where "sslRequestCode = 80877103"
definition gssEncRequestCode :: "32 word" where "gssEncRequestCode = 80877104"
definition cancelRequestCode :: "32 word" where "cancelRequestCode = 80877102"
definition sslAccepted :: byte where "sslAccepted = of_char (CHR ''S'')"
definition sslAcceptedLegacy :: byte where "sslAcceptedLegacy = of_char (CHR ''Y'')"
definition protocol3 :: "32 word" where "protocol3 = 0x00030000"

section \<open>Startup message\<close>

definition realisticAppNames :: "string list" where
  "realisticAppNames = [''walreceiver'', ''pg_basebackup'', ''pg_receivewal'']"

definition randomAppName :: "tape \<Rightarrow> string \<times> tape" where
  "randomAppName t =
     (let (b, t') = rand_read 1 t in (realisticAppNames ! (unat (b ! 0) mod length realisticAppNames), t'))"

type_synonym startupParam = "string \<times> string"

record startupProfile =
  prof_name :: string
  extra :: "startupParam list"

definition startupProfiles :: "startupProfile list" where
  "startupProfiles =
     [\<lparr>prof_name = ''minimal'', extra = []\<rparr>,
      \<lparr>prof_name = ''with-encoding'', extra = [(''client_encoding'', ''UTF8'')]\<rparr>,
      \<lparr>prof_name = ''libpq-default'',
       extra = [(''client_encoding'', ''UTF8''), (''DateStyle'', ''ISO, MDY''), (''TimeZone'', ''UTC'')]\<rparr>,
      \<lparr>prof_name = ''psql-default'',
       extra = [(''client_encoding'', ''UTF8''), (''DateStyle'', ''ISO, MDY''), (''TimeZone'', ''Etc/UTC''),
                (''IntervalStyle'', ''postgres'')]\<rparr>]"

definition pickProfile :: "tape \<Rightarrow> startupProfile \<times> tape" where
  "pickProfile t =
     (let (b, t') = rand_read 1 t in (startupProfiles ! (unat (b ! 0) mod length startupProfiles), t'))"

definition swap :: "nat \<Rightarrow> nat \<Rightarrow> 'a list \<Rightarrow> 'a list" where
  "swap i j xs = xs[i := xs ! j, j := xs ! i]"

text \<open>The loop of the shuffle at index \<open>i\<close>, counting down to 2.\<close>

fun shuffle_from :: "nat \<Rightarrow> 'a list \<Rightarrow> tape \<Rightarrow> 'a list \<times> tape" where
  "shuffle_from i params t =
     (if 1 < i then
        (let (b, t') = rand_read 1 t; j = 1 + unat (b ! 0) mod i
         in shuffle_from (i - 1) (swap i j params) t')
      else (params, t))"

declare shuffle_from.simps [simp del]

definition shuffleParamsKeepUserFirst :: "'a list \<Rightarrow> tape \<Rightarrow> 'a list \<times> tape" where
  "shuffleParamsKeepUserFirst params t =
     (if length params \<le> 2 then (params, t) else shuffle_from (length params - 1) params t)"

definition param_bytes :: "startupParam \<Rightarrow> bytes" where
  "param_bytes = (\<lambda>(name, value). bytes_of name @ [0] @ bytes_of value @ [0])"

definition startup_params :: "tape \<Rightarrow> startupParam list \<times> tape" where
  "startup_params t =
     (let (profile, t1) = pickProfile t; (app, t2) = randomAppName t1
      in shuffleParamsKeepUserFirst
           ([(''user'', ''replicator''), (''database'', ''replication''), (''replication'', ''true''),
             (''application_name'', app)] @ extra profile) t2)"

definition startup_body :: "startupParam list \<Rightarrow> bytes" where
  "startup_body params = concat (map param_bytes params) @ [0]"

definition buildStartupMessage :: "tape \<Rightarrow> bytes \<times> tape" where
  "buildStartupMessage t =
     (let (params, t') = startup_params t; body = startup_body params;
          n = 4 + 4 + length body
      in (put_u32 (of_nat n) @ put_u32 protocol3 @ body, t'))"

section \<open>Tagged messages\<close>

text \<open>\<open>[tag][int32 length, itself included][payload]\<close>, the shape every builder writes.\<close>

definition tagged :: "byte \<Rightarrow> bytes \<Rightarrow> bytes" where
  "tagged tag payload = tag # put_u32 (of_nat (4 + length payload)) @ payload"

definition buildAuthMD5Password :: "bytes \<Rightarrow> bytes" where
  "buildAuthMD5Password salt = tagged tagAuthRequest (put_u32 authMD5Password @ salt)"

definition buildAuthOk :: bytes where
  "buildAuthOk = tagged tagAuthRequest (put_u32 authOK)"

definition buildPasswordMessage :: "string \<Rightarrow> bytes" where
  "buildPasswordMessage hash = tagged tagPassword (bytes_of hash @ [0])"

definition buildParameterStatus :: "bytes \<Rightarrow> bytes \<Rightarrow> bytes" where
  "buildParameterStatus name value = tagged tagParameterStatus (name @ [0] @ value @ [0])"

definition buildBackendKeyData :: "32 word \<Rightarrow> 32 word \<Rightarrow> bytes" where
  "buildBackendKeyData pid key = tagged tagBackendKeyData (put_u32 pid @ put_u32 key)"

definition buildReadyForQuery :: bytes where
  "buildReadyForQuery = [tagReadyForQuery, 0, 0, 0, 5, of_char (CHR ''I'')]"

definition buildQuery :: "string \<Rightarrow> bytes" where
  "buildQuery sql = tagged tagQuery (bytes_of sql @ [0])"

definition buildCopyBothResponse :: bytes where
  "buildCopyBothResponse = tagged tagCopyBoth [0, 0, 0]"

definition error_field :: "char \<Rightarrow> bytes \<Rightarrow> bytes" where
  "error_field c v = of_char c # v @ [0]"

definition buildErrorResponse :: "string \<Rightarrow> bytes \<Rightarrow> string \<Rightarrow> string \<Rightarrow> string \<Rightarrow> bytes" where
  "buildErrorResponse code message file line routine =
     tagged tagErrorResponse
       (bytes_of ''SFATAL'' @ [0] @ bytes_of ''VFATAL'' @ [0]
        @ error_field (CHR ''C'') (bytes_of code) @ error_field (CHR ''M'') message
        @ error_field (CHR ''F'') (bytes_of file) @ error_field (CHR ''L'') (bytes_of line)
        @ error_field (CHR ''R'') (bytes_of routine) @ [0])"

definition buildAuthError :: "bytes \<Rightarrow> bytes" where
  "buildAuthError user =
     buildErrorResponse ''28P01''
       (bytes_of ''password authentication failed for user \"'' @ user @ bytes_of ''\"'')
       ''auth.c'' ''326'' ''auth_failed''"

definition buildFeatureError :: "bytes \<Rightarrow> bytes" where
  "buildFeatureError message =
     buildErrorResponse ''0A000'' message ''walsender.c'' ''689'' ''exec_replication_command''"

definition buildSyntaxError :: "bytes \<Rightarrow> bytes" where
  "buildSyntaxError message = buildErrorResponse ''42601'' message ''scan.l'' ''1176'' ''scanner_yyerror''"

definition buildProtocolError :: "bytes \<Rightarrow> bytes" where
  "buildProtocolError message =
     buildErrorResponse ''08P01'' message ''postgres.c'' ''694'' ''ProcessStartupPacket''"

definition wrapCopyData :: "bytes \<Rightarrow> bytes" where
  "wrapCopyData payload = tagged tagCopyData payload"

section \<open>Replication messages\<close>

text \<open>Microseconds since 2000-01-01, rounded towards zero.\<close>

definition pgEpoch :: int where "pgEpoch = 946684800 * 1000000000"

definition pgTimestamp :: "int \<Rightarrow> int" where
  "pgTimestamp now = sgn (now - pgEpoch) * (\<bar>now - pgEpoch\<bar> div 1000)"

definition buildXLogDataHeader :: "64 word \<Rightarrow> nat \<Rightarrow> int \<Rightarrow> bytes" where
  "buildXLogDataHeader walPos dataLen now =
     of_char (CHR ''w'') # put_u64 walPos @ put_u64 (walPos + of_nat dataLen)
       @ put_u64 (of_int (pgTimestamp now))"

definition buildPrimaryKeepalive :: "64 word \<Rightarrow> bool \<Rightarrow> int \<Rightarrow> bytes" where
  "buildPrimaryKeepalive walPos replyRequested now =
     wrapCopyData (of_char (CHR ''k'') # put_u64 walPos @ put_u64 (of_int (pgTimestamp now))
       @ [if replyRequested then 1 else 0])"

definition buildStandbyStatusUpdate :: "64 word \<Rightarrow> int \<Rightarrow> bytes" where
  "buildStandbyStatusUpdate walPos now =
     wrapCopyData (of_char (CHR ''r'') # put_u64 walPos @ put_u64 walPos @ put_u64 walPos
       @ put_u64 (of_int (pgTimestamp now)) @ [0])"

section \<open>Result sets\<close>

record rowDescField =
  fld_name :: string
  typeOID :: "32 word"
  typeSize :: int
  typeMod :: int
  fld_format :: int

definition field_bytes :: "rowDescField \<Rightarrow> bytes" where
  "field_bytes f =
     bytes_of (fld_name f) @ [0] @ put_u32 0 @ put_u16 0 @ put_u32 (typeOID f)
       @ put_u16 (of_int (typeSize f)) @ put_u32 (of_int (typeMod f)) @ put_u16 (of_int (fld_format f))"

definition buildRowDescription :: "rowDescField list \<Rightarrow> bytes" where
  "buildRowDescription flds =
     tagged tagRowDescription (put_u16 (of_nat (length flds)) @ concat (map field_bytes flds))"

text \<open>A column value; \<open>None\<close> is \<open>nil\<close>, SQL NULL.\<close>

definition value_bytes :: "bytes option \<Rightarrow> bytes" where
  "value_bytes v = (case v of None \<Rightarrow> put_u32 0xFFFFFFFF | Some b \<Rightarrow> put_u32 (of_nat (length b)) @ b)"

definition buildDataRow :: "bytes option list \<Rightarrow> bytes" where
  "buildDataRow vs = tagged tagDataRow (put_u16 (of_nat (length vs)) @ concat (map value_bytes vs))"

definition buildCommandComplete :: "string \<Rightarrow> bytes" where
  "buildCommandComplete tag = tagged tagCommandComplete (bytes_of tag @ [0])"

definition minLSN :: "64 word" where "minLSN = 16 * 1024 * 1024 * 1024"
definition maxLSN :: "64 word" where "maxLSN = 4 * 1024 * 1024 * 1024 * 1024"

definition start_lsn :: "bytes \<Rightarrow> 64 word" where
  "start_lsn b = (minLSN + get_u64 b mod (maxLSN - minLSN)) AND NOT (16 * 1024 * 1024 - 1)"

definition randomStartLSN :: "tape \<Rightarrow> string \<times> tape" where
  "randomStartLSN t =
     (let (b, t') = rand_read 8 t; lsn = start_lsn b;
          high = ucast (drop_bit 32 lsn) :: 32 word; low = ucast (lsn AND 0xFFFFFFFF) :: 32 word
      in (fmt_X (unat high) @ ''/'' @ fmt_X (unat low), t'))"

definition text_field :: "string \<Rightarrow> rowDescField" where
  "text_field name = \<lparr>fld_name = name, typeOID = pgTypeOIDText, typeSize = -1, typeMod = -1, fld_format = 0\<rparr>"

definition buildIdentifySystemResponse :: "tape \<Rightarrow> bytes list \<times> tape" where
  "buildIdentifySystemResponse t =
     (let flds = [text_field ''systemid'',
                    \<lparr>fld_name = ''timeline'', typeOID = pgTypeOIDInt4, typeSize = 4, typeMod = -1, fld_format = 0\<rparr>,
                    text_field ''xlogpos'', text_field ''dbname''];
          (sysBuf, t1) = rand_read 8 t;
          systemid = fmt_d (unat (get_u64 sysBuf));
          (lsn, t2) = randomStartLSN t1
      in ([buildRowDescription flds,
           buildDataRow [Some (bytes_of systemid), Some (bytes_of ''1''), Some (bytes_of lsn), None],
           buildCommandComplete ''IDENTIFY_SYSTEM'',
           buildReadyForQuery], t2))"

definition computePGMD5 :: "(bytes \<Rightarrow> bytes) \<Rightarrow> bytes \<Rightarrow> bytes \<Rightarrow> string" where
  "computePGMD5 md5 psk salt =
     (let inner = hex_string (md5 (psk @ bytes_of ''replicator''));
          outer = hex_string (md5 (bytes_of inner @ salt))
      in ''md5'' @ outer)"

section \<open>Reading messages\<close>

datatype pg_error = PgIO io_error | BadMessageLength "32 word"

definition readPGMessage :: "bytes \<Rightarrow> pg_error + ((byte \<times> bytes) \<times> bytes)" where
  "readPGMessage r =
     (case read_full 5 r of
        Inl e \<Rightarrow> Inl (PgIO e)
      | Inr (hdr, r1) \<Rightarrow>
          let tag = hdr ! 0; len = get_u32 (drop 1 hdr)
          in if len < 4 \<or> len > 2 ^ 20 then Inl (BadMessageLength len)
             else case read_full (unat (len - 4)) r1 of
                    Inl e \<Rightarrow> Inl (PgIO e)
                  | Inr (payload, r2) \<Rightarrow> Inr ((tag, payload), r2))"

definition readStartupHeader :: "bytes \<Rightarrow> pg_error + ((32 word \<times> 32 word) \<times> bytes)" where
  "readStartupHeader r =
     (case read_full 8 r of
        Inl e \<Rightarrow> Inl (PgIO e)
      | Inr (hdr, r1) \<Rightarrow> Inr ((get_u32 (take 4 hdr), get_u32 (drop 4 hdr)), r1))"

text \<open>The text before the first NUL, and whether there was one.\<close>

definition cstring :: "bytes \<Rightarrow> bytes" where
  "cstring d = takeWhile (\<lambda>b. b \<noteq> 0) d"

fun parse_params :: "bytes \<Rightarrow> (bytes \<rightharpoonup> bytes) \<Rightarrow> (bytes \<rightharpoonup> bytes)" where
  "parse_params d m =
     (if d = [] then m
      else
        let key = cstring d; d1 = drop (length key + 1) d
        in if length key \<ge> length d then m
           else if key = [] then m
           else
             let value = cstring d1
             in if length value \<ge> length d1 then m(key \<mapsto> d1)
                else parse_params (drop (length value + 1) d1) (m(key \<mapsto> value)))"

declare parse_params.simps [simp del]

definition parseStartupParams :: "bytes \<Rightarrow> (bytes \<rightharpoonup> bytes)" where
  "parseStartupParams d = parse_params d Map.empty"

section \<open>Random identifiers of the client\<close>

text \<open>\<open>%02x\<close> of a byte.\<close>

definition hex2 :: "byte \<Rightarrow> string" where
  "hex2 b = hex_string [b]"

definition randomSlotName :: "tape \<Rightarrow> string \<times> tape" where
  "randomSlotName t =
     (let prefixes = [''standby'', ''replica'', ''walreceiver'', ''pgstandby''];
          (b, t1) = rand_read 2 t;
          prefix = prefixes ! (unat (b ! 0) mod length prefixes)
      in if b ! 0 AND 1 = 0 then (prefix @ ''_'' @ fmt_d (unat (b ! 1)), t1)
         else let (h, t2) = rand_read 2 t1 in (prefix @ ''_'' @ hex2 (h ! 0) @ hex2 (h ! 1), t2))"

definition shouldSendIdentifySystem :: "tape \<Rightarrow> bool \<times> tape" where
  "shouldSendIdentifySystem t = (let (b, t') = rand_read 1 t in (b ! 0 < 102, t'))"

definition truncateQuery :: "bytes \<Rightarrow> bytes" where
  "truncateQuery q = (if length q > 32 then take 32 q else q)"

section \<open>Messages on a stream\<close>

lemma length_tagged [simp, wire_len]: "length (tagged tag p) = 5 + length p"
  by (simp add: tagged_def)

lemma readPGMessage_tagged:
  assumes "4 + length p \<le> 2 ^ 20"
  shows "readPGMessage (tagged tag p @ rest) = Inr ((tag, p), rest)"
proof -
  let ?l = "of_nat (4 + length p) :: 32 word"
  have u: "unat ?l = 4 + length p" using assms by (simp add: unat_of_nat del: of_nat_add)
  have b: "\<not> ?l < 4" "\<not> 2 ^ 20 < ?l" using u assms by (simp_all add: word_less_nat_alt del: of_nat_add)
  have s: "unat (?l - 4) = length p"
    using u b(1) by (simp add: unat_sub word_le_nat_alt del: of_nat_add)
  have r: "read_full 5 (tagged tag p @ rest) = Inr (tag # put_u32 ?l, p @ rest)"
    using read_full_append [of "tag # put_u32 ?l" 5 "p @ rest"] by (simp add: tagged_def del: of_nat_add)
  show ?thesis
    unfolding readPGMessage_def r using b s by (simp add: Let_def del: of_nat_add)
qed

interpretation pgmsgs: stream_codec
  "\<lambda>(tag, p). tagged tag p" "\<lambda>m. m" readPGMessage "\<lambda>(tag, p). 4 + length p \<le> 2 ^ 20"
  by unfold_locales (auto simp: readPGMessage_tagged)

lemma readPGMessage_shrinks: "readPGMessage r = Inr (m, rest) \<Longrightarrow> length rest < length r"
  by (auto simp: readPGMessage_def Let_def read_full_Inr split: sum.splits if_splits prod.splits)

text \<open>The message builders as tag and payload.\<close>

lemma buildReadyForQuery_tagged: "buildReadyForQuery = tagged tagReadyForQuery [of_char (CHR ''I'')]"
  by (simp add: buildReadyForQuery_def tagged_def put_u32_def)

lemmas pg_builders [wire_defs] =
  buildAuthMD5Password_def buildAuthOk_def buildPasswordMessage_def buildParameterStatus_def
  buildBackendKeyData_def buildReadyForQuery_tagged buildQuery_def buildCopyBothResponse_def
  buildRowDescription_def buildDataRow_def buildCommandComplete_def wrapCopyData_def

section \<open>Startup parameters\<close>

lemma cstring_append: "0 \<notin> set k \<Longrightarrow> cstring (k @ 0 # r) = k"
  unfolding cstring_def by (subst takeWhile_append2) auto

definition clean_param :: "startupParam \<Rightarrow> bool" where
  "clean_param = (\<lambda>(k, v). k \<noteq> [] \<and> CHR 0x00 \<notin> set k \<and> CHR 0x00 \<notin> set v)"

definition put_param :: "(bytes \<rightharpoonup> bytes) \<Rightarrow> startupParam \<Rightarrow> (bytes \<rightharpoonup> bytes)" where
  "put_param m = (\<lambda>(k, v). m(bytes_of k \<mapsto> bytes_of v))"

lemma parse_params_body:
  "list_all clean_param ps \<Longrightarrow> parse_params (startup_body ps) m = foldl put_param m ps"
proof (induction ps arbitrary: m)
  case Nil
  show ?case by (subst parse_params.simps) (simp add: startup_body_def cstring_def)
next
  case (Cons p ps)
  obtain k v where p: "p = (k, v)" by fastforce
  let ?rest = "startup_body ps"
  from Cons.prems p have kv: "k \<noteq> []" "0 \<notin> set (bytes_of k)" "0 \<notin> set (bytes_of v)"
    by (simp_all add: clean_param_def zero_in_bytes_of)
  have "startup_body (p # ps) = bytes_of k @ 0 # (bytes_of v @ 0 # ?rest)"
    by (simp add: startup_body_def param_bytes_def p)
  then have "parse_params (startup_body (p # ps)) m = parse_params ?rest (put_param m p)"
    using kv by (subst parse_params.simps) (simp add: cstring_append put_param_def p Let_def)
  with Cons show ?case by simp
qed

lemma foldl_put_param:
  assumes "distinct (map fst ps)" "(k, v) \<in> set ps"
  shows "foldl put_param m ps (bytes_of k) = Some (bytes_of v)"
  using assms
proof (induction ps arbitrary: m)
  case (Cons p ps)
  have other: "foldl put_param m qs (bytes_of k) = m (bytes_of k)" if "k \<notin> fst ` set qs" for m qs
    using that by (induction qs arbitrary: m) (auto simp: put_param_def)
  show ?case
  proof (cases "(k, v) \<in> set ps")
    case True
    with Cons show ?thesis by simp
  next
    case False
    with Cons.prems have "p = (k, v)" by simp
    moreover from this have "put_param m p (bytes_of k) = Some (bytes_of v)"
      by (simp add: put_param_def)
    ultimately show ?thesis
      using Cons.prems(1) other [of ps "put_param m p"] by simp
  qed
qed simp

lemma mset_swap: "i < length xs \<Longrightarrow> j < length xs \<Longrightarrow> mset (swap i j xs) = mset xs"
  by (simp add: swap_def mset_swap)

lemma shuffle_from_perm:
  "i < length xs \<Longrightarrow> shuffle_from i xs t = (ys, t') \<Longrightarrow>
     mset ys = mset xs \<and> length ys = length xs \<and> (xs \<noteq> [] \<longrightarrow> ys ! 0 = xs ! 0)"
proof (induction i xs t rule: shuffle_from.induct)
  case (1 i xs t)
  show ?case
  proof (cases "1 < i")
    case False
    with "1.prems" show ?thesis by (subst (asm) shuffle_from.simps) simp
  next
    case True
    obtain b t1 where b: "rand_read 1 t = (b, t1)" by fastforce
    define j where "j = 1 + unat (b ! 0) mod i"
    have j: "j \<le> i" "1 \<le> j" using True by (auto simp: j_def Suc_le_eq)
    from "1.prems"(2) True b have s: "shuffle_from (i - 1) (swap i j xs) t1 = (ys, t')"
      by (subst (asm) shuffle_from.simps) (simp add: j_def Let_def)
    have len: "length (swap i j xs) = length xs" "swap i j xs ! 0 = xs ! 0"
      using True j by (simp_all add: swap_def)
    have ne: "swap i j xs \<noteq> [] \<longleftrightarrow> xs \<noteq> []" by (simp add: swap_def)
    from "1.IH" [OF True b [symmetric] refl j_def _ s] "1.prems"(1) len j ne show ?thesis
      by (auto simp: mset_swap)
  qed
qed

lemma shuffle_perm:
  "shuffleParamsKeepUserFirst xs t = (ys, t') \<Longrightarrow> mset ys = mset xs \<and> (xs \<noteq> [] \<longrightarrow> hd ys = hd xs)"
  using shuffle_from_perm [of "length xs - 1" xs t ys t']
  by (cases xs; cases ys) (auto simp: shuffleParamsKeepUserFirst_def split: if_splits)

text \<open>Every message lists one of twelve parameter sets, in some order with \<open>user\<close> first.\<close>

lemma startup_params_shape:
  assumes "startup_params t = (ps, t')"
  obtains app prof where "app \<in> set realisticAppNames" "prof \<in> set startupProfiles"
    "mset ps = mset ([(''user'', ''replicator''), (''database'', ''replication''),
       (''replication'', ''true''), (''application_name'', app)] @ extra prof)"
    "hd ps = (''user'', ''replicator'')"
proof -
  obtain prof t1 where p: "pickProfile t = (prof, t1)" by fastforce
  obtain app t2 where a: "randomAppName t1 = (app, t2)" by fastforce
  have "startupProfiles \<noteq> []" "realisticAppNames \<noteq> []"
    by (simp_all add: startupProfiles_def realisticAppNames_def)
  then have "app \<in> set realisticAppNames" "prof \<in> set startupProfiles"
    using p a by (auto simp: pickProfile_def randomAppName_def rand_read_def)
  moreover from assms p a have "shuffleParamsKeepUserFirst ([(''user'', ''replicator''),
      (''database'', ''replication''), (''replication'', ''true''), (''application_name'', app)]
      @ extra prof) t2 = (ps, t')"
    by (simp add: startup_params_def)
  from shuffle_perm [OF this] have
    "mset ps = mset ([(''user'', ''replicator''), (''database'', ''replication''),
       (''replication'', ''true''), (''application_name'', app)] @ extra prof)"
    "hd ps = (''user'', ''replicator'')" by simp_all
  ultimately show thesis by (rule that)
qed

definition all_startup_sets :: "startupParam list list" where
  "all_startup_sets =
     concat (map (\<lambda>app. map (\<lambda>prof. [(''user'', ''replicator''), (''database'', ''replication''),
        (''replication'', ''true''), (''application_name'', app)] @ extra prof) startupProfiles)
        realisticAppNames)"

lemma all_startup_sets_ok:
  "list_all (\<lambda>ps. list_all clean_param ps \<and> distinct (map fst ps)
      \<and> length (concat (map param_bytes ps)) \<le> 1000) all_startup_sets"
  by code_simp

lemma startup_params_ok:
  assumes "startup_params t = (ps, t')"
  shows "list_all clean_param ps \<and> distinct (map fst ps) \<and> length (startup_body ps) \<le> 1001
    \<and> hd ps = (''user'', ''replicator'') \<and> (''user'', ''replicator'') \<in> set ps
    \<and> (''replication'', ''true'') \<in> set ps
    \<and> (\<exists>app\<in>set realisticAppNames. (''application_name'', app) \<in> set ps)"
proof (rule startup_params_shape [OF assms])
  fix app and prof :: startupProfile
  let ?qs = "[(''user'', ''replicator''), (''database'', ''replication''),
       (''replication'', ''true''), (''application_name'', app)] @ extra prof"
  assume app: "app \<in> set realisticAppNames" and "prof \<in> set startupProfiles"
    and m: "mset ps = mset ?qs" and h: "hd ps = (''user'', ''replicator'')"
  then have "?qs \<in> set all_startup_sets" by (auto simp: all_startup_sets_def)
  with all_startup_sets_ok have q: "list_all clean_param ?qs" "distinct (map fst ?qs)"
      "length (concat (map param_bytes ?qs)) \<le> 1000"
    by (simp_all only: list_all_iff) blast+
  have s: "set ps = set ?qs" using m by (metis set_mset_mset)
  have "distinct (map fst ps)"
    using q(2) mset_eq_imp_distinct_iff [of "map fst ps" "map fst ?qs"] m by simp
  moreover have "length (concat (map param_bytes ps)) = length (concat (map param_bytes ?qs))"
  proof -
    have "length (concat (map param_bytes xs)) = sum_mset (image_mset (\<lambda>x. length (param_bytes x)) (mset xs))"
      for xs by (induction xs) simp_all
    then show ?thesis using m by metis
  qed
  ultimately show ?thesis
    using q(1,3) s h app by (auto simp: list_all_iff startup_body_def)
qed

section \<open>Log positions\<close>

lemma unat_mod_word: "unat (a mod b) = unat a mod unat (b :: 64 word)"
  by (simp add: unat_mod_distrib)

lemma lsn_constants:
  "unat minLSN = 2 ^ 34" "unat (maxLSN - minLSN) = 2 ^ 42 - 2 ^ 34"
  by (simp_all add: minLSN_def maxLSN_def)

lemma unat_lsn_raw:
  "unat (minLSN + x mod (maxLSN - minLSN)) = 2 ^ 34 + unat x mod (2 ^ 42 - 2 ^ 34)"
proof -
  have "unat x mod (2 ^ 42 - 2 ^ 34) < 2 ^ 42 - (2 ^ 34 :: nat)" by (rule mod_less_divisor) simp
  then have "unat minLSN + unat (x mod (maxLSN - minLSN)) < 2 ^ LENGTH(64)"
    by (simp add: lsn_constants unat_mod_word)
  then show ?thesis
    by (subst unat_add_lem [THEN iffD1]) (simp_all add: lsn_constants unat_mod_word)
qed

lemma and_not_mask: "w AND NOT (16 * 1024 * 1024 - 1) = push_bit 24 (drop_bit 24 (w :: 64 word))"
proof -
  have "(16 * 1024 * 1024 - 1 :: 64 word) = mask 24" by (simp add: mask_eq_exp_minus_1)
  moreover have "w AND NOT (mask 24) = push_bit 24 (drop_bit 24 w)"
    by (rule bit_word_eqI) (auto simp: bit_simps)
  ultimately show ?thesis by simp
qed

lemma unat_segment: "unat (push_bit 24 (drop_bit 24 (w :: 64 word))) = unat w div 2 ^ 24 * 2 ^ 24"
proof -
  have d: "unat (drop_bit 24 w) = unat w div 2 ^ 24"
    unfolding drop_bit_eq_div by (simp add: unat_div)
  have "unat w div 2 ^ 24 * 2 ^ 24 \<le> unat w" by (rule div_times_less_eq_dividend)
  also have "unat w < 2 ^ 64" using unsigned_less [of w, where ?'a = nat] by simp
  finally show ?thesis
    unfolding unsigned_push_bit_eq d by (simp add: take_bit_eq_mod push_bit_eq_mult)
qed

lemma unat_start_lsn:
  "unat (start_lsn b) = (2 ^ 34 + unat (get_u64 b) mod (2 ^ 42 - 2 ^ 34)) div 2 ^ 24 * 2 ^ 24"
  by (simp only: start_lsn_def and_not_mask unat_segment unat_lsn_raw)

text \<open>Rounding down to a segment keeps a position between 16 GB and 4 TB.\<close>

lemma segment_range:
  fixes n :: nat
  defines "p \<equiv> (2 ^ 34 + n mod (2 ^ 42 - 2 ^ 34)) div 2 ^ 24 * 2 ^ 24"
  shows "2 ^ 34 \<le> p \<and> p < 2 ^ 42 \<and> 2 ^ 24 dvd p"
proof -
  have "n mod (2 ^ 42 - 2 ^ 34) < 2 ^ 42 - (2 ^ 34 :: nat)" by (rule mod_less_divisor) simp
  then show ?thesis unfolding p_def by auto
qed

section \<open>Lengths\<close>

lemma length_fmt: "n < 10 ^ k \<Longrightarrow> 0 < k \<Longrightarrow> length (fmt_d n) \<le> k"
  "n < 16 ^ k \<Longrightarrow> 0 < k \<Longrightarrow> length (fmt_X n) \<le> k"
  by (simp_all add: fmt_d_def fmt_X_def length_digits_le)

lemma length_hex_string [simp]: "length (hex_string b) = 2 * length b"
  by (induction b) (simp_all add: hex_string_def)

lemma length_randomStartLSN: "randomStartLSN t = (s, t') \<Longrightarrow> length s \<le> 17"
proof -
  have x: "length (fmt_X (unat (w :: 32 word))) \<le> 8" for w
    using length_fmt(2) [of "unat w" 8] unat_u32 [of w] by simp
  assume "randomStartLSN t = (s, t')"
  then obtain a b :: "32 word" where "s = fmt_X (unat a) @ ''/'' @ fmt_X (unat b)"
    by (auto simp: randomStartLSN_def Let_def split: prod.splits)
  with x [of a] x [of b] show ?thesis by simp
qed

lemma length_randomSlotName: "randomSlotName t = (s, t') \<Longrightarrow> length s \<le> 20"
proof -
  assume s: "randomSlotName t = (s, t')"
  have p: "length ([''standby'', ''replica'', ''walreceiver'', ''pgstandby''] ! (n mod 4)) \<le> 11" for n
  proof -
    have "[''standby'', ''replica'', ''walreceiver'', ''pgstandby''] ! (n mod 4)
        \<in> set [''standby'', ''replica'', ''walreceiver'', ''pgstandby'']"
      by (rule nth_mem) simp
    then show ?thesis by auto
  qed
  have d: "length (fmt_d (unat (b :: byte))) \<le> 3" for b
    using length_fmt(1) [of "unat b" 3] unat_byte [of b] by simp
  show ?thesis
    using s p [of "unat (t 0)"] d [of "t (Suc 0)"]
    by (auto simp: randomSlotName_def hex2_def Let_def rand_read_def split: if_splits)
qed

lemma startup_message_facts:
  "\<exists>msg t'. buildStartupMessage t = (msg, t')
    \<and> readStartupHeader (msg @ rest) = Inr ((of_nat (length msg), protocol3), drop 8 msg @ rest)
    \<and> unat (of_nat (length msg) :: 32 word) = length msg \<and> 8 \<le> length msg \<and> length msg \<le> 10008
    \<and> take 16 (drop 8 msg) = bytes_of ''user'' @ [0] @ bytes_of ''replicator'' @ [0]
    \<and> parseStartupParams (drop 8 msg) (bytes_of ''user'') = Some (bytes_of ''replicator'')
    \<and> parseStartupParams (drop 8 msg) (bytes_of ''replication'') = Some (bytes_of ''true'')
    \<and> (\<exists>app\<in>set realisticAppNames.
          parseStartupParams (drop 8 msg) (bytes_of ''application_name'') = Some (bytes_of app))"
proof -
  obtain ps t' where s: "startup_params t = (ps, t')" by fastforce
  note ok = startup_params_ok [OF s]
  let ?msg = "put_u32 (of_nat (8 + length (startup_body ps))) @ put_u32 protocol3 @ startup_body ps"
  have b: "buildStartupMessage t = (?msg, t')"
    by (simp add: buildStartupMessage_def s Let_def)
  have len: "length ?msg = 8 + length (startup_body ps)" by simp
  have d: "drop 8 ?msg = startup_body ps" by simp
  have rd: "readStartupHeader (?msg @ rest) = Inr ((of_nat (length ?msg), protocol3), drop 8 ?msg @ rest)"
    using read_full_append [of "put_u32 (of_nat (8 + length (startup_body ps))) @ put_u32 protocol3" 8
        "startup_body ps @ rest"]
    unfolding d len by (simp add: readStartupHeader_def del: of_nat_add)
  from ok obtain qs where "ps = (''user'', ''replicator'') # qs" by (cases ps) auto
  then have "take 16 (startup_body ps) = bytes_of ''user'' @ [0] @ bytes_of ''replicator'' @ [0]"
    by (simp add: startup_body_def param_bytes_def)
  moreover have "unat (of_nat (length ?msg) :: 32 word) = length ?msg"
    using ok unfolding len by (simp add: unat_of_nat del: of_nat_add)
  moreover have "parseStartupParams (startup_body ps) (bytes_of ''user'') = Some (bytes_of ''replicator'')"
    "parseStartupParams (startup_body ps) (bytes_of ''replication'') = Some (bytes_of ''true'')"
    "\<exists>app\<in>set realisticAppNames.
       parseStartupParams (startup_body ps) (bytes_of ''application_name'') = Some (bytes_of app)"
    using ok foldl_put_param [of ps] by (auto simp: parseStartupParams_def parse_params_body)
  ultimately show ?thesis
    using b rd ok by (intro exI [of _ ?msg] exI [of _ t']) (simp add: d del: of_nat_add)
qed

section \<open>Properties\<close>

text \<open>
  The startup message, for every random choice of profile, application name and order: its
  length field is its length, within the bound the server checks, its first parameter is the
  user, and parsing the parameters gives the user and the replication flag by which the server
  recognises a tunnel client, and one of the three application names.
\<close>

theorem startup_message_identifies_client:
  "\<exists>msg t'. buildStartupMessage t = (msg, t')
    \<and> readStartupHeader (msg @ rest) = Inr ((of_nat (length msg), protocol3), drop 8 msg @ rest)
    \<and> unat (of_nat (length msg) :: 32 word) = length msg \<and> 8 \<le> length msg \<and> length msg \<le> 10008
    \<and> take 16 (drop 8 msg) = bytes_of ''user'' @ [0] @ bytes_of ''replicator'' @ [0]
    \<and> parseStartupParams (drop 8 msg) (bytes_of ''user'') = Some (bytes_of ''replicator'')
    \<and> parseStartupParams (drop 8 msg) (bytes_of ''replication'') = Some (bytes_of ''true'')
    \<and> (\<exists>app\<in>set realisticAppNames.
          parseStartupParams (drop 8 msg) (bytes_of ''application_name'') = Some (bytes_of app))"
  by (rule startup_message_facts)

end
