(* ===== verification/PgConn.thy ===== *)
theory PgConn
  imports PgWire
begin

text \<open>
  Component \<open>internal/transport/pgproto/pgconn.go\<close>: the connection that carries the tunnel's
  bytes in CopyData messages, and its buffer pools. The underlying connection is the bytes
  written to it and the bytes still to be read from it; a write's success is an argument. The
  pools are not observable except through the capacities they hand out, which is what their
  model keeps. Keepalives occur at any point of a run; their random delay is computed in exact
  arithmetic where the code computes in floating point. The addresses and deadlines of the
  connection are passed through and not modelled.
\<close>

section \<open>Buffer pools\<close>

text \<open>\<open>bits.Len\<close> and \<open>bits.TrailingZeros\<close>.\<close>

fun bit_len :: "nat \<Rightarrow> nat" where
  "bit_len n = (if n = 0 then 0 else Suc (bit_len (n div 2)))"

fun trailing_zeros :: "nat \<Rightarrow> nat" where
  "trailing_zeros n = (if n = 0 then 64 else if odd n then 0 else Suc (trailing_zeros (n div 2)))"

declare bit_len.simps [simp del] trailing_zeros.simps [simp del]

definition numPools :: int where "numPools = 21"

definition poolIdx :: "nat \<Rightarrow> int" where
  "poolIdx sz =
     (if sz \<le> 16 then 0
      else
        let idx = int (bit_len (sz - 1)) - 4
        in if idx < 0 then 0 else if idx \<ge> numPools then numPools - 1 else idx)"

text \<open>
  \<open>getBuf\<close> with \<open>pooled\<close> the capacity of the buffer the pool of that index gives, if it has one:
  the capacity of the result, or \<open>None\<close> for the run-time panic of slicing or making a buffer
  longer than its capacity.
\<close>

definition getBuf :: "nat \<Rightarrow> nat option \<Rightarrow> nat option" where
  "getBuf sz pooled =
     (case pooled of
        Some c \<Rightarrow> if sz \<le> c then Some c else None
      | None \<Rightarrow> (let c = 2 ^ nat (poolIdx sz + 4) in if sz \<le> c then Some c else None))"

text \<open>The pool a buffer of capacity \<open>c\<close> is returned to, if any.\<close>

definition putBuf :: "nat \<Rightarrow> int option" where
  "putBuf c =
     (if c < 16 \<or> c AND (c - 1) \<noteq> 0 then None
      else
        let idx = int (trailing_zeros c) - 4
        in if idx < 0 \<or> idx \<ge> numPools then None else Some idx)"

section \<open>The connection\<close>

record PGConn =
  isServer :: bool
  walPos :: "64 word"
  readBuf :: bytes

definition walSegmentSize :: "64 word" where "walSegmentSize = 16 * 1024 * 1024"

definition initial_wal :: "bytes \<Rightarrow> 64 word" where
  "initial_wal b = ((minLSN + get_u64 b mod (maxLSN - minLSN)) div walSegmentSize) * walSegmentSize"

definition newPGConn :: "bool \<Rightarrow> tape \<Rightarrow> PGConn \<times> tape" where
  "newPGConn server t =
     (let (walBuf, t') = rand_read 8 t
      in (\<lparr>isServer = server, walPos = initial_wal walBuf, readBuf = []\<rparr>, t'))"

text \<open>The bytes of one \<open>Write\<close>, filled into one buffer of exactly that length.\<close>

definition write_frame :: "PGConn \<Rightarrow> bytes \<Rightarrow> int \<Rightarrow> bytes" where
  "write_frame pc b now =
     (if isServer pc then
        [tagCopyData] @ put_u32 (of_nat (29 + length b))
        @ [of_char (CHR ''w'')] @ put_u64 (walPos pc) @ put_u64 (walPos pc + of_nat (length b))
        @ put_u64 (of_int (pgTimestamp now)) @ b
      else [tagCopyData] @ put_u32 (of_nat (4 + length b)) @ b)"

definition pg_Write :: "bool \<Rightarrow> bytes \<Rightarrow> int \<Rightarrow> PGConn \<Rightarrow> bytes \<times> nat option \<times> PGConn" where
  "pg_Write ok b now pc =
     (write_frame pc b now, if ok then Some (length b) else None,
      pc\<lparr>walPos := walPos pc + of_nat (length b)\<rparr>)"

datatype copy_error = CopyIO io_error | BadCopyLength "32 word"

lemma read_full_less:
  "read_full n r = Inr (a, r') \<Longrightarrow> length r = n + length r'"
  by (auto simp: read_full_Inr)

function readFrame :: "bytes \<Rightarrow> copy_error + (bytes \<times> bytes)" where
  "readFrame r =
     (case read_full 5 r of
        Inl e \<Rightarrow> Inl (CopyIO e)
      | Inr (hdr, r1) \<Rightarrow>
          let len = get_u32 (drop 1 hdr) in
          if len < 4 \<or> len > 2 ^ 24 then Inl (BadCopyLength len)
          else if hdr ! 0 \<noteq> tagCopyData then
            (case read_full (unat len - 4) r1 of
               Inl e \<Rightarrow> Inl (CopyIO e)
             | Inr (discard, r2) \<Rightarrow> readFrame r2)
          else
            let payloadLen = unat len - 4 in
            if payloadLen = 0 then readFrame r1
            else
              (case read_full payloadLen r1 of
                 Inl e \<Rightarrow> Inl (CopyIO e)
               | Inr (payload, r2) \<Rightarrow>
                   if payload ! 0 = of_char (CHR ''w'') then
                     (if payloadLen \<le> 25 then readFrame r2 else Inr (drop 25 payload, r2))
                   else if payload ! 0 = of_char (CHR ''k'') then readFrame r2
                   else if payload ! 0 = of_char (CHR ''r'') then readFrame r2
                   else Inr (payload, r2)))"
  by pat_completeness auto
termination
  by (relation "measure length") (auto dest!: read_full_less)

declare readFrame.simps [simp del]

lemma readFrame_shrinks: "readFrame r = Inr (d, r') \<Longrightarrow> d \<noteq> [] \<and> length r' < length r"
proof (induction r rule: measure_induct_rule [of length])
  case (less r)
  have rec: "d \<noteq> [] \<and> length r' < length r" if "readFrame r2 = Inr (d, r')" "length r2 < length r" for r2
    using less.IH [OF that(2,1)] that(2) by linarith
  from less.prems obtain hdr r1 where h: "read_full 5 r = Inr (hdr, r1)"
    by (subst (asm) readFrame.simps) (auto split: sum.splits)
  define n where "n = unat (get_u32 (drop 1 hdr)) - 4"
  show ?case
  proof (cases "read_full n r1")
    case (Inl e)
    with less.prems h have "n = 0" "readFrame r1 = Inr (d, r')"
      by (subst (asm) readFrame.simps, auto simp: n_def Let_def split: if_splits)+
    with rec [of r1] read_full_less [OF h] show ?thesis by simp
  next
    case (Inr pr)
    obtain p r2 where p: "pr = (p, r2)" by fastforce
    with Inr have l: "length p = n" "length r1 = n + length r2" by (auto simp: read_full_Inr)
    from less.prems h Inr p
    have "readFrame r1 = Inr (d, r') \<or> readFrame r2 = Inr (d, r')
        \<or> (d = drop 25 p \<and> 25 < n \<or> d = p \<and> 0 < n) \<and> r' = r2"
      by (subst (asm) readFrame.simps) (auto simp: n_def Let_def split: if_splits)
    with rec [of r1] rec [of r2] l read_full_less [OF h] show ?thesis by auto
  qed
qed

text \<open>\<open>Read\<close> into a buffer of \<open>n\<close> bytes.\<close>

function pg_Read :: "nat \<Rightarrow> PGConn \<Rightarrow> bytes \<Rightarrow> copy_error + (bytes \<times> PGConn \<times> bytes)" where
  "pg_Read n pc r =
     (if readBuf pc = [] then
        (case readFrame r of
           Inl e \<Rightarrow> Inl e
         | Inr (d, r') \<Rightarrow> pg_Read n (pc\<lparr>readBuf := readBuf pc @ d\<rparr>) r')
      else Inr (take n (readBuf pc), pc\<lparr>readBuf := drop n (readBuf pc)\<rparr>, r))"
  by pat_completeness auto
termination
  by (relation "measure (\<lambda>(n, pc, r). length r)") (auto dest: readFrame_shrinks)

declare pg_Read.simps [simp del]

definition keepalive_msg :: "PGConn \<Rightarrow> int \<Rightarrow> bytes" where
  "keepalive_msg pc now =
     (if isServer pc then buildPrimaryKeepalive (walPos pc) False now
      else buildStandbyStatusUpdate (walPos pc) now)"

text \<open>
  The keepalive loop: its delay, the truncation of \<open>7 s * (0.7 + u / 65535 * 0.6)\<close>, and one
  round of it after the delay with the result of the write:
  the bytes written and whether the loop goes on. \<open>done\<close> is closed.
\<close>

definition keepaliveBase :: int where "keepaliveBase = 7 * 10 ^ 9"

definition keepaliveDelay :: "tape \<Rightarrow> int \<times> tape" where
  "keepaliveDelay t =
     (let (b, t') = rand_read 2 t
      in ((keepaliveBase * (7 * 65535 + 6 * int (unat (get_u16 b)))) div (10 * 65535), t'))"

definition keepaliveLoop_round :: "bool \<Rightarrow> bool \<Rightarrow> int \<Rightarrow> PGConn \<Rightarrow> bytes \<times> bool" where
  "keepaliveLoop_round closed ok now pc = (if closed then ([], False) else (keepalive_msg pc now, ok))"

text \<open>
  \<open>Close\<close>: the channel \<open>done\<close> is closed once, a second time would be a panic (\<open>None\<close>); the underlying
  connection is closed on every call. \<open>once\<close> and \<open>closed\<close> are the states of \<open>closeOnce\<close> and \<open>done\<close>.
\<close>

definition pg_Close :: "bool \<times> bool \<times> nat \<Rightarrow> (bool \<times> bool \<times> nat) option" where
  "pg_Close = (\<lambda>(once, closed, closes).
     if once then Some (once, closed, closes + 1)
     else if closed then None
     else Some (True, True, closes + 1))"

lemma keepaliveDelay_range:
  "4900 * 10 ^ 6 \<le> fst (keepaliveDelay t) \<and> fst (keepaliveDelay t) \<le> 9100 * 10 ^ 6"
proof -
  obtain b t' where b: "rand_read 2 t = (b, t')" by fastforce
  define u where "u = int (unat (get_u16 b))"
  have "unat (get_u16 b) < 2 ^ LENGTH(16)" by (rule unsigned_less)
  then have "unat (get_u16 b) \<le> 65535" by simp
  then have "0 \<le> u" "u \<le> 65535" unfolding u_def by linarith+
  then have "7000000000 * (7 * 65535) \<le> 7000000000 * (7 * 65535 + 6 * u)"
    "7000000000 * (7 * 65535 + 6 * u) \<le> 7000000000 * (13 * 65535)" by simp_all
  from this [THEN zdiv_mono1, of "10 * 65535"] have
    "4900000000 \<le> 7000000000 * (7 * 65535 + 6 * u) div (10 * 65535)"
    "7000000000 * (7 * 65535 + 6 * u) div (10 * 65535) \<le> 9100000000" by simp_all
  then show ?thesis unfolding keepaliveDelay_def b keepaliveBase_def Let_def prod.case fst_conv u_def [symmetric] by simp
qed

lemma pg_Close_twice:
  "pg_Close (False, False, n) = Some s \<Longrightarrow> pg_Close s = Some (True, True, n + 2)"
  by (auto simp: pg_Close_def)

section \<open>Capacities\<close>

lemma bit_len_bound: "n < 2 ^ bit_len n"
proof (induction n rule: bit_len.induct)
  case (1 n)
  then show ?case by (subst bit_len.simps) auto
qed

lemma bit_len_le: "n < 2 ^ k \<Longrightarrow> bit_len n \<le> k"
proof (induction n arbitrary: k rule: bit_len.induct)
  case (1 n)
  show ?case
  proof (cases "n = 0")
    case True
    then show ?thesis by (subst bit_len.simps) simp
  next
    case False
    with "1.prems" obtain j where k: "k = Suc j" by (cases k) auto
    with "1.prems" have "n div 2 < 2 ^ j" by auto
    from "1.IH" [OF False this] False k show ?thesis by (subst bit_len.simps) simp
  qed
qed

lemma trailing_zeros_exp: "trailing_zeros (2 ^ k) = k"
proof (induction k)
  case 0
  show ?case by (subst trailing_zeros.simps) simp
next
  case (Suc k)
  then show ?case by (subst trailing_zeros.simps) simp
qed

lemma poolIdx_fits:
  assumes "sz \<le> 2 ^ 24"
  shows "0 \<le> poolIdx sz \<and> poolIdx sz \<le> 20 \<and> sz \<le> 2 ^ nat (poolIdx sz + 4)"
proof (cases "sz \<le> 16")
  case False
  let ?b = "bit_len (sz - 1)"
  have "sz - 1 < 2 ^ ?b" by (rule bit_len_bound)
  then have s: "sz \<le> 2 ^ ?b" by linarith
  have b: "?b \<le> 24" by (rule bit_len_le) (use assms False in simp)
  have "4 < ?b"
  proof (rule ccontr)
    assume "\<not> 4 < ?b"
    then have "(2 :: nat) ^ ?b \<le> 2 ^ 4" by (intro power_increasing) auto
    with s False show False by simp
  qed
  with b s False show ?thesis by (auto simp: poolIdx_def numPools_def Let_def)
qed (simp add: poolIdx_def)

lemma exp_and_pred: "(2 ^ k :: nat) AND (2 ^ k - 1) = 0"
proof -
  have "(2 ^ k :: nat) AND mask k = 0"
    by (metis and.commute bit.conj_cancel_right take_bit_eq_mask take_bit_of_exp mod_self
        take_bit_eq_mod)
  then show ?thesis by (simp add: mask_eq_exp_minus_1)
qed

section \<open>Frames on the stream\<close>

text \<open>The buffer \<open>Write\<close> fills is the message the builders of \<open>wire.go\<close> describe.\<close>

lemma write_frame_tagged:
  "write_frame pc b now =
     (if isServer pc then wrapCopyData (buildXLogDataHeader (walPos pc) (length b) now @ b)
      else wrapCopyData b)"
  by (simp add: write_frame_def wrapCopyData_def tagged_def buildXLogDataHeader_def)

lemma length_header [simp, wire_len]: "length (buildXLogDataHeader w n now) = 25"
  by (simp add: buildXLogDataHeader_def)

lemma readFrame_copydata:
  assumes "p \<noteq> []" "4 + length p \<le> 2 ^ 24"
  shows "readFrame (wrapCopyData p @ rest) =
     (if p ! 0 = of_char (CHR ''w'') then
        (if length p \<le> 25 then readFrame rest else Inr (drop 25 p, rest))
      else if p ! 0 = of_char (CHR ''k'') \<or> p ! 0 = of_char (CHR ''r'') then readFrame rest
      else Inr (p, rest))"
proof -
  let ?l = "of_nat (4 + length p) :: 32 word"
  have u: "unat ?l = 4 + length p" using assms by (simp add: unat_of_nat del: of_nat_add)
  have b: "\<not> ?l < 4" "\<not> 2 ^ 24 < ?l" using u assms by (simp_all add: word_less_nat_alt del: of_nat_add)
  have r: "read_full 5 (wrapCopyData p @ rest) = Inr (tagCopyData # put_u32 ?l, p @ rest)"
    using read_full_append [of "tagCopyData # put_u32 ?l" 5 "p @ rest"]
    by (simp add: wrapCopyData_def tagged_def del: of_nat_add)
  show ?thesis
    by (subst readFrame.simps, unfold r)
       (use b u assms(1) in \<open>simp add: Let_def del: of_nat_add\<close>)
qed

lemma readFrame_keepalive: "readFrame (keepalive_msg pc now @ rest) = readFrame rest"
  by (simp add: keepalive_msg_def buildPrimaryKeepalive_def buildStandbyStatusUpdate_def
      readFrame_copydata)

lemma readFrame_write:
  assumes "b \<noteq> []" "length b + 29 \<le> 2 ^ 24"
    "isServer pc \<or> hd b \<notin> {of_char (CHR ''w''), of_char (CHR ''k''), of_char (CHR ''r'')}"
  shows "readFrame (write_frame pc b now @ rest) = Inr (b, rest)"
proof (cases "isServer pc")
  case True
  let ?h = "buildXLogDataHeader (walPos pc) (length b) now"
  have "(?h @ b) ! 0 = of_char (CHR ''w'')" by (simp add: buildXLogDataHeader_def)
  moreover have "?h @ b \<noteq> []" using assms(1) by simp
  ultimately show ?thesis
    using True assms(1,2) by (simp add: write_frame_tagged readFrame_copydata)
next
  case False
  with assms show ?thesis
    by (simp add: write_frame_tagged readFrame_copydata hd_conv_nth)
qed

text \<open>A run of one side: data and keepalives in any order.\<close>

datatype pg_event = SendData bytes int | SendKeepalive int

fun pg_send :: "PGConn \<Rightarrow> pg_event list \<Rightarrow> bytes" where
  "pg_send pc [] = []"
| "pg_send pc (SendData b now # es) =
     (case pg_Write True b now pc of (f, n, pc') \<Rightarrow> f @ pg_send pc' es)"
| "pg_send pc (SendKeepalive now # es) = keepalive_msg pc now @ pg_send pc es"

fun event_data :: "pg_event \<Rightarrow> bytes" where
  "event_data (SendData b now) = b"
| "event_data (SendKeepalive now) = []"

text \<open>Everything the reader gets, in order, and the error that ends the stream.\<close>

function pg_drain :: "bytes \<Rightarrow> bytes list \<times> copy_error" where
  "pg_drain r =
     (case readFrame r of
        Inl e \<Rightarrow> ([], e)
      | Inr (d, r') \<Rightarrow> (let (ds, e) = pg_drain r' in (d # ds, e)))"
  by pat_completeness auto
termination
  by (relation "measure length") (auto dest: readFrame_shrinks)

declare pg_drain.simps [simp del]

definition sendable :: "bool \<Rightarrow> pg_event \<Rightarrow> bool" where
  "sendable server e =
     (case e of
        SendKeepalive now \<Rightarrow> True
      | SendData b now \<Rightarrow> b \<noteq> [] \<and> length b + 29 \<le> 2 ^ 24
          \<and> (server \<or> hd b \<notin> {of_char (CHR ''w''), of_char (CHR ''k''), of_char (CHR ''r'')}))"

lemma pg_drain_cong: "readFrame r = readFrame r' \<Longrightarrow> pg_drain r = pg_drain r'"
  by (simp add: pg_drain.simps [of r] pg_drain.simps [of r'])

lemma pg_drain_send:
  "list_all (sendable (isServer pc)) es \<Longrightarrow>
     pg_drain (pg_send pc es) = (filter (\<lambda>b. b \<noteq> []) (map event_data es), CopyIO EOF)"
proof (induction es arbitrary: pc)
  case Nil
  have "readFrame [] = Inl (CopyIO EOF)" by (subst readFrame.simps) (simp add: read_full_def)
  then show ?case by (subst pg_drain.simps) simp
next
  case (Cons e es)
  show ?case
  proof (cases e)
    case (SendKeepalive now)
    with Cons show ?thesis
      using pg_drain_cong [OF readFrame_keepalive [of pc now "pg_send pc es"]] by simp
  next
    case (SendData b now)
    let ?pc = "pc\<lparr>walPos := walPos pc + of_nat (length b)\<rparr>"
    have b: "b \<noteq> []" "length b + 29 \<le> 2 ^ 24"
      "isServer pc \<or> hd b \<notin> {of_char (CHR ''w''), of_char (CHR ''k''), of_char (CHR ''r'')}"
      using Cons.prems SendData by (simp_all add: sendable_def)
    have "pg_drain (pg_send ?pc es) = (filter (\<lambda>b. b \<noteq> []) (map event_data es), CopyIO EOF)"
      using Cons.IH [of ?pc] Cons.prems by simp
    with SendData b readFrame_write [OF b, of now "pg_send ?pc es"] show ?thesis
      by (subst pg_drain.simps) (simp add: pg_Write_def)
  qed
qed

section \<open>Properties\<close>



text \<open>
  The connection is not transparent for every chunk, although it is documented as a drop-in
  replacement of the connection it wraps: a chunk that the client writes and that starts with
  the letter k or r is discarded by the reader, and one that starts with w loses its first 25
  bytes, or disappears when it is no longer than that.
\<close>

theorem client_chunk_misread:
  assumes "\<not> isServer pc" and "length b + 29 \<le> 2 ^ 24" and "b \<noteq> []"
  shows "(hd b \<in> {of_char (CHR ''k''), of_char (CHR ''r'')} \<longrightarrow>
            readFrame (write_frame pc b now @ rest) = readFrame rest)
    \<and> (hd b = of_char (CHR ''w'') \<longrightarrow>
            readFrame (write_frame pc b now @ rest)
              = (if length b \<le> 25 then readFrame rest else Inr (drop 25 b, rest)))"
  using assms by (simp add: write_frame_tagged readFrame_copydata hd_conv_nth)

theorem client_chunk_misread_witness:
  "readFrame (write_frame \<lparr>isServer = False, walPos = 0, readBuf = []\<rparr> [107, 1, 2] 0 @ []) = readFrame []"
  using client_chunk_misread [of "\<lparr>isServer = False, walPos = 0, readBuf = []\<rparr>" "[107, 1, 2]" 0 "[]"]
  by simp

text \<open>
  The buffer pools. If every pooled buffer has the capacity of its pool's index, then for a
  size of at most 16 MB a buffer is obtained without panic, its capacity is that of its index and
  at least the size, and returning it puts it back into the same pool, so the assumption stays
  true. The reader's own bound on a message's length keeps its sizes in this range; beyond it
  an unpooled buffer is a panic.
\<close>

theorem buffer_pools_sound:
  assumes "pooled = None \<or> pooled = Some (2 ^ nat (poolIdx sz + 4))"
  shows "(sz \<le> 2 ^ 24 \<longrightarrow>
            (\<exists>c. getBuf sz pooled = Some c \<and> c = 2 ^ nat (poolIdx sz + 4) \<and> sz \<le> c
               \<and> putBuf c = Some (poolIdx sz)))
    \<and> (2 ^ 24 < sz \<longrightarrow> getBuf sz pooled = None)"
proof (intro conjI impI)
  assume "sz \<le> 2 ^ 24"
  from poolIdx_fits [OF this] have f: "0 \<le> poolIdx sz" "poolIdx sz \<le> 20" "sz \<le> 2 ^ nat (poolIdx sz + 4)"
    by simp_all
  have "(2 :: nat) ^ 4 \<le> 2 ^ nat (poolIdx sz + 4)" using f(1) by (intro power_increasing) auto
  then have "putBuf (2 ^ nat (poolIdx sz + 4)) = Some (poolIdx sz)"
    using f exp_and_pred [of "nat (poolIdx sz + 4)"]
    by (simp add: putBuf_def trailing_zeros_exp numPools_def)
  with assms f(3) show "\<exists>c. getBuf sz pooled = Some c \<and> c = 2 ^ nat (poolIdx sz + 4) \<and> sz \<le> c
      \<and> putBuf c = Some (poolIdx sz)"
    by (auto simp: getBuf_def)
next
  assume big: "2 ^ 24 < sz"
  have "poolIdx sz \<le> 20" by (auto simp: poolIdx_def numPools_def Let_def)
  then have "(2 :: nat) ^ nat (poolIdx sz + 4) \<le> 2 ^ 24" by (intro power_increasing) auto
  with big assms show "getBuf sz pooled = None" by (auto simp: getBuf_def)
qed

theorem buffer_pools_sound_witness:
  "\<exists>c. getBuf 1500 None = Some c \<and> c = 2 ^ nat (poolIdx 1500 + 4) \<and> 1500 \<le> c
     \<and> putBuf c = Some (poolIdx 1500)"
  using buffer_pools_sound [of None 1500] by simp

text \<open>
  The start positions of the replication disguise. Both the position in the client's
  replication command and the initial position of a connection are, for all random bytes, a
  multiple of the 16 MB segment size between 16 GB and 4 TB, and the two computations (masking
  and dividing) agree.
\<close>

theorem wal_positions_realistic:
  "initial_wal b = start_lsn b
   \<and> 2 ^ 34 \<le> unat (initial_wal b) \<and> unat (initial_wal b) < 2 ^ 42 \<and> 2 ^ 24 dvd unat (initial_wal b)"
proof -
  let ?w = "minLSN + get_u64 b mod (maxLSN - minLSN)"
  have seg: "walSegmentSize = 2 ^ 24" by (simp add: walSegmentSize_def)
  have "initial_wal b = push_bit 24 (drop_bit 24 ?w)"
    unfolding initial_wal_def seg by (simp add: drop_bit_eq_div push_bit_eq_mult)
  then have eq: "initial_wal b = start_lsn b"
    by (simp only: start_lsn_def and_not_mask)
  then show ?thesis
    using segment_range [of "unat (get_u64 b)"] by (simp only: unat_start_lsn)
qed

end
