(* ===== verification/PgHandshake.thy ===== *)
theory PgHandshake
  imports PgConn
begin

text \<open>
  Component \<open>internal/transport/pgproto/handshake.go\<close>: the two sides of the PostgreSQL
  replication handshake that disguises a connection. A run is a computation on the state of one
  side: what is left to read on the raw connection and inside TLS, the random tape, the messages
  written so far with the channel they went out on, and which of its writes succeed. TLS is code
  outside the repository: an argument that turns the rest of the raw input into the plaintext of
  the peer and the raw bytes after it, or fails. The 10 second deadline bounds the number of
  request rounds before the startup message: it is the argument \<open>rounds\<close>.
\<close>

section \<open>Runs of one side\<close>

datatype chan = Raw | Tls

record pg_io =
  raw_in :: bytes
  tls_in :: bytes
  cur :: chan
  rnd :: tape
  outs :: "(chan \<times> bytes) list"
  wok :: "nat \<Rightarrow> bool"

datatype pgh_error =
    SendFailed
  | ReadFailed pg_error
  | SSLRejected byte
  | TLSFailed
  | UnexpectedTag byte
  | NoMD5Challenge
  | AuthRejected
  | IdentifyRejected
  | CancelRequested
  | DeadlineExceeded
  | UnsupportedProtocol "32 word"
  | BadStartupLength
  | WrongQuery bytes

type_synonym 'a run = "pg_io \<Rightarrow> (pgh_error + 'a) \<times> pg_io"

definition ret :: "'a \<Rightarrow> 'a run" where
  "ret a s = (Inr a, s)"

definition fail :: "pgh_error \<Rightarrow> 'a run" where
  "fail e s = (Inl e, s)"

definition bindS :: "'a run \<Rightarrow> ('a \<Rightarrow> 'b run) \<Rightarrow> 'b run" where
  "bindS m f s = (case m s of (Inl e, s') \<Rightarrow> (Inl e, s') | (Inr a, s') \<Rightarrow> f a s')"

definition then_run :: "unit run \<Rightarrow> 'b run \<Rightarrow> 'b run" where
  "then_run m k = bindS m (\<lambda>_. k)"

definition write_on :: "chan \<Rightarrow> bytes \<Rightarrow> unit run" where
  "write_on c b s =
     (if wok s (length (outs s)) then (Inr (), s\<lparr>outs := outs s @ [(c, b)]\<rparr>) else (Inl SendFailed, s))"

definition write_cur :: "bytes \<Rightarrow> unit run" where
  "write_cur b s = write_on (cur s) b s"

text \<open>A write whose error is ignored.\<close>

definition try_write :: "bytes \<Rightarrow> unit run" where
  "try_write b s = (Inr (), snd (write_cur b s))"

fun write_all :: "bytes list \<Rightarrow> unit run" where
  "write_all [] = ret ()"
| "write_all (b # bs) = then_run (write_cur b) (write_all bs)"

definition cur_in :: "pg_io \<Rightarrow> bytes" where
  "cur_in s = (case cur s of Raw \<Rightarrow> raw_in s | Tls \<Rightarrow> tls_in s)"

definition set_in :: "bytes \<Rightarrow> pg_io \<Rightarrow> pg_io" where
  "set_in r s = (case cur s of Raw \<Rightarrow> s\<lparr>raw_in := r\<rparr> | Tls \<Rightarrow> s\<lparr>tls_in := r\<rparr>)"

definition read_with :: "(bytes \<Rightarrow> pg_error + ('a \<times> bytes)) \<Rightarrow> 'a run" where
  "read_with rd s =
     (case rd (cur_in s) of
        Inl e \<Rightarrow> (Inl (ReadFailed e), s)
      | Inr (a, r) \<Rightarrow> (Inr a, set_in r s))"

definition read_bytes :: "nat \<Rightarrow> bytes \<Rightarrow> pg_error + (bytes \<times> bytes)" where
  "read_bytes n r = map_err PgIO (read_full n r)"

definition random_with :: "(tape \<Rightarrow> 'a \<times> tape) \<Rightarrow> 'a run" where
  "random_with f s = (let (a, t) = f (rnd s) in (Inr a, s\<lparr>rnd := t\<rparr>))"

type_synonym tls = "bytes \<Rightarrow> (bytes \<times> bytes) option"

definition start_tls :: "tls \<Rightarrow> unit run" where
  "start_tls tls s =
     (case tls (raw_in s) of
        None \<Rightarrow> (Inl TLSFailed, s)
      | Some (plain, raw') \<Rightarrow> (Inr (), s\<lparr>raw_in := raw', tls_in := plain, cur := Tls\<rparr>))"

section \<open>The client\<close>

definition buildSSLRequest :: bytes where
  "buildSSLRequest = put_u32 8 @ put_u32 sslRequestCode"

text \<open>
  Discarding messages up to ReadyForQuery; in the reply to IDENTIFY_SYSTEM an ErrorResponse
  is fatal.
\<close>

function drain_ready :: "bool \<Rightarrow> bytes \<Rightarrow> pgh_error + bytes" where
  "drain_ready errFatal r =
     (case readPGMessage r of
        Inl e \<Rightarrow> Inl (ReadFailed e)
      | Inr ((tag, payload), r') \<Rightarrow>
          if tag = tagReadyForQuery then Inr r'
          else if errFatal \<and> tag = tagErrorResponse then Inl IdentifyRejected
          else drain_ready errFatal r')"
  by pat_completeness auto
termination
  by (relation "measure (\<lambda>(f, r). length r)") (auto dest: readPGMessage_shrinks)

declare drain_ready.simps [simp del]

definition skip_to_ready :: "bool \<Rightarrow> unit run" where
  "skip_to_ready errFatal s =
     (case drain_ready errFatal (cur_in s) of
        Inl e \<Rightarrow> (Inl e, s)
      | Inr r \<Rightarrow> (Inr (), set_in r s))"

definition start_query :: "string \<Rightarrow> string \<Rightarrow> string" where
  "start_query slotName startLSN = ''START_REPLICATION SLOT '' @ slotName @ '' PHYSICAL '' @ startLSN"

definition client_ssl :: "tls \<Rightarrow> unit run" where
  "client_ssl tls =
     then_run (write_on Raw buildSSLRequest)
       (bindS (read_with (read_bytes 1)) (\<lambda>sslResp.
          if sslResp ! 0 \<noteq> sslAccepted \<and> sslResp ! 0 \<noteq> sslAcceptedLegacy then fail (SSLRejected (sslResp ! 0))
          else start_tls tls))"

definition client_auth :: "(bytes \<Rightarrow> bytes) \<Rightarrow> bytes \<Rightarrow> unit run" where
  "client_auth md5 psk =
     bindS (random_with buildStartupMessage) (\<lambda>startup.
     then_run (write_cur startup)
     (bindS (read_with readPGMessage) (\<lambda>(tag, payload).
        if tag \<noteq> tagAuthRequest then fail (UnexpectedTag tag)
        else if length payload < 8 \<or> get_u32 (take 4 payload) \<noteq> authMD5Password then fail NoMD5Challenge
        else
          let salt = take 4 (drop 4 payload) in
          then_run (write_cur (buildPasswordMessage (computePGMD5 md5 psk salt)))
          (bindS (read_with readPGMessage) (\<lambda>(tag, payload).
             if tag = tagErrorResponse then fail AuthRejected
             else if tag \<noteq> tagAuthRequest \<or> length payload < 4 \<or> get_u32 (take 4 payload) \<noteq> authOK
               then fail (UnexpectedTag tag)
             else skip_to_ready False)))))"

definition client_identify :: "unit run" where
  "client_identify =
     bindS (random_with shouldSendIdentifySystem) (\<lambda>yes.
       if yes then then_run (write_cur (buildQuery ''IDENTIFY_SYSTEM'')) (skip_to_ready True)
       else ret ())"

definition client_start :: "PGConn run" where
  "client_start =
     bindS (random_with randomSlotName) (\<lambda>slotName.
     bindS (random_with randomStartLSN) (\<lambda>startLSN.
     then_run (write_cur (buildQuery (start_query slotName startLSN)))
     (bindS (read_with readPGMessage) (\<lambda>(tag, payload).
        if tag \<noteq> tagCopyBoth then fail (UnexpectedTag tag)
        else random_with (newPGConn False)))))"

definition pg_ClientHandshake :: "tls \<Rightarrow> (bytes \<Rightarrow> bytes) \<Rightarrow> bytes \<Rightarrow> PGConn run" where
  "pg_ClientHandshake tls md5 psk =
     then_run (client_ssl tls) (then_run (client_auth md5 psk) (then_run client_identify client_start))"

section \<open>The server\<close>

text \<open>Requests before the startup message: SSL, GSS encryption, cancel.\<close>

fun negotiate :: "tls \<Rightarrow> nat \<Rightarrow> 32 word \<times> 32 word \<Rightarrow> (32 word \<times> 32 word) run" where
  "negotiate tls 0 hdr =
     (if snd hdr = sslRequestCode \<or> snd hdr = gssEncRequestCode \<or> snd hdr = cancelRequestCode
      then fail DeadlineExceeded else ret hdr)"
| "negotiate tls (Suc rounds) hdr =
     (if snd hdr = sslRequestCode then
        then_run (write_on Raw [sslAccepted])
        (then_run (start_tls tls)
        (bindS (read_with readStartupHeader) (negotiate tls rounds)))
      else if snd hdr = gssEncRequestCode then
        then_run (write_on Raw [of_char (CHR ''N'')])
        (bindS (read_with readStartupHeader) (negotiate tls rounds))
      else if snd hdr = cancelRequestCode then fail CancelRequested
      else ret hdr)"

definition unsupported_text :: "32 word \<Rightarrow> bytes" where
  "unsupported_text ver =
     bytes_of (''unsupported frontend protocol '' @ fmt_d (unat (drop_bit 16 ver)) @ ''.''
       @ fmt_d (unat (ver AND 0xffff)) @ '': server supports 3.0 to 3.0'')"

definition server_startup :: "tls \<Rightarrow> nat \<Rightarrow> (bytes \<rightharpoonup> bytes) run" where
  "server_startup tls rounds =
     bindS (read_with readStartupHeader) (\<lambda>hdr.
     bindS (negotiate tls rounds hdr) (\<lambda>(msgLen, protoVer).
       if protoVer \<noteq> protocol3 then
         then_run (try_write (buildProtocolError (unsupported_text protoVer))) (fail (UnsupportedProtocol protoVer))
       else
         let remaining = uint msgLen - 8 in
         if remaining < 0 \<or> remaining > 10000 then fail BadStartupLength
         else bindS (read_with (read_bytes (nat remaining))) (\<lambda>params. ret (parseStartupParams params))))"

definition lookup_param :: "(bytes \<rightharpoonup> bytes) \<Rightarrow> string \<Rightarrow> bytes" where
  "lookup_param m k = (case m (bytes_of k) of None \<Rightarrow> [] | Some v \<Rightarrow> v)"

definition isTunnelClient :: "(bytes \<rightharpoonup> bytes) \<Rightarrow> bool" where
  "isTunnelClient m \<longleftrightarrow> lookup_param m ''user'' = bytes_of ''replicator''
     \<and> lookup_param m ''replication'' = bytes_of ''true''"

definition shown_user :: "(bytes \<rightharpoonup> bytes) \<Rightarrow> bytes" where
  "shown_user m = (let user = lookup_param m ''user'' in if user = [] then bytes_of ''unknown'' else user)"

definition trim_nul :: "bytes \<Rightarrow> bytes" where
  "trim_nul b = rev (dropWhile (\<lambda>x. x = 0) (rev b))"

definition server_auth :: "(bytes \<Rightarrow> bytes) \<Rightarrow> bytes \<Rightarrow> (bytes \<rightharpoonup> bytes) \<Rightarrow> unit run" where
  "server_auth md5 psk paramMap =
     bindS (random_with (rand_read 4)) (\<lambda>salt.
     then_run (write_cur (buildAuthMD5Password salt))
     (bindS (read_with readPGMessage) (\<lambda>(tag, payload).
        if tag \<noteq> tagPassword then
          then_run (try_write (buildProtocolError (bytes_of ''expected password response''))) (fail (UnexpectedTag tag))
        else
          let clientHash = trim_nul payload; expectedHash = bytes_of (computePGMD5 md5 psk salt) in
          if \<not> isTunnelClient paramMap \<or> clientHash \<noteq> expectedHash then
            then_run (try_write (buildAuthError (shown_user paramMap))) (fail AuthRejected)
          else write_cur buildAuthOk)))"

definition pg_params :: "bytes \<Rightarrow> (bytes \<times> bytes) list" where
  "pg_params echoedAppName =
     map (\<lambda>(a, b). (bytes_of a, bytes_of b))
       [(''server_version'', ''16.2''), (''server_encoding'', ''UTF8''), (''client_encoding'', ''UTF8'')]
     @ [(bytes_of ''application_name'', echoedAppName)]
     @ map (\<lambda>(a, b). (bytes_of a, bytes_of b))
       [(''default_transaction_read_only'', ''off''), (''in_hot_standby'', ''off''), (''is_superuser'', ''off''),
        (''session_authorization'', ''replicator''), (''DateStyle'', ''ISO, MDY''), (''IntervalStyle'', ''postgres''),
        (''TimeZone'', ''UTC''), (''integer_datetimes'', ''on''), (''standard_conforming_strings'', ''on'')]"

definition server_greet :: "(bytes \<rightharpoonup> bytes) \<Rightarrow> unit run" where
  "server_greet paramMap =
     bindS (let sent = lookup_param paramMap ''application_name'' in
            if sent = [] then random_with (\<lambda>t. let (a, t') = randomAppName t in (bytes_of a, t')) else ret sent)
       (\<lambda>echoedAppName.
     then_run (write_all (map (\<lambda>(n, v). buildParameterStatus n v) (pg_params echoedAppName)))
     (bindS (random_with (rand_read 4)) (\<lambda>pidBuf.
      bindS (random_with (rand_read 4)) (\<lambda>keyBuf.
      then_run (write_cur (buildBackendKeyData (get_u32 pidBuf) (get_u32 keyBuf)))
        (write_cur buildReadyForQuery)))))"

text \<open>
  \<open>strings.ToUpper\<close> and \<open>strings.TrimSpace\<close> as far as a prefix of ASCII letters can see them: the
  two non-ASCII letters with an ASCII upper case are mapped, and white space is cut on the left.
\<close>

definition upper_byte :: "byte \<Rightarrow> byte" where
  "upper_byte b = (if 97 \<le> b \<and> b \<le> 122 then b - 32 else b)"

fun to_upper :: "bytes \<Rightarrow> bytes" where
  "to_upper (a # b # r) =
     (if a = 0xC4 \<and> b = 0xB1 then of_char (CHR ''I'') # to_upper r
      else if a = 0xC5 \<and> b = 0xBF then of_char (CHR ''S'') # to_upper r
      else upper_byte a # to_upper (b # r))"
| "to_upper [a] = [upper_byte a]"
| "to_upper [] = []"

fun trim_space :: "bytes \<Rightarrow> bytes" where
  "trim_space [] = []"
| "trim_space (a # r) =
     (if a \<in> {9, 10, 11, 12, 13, 32} then trim_space r
      else case r of
             b # r' \<Rightarrow>
               (if a = 0xC2 \<and> b \<in> {0x85, 0xA0} then trim_space r'
                else case r' of
                       c # r'' \<Rightarrow>
                         (if (a, b, c) = (0xE1, 0x9A, 0x80)
                             \<or> (a, b) = (0xE2, 0x80) \<and> (0x80 \<le> c \<and> c \<le> 0x8A \<or> c \<in> {0xA8, 0xA9, 0xAF})
                             \<or> (a, b, c) = (0xE2, 0x81, 0x9F) \<or> (a, b, c) = (0xE3, 0x80, 0x80)
                          then trim_space r'' else a # r)
                     | [] \<Rightarrow> a # r)
           | [] \<Rightarrow> a # r)"

definition has_prefix :: "bytes \<Rightarrow> string \<Rightarrow> bool" where
  "has_prefix b p \<longleftrightarrow> take (length p) b = bytes_of p"

definition timeline_response :: "bytes list" where
  "timeline_response =
     [buildRowDescription [text_field ''filename'', text_field ''content''],
      buildCommandComplete ''TIMELINE_HISTORY'', buildReadyForQuery]"

definition query_step :: "bool run" where
  "query_step =
     bindS (read_with readPGMessage) (\<lambda>(tag, payload).
       if tag \<noteq> tagQuery then
         then_run (try_write (buildProtocolError (bytes_of ''expected simple query''))) (fail (UnexpectedTag tag))
       else
         let query = trim_nul payload; upper = to_upper (trim_space query) in
         if has_prefix upper ''START_REPLICATION'' then ret True
         else if has_prefix upper ''IDENTIFY_SYSTEM'' then
           bindS (random_with buildIdentifySystemResponse) (\<lambda>msgs.
             then_run (write_all msgs) (ret False))
         else if has_prefix upper ''TIMELINE_HISTORY'' then
           then_run (write_all timeline_response) (ret False)
         else
           then_run (try_write (buildSyntaxError
              (bytes_of ''syntax error at or near \"'' @ truncateQuery query @ bytes_of ''\"'')))
             (fail (WrongQuery query)))"

text \<open>Writing changes neither the input nor the channel.\<close>

definition same_in :: "pg_io \<Rightarrow> pg_io \<Rightarrow> bool" where
  "same_in s s' \<longleftrightarrow> raw_in s' = raw_in s \<and> tls_in s' = tls_in s \<and> cur s' = cur s"

lemma cur_in_same: "same_in s s' \<Longrightarrow> cur_in s' = cur_in s"
  by (cases "cur s") (simp_all add: same_in_def cur_in_def)

lemma write_on_same: "write_on c b s = (x, s') \<Longrightarrow> same_in s s'"
  by (auto simp: write_on_def same_in_def split: if_splits)

lemma write_all_same: "write_all bs s = (x, s') \<Longrightarrow> same_in s s'"
proof (induction bs arbitrary: s)
  case Nil
  then show ?case by (auto simp: ret_def same_in_def)
next
  case (Cons b bs)
  then show ?case
    by (auto simp: then_run_def bindS_def write_cur_def same_in_def split: sum.splits prod.splits
        dest!: write_on_same)
qed

lemma cur_in_set_in [simp]: "cur_in (set_in r s) = r" "cur (set_in r s) = cur s"
  by (auto simp: cur_in_def set_in_def split: chan.splits)

lemma query_step_shrinks:
  assumes "query_step s = (Inr v, s')"
  shows "length (cur_in s') < length (cur_in s)"
proof -
  from assms obtain m r where m: "readPGMessage (cur_in s) = Inr (m, r)"
    by (auto simp: query_step_def bindS_def read_with_def split: sum.splits)
  from assms m have "cur_in s' = cur_in (set_in r s)"
    by (cases m)
       (auto simp: query_step_def bindS_def then_run_def read_with_def ret_def fail_def random_with_def
          try_write_def Let_def cur_in_def set_in_def split: sum.splits if_splits prod.splits chan.splits
          dest!: write_all_same simp: same_in_def)
  with readPGMessage_shrinks [OF m] show ?thesis by simp
qed

function query_loop :: "unit run" where
  "query_loop s =
     (case query_step s of
        (Inl e, s') \<Rightarrow> (Inl e, s')
      | (Inr True, s') \<Rightarrow> (Inr (), s')
      | (Inr False, s') \<Rightarrow> query_loop s')"
  by pat_completeness auto
termination
  by (relation "measure (\<lambda>s. length (cur_in s))") (auto dest!: query_step_shrinks [OF sym])

declare query_loop.simps [simp del]

definition pg_ServerHandshake :: "tls \<Rightarrow> nat \<Rightarrow> (bytes \<Rightarrow> bytes) \<Rightarrow> bytes \<Rightarrow> PGConn run" where
  "pg_ServerHandshake tls rounds md5 psk =
     bindS (server_startup tls rounds) (\<lambda>paramMap.
     then_run (server_auth md5 psk paramMap)
     (then_run (server_greet paramMap)
     (then_run query_loop
     (then_run (write_cur buildCopyBothResponse)
       (random_with (newPGConn True))))))"

section \<open>Executing a run\<close>

named_theorems run_simps "execution of runs whose writes succeed"

lemma run_basic [run_simps]:
  "ret a s = (Inr a, s)" "fail e s = (Inl e, s)"
  "m s = (Inr a, s') \<Longrightarrow> bindS m f s = f a s'"
  "m s = (Inl e, s') \<Longrightarrow> bindS m f s = (Inl e, s')"
  "m' s = (Inr (), s') \<Longrightarrow> then_run m' k s = k s'"
  "m' s = (Inl e, s') \<Longrightarrow> then_run m' k s = (Inl e, s')"
  by (simp_all add: ret_def fail_def bindS_def then_run_def)

lemma write_run [run_simps]:
  assumes "wok s = (\<lambda>_. True)"
  shows "write_on c b s = (Inr (), s\<lparr>outs := outs s @ [(c, b)]\<rparr>)"
    "write_cur b s = (Inr (), s\<lparr>outs := outs s @ [(cur s, b)]\<rparr>)"
    "try_write b s = (Inr (), s\<lparr>outs := outs s @ [(cur s, b)]\<rparr>)"
  using assms by (simp_all add: write_on_def write_cur_def try_write_def)

lemma write_all_run [run_simps]:
  "wok s = (\<lambda>_. True) \<Longrightarrow> write_all bs s = (Inr (), s\<lparr>outs := outs s @ map (Pair (cur s)) bs\<rparr>)"
  by (induction bs arbitrary: s) (simp_all add: run_simps)

lemma read_run [run_simps]:
  assumes "cur s = Tls" "tls_in s = tagged tag p @ r" "4 + length p \<le> 2 ^ 20"
  shows "read_with readPGMessage s = (Inr (tag, p), s\<lparr>tls_in := r\<rparr>)"
  using assms by (simp add: read_with_def cur_in_def set_in_def readPGMessage_tagged)

lemma random_run [run_simps]:
  "f (rnd s) = (a, t) \<Longrightarrow> random_with f s = (Inr a, s\<lparr>rnd := t\<rparr>)"
  by (simp add: random_with_def)

lemma drain_ready_msgs:
  assumes "\<forall>(tag, p)\<in>set ms. tag \<noteq> tagReadyForQuery \<and> tag \<noteq> tagErrorResponse \<and> 4 + length p \<le> 2 ^ 20"
  shows "drain_ready f (concat (map (\<lambda>(tag, p). tagged tag p) ms) @ buildReadyForQuery @ r) = Inr r"
  using assms
proof (induction ms)
  case Nil
  show ?case
    by (subst drain_ready.simps) (simp add: buildReadyForQuery_tagged readPGMessage_tagged)
next
  case (Cons m ms)
  obtain tag p where "m = (tag, p)" by fastforce
  with Cons show ?case
    by (subst drain_ready.simps) (simp add: readPGMessage_tagged)
qed

lemma skip_run [run_simps]:
  assumes "cur s = Tls" "tls_in s = concat (map (\<lambda>(tag, p). tagged tag p) ms) @ buildReadyForQuery @ r"
    "\<forall>(tag, p)\<in>set ms. tag \<noteq> tagReadyForQuery \<and> tag \<noteq> tagErrorResponse \<and> 4 + length p \<le> 2 ^ 20"
  shows "skip_to_ready f s = (Inr (), s\<lparr>tls_in := r\<rparr>)"
  using assms drain_ready_msgs [OF assms(3)] by (simp add: skip_to_ready_def cur_in_def set_in_def)

section \<open>The server's phases\<close>

lemma startup_codes [simp]:
  "protocol3 \<noteq> sslRequestCode" "protocol3 \<noteq> gssEncRequestCode" "protocol3 \<noteq> cancelRequestCode"
  by (simp_all add: protocol3_def sslRequestCode_def gssEncRequestCode_def cancelRequestCode_def)

lemma server_startup_run:
  assumes "buildStartupMessage t = (msg, t')" "tls x = Some (msg @ r, raw')"
    "wok s = (\<lambda>_. True)" "cur s = Raw" "raw_in s = buildSSLRequest @ x"
  shows "server_startup tls (Suc n) s =
    (Inr (parseStartupParams (drop 8 msg)),
     s\<lparr>raw_in := raw', tls_in := r, cur := Tls, outs := outs s @ [(Raw, [sslAccepted])]\<rparr>)"
proof -
  from startup_message_facts [of t r] assms(1) have m:
    "readStartupHeader (msg @ r) = Inr ((of_nat (length msg), protocol3), drop 8 msg @ r)"
    "unat (of_nat (length msg) :: 32 word) = length msg" "8 \<le> length msg" "length msg \<le> 10008"
    by auto
  have ssl: "readStartupHeader (buildSSLRequest @ x) = Inr ((8, sslRequestCode), x)"
    using read_full_append [of "put_u32 8 @ put_u32 sslRequestCode" 8 x]
    by (simp add: readStartupHeader_def buildSSLRequest_def)
  have u: "uint (of_nat (length msg) :: 32 word) = int (length msg)"
    using m(2) by (metis uint_nat)
  have "read_full (length msg - 8) (drop 8 msg @ r) = Inr (drop 8 msg, r)" by simp
  then have rb: "read_bytes (nat (uint (of_nat (length msg) :: 32 word) - 8)) (drop 8 msg @ r)
      = Inr (drop 8 msg, r)"
    unfolding u using m(3) by (simp add: read_bytes_def nat_diff_distrib)
  show ?thesis
    using assms(2-5) ssl m(1) rb u m(3,4)
    by (cases n)
       (simp_all add: server_startup_def bindS_def then_run_def read_with_def cur_in_def set_in_def
          write_on_def start_tls_def ret_def)
qed

lemma trim_nul_bytes: "0 \<notin> set b \<Longrightarrow> trim_nul (b @ [0]) = b"
  unfolding trim_nul_def by (cases b rule: rev_cases) auto

lemma digit_chars_no_nul:
  "d < 16 \<Longrightarrow> lower_digit d \<noteq> CHR 0x00" "d < 16 \<Longrightarrow> upper_digit d \<noteq> CHR 0x00"
proof -
  assume d: "d < 16"
  then have "lower_digit d \<in> set ''0123456789abcdef''" "upper_digit d \<in> set ''0123456789ABCDEF''"
    unfolding lower_digit_def upper_digit_def by (auto intro!: nth_mem simp del: set_simps)
  then show "lower_digit d \<noteq> CHR 0x00" "upper_digit d \<noteq> CHR 0x00" by auto
qed

lemma hex_string_no_nul: "CHR 0x00 \<notin> set (hex_string b)"
proof -
  have "unat (x :: byte) div 16 < 16" "unat x mod 16 < 16" for x
    using unat_byte [of x] by (simp_all add: less_mult_imp_div_less)
  then have "lower_digit (unat (x :: byte) div 16) \<noteq> CHR 0x00"
      "lower_digit (unat x mod 16) \<noteq> CHR 0x00" for x
    using digit_chars_no_nul(1) by blast+
  then show ?thesis
    by (induction b) (auto simp: hex_string_def dest: sym)
qed

lemma fmt_no_nul: "CHR 0x00 \<notin> set (fmt_d n)" "CHR 0x00 \<notin> set (fmt_X n)"
proof -
  show "CHR 0x00 \<notin> set (fmt_d n)" using fmt_d_digits [of "CHR 0x00" n] by (auto simp: is_digit_def)
  have "d < 16" if "d \<in> set (digits 16 n)" for d using digits_less [OF _ that] by simp
  then show "CHR 0x00 \<notin> set (fmt_X n)"
    using digit_chars_no_nul(2) by (fastforce simp: fmt_X_def)
qed

lemma hash_no_nul: "0 \<notin> set (bytes_of (computePGMD5 md5 psk salt))"
  by (simp add: zero_in_bytes_of computePGMD5_def Let_def hex_string_no_nul)

lemma server_auth_run:
  assumes "rand_read 4 (rnd s) = (salt, t1)" "wok s = (\<lambda>_. True)" "cur s = Tls"
    "tls_in s = tagged tagPassword p @ r" "4 + length p \<le> 2 ^ 20"
  shows "server_auth md5 psk m s =
    (if isTunnelClient m \<and> trim_nul p = bytes_of (computePGMD5 md5 psk salt)
     then (Inr (), s\<lparr>rnd := t1, tls_in := r,
             outs := outs s @ [(Tls, buildAuthMD5Password salt), (Tls, buildAuthOk)]\<rparr>)
     else (Inl AuthRejected, s\<lparr>rnd := t1, tls_in := r,
             outs := outs s @ [(Tls, buildAuthMD5Password salt), (Tls, buildAuthError (shown_user m))]\<rparr>))"
  using assms
  by (simp add: server_auth_def random_with_def bindS_def then_run_def write_cur_def write_on_def read_with_def
      cur_in_def set_in_def readPGMessage_tagged try_write_def fail_def Let_def)

text \<open>Short tagged messages that neither end a reply nor report an error.\<close>

definition plain_msg :: "byte \<times> bytes \<Rightarrow> bool" where
  "plain_msg = (\<lambda>(tag, p). tag \<noteq> tagReadyForQuery \<and> tag \<noteq> tagErrorResponse \<and> 4 + length p \<le> 2 ^ 20)"

definition msgs_bytes :: "(byte \<times> bytes) list \<Rightarrow> bytes list" where
  "msgs_bytes ms = map (\<lambda>(tag, p). tagged tag p) ms"

lemma skip_run_plain:
  assumes "cur s = Tls" "tls_in s = concat (msgs_bytes ms) @ buildReadyForQuery @ r" "list_all plain_msg ms"
  shows "skip_to_ready f s = (Inr (), s\<lparr>tls_in := r\<rparr>)"
  using skip_run [of s ms r f] assms by (auto simp: msgs_bytes_def list_all_iff plain_msg_def)

lemma server_greet_run:
  assumes "length (lookup_param m ''application_name'') \<le> 10000"
  obtains ms t' where "list_all plain_msg ms"
    "\<And>s. rnd s = t \<Longrightarrow> wok s = (\<lambda>_. True) \<Longrightarrow> cur s = Tls \<Longrightarrow>
       server_greet m s = (Inr (), s\<lparr>rnd := t',
         outs := outs s @ map (Pair Tls) (msgs_bytes ms @ [buildReadyForQuery])\<rparr>)"
proof -
  obtain app t0 where app: "\<And>s. rnd s = t \<Longrightarrow> (let sent = lookup_param m ''application_name'' in
      if sent = [] then random_with (\<lambda>t. let (a, t') = randomAppName t in (bytes_of a, t')) else ret sent) s
      = (Inr app, s\<lparr>rnd := t0\<rparr>)" "length app \<le> 10000"
  proof (cases "lookup_param m ''application_name'' = []")
    case True
    obtain a t1 where a: "randomAppName t = (a, t1)" by fastforce
    have "realisticAppNames \<noteq> []" by (simp add: realisticAppNames_def)
    then have "a \<in> set realisticAppNames" using a by (auto simp: randomAppName_def rand_read_def)
    then have "length (bytes_of a) \<le> 10000" by (auto simp: realisticAppNames_def)
    with True a that [of "bytes_of a" t1] show thesis by (simp add: random_with_def)
  next
    case False
    with assms that [of "lookup_param m ''application_name''" t] show thesis
      by (simp add: ret_def)
  qed
  obtain pid t1 where pid: "rand_read 4 t0 = (pid, t1)" by fastforce
  obtain key t2 where key: "rand_read 4 t1 = (key, t2)" by fastforce
  define ms where "ms = map (\<lambda>(n, v). (tagParameterStatus, n @ [0] @ v @ [0])) (pg_params app)
      @ [(tagBackendKeyData, put_u32 (get_u32 pid) @ put_u32 (get_u32 key))]"
  have "list_all plain_msg ms"
    using app(2) by (simp add: ms_def plain_msg_def pg_params_def pg_tags)
  moreover have "server_greet m s = (Inr (), s\<lparr>rnd := t2,
       outs := outs s @ map (Pair Tls) (msgs_bytes ms @ [buildReadyForQuery])\<rparr>)"
    if "rnd s = t" "wok s = (\<lambda>_. True)" "cur s = Tls" for s
    unfolding server_greet_def bindS_def app(1) [OF that(1)]
    using that(2,3) pid key
    by (simp add: then_run_def bindS_def write_all_run random_with_def write_cur_def write_on_def ms_def
        msgs_bytes_def pg_builders comp_def split_beta)
  ultimately show thesis by (rule that)
qed

lemma identify_msgs:
  assumes "buildIdentifySystemResponse t = (bs, t')"
  obtains ms where "list_all plain_msg ms" "bs = msgs_bytes ms @ [buildReadyForQuery]"
proof -
  obtain sysBuf t1 where s: "rand_read 8 t = (sysBuf, t1)" by fastforce
  obtain lsn t2 where l: "randomStartLSN t1 = (lsn, t2)" by fastforce
  have d: "length (fmt_d (unat (get_u64 sysBuf))) \<le> 20"
  proof (rule length_fmt)
    have "unat (get_u64 sysBuf) < 2 ^ 64" using unsigned_less [of "get_u64 sysBuf", where ?'a = nat] by simp
    then show "unat (get_u64 sysBuf) < 10 ^ 20" by simp
  qed simp
  let ?row = "put_u16 4 @ concat (map value_bytes [Some (bytes_of (fmt_d (unat (get_u64 sysBuf)))),
      Some (bytes_of ''1''), Some (bytes_of lsn), None])"
  let ?flds = "[text_field ''systemid'',
      \<lparr>fld_name = ''timeline'', typeOID = pgTypeOIDInt4, typeSize = 4, typeMod = -1, fld_format = 0\<rparr>,
      text_field ''xlogpos'', text_field ''dbname'']"
  define ms where "ms = [(tagRowDescription, put_u16 4 @ concat (map field_bytes ?flds)),
      (tagDataRow, ?row), (tagCommandComplete, bytes_of ''IDENTIFY_SYSTEM'' @ [0])]"
  have "list_all plain_msg ms"
    using d length_randomStartLSN [OF l]
    by (simp add: ms_def plain_msg_def pg_tags value_bytes_def field_bytes_def text_field_def)
  moreover have "bs = msgs_bytes ms @ [buildReadyForQuery]"
    using assms s l
    by (auto simp: buildIdentifySystemResponse_def ms_def msgs_bytes_def pg_builders Let_def)
  ultimately show thesis by (rule that)
qed

section \<open>Queries\<close>

text \<open>A query text of letters of the class the client uses is passed on as it is.\<close>

lemma query_no_nul: "CHR 0x00 \<notin> set q \<Longrightarrow> trim_nul (bytes_of q @ [0]) = bytes_of q"
  by (rule trim_nul_bytes) (simp add: zero_in_bytes_of)

lemma start_prefix:
  "has_prefix (to_upper (trim_space (bytes_of (''START_REPLICATION'' @ q)))) ''START_REPLICATION''"
  by (cases q) (simp_all add: has_prefix_def bytes_of_def upper_byte_def)

lemma to_upper_identify:
  "to_upper (trim_space (bytes_of ''IDENTIFY_SYSTEM'')) = bytes_of ''IDENTIFY_SYSTEM''"
  by (simp add: bytes_of_def upper_byte_def)

lemma slot_lsn_clean:
  "randomSlotName t = (s, t') \<Longrightarrow> CHR 0x00 \<notin> set s"
  "randomStartLSN t = (l, t'') \<Longrightarrow> CHR 0x00 \<notin> set l"
proof -
  have "CHR 0x00 \<notin> set ([''standby'', ''replica'', ''walreceiver'', ''pgstandby''] ! (n mod 4))" for n
  proof -
    have "[''standby'', ''replica'', ''walreceiver'', ''pgstandby''] ! (n mod 4)
        \<in> set [''standby'', ''replica'', ''walreceiver'', ''pgstandby'']"
      by (rule nth_mem) simp
    then show ?thesis by auto
  qed
  then show "randomSlotName t = (s, t') \<Longrightarrow> CHR 0x00 \<notin> set s"
    using fmt_no_nul hex_string_no_nul
    by (auto simp: randomSlotName_def hex2_def Let_def rand_read_def split: if_splits)
  show "randomStartLSN t = (l, t'') \<Longrightarrow> CHR 0x00 \<notin> set l"
    using fmt_no_nul by (auto simp: randomStartLSN_def Let_def split: prod.splits)
qed

lemma query_loop_start:
  assumes "wok s = (\<lambda>_. True)" "cur s = Tls" "tls_in s = buildQuery (''START_REPLICATION'' @ q) @ r"
    "CHR 0x00 \<notin> set q" "length q \<le> 1000"
  shows "query_loop s = (Inr (), s\<lparr>tls_in := r\<rparr>)"
proof -
  define kw where "kw = ''START_REPLICATION''"
  have kw: "trim_nul (bytes_of (kw @ q) @ [0]) = bytes_of (kw @ q)" "length kw = 17"
    "has_prefix (to_upper (trim_space (bytes_of (kw @ q)))) kw"
    using query_no_nul [of "kw @ q"] assms(4) start_prefix [of q] by (simp_all add: kw_def)
  have "tls_in s = tagged tagQuery (bytes_of (kw @ q) @ [0]) @ r"
    using assms(3) unfolding kw_def buildQuery_def .
  from read_run [OF assms(2) this] kw(2) assms(5)
  have "read_with readPGMessage s = (Inr (tagQuery, bytes_of (kw @ q) @ [0]), s\<lparr>tls_in := r\<rparr>)"
    by simp
  then have "query_step s = (Inr True, s\<lparr>tls_in := r\<rparr>)"
    unfolding query_step_def bindS_def kw_def [symmetric] using kw
    by (simp add: Let_def ret_def del: bytes_of_append)
  then show ?thesis by (subst query_loop.simps) simp
qed

lemma query_loop_identify:
  assumes "wok s = (\<lambda>_. True)" "cur s = Tls" "tls_in s = buildQuery ''IDENTIFY_SYSTEM'' @ r"
    "buildIdentifySystemResponse (rnd s) = (bs, t')"
  shows "query_loop s = query_loop (s\<lparr>tls_in := r, rnd := t', outs := outs s @ map (Pair Tls) bs\<rparr>)"
proof -
  have t: "trim_nul (bytes_of ''IDENTIFY_SYSTEM'' @ [0]) = bytes_of ''IDENTIFY_SYSTEM''"
    by (rule query_no_nul) simp
  have "query_step s = (Inr False, s\<lparr>tls_in := r, rnd := t', outs := outs s @ map (Pair Tls) bs\<rparr>)"
    using assms t to_upper_identify
    by (simp add: query_step_def bindS_def then_run_def read_with_def cur_in_def set_in_def buildQuery_def
        readPGMessage_tagged has_prefix_def ret_def random_with_def write_all_run bytes_of_def)
  then show ?thesis by (subst query_loop.simps) simp
qed

section \<open>Both sides\<close>

definition start_io :: "bytes \<Rightarrow> tape \<Rightarrow> pg_io" where
  "start_io raw t = \<lparr>raw_in = raw, tls_in = [], cur = Raw, rnd = t, outs = [], wok = (\<lambda>_. True)\<rparr>"

lemma client_ssl_run:
  assumes "tls y = Some (plain, raw')"
  shows "client_ssl tls (start_io (sslAccepted # y) t) =
    (Inr (), \<lparr>raw_in = raw', tls_in = plain, cur = Tls, rnd = t, outs = [(Raw, buildSSLRequest)],
              wok = (\<lambda>_. True)\<rparr>)"
  using assms read_full_append [of "[sslAccepted]" 1 y]
  by (simp add: client_ssl_def start_io_def then_run_def bindS_def write_on_def read_with_def read_bytes_def
      cur_in_def set_in_def start_tls_def)

lemma client_auth_run:
  assumes "buildStartupMessage (rnd s) = (startup, t1)" "wok s = (\<lambda>_. True)" "cur s = Tls"
    "length salt = 4" "list_all plain_msg ms"
    "tls_in s = buildAuthMD5Password salt @ buildAuthOk @ concat (msgs_bytes ms) @ buildReadyForQuery @ r"
  shows "client_auth md5 psk s = (Inr (), s\<lparr>rnd := t1, tls_in := r,
    outs := outs s @ [(Tls, startup), (Tls, buildPasswordMessage (computePGMD5 md5 psk salt))]\<rparr>)"
proof -
  let ?s1 = "s\<lparr>rnd := t1,
    outs := outs s @ [(Tls, startup), (Tls, buildPasswordMessage (computePGMD5 md5 psk salt))],
    tls_in := concat (msgs_bytes ms) @ buildReadyForQuery @ r\<rparr>"
  have skip: "skip_to_ready False ?s1 = (Inr (), ?s1\<lparr>tls_in := r\<rparr>)"
    using skip_run_plain [of ?s1 ms r False] assms by simp
  show ?thesis
    using assms skip
    by (simp add: client_auth_def random_with_def bindS_def then_run_def write_cur_def write_on_def
        read_with_def cur_in_def set_in_def buildAuthMD5Password_def buildAuthOk_def readPGMessage_tagged
        Let_def pg_tags)
qed

lemma client_identify_run:
  assumes "shouldSendIdentifySystem (rnd s) = (yes, t1)" "wok s = (\<lambda>_. True)" "cur s = Tls"
    "yes \<longrightarrow> tls_in s = concat (msgs_bytes ms) @ buildReadyForQuery @ r" "list_all plain_msg ms"
    "\<not> yes \<longrightarrow> tls_in s = r"
  shows "client_identify s = (Inr (), s\<lparr>rnd := t1, tls_in := r,
    outs := outs s @ (if yes then [(Tls, buildQuery ''IDENTIFY_SYSTEM'')] else [])\<rparr>)"
proof (cases yes)
  case True
  let ?s1 = "s\<lparr>rnd := t1, outs := outs s @ [(Tls, buildQuery ''IDENTIFY_SYSTEM'')]\<rparr>"
  have "skip_to_ready True ?s1 = (Inr (), ?s1\<lparr>tls_in := r\<rparr>)"
    using skip_run_plain [of ?s1 ms r True] assms True by simp
  with True assms show ?thesis
    by (simp add: client_identify_def random_with_def bindS_def then_run_def write_cur_def write_on_def)
next
  case False
  with assms show ?thesis
    by (simp add: client_identify_def random_with_def bindS_def ret_def)
qed

lemma client_start_run:
  assumes "randomSlotName (rnd s) = (slot, t1)" "randomStartLSN t1 = (lsn, t2)"
    "newPGConn False t2 = (pc, t3)" "wok s = (\<lambda>_. True)" "cur s = Tls" "tls_in s = buildCopyBothResponse @ r"
  shows "client_start s = (Inr pc, s\<lparr>rnd := t3, tls_in := r,
    outs := outs s @ [(Tls, buildQuery (start_query slot lsn))]\<rparr>)"
  using assms
  by (simp add: client_start_def random_with_def bindS_def then_run_def write_cur_def write_on_def
      read_with_def cur_in_def set_in_def buildCopyBothResponse_def readPGMessage_tagged)

lemma server_run:
  assumes "buildStartupMessage ct = (startup, ct1)" "rand_read 4 st = (salt, st1)"
    and "isTunnelClient (parseStartupParams (drop 8 startup))"
    and "\<And>s. rnd s = st1 \<Longrightarrow> wok s = (\<lambda>_. True) \<Longrightarrow> cur s = Tls \<Longrightarrow>
       server_greet (parseStartupParams (drop 8 startup)) s = (Inr (), s\<lparr>rnd := st2,
         outs := outs s @ map (Pair Tls) gs\<rparr>)"
    and "yes \<longrightarrow> buildIdentifySystemResponse st2 = (bs, st3)" "\<not> yes \<longrightarrow> st3 = st2"
    and "newPGConn True st3 = (pc, st4)"
    and "CHR 0x00 \<notin> set q" "length q \<le> 1000" "\<And>x. length (md5 x) = 16"
    and "tls x = Some (concat ([startup, buildPasswordMessage (computePGMD5 md5 psk salt)]
           @ (if yes then [buildQuery ''IDENTIFY_SYSTEM''] else [])
           @ [buildQuery (''START_REPLICATION'' @ q)]), raw')"
  shows "\<exists>s. pg_ServerHandshake tls (Suc n) md5 psk (start_io (buildSSLRequest @ x) st) = (Inr pc, s)
    \<and> tls_in s = []
    \<and> outs s = (Raw, [sslAccepted]) # map (Pair Tls) ([buildAuthMD5Password salt, buildAuthOk] @ gs
         @ (if yes then bs else []) @ [buildCopyBothResponse])"
proof -
  let ?pw = "computePGMD5 md5 psk salt" and ?m = "parseStartupParams (drop 8 startup)"
  define kq where "kq = buildQuery (''START_REPLICATION'' @ q)"
  define iq where "iq = buildQuery ''IDENTIFY_SYSTEM''"
  define rest where "rest = (if yes then iq else []) @ kq"
  have tls: "tls x = Some (startup @ buildPasswordMessage ?pw @ rest, raw')"
    using assms(11) by (simp add: rest_def iq_def kq_def)
  define s1 where "s1 = (start_io (buildSSLRequest @ x) st)\<lparr>raw_in := raw',
    tls_in := buildPasswordMessage ?pw @ rest, cur := Tls,
    outs := outs (start_io (buildSSLRequest @ x) st) @ [(Raw, [sslAccepted])]\<rparr>"
  have r1: "server_startup tls (Suc n) (start_io (buildSSLRequest @ x) st) = (Inr ?m, s1)"
    unfolding s1_def by (rule server_startup_run [of ct startup ct1 tls x, OF assms(1) tls]) (simp_all add: start_io_def)
  define s2 where "s2 = s1\<lparr>rnd := st1, tls_in := rest,
    outs := outs s1 @ [(Tls, buildAuthMD5Password salt), (Tls, buildAuthOk)]\<rparr>"
  have len: "length ?pw = 35"
    using assms(10) by (simp add: computePGMD5_def Let_def)
  have "trim_nul (bytes_of ?pw @ [0]) = bytes_of ?pw" by (rule trim_nul_bytes [OF hash_no_nul])
  with assms(2,3) len have r2: "server_auth md5 psk ?m s1 = (Inr (), s2)"
    by (subst server_auth_run [of s1 salt st1 "bytes_of ?pw @ [0]" rest])
       (simp_all add: s1_def s2_def start_io_def buildPasswordMessage_def)
  have s2: "rnd s2 = st1" "wok s2 = (\<lambda>_. True)" "cur s2 = Tls" "tls_in s2 = rest"
    by (simp_all add: s2_def s1_def start_io_def)
  define s3 where "s3 = s2\<lparr>rnd := st2, outs := outs s2 @ map (Pair Tls) gs\<rparr>"
  have r3: "server_greet ?m s2 = (Inr (), s3)"
    unfolding s3_def by (rule assms(4)) (fact s2)+
  define s4 where "s4 = s3\<lparr>tls_in := [], rnd := st3, outs := outs s3 @ map (Pair Tls) (if yes then bs else [])\<rparr>"
  have r4: "query_loop s3 = (Inr (), s4)"
  proof (cases yes)
    case True
    let ?s = "s3\<lparr>tls_in := kq, rnd := st3, outs := outs s3 @ map (Pair Tls) bs\<rparr>"
    have "query_loop s3 = query_loop ?s"
      using True assms(5) s2 by (intro query_loop_identify) (simp_all add: s3_def rest_def iq_def)
    also have "\<dots> = (Inr (), ?s\<lparr>tls_in := []\<rparr>)"
      using s2 assms(8,9) by (intro query_loop_start) (simp_all add: s3_def kq_def)
    finally show ?thesis using True by (simp add: s4_def)
  next
    case False
    have "query_loop s3 = (Inr (), s3\<lparr>tls_in := []\<rparr>)"
      using s2 assms(8,9) False by (intro query_loop_start) (simp_all add: s3_def rest_def kq_def)
    with False assms(6) show ?thesis by (simp add: s4_def s3_def)
  qed
  have w: "wok s4 = (\<lambda>_. True)" "cur s4 = Tls" "rnd s4 = st3"
    using s2 by (simp_all add: s4_def s3_def)
  have "outs s4 = (Raw, [sslAccepted]) # map (Pair Tls) ([buildAuthMD5Password salt, buildAuthOk] @ gs
      @ (if yes then bs else []))"
    by (simp add: s4_def s3_def s2_def s1_def start_io_def)
  with r1 r2 r3 r4 w assms(7) show ?thesis
    by (simp add: pg_ServerHandshake_def bindS_def then_run_def write_cur_def write_on_def random_with_def)
       (simp add: s4_def)
qed

lemma client_run:
  assumes "buildStartupMessage ct = (startup, ct1)" "shouldSendIdentifySystem ct1 = (yes, ct2)"
    "randomSlotName ct2 = (slot, ct3)" "randomStartLSN ct3 = (lsn, ct4)" "newPGConn False ct4 = (pc, ct5)"
    and "length salt = 4" "list_all plain_msg ms" "list_all plain_msg is"
    and "tls y = Some (concat ([buildAuthMD5Password salt, buildAuthOk] @ (msgs_bytes ms @ [buildReadyForQuery])
           @ (if yes then msgs_bytes is @ [buildReadyForQuery] else []) @ [buildCopyBothResponse]), raw')"
  shows "\<exists>c. pg_ClientHandshake tls md5 psk (start_io (sslAccepted # y) ct) = (Inr pc, c)
    \<and> tls_in c = []
    \<and> outs c = (Raw, buildSSLRequest) # map (Pair Tls)
         ([startup, buildPasswordMessage (computePGMD5 md5 psk salt)]
          @ (if yes then [buildQuery ''IDENTIFY_SYSTEM''] else []) @ [buildQuery (start_query slot lsn)])"
proof -
  define r2 where "r2 = buildCopyBothResponse"
  define r1 where "r1 = (if yes then concat (msgs_bytes is) @ buildReadyForQuery else []) @ r2"
  have tls: "tls y = Some (buildAuthMD5Password salt @ buildAuthOk @ concat (msgs_bytes ms)
      @ buildReadyForQuery @ r1, raw')"
    using assms(9) by (simp add: r1_def r2_def)
  note a = client_ssl_run [of tls y, OF tls, of ct]
  define c1 where "c1 = snd (client_ssl tls (start_io (sslAccepted # y) ct))"
  have c1: "client_ssl tls (start_io (sslAccepted # y) ct) = (Inr (), c1)" "rnd c1 = ct"
    "wok c1 = (\<lambda>_. True)" "cur c1 = Tls" "outs c1 = [(Raw, buildSSLRequest)]"
    "tls_in c1 = buildAuthMD5Password salt @ buildAuthOk @ concat (msgs_bytes ms) @ buildReadyForQuery @ r1"
    by (simp_all add: c1_def a)
  define c2 where "c2 = c1\<lparr>rnd := ct1, tls_in := r1,
    outs := outs c1 @ [(Tls, startup), (Tls, buildPasswordMessage (computePGMD5 md5 psk salt))]\<rparr>"
  have b: "client_auth md5 psk c1 = (Inr (), c2)"
    unfolding c2_def using assms(1,6,7) c1 by (intro client_auth_run) simp_all
  define c3 where "c3 = c2\<lparr>rnd := ct2, tls_in := r2,
    outs := outs c2 @ (if yes then [(Tls, buildQuery ''IDENTIFY_SYSTEM'')] else [])\<rparr>"
  have c: "client_identify c2 = (Inr (), c3)"
    unfolding c3_def using assms(2,8) c1
    by (intro client_identify_run [where ms = "is"]) (simp_all add: c2_def r1_def)
  define c4 where "c4 = c3\<lparr>rnd := ct5, tls_in := [],
    outs := outs c3 @ [(Tls, buildQuery (start_query slot lsn))]\<rparr>"
  have d: "client_start c3 = (Inr pc, c4)"
    unfolding c4_def using assms(3-5) c1 by (intro client_start_run) (simp_all add: c3_def c2_def r2_def)
  from c1(1) b c d have "pg_ClientHandshake tls md5 psk (start_io (sslAccepted # y) ct) = (Inr pc, c4)"
    by (simp add: pg_ClientHandshake_def then_run_def bindS_def)
  then show ?thesis
    using c1(5) by (intro exI [of _ c4]) (simp add: c4_def c3_def c2_def)
qed

section \<open>Properties\<close>

text \<open>What the server reads from the client's startup message and from its last query.\<close>

lemma startup_recognised:
  assumes "buildStartupMessage t = (startup, t')"
  shows "isTunnelClient (parseStartupParams (drop 8 startup))"
    and "length (lookup_param (parseStartupParams (drop 8 startup)) ''application_name'') \<le> 10000"
proof -
  from startup_message_facts [of t "[]"] assms obtain app where p:
    "parseStartupParams (drop 8 startup) (bytes_of ''user'') = Some (bytes_of ''replicator'')"
    "parseStartupParams (drop 8 startup) (bytes_of ''replication'') = Some (bytes_of ''true'')"
    "app \<in> set realisticAppNames"
    "parseStartupParams (drop 8 startup) (bytes_of ''application_name'') = Some (bytes_of app)"
    by auto
  then show "isTunnelClient (parseStartupParams (drop 8 startup))"
    by (simp add: isTunnelClient_def lookup_param_def)
  show "length (lookup_param (parseStartupParams (drop 8 startup)) ''application_name'') \<le> 10000"
    using p(3,4) by (auto simp: lookup_param_def realisticAppNames_def)
qed

lemma start_query_parts:
  assumes "randomSlotName t = (slot, t')" "randomStartLSN t' = (lsn, t'')"
  obtains q where "start_query slot lsn = ''START_REPLICATION'' @ q" "CHR 0x00 \<notin> set q" "length q \<le> 1000"
proof (rule that)
  show "start_query slot lsn = ''START_REPLICATION'' @ ('' SLOT '' @ slot @ '' PHYSICAL '' @ lsn)"
    by (simp add: start_query_def)
qed (use slot_lsn_clean(1) [OF assms(1)] slot_lsn_clean(2) [OF assms(2)] length_randomSlotName [OF assms(1)]
    length_randomStartLSN [OF assms(2)] in auto)

text \<open>
  C14. The two sides of the disguise agree. For all pre-shared keys and random choices there are
  transcripts of both sides such that the client, given the server's messages inside TLS,
  completes its handshake and writes exactly the client's transcript, and the server, given the
  client's messages, completes its handshake and writes exactly the server's transcript; nothing
  is left unread. TLS is any function that delivers the peer's plaintext; MD5 is any function
  with 16-byte values. One round of requests before the startup message suffices.
\<close>

theorem pg_handshake_agreement:
  assumes "\<And>x. length (md5 x) = 16"
  shows "\<exists>cms sms cpc spc.
    (\<forall>tls y raw'. tls y = Some (concat sms, raw') \<longrightarrow>
       (\<exists>c. pg_ClientHandshake tls md5 psk (start_io (sslAccepted # y) ct) = (Inr cpc, c)
          \<and> tls_in c = [] \<and> outs c = (Raw, buildSSLRequest) # map (Pair Tls) cms))
    \<and> (\<forall>tls x raw' n. tls x = Some (concat cms, raw') \<longrightarrow>
       (\<exists>s. pg_ServerHandshake tls (Suc n) md5 psk (start_io (buildSSLRequest @ x) st) = (Inr spc, s)
          \<and> tls_in s = [] \<and> outs s = (Raw, [sslAccepted]) # map (Pair Tls) sms))
    \<and> \<not> isServer cpc \<and> isServer spc"
proof -
  obtain startup ct1 where st1: "buildStartupMessage ct = (startup, ct1)" by fastforce
  obtain yes ct2 where st2: "shouldSendIdentifySystem ct1 = (yes, ct2)" by fastforce
  obtain slot ct3 where st3: "randomSlotName ct2 = (slot, ct3)" by fastforce
  obtain lsn ct4 where st4: "randomStartLSN ct3 = (lsn, ct4)" by fastforce
  obtain cpc ct5 where st5: "newPGConn False ct4 = (cpc, ct5)" by fastforce
  obtain salt s1 where sr1: "rand_read 4 st = (salt, s1)" by fastforce
  note tun = startup_recognised(1) [OF st1]
  from server_greet_run [OF startup_recognised(2) [OF st1], of s1] obtain ms s2 where ms: "list_all plain_msg ms" and
    greet: "\<And>s. rnd s = s1 \<Longrightarrow> wok s = (\<lambda>_. True) \<Longrightarrow> cur s = Tls \<Longrightarrow>
      server_greet (parseStartupParams (drop 8 startup)) s = (Inr (), s\<lparr>rnd := s2,
        outs := outs s @ map (Pair Tls) (msgs_bytes ms @ [buildReadyForQuery])\<rparr>)"
    by metis
  obtain bs s3' where bs: "buildIdentifySystemResponse s2 = (bs, s3')" by fastforce
  from identify_msgs [OF bs] obtain ims where
    ims: "list_all plain_msg ims" "bs = msgs_bytes ims @ [buildReadyForQuery]" .
  define s3 where "s3 = (if yes then s3' else s2)"
  obtain spc s4 where sr4: "newPGConn True s3 = (spc, s4)" by fastforce
  obtain q where q: "start_query slot lsn = ''START_REPLICATION'' @ q" "CHR 0x00 \<notin> set q" "length q \<le> 1000"
    using start_query_parts [OF st3 st4] .
  define cms where "cms = [startup, buildPasswordMessage (computePGMD5 md5 psk salt)]
      @ (if yes then [buildQuery ''IDENTIFY_SYSTEM''] else []) @ [buildQuery (start_query slot lsn)]"
  define sms where "sms = [buildAuthMD5Password salt, buildAuthOk] @ (msgs_bytes ms @ [buildReadyForQuery])
      @ (if yes then bs else []) @ [buildCopyBothResponse]"
  have "\<exists>c. pg_ClientHandshake tls md5 psk (start_io (sslAccepted # y) ct) = (Inr cpc, c)
      \<and> tls_in c = [] \<and> outs c = (Raw, buildSSLRequest) # map (Pair Tls) cms"
    if "tls y = Some (concat sms, raw')" for tls y raw'
    unfolding cms_def
    by (rule client_run [OF st1 st2 st3 st4 st5 rand_read_length [OF sr1] ms ims(1)])
       (use that ims(2) in \<open>simp add: sms_def\<close>)
  moreover have "\<exists>s. pg_ServerHandshake tls (Suc n) md5 psk (start_io (buildSSLRequest @ x) st) = (Inr spc, s)
      \<and> tls_in s = [] \<and> outs s = (Raw, [sslAccepted]) # map (Pair Tls) sms"
    if "tls x = Some (concat cms, raw')" for tls x raw' n
    unfolding sms_def
    by (rule server_run [OF st1 sr1 tun greet _ _ sr4 q(2,3) assms])
       (use that bs in \<open>simp_all add: cms_def s3_def q(1)\<close>)
  moreover have "\<not> isServer cpc" "isServer spc"
    using st5 sr4 by (auto simp: newPGConn_def Let_def split: prod.splits)
  ultimately show ?thesis by blast
qed

theorem pg_handshake_agreement_witness:
  "\<exists>cms sms cpc spc.
    (\<forall>tls y raw'. tls y = Some (concat sms, raw') \<longrightarrow>
       (\<exists>c. pg_ClientHandshake tls (\<lambda>_. replicate 16 0) [1] (start_io (sslAccepted # y) (\<lambda>_. 7)) = (Inr cpc, c)
          \<and> tls_in c = [] \<and> outs c = (Raw, buildSSLRequest) # map (Pair Tls) cms))
    \<and> (\<forall>tls x raw' n. tls x = Some (concat cms, raw') \<longrightarrow>
       (\<exists>s. pg_ServerHandshake tls (Suc n) (\<lambda>_. replicate 16 0) [1] (start_io (buildSSLRequest @ x) (\<lambda>_. 9))
              = (Inr spc, s)
          \<and> tls_in s = [] \<and> outs s = (Raw, [sslAccepted]) # map (Pair Tls) sms))
    \<and> \<not> isServer cpc \<and> isServer spc"
  by (rule pg_handshake_agreement) simp



text \<open>
  Answers that should be inside TLS go out in clear. After the connection was upgraded, a
  GSS encryption request that arrives inside TLS is answered with one plain byte on the raw
  connection, in the middle of the TLS stream, and the handshake goes on inside TLS.
\<close>

theorem gss_reply_outside_tls:
  assumes "cur s = Tls" and "wok s = (\<lambda>_. True)" and "snd hdr = gssEncRequestCode"
    and "readStartupHeader (tls_in s) = Inr (hdr', r)" and "snd hdr' = protocol3"
  shows "negotiate tls (Suc n) hdr s
    = (Inr hdr', s\<lparr>tls_in := r, outs := outs s @ [(Raw, [of_char (CHR ''N'')])]\<rparr>)"
  using assms
  by (cases n)
     (simp_all add: then_run_def bindS_def write_on_def read_with_def cur_in_def set_in_def ret_def
        sslRequestCode_def gssEncRequestCode_def cancelRequestCode_def protocol3_def)

theorem gss_reply_outside_tls_witness:
  "outs (snd (negotiate (\<lambda>_. None) 1 (8, gssEncRequestCode)
     \<lparr>raw_in = [], tls_in = put_u32 9 @ put_u32 protocol3, cur = Tls, rnd = (\<lambda>_. 0), outs = [], wok = (\<lambda>_. True)\<rparr>))
   = [(Raw, [of_char (CHR ''N'')])]"
proof -
  have "readStartupHeader (put_u32 9 @ put_u32 protocol3) = Inr ((9, protocol3), [])"
    using read_full_append [of "put_u32 9 @ put_u32 protocol3" 8 "[]"] by (simp add: readStartupHeader_def)
  with gss_reply_outside_tls [of "\<lparr>raw_in = [], tls_in = put_u32 9 @ put_u32 protocol3, cur = Tls,
      rnd = (\<lambda>_. 0), outs = [], wok = (\<lambda>_. True)\<rparr>" "(8, gssEncRequestCode)" "(9, protocol3)" "[]" "\<lambda>_. None" 0]
  show ?thesis by simp
qed

end
