(* ===== verification/NetAddr.thy ===== *)
theory NetAddr
  imports Prelude
begin

text \<open>
  What the program uses of Go's \<open>net\<close> package for IPv4: \<open>net.IP\<close> values as byte lists (\<open>nil\<close> is
  the empty list, an IPv4 address has 4 bytes or 16 with the mapped prefix), their text form,
  which is the key of the address maps, \<open>net.ParseCIDR\<close> on dotted text and networks. A mask is
  always made by \<open>CIDRMask\<close> and is kept as its prefix length. IPv6 text is not parsed: every
  user of it in the modelled components refuses IPv6.
\<close>

type_synonym IP = bytes

section \<open>Addresses\<close>

definition v4InV6Prefix :: bytes where
  "v4InV6Prefix = replicate 10 0 @ [0xff, 0xff]"

definition IPv4zero :: IP where
  "IPv4zero = v4InV6Prefix @ [0, 0, 0, 0]"

definition To4 :: "IP \<Rightarrow> IP" where
  "To4 ip =
     (if length ip = 4 then ip
      else if length ip = 16 \<and> take 12 ip = v4InV6Prefix then drop 12 ip
      else [])"

definition ip_Equal :: "IP \<Rightarrow> IP \<Rightarrow> bool" where
  "ip_Equal a b =
     (if length a = length b then a = b
      else if length a = 4 \<and> length b = 16 then take 12 b = v4InV6Prefix \<and> a = drop 12 b
      else if length a = 16 \<and> length b = 4 then take 12 a = v4InV6Prefix \<and> b = drop 12 a
      else False)"

lemma To4_simps [simp]: "length ip = 4 \<Longrightarrow> To4 ip = ip" "To4 [] = []"
  by (simp_all add: To4_def)

lemma length_To4: "To4 ip = [] \<or> length (To4 ip) = 4"
  by (auto simp: To4_def)

lemma To4_idem [simp]: "To4 (To4 ip) = To4 ip"
  using length_To4 [of ip] by auto

lemma ip_Equal_4 [simp]: "length a = 4 \<Longrightarrow> length b = 4 \<Longrightarrow> ip_Equal a b \<longleftrightarrow> a = b"
  by (simp add: ip_Equal_def)

lemma ip_Equal_zero [simp]: "length a = 4 \<Longrightarrow> ip_Equal a IPv4zero \<longleftrightarrow> a = [0, 0, 0, 0]"
  by (simp add: ip_Equal_def IPv4zero_def v4InV6Prefix_def)

section \<open>Text form and parsing\<close>

fun split_on :: "'a \<Rightarrow> 'a list \<Rightarrow> 'a list list" where
  "split_on c [] = [[]]"
| "split_on c (x # xs) =
     (if x = c then [] # split_on c xs
      else case split_on c xs of
             [] \<Rightarrow> [[x]]
           | p # ps \<Rightarrow> (x # p) # ps)"

fun join_with :: "'a \<Rightarrow> 'a list list \<Rightarrow> 'a list" where
  "join_with c [] = []"
| "join_with c [p] = p"
| "join_with c (p # q # ps) = p @ c # join_with c (q # ps)"

lemma split_on_plain: "c \<notin> set p \<Longrightarrow> split_on c p = [p]"
  by (induction p) auto

lemma split_on_part: "c \<notin> set p \<Longrightarrow> split_on c (p @ c # s) = p # split_on c s"
  by (induction p) auto

lemma split_join: "ps \<noteq> [] \<Longrightarrow> \<forall>p\<in>set ps. c \<notin> set p \<Longrightarrow> split_on c (join_with c ps) = ps"
  by (induction c ps rule: join_with.induct) (auto simp: split_on_plain split_on_part)

text \<open>\<open>IP.String\<close> on \<open>nil\<close> and on IPv4 addresses.\<close>

definition ip_string :: "IP \<Rightarrow> string" where
  "ip_string ip =
     (if ip = [] then ''<nil>''
      else join_with (CHR ''.'') (map (\<lambda>b. fmt_d (unat b)) (To4 ip)))"

definition char_digit :: "char \<Rightarrow> nat" where
  "char_digit c = of_char c - 48"

lemma char_digit_lower: "d < 10 \<Longrightarrow> char_digit (lower_digit d) = d"
  by (auto simp: char_digit_def lower_digit_def less_Suc_eq numeral_eq_Suc)

lemma fmt_d_back [simp]: "undigits 10 (map char_digit (fmt_d n)) = n"
proof -
  have "map char_digit (fmt_d n) = digits 10 n"
    using digits_less [of 10 _ n] by (auto simp: fmt_d_def char_digit_lower intro!: map_idI)
  then show ?thesis by (simp add: undigits_digits)
qed

text \<open>One field of \<open>netip.ParseAddr\<close>: decimal, no leading zero, at most 255.\<close>

definition parse_octet :: "string \<Rightarrow> nat option" where
  "parse_octet s =
     (if s = [] \<or> \<not> list_all is_digit s \<or> (1 < length s \<and> hd s = CHR ''0'') then None
      else let n = undigits 10 (map char_digit s) in if n \<le> 255 then Some n else None)"

definition parse_ipv4 :: "string \<Rightarrow> IP option" where
  "parse_ipv4 s =
     (case map parse_octet (split_on (CHR ''.'') s) of
        [Some a, Some b, Some c, Some d] \<Rightarrow> Some [of_nat a, of_nat b, of_nat c, of_nat d]
      | _ \<Rightarrow> None)"

lemma parse_octet_table: "list_all (\<lambda>n. parse_octet (fmt_d n) = Some n) [0..<256]"
  by code_simp

lemma parse_octet_byte: "parse_octet (fmt_d (unat (b :: byte))) = Some (unat b)"
  using parse_octet_table unat_byte [of b] by (simp add: list_all_iff)

lemma dot_not_in_fmt_d: "CHR ''.'' \<notin> set (fmt_d n)"
  using fmt_d_digits [of "CHR ''.''" n] by (auto simp: is_digit_def)

text \<open>Printing and parsing an address round trip, so the text form is injective.\<close>

lemma parse_ip_string:
  assumes "length ip = 4"
  shows "parse_ipv4 (ip_string ip) = Some ip"
proof -
  from assms obtain a b c d where ip: "ip = [a, b, c, d]"
    by (auto simp: numeral_eq_Suc length_Suc_conv)
  have "split_on (CHR ''.'') (ip_string ip)
      = [fmt_d (unat a), fmt_d (unat b), fmt_d (unat c), fmt_d (unat d)]"
    using split_join [of "map (\<lambda>x. fmt_d (unat x)) [a, b, c, d]" "CHR ''.''"] dot_not_in_fmt_d
    by (simp add: ip_string_def ip)
  then show ?thesis
    by (simp add: parse_ipv4_def parse_octet_byte ip)
qed

lemma ip_string_inject [simp]:
  "length a = 4 \<Longrightarrow> length b = 4 \<Longrightarrow> ip_string a = ip_string b \<longleftrightarrow> a = b"
  by (metis option.inject parse_ip_string)

lemma ip_string_not_nil: "length a = 4 \<Longrightarrow> ip_string a \<noteq> ''<nil>''"
proof
  assume "length a = 4" "ip_string a = ''<nil>''"
  with parse_ip_string [of a] have "parse_ipv4 ''<nil>'' \<noteq> None" by simp
  then show False by (simp add: parse_ipv4_def parse_octet_def is_digit_def)
qed

lemma ip_string_not_Nil [simp]: "ip_string a \<noteq> []" if "length a = 4"
  using that by (auto simp: ip_string_def numeral_eq_Suc length_Suc_conv)

section \<open>Networks\<close>

record IPNet =
  net_ip :: IP
  net_ones :: nat

definition mask32 :: "nat \<Rightarrow> 32 word" where
  "mask32 n = push_bit (32 - n) (- 1)"

text \<open>The prefix length text: decimal digits, leading zeros allowed, as in \<open>dtoi\<close>.\<close>

definition parse_prefix :: "string \<Rightarrow> nat option" where
  "parse_prefix s =
     (if s = [] \<or> \<not> list_all is_digit s then None
      else let n = undigits 10 (map char_digit s) in if n \<le> 32 then Some n else None)"

definition ParseCIDR :: "string \<Rightarrow> (IP \<times> IPNet) option" where
  "ParseCIDR s =
     (if CHR ''/'' \<notin> set s then None
      else
        let addr = takeWhile (\<lambda>c. c \<noteq> CHR ''/'') s;
            mask = drop (length addr + 1) s
        in case (parse_ipv4 addr, parse_prefix mask) of
             (Some ip, Some n) \<Rightarrow>
               Some (v4InV6Prefix @ ip,
                     \<lparr>net_ip = put_u32 (get_u32 ip AND mask32 n), net_ones = n\<rparr>)
           | _ \<Rightarrow> None)"

definition net_Contains :: "IPNet \<Rightarrow> IP \<Rightarrow> bool" where
  "net_Contains n ip \<longleftrightarrow>
     To4 ip \<noteq> [] \<and> get_u32 (net_ip n) AND mask32 (net_ones n) = get_u32 (To4 ip) AND mask32 (net_ones n)"

definition net_string :: "IPNet \<Rightarrow> string" where
  "net_string n = ip_string (net_ip n) @ ''/'' @ fmt_d (net_ones n)"

text \<open>A network as \<open>ParseCIDR\<close> returns it: aligned base, prefix of at most 32.\<close>

definition good_net :: "IPNet \<Rightarrow> bool" where
  "good_net n \<longleftrightarrow> net_ones n \<le> 32 \<and> length (net_ip n) = 4
     \<and> get_u32 (net_ip n) AND mask32 (net_ones n) = get_u32 (net_ip n)"

lemma parse_ipv4_length: "parse_ipv4 s = Some ip \<Longrightarrow> length ip = 4"
  by (auto simp: parse_ipv4_def split: list.splits option.splits)

lemma To4_mapped [simp]: "length ip = 4 \<Longrightarrow> To4 (v4InV6Prefix @ ip) = ip"
  by (simp add: To4_def v4InV6Prefix_def)

lemma ParseCIDR_good:
  assumes "ParseCIDR s = Some (ip, n)"
  shows "good_net n \<and> length (To4 ip) = 4 \<and> net_Contains n ip"
proof -
  from assms obtain a k where p: "parse_ipv4 (takeWhile (\<lambda>c. c \<noteq> CHR ''/'') s) = Some a"
      "k \<le> 32" "ip = v4InV6Prefix @ a"
      "n = \<lparr>net_ip = put_u32 (get_u32 a AND mask32 k), net_ones = k\<rparr>"
    by (auto simp: ParseCIDR_def parse_prefix_def Let_def split: if_splits option.splits)
  from parse_ipv4_length [OF p(1)] p(2-) show ?thesis
    by (auto simp: good_net_def net_Contains_def and.assoc)
qed

text \<open>Printing an address with a prefix and parsing it.\<close>

lemma parse_prefix_fmt: "n \<le> 32 \<Longrightarrow> parse_prefix (fmt_d n) = Some n"
  by (auto simp: parse_prefix_def Let_def list_all_iff fmt_d_digits)

lemma slash_not_in_ip_string: "length ip = 4 \<Longrightarrow> CHR ''/'' \<notin> set (ip_string ip)"
proof -
  assume "length ip = 4"
  then obtain a b c d where ip: "ip = [a, b, c, d]" by (auto simp: numeral_eq_Suc length_Suc_conv)
  have "CHR ''/'' \<notin> set (fmt_d n)" for n using fmt_d_digits [of "CHR ''/''" n] by (auto simp: is_digit_def)
  then show ?thesis by (simp add: ip_string_def ip)
qed

lemma ParseCIDR_print:
  assumes "length ip = 4" "n \<le> 32"
  shows "\<exists>net. ParseCIDR (ip_string ip @ ''/'' @ fmt_d n) = Some (v4InV6Prefix @ ip, net) \<and> net_ones net = n"
proof -
  note s = slash_not_in_ip_string [OF assms(1)]
  have "takeWhile (\<lambda>c. c \<noteq> CHR ''/'') (ip_string ip @ ''/'' @ fmt_d n) = ip_string ip"
    using s by (subst takeWhile_append2) auto
  then show ?thesis using assms by (simp add: ParseCIDR_def parse_ip_string parse_prefix_fmt)
qed

text \<open>Host part and base of an aligned network do not overlap.\<close>

lemma host_bits:
  assumes "i < 2 ^ (32 - n)" "bit (of_nat i :: 32 word) k"
  shows "k < 32 - n"
proof (rule ccontr)
  assume "\<not> k < 32 - n"
  then have "i < 2 ^ k"
    using assms(1) by (meson le_less_trans less_le_trans not_less one_le_numeral power_increasing)
  then have "\<not> bit i k"
    by (simp add: bit_iff_odd)
  with assms(2) show False
    by (simp add: bit_simps)
qed

lemma base_bits: "b AND mask32 n = b \<Longrightarrow> bit b k \<Longrightarrow> 32 - n \<le> k"
  by (metis bit_and_iff bit_push_bit_iff mask32_def)

lemma base_plus_host:
  assumes "b AND mask32 n = b" "i < 2 ^ (32 - n)"
  shows "b + of_nat i = b OR of_nat i" "(b + of_nat i) AND mask32 n = b"
proof -
  have disj: "\<not> bit b k \<or> \<not> bit (of_nat i :: 32 word) k" for k
    using base_bits [OF assms(1)] host_bits [OF assms(2)] by fastforce
  then show or: "b + of_nat i = b OR of_nat i"
    by (rule disjunctive_add)
  have "(of_nat i :: 32 word) AND mask32 n = 0"
    by (rule bit_word_eqI) (use host_bits [OF assms(2)] in \<open>fastforce simp: bit_simps mask32_def\<close>)
  then show "(b + of_nat i) AND mask32 n = b"
    using assms(1) by (simp add: or bit.conj_disj_distrib2)
qed

lemma of_nat_host_inject:
  assumes "i < 2 ^ (32 - n)" "j < 2 ^ (32 - n)"
  shows "(of_nat i :: 32 word) = of_nat j \<longleftrightarrow> i = j"
proof -
  have "(2 :: nat) ^ (32 - n) \<le> 2 ^ 32" by (rule power_increasing) simp_all
  with assms have "i < 2 ^ 32" "j < 2 ^ 32" by linarith+
  then have "unat (of_nat i :: 32 word) = i" "unat (of_nat j :: 32 word) = j"
    by (simp_all add: unat_of_nat)
  then show ?thesis by metis
qed

text \<open>Every address of a network is its base plus a host number.\<close>

lemma host_number:
  assumes "w AND mask32 n = b"
  shows "\<exists>i<2 ^ (32 - n). w = b + of_nat i"
proof -
  let ?h = "w AND NOT (mask32 n)"
  have h: "NOT (mask32 n) = mask (32 - n)"
    by (rule bit_word_eqI) (auto simp: mask32_def bit_simps)
  then have "?h = take_bit (32 - n) w"
    by (simp add: take_bit_eq_mask)
  then have lt: "unat ?h < 2 ^ (32 - n)"
    by (simp add: unsigned_take_bit_eq)
  have "w = (w AND mask32 n) OR ?h"
    by (rule bit_word_eqI) (auto simp: bit_simps)
  also have "\<dots> = (w AND mask32 n) + ?h"
    by (rule disjunctive_add [symmetric]) (auto simp: bit_simps)
  finally have "w = b + of_nat (unat ?h)"
    using assms by simp
  with lt show ?thesis by blast
qed

end
