(* ===== verification/Config.thy ===== *)
theory Config
  imports Prelude
begin

text \<open>
  Component \<open>internal/config\<close> (\<open>config.go\<close>, \<open>gateway.go\<close>): the two configuration records,
  their loading, validation and the accessors with defaults. The file system and the YAML
  decoder are arguments of the loaders: the records are what the decoder fills.
  \<open>time.ParseDuration\<close> is an argument of the operations that call it; Go \<open>int\<close> fields are
  integers.
\<close>

section \<open>Standard base64 (\<open>base64.StdEncoding.DecodeString\<close>)\<close>

definition b64_alphabet :: string where
  "b64_alphabet = ''ABCDEFGHIJKLMNOPQRSTUVWXYZabcdefghijklmnopqrstuvwxyz0123456789+/''"

fun index_of :: "char \<Rightarrow> string \<Rightarrow> nat option" where
  "index_of c [] = None"
| "index_of c (x # xs) = (if c = x then Some 0 else map_option Suc (index_of c xs))"

definition b64_val :: "char \<Rightarrow> nat option" where
  "b64_val c = index_of c b64_alphabet"

text \<open>One quantum of four characters; the last may end in one or two \<open>=\<close>.\<close>

fun b64_quanta :: "string \<Rightarrow> bytes option" where
  "b64_quanta [] = Some []"
| "b64_quanta (a # b # c # d # rest) =
     (case (b64_val a, b64_val b) of
        (Some va, Some vb) \<Rightarrow>
          (if d = CHR ''='' \<and> c = CHR ''='' then
             (if rest = [] then Some [of_nat (va * 4 + vb div 16)] else None)
           else case b64_val c of
             None \<Rightarrow> None
           | Some vc \<Rightarrow>
             (if d = CHR ''='' then
                (if rest = [] then Some [of_nat (va * 4 + vb div 16), of_nat (vb * 16 + vc div 4)]
                 else None)
              else case b64_val d of
                None \<Rightarrow> None
              | Some vd \<Rightarrow>
                  map_option (\<lambda>bs. of_nat (va * 4 + vb div 16) # of_nat (vb * 16 + vc div 4)
                                # of_nat (vc * 64 + vd) # bs) (b64_quanta rest)))
      | _ \<Rightarrow> None)"
| "b64_quanta _ = None"

definition base64_decode :: "string \<Rightarrow> bytes option" where
  "base64_decode s = b64_quanta (filter (\<lambda>c. c \<noteq> CHR 10 \<and> c \<noteq> CHR 13) s)"

lemma base64_decode_empty: "base64_decode [] = Some []"
  by (simp add: base64_decode_def)

section \<open>Server and client configuration\<close>

record PaddingConfig =
  pad_min :: int
  pad_max :: int

record Config =
  Server :: string
  Listen :: string
  SNI :: string
  TunName :: string
  TunCIDR :: string
  DNS :: string
  PSK :: string
  Gateway :: string
  Padding :: PaddingConfig
  JitterMs :: int

datatype cfg_error =
    PSKRequired
  | PSKNotBase64
  | PSKTooShort nat
  | PaddingNegative
  | PaddingMinAboveMax
  | ServerRequired
  | ServerAndServers
  | BadRoutingMode string
  | WGAddressRequired
  | WGSubnetRequired
  | GeoDatabaseRequired
  | GeoCountryRequired
  | BadUpdateInterval
  | ExceptionNeedsTarget nat
  | ExceptionBadDirection nat

definition check_psk :: "string \<Rightarrow> cfg_error option" where
  "check_psk psk =
     (if psk = [] then Some PSKRequired
      else case base64_decode psk of
        None \<Rightarrow> Some PSKNotBase64
      | Some b \<Rightarrow> if length b < 32 then Some (PSKTooShort (length b)) else None)"

definition check_padding :: "PaddingConfig \<Rightarrow> cfg_error option" where
  "check_padding p =
     (if pad_min p < 0 \<or> pad_max p < 0 then Some PaddingNegative
      else if pad_max p > 0 \<and> pad_min p > pad_max p then Some PaddingMinAboveMax
      else None)"

text \<open>The first error of two checks in sequence.\<close>

definition and_then :: "cfg_error option \<Rightarrow> cfg_error option \<Rightarrow> cfg_error option" where
  "and_then a b = (case a of Some e \<Rightarrow> Some e | None \<Rightarrow> b)"

lemma and_then_None [simp]: "and_then a b = None \<longleftrightarrow> a = None \<and> b = None"
  by (cases a) (simp_all add: and_then_def)

definition Validate :: "Config \<Rightarrow> cfg_error option" where
  "Validate c = and_then (check_psk (PSK c)) (check_padding (Padding c))"

text \<open>\<open>os.ReadFile\<close> and \<open>yaml.Unmarshal\<close> are passed in; the error says which step failed.\<close>

datatype load_error = ReadConfig | ParseConfig | ValidateConfig cfg_error

definition Load ::
  "(string \<Rightarrow> bytes option) \<Rightarrow> (bytes \<Rightarrow> Config option) \<Rightarrow> string \<Rightarrow> load_error + Config" where
  "Load readFile unmarshal path =
     (case readFile path of
        None \<Rightarrow> Inl ReadConfig
      | Some d \<Rightarrow>
          (case unmarshal d of
             None \<Rightarrow> Inl ParseConfig
           | Some cfg \<Rightarrow>
               (case Validate cfg of
                  Some e \<Rightarrow> Inl (ValidateConfig e)
                | None \<Rightarrow> Inr cfg)))"

definition PSKBytes :: "Config \<Rightarrow> bytes option" where
  "PSKBytes c = base64_decode (PSK c)"

section \<open>Gateway configuration\<close>

definition RoutingECMP :: string where "RoutingECMP = ''ecmp''"
definition RoutingECMPSticky :: string where "RoutingECMPSticky = ''ecmp-sticky''"
definition RoutingActiveStdby :: string where "RoutingActiveStdby = ''active-standby''"

record GatewayTunnelConfig =
  tServer :: string
  tServers :: "string list"
  tPSK :: string
  tTunName :: string
  tPadding :: PaddingConfig
  tJitterMs :: int
  tRoutingMode :: string
  OutboundMark :: int

record WireGuardConfig =
  ListenPort :: int
  Interface :: string
  Address :: string
  Subnet :: string
  PrivateKey :: string
  wDNS :: string
  PeersFile :: string

record GeoIPConfig =
  DatabasePath :: string
  UpdateInterval :: string
  CountryCode :: string

record ExceptionRule =
  Domain :: string
  CIDR :: string
  Direction :: string

record GatewayConfig =
  Tunnel :: GatewayTunnelConfig
  WireGuard :: WireGuardConfig
  GeoIP :: GeoIPConfig
  Exceptions :: "ExceptionRule list"

definition check_servers :: "GatewayTunnelConfig \<Rightarrow> cfg_error option" where
  "check_servers t =
     (if tServer t = [] \<and> tServers t = [] then Some ServerRequired
      else if tServer t \<noteq> [] \<and> tServers t \<noteq> [] then Some ServerAndServers
      else None)"

definition check_routing_mode :: "string \<Rightarrow> cfg_error option" where
  "check_routing_mode m =
     (if m = [] \<or> m = RoutingECMP \<or> m = RoutingECMPSticky \<or> m = RoutingActiveStdby
      then None else Some (BadRoutingMode m))"

definition check_wireguard :: "int \<Rightarrow> WireGuardConfig \<Rightarrow> cfg_error option" where
  "check_wireguard mark w =
     (if mark = 0 then
        (if Address w = [] then Some WGAddressRequired
         else if Subnet w = [] then Some WGSubnetRequired
         else None)
      else None)"

definition check_geoip :: "(string \<Rightarrow> int option) \<Rightarrow> GeoIPConfig \<Rightarrow> cfg_error option" where
  "check_geoip parse_duration g =
     (if DatabasePath g = [] then Some GeoDatabaseRequired
      else if CountryCode g = [] then Some GeoCountryRequired
      else if UpdateInterval g \<noteq> [] \<and> parse_duration (UpdateInterval g) = None
        then Some BadUpdateInterval
      else None)"

fun check_exceptions :: "nat \<Rightarrow> ExceptionRule list \<Rightarrow> cfg_error option" where
  "check_exceptions i [] = None"
| "check_exceptions i (e # es) =
     (if Domain e = [] \<and> CIDR e = [] then Some (ExceptionNeedsTarget i)
      else if Direction e \<noteq> ''proxy'' \<and> Direction e \<noteq> ''direct'' then Some (ExceptionBadDirection i)
      else check_exceptions (Suc i) es)"

definition GValidate :: "(string \<Rightarrow> int option) \<Rightarrow> GatewayConfig \<Rightarrow> cfg_error option" where
  "GValidate parse_duration c =
     and_then (check_servers (Tunnel c))
    (and_then (check_psk (tPSK (Tunnel c)))
    (and_then (check_padding (tPadding (Tunnel c)))
    (and_then (check_routing_mode (tRoutingMode (Tunnel c)))
    (and_then (check_wireguard (OutboundMark (Tunnel c)) (WireGuard c))
    (and_then (check_geoip parse_duration (GeoIP c))
       (check_exceptions 0 (Exceptions c)))))))"

definition LoadGateway ::
  "(string \<Rightarrow> int option) \<Rightarrow> (string \<Rightarrow> bytes option) \<Rightarrow> (bytes \<Rightarrow> GatewayConfig option) \<Rightarrow> string
     \<Rightarrow> load_error + GatewayConfig" where
  "LoadGateway parse_duration readFile unmarshal path =
     (case readFile path of
        None \<Rightarrow> Inl ReadConfig
      | Some d \<Rightarrow>
          (case unmarshal d of
             None \<Rightarrow> Inl ParseConfig
           | Some cfg \<Rightarrow>
               (case GValidate parse_duration cfg of
                  Some e \<Rightarrow> Inl (ValidateConfig e)
                | None \<Rightarrow> Inr cfg)))"

definition GPSKBytes :: "GatewayConfig \<Rightarrow> bytes option" where
  "GPSKBytes c = base64_decode (tPSK (Tunnel c))"

definition IsTransitMode :: "GatewayConfig \<Rightarrow> bool" where
  "IsTransitMode c \<longleftrightarrow> OutboundMark (Tunnel c) > 0 \<and> Address (WireGuard c) = []"

definition ServerList :: "GatewayConfig \<Rightarrow> string list" where
  "ServerList c =
     (if length (tServers (Tunnel c)) > 0 then tServers (Tunnel c)
      else if tServer (Tunnel c) \<noteq> [] then [tServer (Tunnel c)]
      else [])"

definition RoutingMode :: "GatewayConfig \<Rightarrow> string" where
  "RoutingMode c = (if tRoutingMode (Tunnel c) = [] then RoutingECMP else tRoutingMode (Tunnel c))"

definition TunnelTunName :: "GatewayConfig \<Rightarrow> string" where
  "TunnelTunName c = (if tTunName (Tunnel c) \<noteq> [] then tTunName (Tunnel c) else ''stun0'')"

definition WireGuardInterface :: "GatewayConfig \<Rightarrow> string" where
  "WireGuardInterface c = (if Interface (WireGuard c) \<noteq> [] then Interface (WireGuard c) else ''wg0'')"

definition WireGuardListenPort :: "GatewayConfig \<Rightarrow> int" where
  "WireGuardListenPort c = (if ListenPort (WireGuard c) > 0 then ListenPort (WireGuard c) else 51820)"

text \<open>Durations are nanoseconds.\<close>

definition GeoIPUpdateInterval :: "(string \<Rightarrow> int option) \<Rightarrow> GatewayConfig \<Rightarrow> int" where
  "GeoIPUpdateInterval parse_duration c =
     (if UpdateInterval (GeoIP c) \<noteq> [] then
        (case parse_duration (UpdateInterval (GeoIP c)) of
           Some d \<Rightarrow> d
         | None \<Rightarrow> 24 * 3600 * 1000000000)
      else 24 * 3600 * 1000000000)"

section \<open>What validation guarantees\<close>

lemma check_psk_None:
  "check_psk p = None \<longleftrightarrow> (\<exists>b. base64_decode p = Some b \<and> 32 \<le> length b)"
  by (auto simp: check_psk_def base64_decode_empty split: option.splits if_splits)

lemma check_padding_None:
  "check_padding p = None \<longleftrightarrow>
     0 \<le> pad_min p \<and> 0 \<le> pad_max p \<and> (0 < pad_max p \<longrightarrow> pad_min p \<le> pad_max p)"
  by (auto simp: check_padding_def)

lemma check_exceptions_None:
  "check_exceptions i es = None \<longleftrightarrow>
     (\<forall>e\<in>set es. (Domain e \<noteq> [] \<or> CIDR e \<noteq> []) \<and> Direction e \<in> {''proxy'', ''direct''})"
  by (induction es arbitrary: i) auto

lemma check_exceptions_Some:
  "check_exceptions i es = Some x \<Longrightarrow>
     \<exists>k<length es. x = ExceptionNeedsTarget (i + k) \<or> x = ExceptionBadDirection (i + k)"
proof (induction es arbitrary: i)
  case (Cons e es)
  show ?case
  proof (cases "check_exceptions (Suc i) es = Some x")
    case True
    from Cons.IH [OF this] show ?thesis
      by (metis add_Suc_shift length_Cons Suc_mono)
  next
    case False
    with Cons.prems show ?thesis
      by (intro exI [of _ 0]) (auto split: if_splits)
  qed
qed simp

lemmas gateway_checks =
  GValidate_def check_psk_None check_padding_None check_exceptions_None
  check_servers_def check_routing_mode_def check_wireguard_def check_geoip_def

section \<open>Properties\<close>


definition demo_gateway :: GatewayConfig where
  "demo_gateway =
     \<lparr>Tunnel = \<lparr>tServer = [], tServers = [''a:5432'', ''b:5432''], tPSK = replicate 44 (CHR ''A''),
        tTunName = [], tPadding = \<lparr>pad_min = 0, pad_max = 64\<rparr>, tJitterMs = 0,
        tRoutingMode = ''ecmp-sticky'', OutboundMark = 0\<rparr>,
      WireGuard = \<lparr>ListenPort = 0, Interface = [], Address = ''10.9.0.1/24'',
        Subnet = ''10.9.0.0/24'', PrivateKey = [], wDNS = [], PeersFile = []\<rparr>,
      GeoIP = \<lparr>DatabasePath = ''/g.mmdb'', UpdateInterval = [], CountryCode = ''RU''\<rparr>,
      Exceptions = [\<lparr>Domain = ''x.org'', CIDR = [], Direction = ''proxy''\<rparr>]\<rparr>"

lemma demo_gateway_loads:
  "LoadGateway (\<lambda>_. None) (\<lambda>_. Some []) (\<lambda>_. Some demo_gateway) ''g.yaml'' = Inr demo_gateway"
  by code_simp


text \<open>
  The comment in \<open>GatewayConfig.Validate\<close> says WireGuard settings may be absent only in
  transit mode. A configuration that passes validation and has no WireGuard address is in
  transit mode unless its outbound mark is negative: such a mark passes, is not transit mode,
  and leaves the gateway without any source of traffic.
\<close>

theorem wireguard_or_transit_unless_negative_mark:
  assumes "GValidate parse_duration c = None" and "Address (WireGuard c) = []"
  shows "IsTransitMode c \<longleftrightarrow> 0 \<le> OutboundMark (Tunnel c)"
  using assms by (auto simp: GValidate_def check_wireguard_def IsTransitMode_def split: if_splits)

definition demo_negative_mark :: GatewayConfig where
  "demo_negative_mark =
     demo_gateway\<lparr>Tunnel := (Tunnel demo_gateway)\<lparr>OutboundMark := -1\<rparr>,
                  WireGuard := (WireGuard demo_gateway)\<lparr>Address := []\<rparr>\<rparr>"

lemma demo_negative_mark_valid:
  "GValidate (\<lambda>_. None) demo_negative_mark = None"
  "Address (WireGuard demo_negative_mark) = []"
  "\<not> 0 \<le> OutboundMark (Tunnel demo_negative_mark)"
  by code_simp+

theorem wireguard_or_transit_unless_negative_mark_witness:
  "GValidate (\<lambda>_. None) demo_negative_mark = None \<and> \<not> IsTransitMode demo_negative_mark"
  using wireguard_or_transit_unless_negative_mark
    [OF demo_negative_mark_valid(1) demo_negative_mark_valid(2)] demo_negative_mark_valid
  by simp

end
