(* ===== verification/Routing.thy ===== *)
theory Routing
  imports NetAddr Config "HOL-Library.Sublist" "HOL-Library.Multiset"
begin

text \<open>
  Component \<open>internal/routing\<close>: the policy routing, packet marking, NAT rules and ipsets of the
  gateway, and the resolver of exceptions. The package drives the programs \<open>ip\<close>, \<open>iptables\<close>,
  \<open>iptables-restore\<close> and \<open>ipset\<close>: those are outside the repository. They are a record of
  operations on an arbitrary kernel state, and what a property needs of them is a named
  hypothesis that states their documented behaviour. Log lines are not modelled.
\<close>

section \<open>Programs\<close>

text \<open>
  A command is the program's name and its arguments; running one gives the text of the error, if
  any. \<open>t_stdin\<close> also passes an input, \<open>t_default\<close> is the output of \<open>ip route show default\<close>, and
  \<open>t_link\<close> says whether \<open>ip link show dev\<close> succeeds.
\<close>

type_synonym cmd = "string list"

record 'k tools =
  t_run :: "cmd \<Rightarrow> 'k \<Rightarrow> string option \<times> 'k"
  t_stdin :: "string \<Rightarrow> cmd \<Rightarrow> 'k \<Rightarrow> string option \<times> 'k"
  t_default :: "'k \<Rightarrow> string option"
  t_link :: "string \<Rightarrow> 'k \<Rightarrow> bool"

datatype route_error =
    RunFailed string
  | NoDefaultRoute
  | BadDefaultRoute string
  | UnknownIface string
  | StickyNeedsWireGuard
  | StickyTooMany nat
  | Context string route_error

type_synonym 'k result = "route_error option \<times> 'k"

definition run :: "'k tools \<Rightarrow> cmd \<Rightarrow> 'k \<Rightarrow> 'k result" where
  "run T c k = (case t_run T c k of (e, k') \<Rightarrow> (map_option RunFailed e, k'))"

definition runStdin :: "'k tools \<Rightarrow> string \<Rightarrow> cmd \<Rightarrow> 'k \<Rightarrow> 'k result" where
  "runStdin T inp c k = (case t_stdin T inp c k of (e, k') \<Rightarrow> (map_option RunFailed e, k'))"

text \<open>A call whose error is ignored; one whose error gets a context; the next step after success.\<close>

definition try_run :: "'k tools \<Rightarrow> cmd \<Rightarrow> 'k \<Rightarrow> 'k" where
  "try_run T c k = snd (run T c k)"

definition ctx :: "string \<Rightarrow> 'k result \<Rightarrow> 'k result" where
  "ctx s r = (map_option (Context s) (fst r), snd r)"

definition andthen :: "'k result \<Rightarrow> ('k \<Rightarrow> 'k result) \<Rightarrow> 'k result" where
  "andthen r f = (case fst r of None \<Rightarrow> f (snd r) | Some e \<Rightarrow> r)"

fun each :: "('a \<Rightarrow> 'k \<Rightarrow> 'k result) \<Rightarrow> 'a list \<Rightarrow> 'k \<Rightarrow> 'k result" where
  "each f [] k = (None, k)"
| "each f (x # xs) k = andthen (f x k) (each f xs)"

definition run_all :: "'k tools \<Rightarrow> cmd list \<Rightarrow> 'k \<Rightarrow> 'k result" where
  "run_all T = each (run T)"

definition try_all :: "'k tools \<Rightarrow> cmd list \<Rightarrow> 'k \<Rightarrow> 'k" where
  "try_all T cs k = fold (try_run T) cs k"

section \<open>Names (\<open>routing.go\<close>)\<close>

definition MarkTunnel :: string where "MarkTunnel = ''0x1''"
definition MarkDirect :: string where "MarkDirect = ''0x0''"
definition TableTunnel :: string where "TableTunnel = ''100''"
definition IPSetDirect :: string where "IPSetDirect = ''direct-ips''"
definition IPSetProxy :: string where "IPSetProxy = ''proxy-ips''"
definition stickyMarkBase :: nat where "stickyMarkBase = 0x10"
definition stickyMarkMask :: string where "stickyMarkMask = ''0xf0''"
definition stickyTableBase :: nat where "stickyTableBase = 101"
definition stickyChain :: string where "stickyChain = ''FTYB_SEL''"
definition outChain :: string where "outChain = ''FTYB_OUT''"
definition fallbackMetric :: string where "fallbackMetric = ''4294967295''"

definition stickyMark :: "nat \<Rightarrow> string" where
  "stickyMark i = ''0x'' @ fmt_x (stickyMarkBase + i)"

definition stickyTable :: "nat \<Rightarrow> string" where
  "stickyTable i = fmt_d (stickyTableBase + i)"

record Manager =
  wgIface :: string
  tunIfaces :: "string list"
  wgSubnet :: string
  serverIPs :: "string list"
  outboundMark :: int
  sticky :: bool
  ifaceIdx :: "string \<rightharpoonup> nat"
  activeIface :: "string list"

definition NewManager ::
  "string \<Rightarrow> string list \<Rightarrow> string \<Rightarrow> string list \<Rightarrow> int \<Rightarrow> bool \<Rightarrow> Manager" where
  "NewManager wg tuns subnet servers mark stick =
     \<lparr>wgIface = wg, tunIfaces = tuns, wgSubnet = subnet, serverIPs = servers, outboundMark = mark,
      sticky = stick, ifaceIdx = map_of (rev (zip tuns [0..<length tuns])), activeIface = []\<rparr>"

section \<open>The active set\<close>

definition sameStringSet :: "string list \<Rightarrow> string list \<Rightarrow> bool" where
  "sameStringSet a b \<longleftrightarrow> length a = length b \<and> list_all (\<lambda>s. s \<in> set a) b"

definition ecmp_args :: "string list \<Rightarrow> cmd" where
  "ecmp_args active =
     [''ip'', ''route'', ''replace'', ''default'', ''table'', TableTunnel] @
     (case active of
        [i] \<Rightarrow> [''dev'', i]
      | _ \<Rightarrow> concat (map (\<lambda>i. [''nexthop'', ''dev'', i, ''weight'', ''1'']) active))"

definition RebuildECMP :: "'k tools \<Rightarrow> string list \<Rightarrow> Manager \<times> 'k \<Rightarrow> route_error option \<times> Manager \<times> 'k" where
  "RebuildECMP T active = (\<lambda>(m, k).
     if active = [] then (None, m, k)
     else if sameStringSet active (activeIface m) then (None, m, k)
     else case ctx ''install ECMP route'' (run T (ecmp_args active) k) of
       (Some e, k') \<Rightarrow> (Some e, m, k')
     | (None, k') \<Rightarrow> (None, m\<lparr>activeIface := active\<rparr>, k'))"

text \<open>The selection chain of sticky mode: arguments without the table.\<close>

definition select_rule :: "nat \<Rightarrow> nat \<Rightarrow> string \<Rightarrow> cmd" where
  "select_rule k j mark =
     [''-A'', stickyChain, ''-m'', ''mark'', ''--mark'', ''0x0/'' @ stickyMarkMask]
     @ (if j + 1 < k then [''-m'', ''statistic'', ''--mode'', ''nth'', ''--every'', fmt_d (k - j), ''--packet'', ''0''] else [])
     @ [''-j'', ''MARK'', ''--set-mark'', mark]"

definition stickySelectRules :: "string list \<Rightarrow> cmd list" where
  "stickySelectRules marks =
     map (\<lambda>j. select_rule (length marks) j (marks ! j)) [0..<length marks]
     @ [[''-A'', stickyChain, ''-j'', ''CONNMARK'', ''--save-mark'']]"

definition newline :: string where "newline = [CHR 0x0A]"

definition stickyRestore :: "string list \<Rightarrow> string" where
  "stickyRestore marks =
     ''*mangle'' @ newline @ ''-F '' @ stickyChain @ newline
     @ concat (map (\<lambda>r. join_with (CHR '' '') r @ newline) (stickySelectRules marks))
     @ ''COMMIT'' @ newline"

definition stickyPinnedMatch :: string where
  "stickyPinnedMatch = ''0x'' @ fmt_x stickyMarkBase @ ''/'' @ stickyMarkMask"

definition filterIfaces :: "string list \<Rightarrow> (string \<Rightarrow> bool) \<Rightarrow> string list" where
  "filterIfaces ifaces pred = filter pred ifaces"

definition existingIfaces :: "'k tools \<Rightarrow> string list \<Rightarrow> 'k \<Rightarrow> string list" where
  "existingIfaces T ifaces k = filterIfaces ifaces (\<lambda>i. t_link T i k)"

definition pin_route :: "Manager \<Rightarrow> 'k tools \<Rightarrow> string \<Rightarrow> 'k \<Rightarrow> 'k result" where
  "pin_route m T ifc k =
     (case ifaceIdx m ifc of
        None \<Rightarrow> (Some (UnknownIface ifc), k)
      | Some idx \<Rightarrow>
          ctx ''sticky route'' (run T [''ip'', ''route'', ''replace'', ''default'', ''dev'', ifc, ''table'', stickyTable idx] k))"

definition sticky_marks :: "Manager \<Rightarrow> string list \<Rightarrow> route_error + string list" where
  "sticky_marks m active =
     (case filter (\<lambda>ifc. ifaceIdx m ifc = None) active of
        ifc # _ \<Rightarrow> Inl (UnknownIface ifc)
      | [] \<Rightarrow> Inr (map (\<lambda>ifc. stickyMark (the (ifaceIdx m ifc))) active))"

definition RebuildSticky :: "'k tools \<Rightarrow> string list \<Rightarrow> Manager \<times> 'k \<Rightarrow> route_error option \<times> Manager \<times> 'k" where
  "RebuildSticky T active = (\<lambda>(m, k).
     if active = [] then (None, m, k)
     else if sameStringSet active (activeIface m) then (None, m, k)
     else case each (pin_route m T) active k of
       (Some e, k') \<Rightarrow> (Some e, m, k')
     | (None, k') \<Rightarrow>
         (case sticky_marks m active of
            Inl e \<Rightarrow> (Some e, m, k')
          | Inr marks \<Rightarrow>
              (case ctx ''rebuild'' (runStdin T (stickyRestore marks) [''iptables-restore'', ''--noflush''] k') of
                 (Some e, k'') \<Rightarrow> (Some e, m, k'')
               | (None, k'') \<Rightarrow> (None, m\<lparr>activeIface := active\<rparr>, k''))))"

definition Apply :: "'k tools \<Rightarrow> string list \<Rightarrow> Manager \<times> 'k \<Rightarrow> route_error option \<times> Manager \<times> 'k" where
  "Apply T active s = (if sticky (fst s) then RebuildSticky T active s else RebuildECMP T active s)"

section \<open>Set-up\<close>

text \<open>\<open>strings.Fields\<close> and \<open>strings.TrimSpace\<close> on ASCII.\<close>

definition is_space :: "char \<Rightarrow> bool" where
  "is_space c \<longleftrightarrow> c \<in> {CHR '' '', CHR 0x09, CHR 0x0A, CHR 0x0B, CHR 0x0C, CHR 0x0D}"

definition TrimSpace :: "string \<Rightarrow> string" where
  "TrimSpace s = rev (dropWhile is_space (rev (dropWhile is_space s)))"

fun words_acc :: "string \<Rightarrow> string \<Rightarrow> string list" where
  "words_acc w [] = (if w = [] then [] else [rev w])"
| "words_acc w (c # s) =
     (if is_space c then (if w = [] then words_acc [] s else rev w # words_acc [] s)
      else words_acc (c # w) s)"

definition Fields :: "string \<Rightarrow> string list" where
  "Fields s = words_acc [] s"

fun field_after_dev :: "string list \<Rightarrow> string" where
  "field_after_dev (f # g # r) = (if f = ''dev'' then g else field_after_dev (g # r))"
| "field_after_dev _ = ''''"

definition addServerBypass :: "'k tools \<Rightarrow> string \<Rightarrow> 'k \<Rightarrow> 'k result" where
  "addServerBypass T serverIP k =
     (if serverIP = '''' then (None, k)
      else case t_default T k of
        None \<Rightarrow> (Some NoDefaultRoute, k)
      | Some out \<Rightarrow>
          let fields = Fields out in
          if length fields < 3 \<or> hd fields \<noteq> ''default'' then (Some (BadDefaultRoute out), k)
          else
            let gateway = fields ! 2; dev = field_after_dev fields;
                k1 = try_run T [''ip'', ''route'', ''del'', serverIP @ ''/32''] k
            in ctx ''add server bypass''
                 (run T ([''ip'', ''route'', ''add'', serverIP @ ''/32'', ''via'', gateway]
                         @ (if dev \<noteq> '''' then [''dev'', dev] else [])) k1))"

definition createIPSets :: "'k tools \<Rightarrow> 'k \<Rightarrow> 'k result" where
  "createIPSets T = run_all T [[''ipset'', ''create'', IPSetDirect, ''hash:net'', ''-exist''],
                               [''ipset'', ''create'', IPSetProxy, ''hash:net'', ''-exist'']]"

definition add_entry :: "string \<Rightarrow> string \<Rightarrow> cmd" where
  "add_entry s e = [''ipset'', ''add'', s, e, ''-exist'']"

definition loadDirectSubnets :: "'k tools \<Rightarrow> IPNet list \<Rightarrow> 'k \<Rightarrow> 'k result" where
  "loadDirectSubnets T subnets = run_all T (map (\<lambda>n. add_entry IPSetDirect (net_string n)) subnets)"

definition mangle :: "string \<Rightarrow> cmd \<Rightarrow> cmd" where
  "mangle op spec = [''iptables'', ''-t'', ''mangle'', op] @ spec"

text \<open>The three marking rules, behind a common match prefix, in order.\<close>

definition mark_rules :: "cmd \<Rightarrow> cmd list" where
  "mark_rules pre =
     [pre @ [''-j'', ''MARK'', ''--set-mark'', MarkTunnel],
      pre @ [''-m'', ''set'', ''--match-set'', IPSetDirect, ''dst'', ''-j'', ''MARK'', ''--set-mark'', MarkDirect],
      pre @ [''-m'', ''set'', ''--match-set'', IPSetProxy, ''dst'', ''-j'', ''MARK'', ''--set-mark'', MarkTunnel]]"

definition outChainRules :: "cmd list" where
  "outChainRules = mangle ''-F'' [outChain] # map (mangle ''-A'') (mark_rules [outChain])"

definition transitJumpRule :: "string \<Rightarrow> int \<Rightarrow> cmd" where
  "transitJumpRule op mark =
     mangle op [''OUTPUT'', ''-m'', ''mark'', ''--mark'', ''0x'' @ fmt_x (nat mark), ''-j'', outChain]"

definition setupMangle :: "Manager \<Rightarrow> 'k tools \<Rightarrow> 'k \<Rightarrow> 'k result" where
  "setupMangle m T k =
     andthen
       (if wgIface m \<noteq> '''' then run_all T (map (mangle ''-A'') (mark_rules [''PREROUTING'', ''-i'', wgIface m])) k
        else (None, k))
       (\<lambda>k1. if outboundMark m > 0 then
                run_all T (outChainRules @ [transitJumpRule ''-A'' (outboundMark m)])
                  (try_run T (mangle ''-N'' [outChain]) k1)
              else (None, k1))"

definition addFallbackRoute :: "'k tools \<Rightarrow> string \<Rightarrow> 'k \<Rightarrow> 'k result" where
  "addFallbackRoute T table k =
     ctx ''fallback route''
       (run T [''ip'', ''route'', ''replace'', ''unreachable'', ''default'', ''metric'', fallbackMetric, ''table'', table] k)"

text \<open>Adding a rule that exists already is not an error.\<close>

definition add_fwmark_rule :: "'k tools \<Rightarrow> string \<Rightarrow> string \<Rightarrow> 'k \<Rightarrow> 'k result" where
  "add_fwmark_rule T mark table k =
     (case t_run T [''ip'', ''rule'', ''add'', ''fwmark'', mark, ''table'', table] k of
        (None, k') \<Rightarrow> (None, k')
      | (Some e, k') \<Rightarrow> if sublist ''exists'' e then (None, k') else (Some (RunFailed e), k'))"

definition setupPolicyRouting :: "'k tools \<Rightarrow> Manager \<times> 'k \<Rightarrow> route_error option \<times> Manager \<times> 'k" where
  "setupPolicyRouting T = (\<lambda>(m, k).
     case andthen (add_fwmark_rule T MarkTunnel TableTunnel k) (addFallbackRoute T TableTunnel) of
       (Some e, k1) \<Rightarrow> (Some e, m, k1)
     | (None, k1) \<Rightarrow>
         let initial = existingIfaces T (tunIfaces m) k1 in
         if initial = [] then (None, m, k1)
         else case RebuildECMP T initial (m, k1) of
           (e, m', k2) \<Rightarrow> (map_option (Context ''install initial ECMP route'') e, m', k2))"

definition sticky_table_step :: "'k tools \<Rightarrow> nat \<times> string \<Rightarrow> 'k \<Rightarrow> 'k result" where
  "sticky_table_step T = (\<lambda>(i, ifc) k.
     andthen (andthen (add_fwmark_rule T (stickyMark i) (stickyTable i) k) (addFallbackRoute T (stickyTable i)))
       (\<lambda>k1. if t_link T ifc k1
              then ctx ''sticky route'' (run T [''ip'', ''route'', ''replace'', ''default'', ''dev'', ifc, ''table'', stickyTable i] k1)
              else (None, k1)))"

definition setupStickyRouting :: "'k tools \<Rightarrow> Manager \<times> 'k \<Rightarrow> route_error option \<times> Manager \<times> 'k" where
  "setupStickyRouting T = (\<lambda>(m, k).
     case each (sticky_table_step T) (zip [0..<length (tunIfaces m)] (tunIfaces m)) k of
       (Some e, k1) \<Rightarrow> (Some e, m, k1)
     | (None, k1) \<Rightarrow>
         let k2 = try_all T [mangle ''-N'' [stickyChain], mangle ''-F'' [stickyChain]] k1
         in RebuildSticky T (existingIfaces T (tunIfaces m) k2) (m, k2))"

definition sticky_prerouting :: "string \<Rightarrow> cmd list" where
  "sticky_prerouting wg =
     [[''PREROUTING'', ''-i'', wg, ''-j'', ''CONNMARK'', ''--restore-mark''],
      [''PREROUTING'', ''-i'', wg, ''-m'', ''mark'', ''--mark'', stickyPinnedMatch, ''-j'', ''RETURN''],
      [''PREROUTING'', ''-i'', wg, ''-m'', ''set'', ''--match-set'', IPSetProxy, ''dst'', ''-g'', stickyChain],
      [''PREROUTING'', ''-i'', wg, ''-m'', ''set'', ''--match-set'', IPSetDirect, ''dst'', ''-j'', ''RETURN''],
      [''PREROUTING'', ''-i'', wg, ''-g'', stickyChain]]"

definition setupStickyMangle :: "Manager \<Rightarrow> 'k tools \<Rightarrow> 'k \<Rightarrow> 'k result" where
  "setupStickyMangle m T = run_all T (map (mangle ''-A'') (sticky_prerouting (wgIface m)))"

text \<open>The NAT and forwarding rules: operation, table arguments and specification.\<close>

definition nat_rule :: "string \<Rightarrow> cmd \<Rightarrow> cmd" where
  "nat_rule op spec = [''iptables'', ''-t'', ''nat'', op, ''POSTROUTING''] @ spec"

definition forward_rule :: "string \<Rightarrow> cmd \<Rightarrow> cmd" where
  "forward_rule op spec = [''iptables'', op, ''FORWARD''] @ spec"

definition clamp_mss :: "string \<Rightarrow> cmd" where
  "clamp_mss op = mangle op [''FORWARD'', ''-p'', ''tcp'', ''--tcp-flags'', ''SYN,RST'', ''SYN'', ''-j'', ''TCPMSS'', ''--clamp-mss-to-pmtu'']"

definition nat_commands :: "Manager \<Rightarrow> cmd list" where
  "nat_commands m =
     concat (map (\<lambda>t.
        (if wgIface m \<noteq> '''' \<and> wgSubnet m \<noteq> '''' then [nat_rule ''-A'' [''-s'', wgSubnet m, ''-o'', t, ''-j'', ''MASQUERADE'']] else [])
        @ (if outboundMark m > 0 then [nat_rule ''-A'' [''-o'', t, ''-j'', ''MASQUERADE'']] else [])) (tunIfaces m))
     @ (if wgIface m \<noteq> '''' \<and> wgSubnet m \<noteq> '''' then [nat_rule ''-A'' [''-s'', wgSubnet m, ''!'', ''-o'', wgIface m, ''-j'', ''MASQUERADE'']] else [])
     @ (if wgIface m \<noteq> '''' then
          [forward_rule ''-A'' [''-i'', wgIface m, ''-j'', ''ACCEPT''],
           forward_rule ''-A'' [''-o'', wgIface m, ''-m'', ''state'', ''--state'', ''RELATED,ESTABLISHED'', ''-j'', ''ACCEPT'']]
          @ map (\<lambda>t. forward_rule ''-A'' [''-i'', t, ''-o'', wgIface m, ''-j'', ''ACCEPT'']) (tunIfaces m)
          @ [clamp_mss ''-A'']
        else [])"

definition setupNAT :: "Manager \<Rightarrow> 'k tools \<Rightarrow> 'k \<Rightarrow> 'k result" where
  "setupNAT m T = run_all T (nat_commands m)"

definition lift_result :: "Manager \<Rightarrow> 'k result \<Rightarrow> route_error option \<times> Manager \<times> 'k" where
  "lift_result m r = (fst r, m, snd r)"

definition thenM ::
  "route_error option \<times> Manager \<times> 'k \<Rightarrow> (Manager \<times> 'k \<Rightarrow> route_error option \<times> Manager \<times> 'k)
     \<Rightarrow> route_error option \<times> Manager \<times> 'k" where
  "thenM r f = (case r of (None, s) \<Rightarrow> f s | (Some e, s) \<Rightarrow> (Some e, s))"

definition ctxM :: "string \<Rightarrow> route_error option \<times> Manager \<times> 'k \<Rightarrow> route_error option \<times> Manager \<times> 'k" where
  "ctxM s r = (map_option (Context s) (fst r), snd r)"

definition Setup :: "'k tools \<Rightarrow> IPNet list \<Rightarrow> Manager \<times> 'k \<Rightarrow> route_error option \<times> Manager \<times> 'k" where
  "Setup T directSubnets = (\<lambda>(m, k).
     thenM (lift_result m
             (andthen (andthen (ctx ''server bypass route'' (each (addServerBypass T) (serverIPs m) k))
                         (\<lambda>k. ctx ''create ipsets'' (createIPSets T k)))
                (\<lambda>k. ctx ''load direct subnets'' (loadDirectSubnets T directSubnets k))))
       (\<lambda>(m, k).
          thenM
            (if sticky m then
               (if wgIface m = '''' then (Some StickyNeedsWireGuard, m, k)
                else if length (tunIfaces m) > 16 then (Some (StickyTooMany (length (tunIfaces m))), m, k)
                else thenM (ctxM ''setup sticky routing'' (setupStickyRouting T (m, k)))
                       (\<lambda>(m, k). lift_result m (ctx ''setup sticky mangle'' (setupStickyMangle m T k))))
             else thenM (lift_result m (ctx ''setup mangle'' (setupMangle m T k)))
                    (\<lambda>s. ctxM ''setup policy routing'' (setupPolicyRouting T s)))
            (\<lambda>(m, k). lift_result m (ctx ''setup NAT'' (setupNAT m T k)))))"

section \<open>Tear-down\<close>

definition sticky_teardown :: "Manager \<Rightarrow> cmd list" where
  "sticky_teardown m =
     map (mangle ''-D'') (sticky_prerouting (wgIface m))
     @ [mangle ''-F'' [stickyChain], mangle ''-X'' [stickyChain]]
     @ concat (map (\<lambda>i. [[''ip'', ''rule'', ''del'', ''fwmark'', stickyMark i, ''table'', stickyTable i],
                          [''ip'', ''route'', ''flush'', ''table'', stickyTable i]]) [0..<length (tunIfaces m)])"

definition teardown_commands :: "Manager \<Rightarrow> cmd list" where
  "teardown_commands m =
     map (\<lambda>ip. [''ip'', ''route'', ''del'', ip @ ''/32'']) (serverIPs m)
     @ (if sticky m then sticky_teardown m
        else [[''ip'', ''rule'', ''del'', ''fwmark'', MarkTunnel, ''table'', TableTunnel],
              [''ip'', ''route'', ''flush'', ''table'', TableTunnel]]
             @ (if wgIface m \<noteq> '''' then map (mangle ''-D'') (mark_rules [''PREROUTING'', ''-i'', wgIface m]) else []))
     @ (if outboundMark m > 0 then
          [transitJumpRule ''-D'' (outboundMark m), mangle ''-F'' [outChain], mangle ''-X'' [outChain]]
        else [])
     @ concat (map (\<lambda>t.
          (if wgSubnet m \<noteq> '''' then [nat_rule ''-D'' [''-s'', wgSubnet m, ''-o'', t, ''-j'', ''MASQUERADE'']] else [])
          @ (if outboundMark m > 0 then [nat_rule ''-D'' [''-o'', t, ''-j'', ''MASQUERADE'']] else [])
          @ (if wgIface m \<noteq> '''' then [forward_rule ''-D'' [''-i'', t, ''-o'', wgIface m, ''-j'', ''ACCEPT'']] else [])) (tunIfaces m))
     @ (if wgIface m \<noteq> '''' \<and> wgSubnet m \<noteq> '''' then [nat_rule ''-D'' [''-s'', wgSubnet m, ''!'', ''-o'', wgIface m, ''-j'', ''MASQUERADE'']] else [])
     @ (if wgIface m \<noteq> '''' then
          [forward_rule ''-D'' [''-i'', wgIface m, ''-j'', ''ACCEPT''],
           forward_rule ''-D'' [''-o'', wgIface m, ''-m'', ''state'', ''--state'', ''RELATED,ESTABLISHED'', ''-j'', ''ACCEPT''],
           clamp_mss ''-D'']
        else [])
     @ map (\<lambda>s. [''ipset'', ''destroy'', s]) [IPSetDirect, IPSetProxy, IPSetDirect @ ''-tmp'', IPSetProxy @ ''-tmp'']"

definition Teardown :: "'k tools \<Rightarrow> Manager \<Rightarrow> 'k \<Rightarrow> 'k" where
  "Teardown T m = try_all T (teardown_commands m)"

section \<open>Sets of addresses and exceptions\<close>

definition UpdateDirectIPs :: "'k tools \<Rightarrow> IPNet list \<Rightarrow> 'k \<Rightarrow> 'k result" where
  "UpdateDirectIPs T subnets k =
     (let tmpSet = IPSetDirect @ ''-tmp'' in
      andthen (run T [''ipset'', ''create'', tmpSet, ''hash:net'', ''-exist''] k)
        (\<lambda>k1.
           let k2 = try_run T [''ipset'', ''flush'', tmpSet] k1;
               k3 = try_all T (map (\<lambda>n. add_entry tmpSet (net_string n)) subnets) k2
           in case ctx ''ipset swap'' (run T [''ipset'', ''swap'', tmpSet, IPSetDirect] k3) of
                (Some e, k4) \<Rightarrow> (Some e, try_run T [''ipset'', ''destroy'', tmpSet] k4)
              | (None, k4) \<Rightarrow> (None, try_run T [''ipset'', ''destroy'', tmpSet] k4)))"

definition AddProxyIP :: "'k tools \<Rightarrow> string \<Rightarrow> 'k \<Rightarrow> 'k result" where
  "AddProxyIP T ip = run T (add_entry IPSetProxy ip)"

definition AddDirectIP :: "'k tools \<Rightarrow> string \<Rightarrow> 'k \<Rightarrow> 'k result" where
  "AddDirectIP T ip = run T (add_entry IPSetDirect ip)"

text \<open>The switch on the direction of an exception; an error is only logged.\<close>

definition add_by_direction :: "'k tools \<Rightarrow> string \<Rightarrow> string \<Rightarrow> 'k \<Rightarrow> 'k" where
  "add_by_direction T direction ip k =
     (if direction = ''proxy'' then snd (AddProxyIP T ip k)
      else if direction = ''direct'' then snd (AddDirectIP T ip k)
      else k)"

definition applyCIDRs :: "'k tools \<Rightarrow> ExceptionRule list \<Rightarrow> 'k \<Rightarrow> 'k" where
  "applyCIDRs T rules k =
     fold (\<lambda>rule. if CIDR rule = '''' then id else add_by_direction T (Direction rule) (CIDR rule)) rules k"

text \<open>\<open>lookup\<close> is the resolver of the host, \<open>parse\<close> is \<open>net.ParseIP\<close> (nil is the empty list).\<close>

definition resolveDomains ::
  "'k tools \<Rightarrow> (string \<Rightarrow> string list option) \<Rightarrow> (string \<Rightarrow> IP) \<Rightarrow> ExceptionRule list \<Rightarrow> 'k \<Rightarrow> 'k" where
  "resolveDomains T lookup parse rules k =
     fold (\<lambda>rule k.
        if Domain rule = '''' then k
        else case lookup (Domain rule) of
          None \<Rightarrow> k
        | Some ips \<Rightarrow>
            fold (\<lambda>ipStr. if parse ipStr = [] \<or> To4 (parse ipStr) = [] then id
                          else add_by_direction T (Direction rule) ipStr) ips k) rules k"

section \<open>Applying the active set\<close>

lemma sameStringSet_distinct:
  assumes "distinct a" "distinct b"
  shows "sameStringSet a b \<longleftrightarrow> set a = set b"
proof
  assume "sameStringSet a b"
  then have "set b \<subseteq> set a" "length a = length b" by (auto simp: sameStringSet_def list_all_iff)
  moreover from assms this(2) have "card (set a) = card (set b)" by (simp add: distinct_card)
  ultimately show "set a = set b" by (metis card_subset_eq List.finite_set)
next
  assume e: "set a = set b"
  with assms have "length a = length b" by (metis distinct_card)
  with e show "sameStringSet a b" by (simp add: sameStringSet_def list_all_iff)
qed

lemma sameStringSet_refl [simp]: "sameStringSet a a"
  by (simp add: sameStringSet_def list_all_iff)

lemma Apply_cases:
  assumes "Apply T active (m, k) = (e, m', k')"
  shows "(active = [] \<or> sameStringSet active (activeIface m)) \<and> e = None \<and> m' = m \<and> k' = k
    \<or> active \<noteq> [] \<and> e \<noteq> None \<and> m' = m
    \<or> active \<noteq> [] \<and> e = None \<and> m' = m\<lparr>activeIface := active\<rparr>"
  using assms
  by (auto simp: Apply_def RebuildECMP_def RebuildSticky_def split: if_splits prod.splits option.splits sum.splits)

text \<open>
  The manager remembers what it installed. For selections without repeated names, a successful
  \<open>Apply\<close> of a non-empty selection leaves exactly that set as the active one and repeating it, in
  any order, runs no command at all; a failed one leaves the remembered set as it was, so that the
  next \<open>Apply\<close> is not suppressed; an empty selection changes nothing.
\<close>

theorem apply_remembers:
  assumes "Apply T active (m, k) = (e, m', k')" "distinct active" "distinct (activeIface m)"
  shows "(e = None \<and> active \<noteq> [] \<longrightarrow> set (activeIface m') = set active
            \<and> (\<forall>again k2. distinct again \<and> set again = set active \<longrightarrow> Apply T again (m', k2) = (None, m', k2)))
    \<and> (e \<noteq> None \<longrightarrow> m' = m) \<and> (active = [] \<longrightarrow> e = None \<and> m' = m \<and> k' = k)"
proof -
  note c = Apply_cases [OF assms(1)]
  have set: "set (activeIface m') = set active \<and> distinct (activeIface m')" if "e = None" "active \<noteq> []"
    using c that assms(2,3) by (auto simp: sameStringSet_distinct)
  have again: "Apply T again (m', k2) = (None, m', k2)"
    if "e = None" "active \<noteq> []" "distinct again" "set again = set active" for again k2
    using set [OF that(1,2)] that(3,4) sameStringSet_distinct [of again "activeIface m'"]
    by (auto simp: Apply_def RebuildECMP_def RebuildSticky_def)
  show ?thesis using c set again by blast
qed

text \<open>Tools that record the commands and never fail.\<close>

definition recorder :: "(string \<Rightarrow> bool) \<Rightarrow> string \<Rightarrow> cmd list tools" where
  "recorder up route =
     \<lparr>t_run = (\<lambda>c k. (None, k @ [c])), t_stdin = (\<lambda>inp c k. (None, k @ [c])),
      t_default = (\<lambda>k. Some route), t_link = (\<lambda>i k. up i)\<rparr>"

definition demo_manager :: Manager where
  "demo_manager = NewManager ''wg0'' [''stun0'', ''stun1''] ''10.8.0.0/24'' [''192.0.2.1''] 0 False"

theorem apply_remembers_witness:
  "Apply (recorder (\<lambda>_. True) []) [''stun1'', ''stun0'']
     (demo_manager\<lparr>activeIface := [''stun0'', ''stun1'']\<rparr>, [])
   = (None, demo_manager\<lparr>activeIface := [''stun0'', ''stun1'']\<rparr>, [])"
proof -
  let ?T = "recorder (\<lambda>_. True) []" and ?m = demo_manager
  let ?k = "[ecmp_args [''stun0'', ''stun1'']]"
  have "Apply ?T [''stun0'', ''stun1''] (?m, []) = (None, ?m\<lparr>activeIface := [''stun0'', ''stun1'']\<rparr>, ?k)"
    by (simp add: Apply_def RebuildECMP_def demo_manager_def NewManager_def sameStringSet_def ctx_def run_def
        recorder_def)
  from apply_remembers [OF this]
  have "\<forall>again k2. distinct again \<and> set again = set [''stun0'', ''stun1'']
      \<longrightarrow> Apply ?T again (?m\<lparr>activeIface := [''stun0'', ''stun1'']\<rparr>, k2)
        = (None, ?m\<lparr>activeIface := [''stun0'', ''stun1'']\<rparr>, k2)"
    by (simp add: demo_manager_def NewManager_def)
  from this [rule_format, of "[''stun1'', ''stun0'']" "[]"] show ?thesis by auto
qed

section \<open>Tear-down undoes set-up\<close>

lemma run_recorder [simp]: "run (recorder up r) c k = (None, k @ [c])"
  by (simp add: run_def recorder_def)

lemma stdin_recorder [simp]: "runStdin (recorder up r) inp c k = (None, k @ [c])"
  by (simp add: runStdin_def recorder_def)

lemma try_recorder [simp]: "try_run (recorder up r) c k = k @ [c]"
  by (simp add: try_run_def)

lemma link_recorder [simp]: "t_link (recorder up r) i k = up i" "t_default (recorder up r) k = Some r"
  by (simp_all add: recorder_def)

lemma andthen_None [simp]: "andthen (None, k) f = f k"
  by (simp add: andthen_def)

lemma ctx_None [simp]: "ctx s (None, k) = (None, k)"
  by (simp add: ctx_def)

lemma run_all_recorder [simp]: "run_all (recorder up r) cs k = (None, k @ cs)"
  unfolding run_all_def by (induction cs arbitrary: k) simp_all

lemma try_all_recorder [simp]: "try_all (recorder up r) cs k = k @ cs"
  unfolding try_all_def by (induction cs arbitrary: k) simp_all

lemma fwmark_recorder [simp]:
  "add_fwmark_rule (recorder up r) mark table k = (None, k @ [[''ip'', ''rule'', ''add'', ''fwmark'', mark, ''table'', table]])"
  by (simp add: add_fwmark_rule_def recorder_def)

lemma each_recorder:
  "(\<And>x k. x \<in> set xs \<Longrightarrow> f x k = (None, k @ g x)) \<Longrightarrow> each f xs k = (None, k @ concat (map g xs))"
  by (induction xs arbitrary: k) simp_all

text \<open>
  What takes a command back: deleting a rule appended to a built-in chain, flushing a chain of the
  program's own, deleting a chain, a policy rule, a route, a set, flushing a routing table.
\<close>

definition builtin :: "string \<Rightarrow> bool" where
  "builtin c \<longleftrightarrow> c \<in> {''PREROUTING'', ''OUTPUT'', ''FORWARD'', ''POSTROUTING''}"

definition is_append :: "cmd \<Rightarrow> bool" where
  "is_append c \<longleftrightarrow> hd c = ''iptables'' \<and>
     (c ! 1 = ''-A'' \<and> builtin (c ! 2) \<or> c ! 1 = ''-t'' \<and> c ! 3 = ''-A'' \<and> builtin (c ! 4))"

definition undo :: "cmd \<Rightarrow> cmd option" where
  "undo c =
     (if hd c = ''iptables'' then
        (if c ! 1 = ''-A'' then Some (c[1 := ''-D''])
         else if c ! 3 = ''-A'' then
           Some (if builtin (c ! 4) then c[3 := ''-D''] else take 3 c @ [''-F'', c ! 4])
         else if c ! 3 = ''-N'' then Some (c[3 := ''-X''])
         else None)
      else if hd c = ''ip'' then
        (if c ! 1 = ''rule'' \<and> c ! 2 = ''add'' then Some (c[2 := ''del''])
         else if c ! 1 = ''route'' \<and> c ! 2 = ''add'' then Some [''ip'', ''route'', ''del'', c ! 3]
         else if c ! 1 = ''route'' \<and> c ! 2 = ''replace''
           then Some [''ip'', ''route'', ''flush'', ''table'', hd (tl (dropWhile (\<lambda>x. x \<noteq> ''table'') c))]
         else None)
      else if hd c = ''ipset'' \<and> c ! 1 = ''create'' then Some [''ipset'', ''destroy'', c ! 2]
      else None)"

text \<open>Commands that the tear-down takes back, and the rules among them that it must delete one by one.\<close>

definition covered :: "Manager \<Rightarrow> cmd list \<Rightarrow> bool" where
  "covered m cs \<longleftrightarrow> (\<forall>c\<in>set cs. \<forall>d. undo c = Some d \<longrightarrow> d \<in> set (teardown_commands m))"

lemma covered_append [simp]: "covered m (a @ b) \<longleftrightarrow> covered m a \<and> covered m b"
  by (auto simp: covered_def)

lemma covered_Nil [simp]: "covered m []"
  by (simp add: covered_def)

lemma covered_concat: "covered m (concat (map g xs)) \<longleftrightarrow> (\<forall>x\<in>set xs. covered m (g x))"
  by (auto simp: covered_def)

lemma builtin_simps [simp]:
  "builtin ''PREROUTING''" "builtin ''OUTPUT''" "builtin ''FORWARD''" "builtin ''POSTROUTING''"
  "\<not> builtin outChain" "\<not> builtin stickyChain"
  by (simp_all add: builtin_def outChain_def stickyChain_def)

text \<open>Steps whose trace has no rules in built-in chains.\<close>

definition quiet_step :: "Manager \<Rightarrow> cmd list \<Rightarrow> bool" where
  "quiet_step m cs \<longleftrightarrow> covered m cs \<and> filter is_append cs = []"

lemma quiet_append [simp]: "quiet_step m (a @ b) \<longleftrightarrow> quiet_step m a \<and> quiet_step m b"
  by (auto simp: quiet_step_def)

lemma quiet_concat: "quiet_step m (concat (map g xs)) \<longleftrightarrow> (\<forall>x\<in>set xs. quiet_step m (g x))"
  by (auto simp: quiet_step_def covered_concat filter_concat)

lemma quiet_Cons2: "quiet_step m (c # d # cs) \<longleftrightarrow> quiet_step m [c] \<and> quiet_step m (d # cs)"
  by (auto simp: quiet_step_def covered_def)

lemma quiet_one:
  "quiet_step m [c] \<longleftrightarrow> (\<forall>d. undo c = Some d \<longrightarrow> d \<in> set (teardown_commands m)) \<and> \<not> is_append c"
  by (simp add: quiet_step_def covered_def)

lemma quiet_plain: "undo c = None \<Longrightarrow> \<not> is_append c \<Longrightarrow> quiet_step m [c]"
  by (simp add: quiet_one)

lemma each_trace:
  assumes "\<And>x k k'. x \<in> set xs \<Longrightarrow> f x k = (None, k') \<Longrightarrow> \<exists>cs. k' = k @ cs \<and> P cs"
    and "P []" "\<And>a b. P a \<Longrightarrow> P b \<Longrightarrow> P (a @ b)" "each f xs k = (None, k')"
  shows "\<exists>cs. k' = k @ cs \<and> P cs"
  using assms(1,4)
proof (induction xs arbitrary: k)
  case Nil
  then show ?case using assms(2) by auto
next
  case (Cons x xs)
  then obtain k1 where "f x k = (None, k1)" "each f xs k1 = (None, k')"
    by (cases "f x k") (auto simp: andthen_def split: option.splits)
  note step = this
  from Cons.prems(1) [OF _ step(1)] obtain a where "k1 = k @ a" "P a" by auto
  moreover have "\<exists>cs. k' = k1 @ cs \<and> P cs"
    by (rule Cons.IH [OF _ step(2)]) (rule Cons.prems(1), simp_all)
  ultimately show ?case using assms(3) by auto
qed

lemma server_del_in: "ip \<in> set (serverIPs m) \<Longrightarrow> [''ip'', ''route'', ''del'', ip @ ''/32''] \<in> set (teardown_commands m)"
  by (auto simp: teardown_commands_def)

lemma bypass_trace:
  assumes "each (addServerBypass (recorder up r)) (serverIPs m) k = (None, k')"
  shows "\<exists>cs. k' = k @ cs \<and> quiet_step m cs"
proof (rule each_trace [OF _ _ _ assms])
  fix ip k k'
  assume ip: "ip \<in> set (serverIPs m)" "addServerBypass (recorder up r) ip k = (None, k')"
  show "\<exists>cs. k' = k @ cs \<and> quiet_step m cs"
  proof (cases "ip = []")
    case True
    with ip show ?thesis by (auto simp: addServerBypass_def quiet_step_def)
  next
    case False
    with ip obtain rest where "k' = k @ [[''ip'', ''route'', ''del'', ip @ ''/32'']]
        @ [[''ip'', ''route'', ''add'', ip @ ''/32''] @ rest]"
      by (auto simp: addServerBypass_def Let_def split: if_splits)
    moreover have "quiet_step m [[''ip'', ''route'', ''del'', ip @ ''/32'']]"
      by (rule quiet_plain) (simp_all add: undo_def is_append_def)
    moreover have "quiet_step m [[''ip'', ''route'', ''add'', ip @ ''/32''] @ rest]"
      using server_del_in [OF ip(1)] by (simp add: quiet_one undo_def is_append_def)
    ultimately show ?thesis by (intro exI conjI) (assumption, simp only: quiet_append)
  qed
qed (simp_all add: quiet_step_def)

text \<open>The rules a set-up appends to built-in chains, in order.\<close>

definition appended :: "Manager \<Rightarrow> cmd list" where
  "appended m =
     (if sticky m then map (mangle ''-A'') (sticky_prerouting (wgIface m))
      else (if wgIface m \<noteq> [] then map (mangle ''-A'') (mark_rules [''PREROUTING'', ''-i'', wgIface m]) else [])
        @ (if outboundMark m > 0 then [transitJumpRule ''-A'' (outboundMark m)] else []))
     @ nat_commands m"

definition take_back :: "cmd \<Rightarrow> cmd" where
  "take_back c = the (undo c)"

lemmas rule_defs = mangle_def nat_rule_def forward_rule_def clamp_mss_def transitJumpRule_def
  mark_rules_def sticky_prerouting_def

lemma take_back_simps [simp]:
  "take_back (mangle ''-A'' (''PREROUTING'' # s)) = mangle ''-D'' (''PREROUTING'' # s)"
  "take_back (transitJumpRule ''-A'' n) = transitJumpRule ''-D'' n"
  "take_back (nat_rule ''-A'' s) = nat_rule ''-D'' s"
  "take_back (forward_rule ''-A'' s) = forward_rule ''-D'' s"
  "take_back (clamp_mss ''-A'') = clamp_mss ''-D''"
  by (simp_all add: take_back_def undo_def rule_defs builtin_def)

lemma is_append_simps [simp]:
  "is_append (mangle ''-A'' (''PREROUTING'' # s))" "is_append (transitJumpRule ''-A'' n)"
  "is_append (nat_rule ''-A'' s)" "is_append (forward_rule ''-A'' s)" "is_append (clamp_mss ''-A'')"
  by (simp_all add: is_append_def rule_defs builtin_def)

lemma filter_append_nat [simp]: "filter is_append (nat_commands m) = nat_commands m"
  by (auto simp: nat_commands_def filter_id_conv)

lemma filter_append_pre [simp]:
  "filter is_append (map (mangle ''-A'') (mark_rules (''PREROUTING'' # s))) = map (mangle ''-A'') (mark_rules (''PREROUTING'' # s))"
  "filter is_append (map (mangle ''-A'') (sticky_prerouting w)) = map (mangle ''-A'') (sticky_prerouting w)"
  by (simp_all add: mark_rules_def sticky_prerouting_def)

lemma take_back_pre [simp]:
  "map take_back (map (mangle ''-A'') (mark_rules (''PREROUTING'' # s))) = map (mangle ''-D'') (mark_rules (''PREROUTING'' # s))"
  "map take_back (map (mangle ''-A'') (sticky_prerouting w)) = map (mangle ''-D'') (sticky_prerouting w)"
  by (simp_all add: mark_rules_def sticky_prerouting_def)

lemma mset_concat_add:
  "mset (concat (map (\<lambda>x. f x @ g x) xs)) = mset (concat (map f xs)) + mset (concat (map g xs))"
  by (induction xs) (simp_all add: ac_simps)

lemma map_concat_map: "map f (concat (map g xs)) = concat (map (\<lambda>x. map f (g x)) xs)"
  by (induction xs) simp_all

lemma concat_map_single: "concat (map (\<lambda>x. [f x]) xs) = map f xs"
  by (induction xs) simp_all

text \<open>Set-up and tear-down of the same rules, piece by piece.\<close>

definition nat_per_tun :: "string \<Rightarrow> Manager \<Rightarrow> cmd list" where
  "nat_per_tun op m = concat (map (\<lambda>t.
      (if wgIface m \<noteq> [] \<and> wgSubnet m \<noteq> [] then [nat_rule op [''-s'', wgSubnet m, ''-o'', t, ''-j'', ''MASQUERADE'']] else [])
      @ (if outboundMark m > 0 then [nat_rule op [''-o'', t, ''-j'', ''MASQUERADE'']] else [])) (tunIfaces m))"

definition forward_per_tun :: "string \<Rightarrow> Manager \<Rightarrow> cmd list" where
  "forward_per_tun op m =
     concat (map (\<lambda>t. if wgIface m \<noteq> [] then [forward_rule op [''-i'', t, ''-o'', wgIface m, ''-j'', ''ACCEPT'']] else [])
       (tunIfaces m))"

definition nat_wg :: "string \<Rightarrow> Manager \<Rightarrow> cmd list" where
  "nat_wg op m =
     (if wgIface m \<noteq> [] \<and> wgSubnet m \<noteq> [] then [nat_rule op [''-s'', wgSubnet m, ''!'', ''-o'', wgIface m, ''-j'', ''MASQUERADE'']] else [])
     @ (if wgIface m \<noteq> [] then
          [forward_rule op [''-i'', wgIface m, ''-j'', ''ACCEPT''],
           forward_rule op [''-o'', wgIface m, ''-m'', ''state'', ''--state'', ''RELATED,ESTABLISHED'', ''-j'', ''ACCEPT''],
           clamp_mss op]
        else [])"

definition teardown_per_tun :: "Manager \<Rightarrow> string list \<Rightarrow> cmd list" where
  "teardown_per_tun m ts = concat (map (\<lambda>t.
          (if wgSubnet m \<noteq> [] then [nat_rule ''-D'' [''-s'', wgSubnet m, ''-o'', t, ''-j'', ''MASQUERADE'']] else [])
          @ (if outboundMark m > 0 then [nat_rule ''-D'' [''-o'', t, ''-j'', ''MASQUERADE'']] else [])
          @ (if wgIface m \<noteq> [] then [forward_rule ''-D'' [''-i'', t, ''-o'', wgIface m, ''-j'', ''ACCEPT'']] else [])) ts)"

lemma nat_commands_mset:
  "mset (nat_commands m) = mset (nat_per_tun ''-A'' m) + mset (nat_wg ''-A'' m) + mset (forward_per_tun ''-A'' m)"
  by (cases "wgIface m = []")
    (simp_all add: nat_commands_def nat_per_tun_def nat_wg_def forward_per_tun_def concat_map_single)

lemma concat_submset:
  "(\<And>x. mset (f x) \<subseteq># mset (g x)) \<Longrightarrow> mset (concat (map f xs)) \<subseteq># mset (concat (map g xs))"
  by (induction xs) (simp_all add: subset_mset.add_mono)

lemma take_back_nat [simp]:
  "map take_back (nat_per_tun ''-A'' m) = nat_per_tun ''-D'' m"
  "map take_back (nat_wg ''-A'' m) = nat_wg ''-D'' m"
  "map take_back (forward_per_tun ''-A'' m) = forward_per_tun ''-D'' m"
  by (auto simp: nat_per_tun_def nat_wg_def forward_per_tun_def map_concat_map intro!: arg_cong [where f = concat])

lemma teardown_tuns:
  "mset (nat_per_tun ''-D'' m) + mset (forward_per_tun ''-D'' m) \<subseteq># mset (teardown_per_tun m (tunIfaces m))"
  unfolding nat_per_tun_def forward_per_tun_def teardown_per_tun_def mset_concat_add [symmetric]
  by (rule concat_submset) simp

lemma appended_taken_back: "mset (map take_back (appended m)) \<subseteq># mset (teardown_commands m)"
proof -
  have n: "mset (map take_back (nat_commands m))
      = mset (nat_per_tun ''-D'' m) + mset (nat_wg ''-D'' m) + mset (forward_per_tun ''-D'' m)"
    by (simp only: mset_map nat_commands_mset image_mset_union)
      (simp only: mset_map [symmetric] take_back_nat)
  let ?t = "mset (teardown_per_tun m (tunIfaces m))"
  let ?pre = "if sticky m then map (mangle ''-D'') (sticky_prerouting (wgIface m))
      else (if wgIface m \<noteq> [] then map (mangle ''-D'') (mark_rules [''PREROUTING'', ''-i'', wgIface m]) else [])
        @ (if outboundMark m > 0 then [transitJumpRule ''-D'' (outboundMark m)] else [])"
  have "map take_back (appended m) = ?pre @ map take_back (nat_commands m)"
    by (simp add: appended_def del: map_map)
  then have a: "mset (map take_back (appended m)) = mset ?pre + mset (map take_back (nat_commands m))"
    by (simp only: mset_append)
  let ?rest = "mset (map (\<lambda>ip. [''ip'', ''route'', ''del'', ip @ ''/32'']) (serverIPs m))
      + mset (if sticky m then drop 5 (sticky_teardown m)
              else [[''ip'', ''rule'', ''del'', ''fwmark'', MarkTunnel, ''table'', TableTunnel],
                    [''ip'', ''route'', ''flush'', ''table'', TableTunnel]])
      + mset (if outboundMark m > 0 then (if sticky m then [transitJumpRule ''-D'' (outboundMark m)] else [])
                @ [mangle ''-F'' [outChain], mangle ''-X'' [outChain]] else [])
      + mset (map (\<lambda>s. [''ipset'', ''destroy'', s]) [IPSetDirect, IPSetProxy, IPSetDirect @ ''-tmp'', IPSetProxy @ ''-tmp''])"
  have five: "length (map (mangle ''-D'') (sticky_prerouting (wgIface m))) = 5"
    by (simp add: sticky_prerouting_def)
  have "mset (teardown_commands m) = mset ?pre + mset (nat_wg ''-D'' m) + ?t + ?rest"
    using five
    by (cases "sticky m"; cases "wgIface m = []"; cases "outboundMark m > 0")
      (simp_all add: teardown_commands_def teardown_per_tun_def sticky_teardown_def nat_wg_def)
  then have "mset ?pre + mset (nat_wg ''-D'' m) + ?t \<subseteq># mset (teardown_commands m)"
    by (metis mset_subset_eq_add_left)
  moreover have "mset (map take_back (appended m)) \<subseteq># mset ?pre + mset (nat_wg ''-D'' m) + ?t"
    unfolding a n using teardown_tuns [of m]
    by (simp add: ac_simps subset_mset.add_left_mono)
  ultimately show ?thesis by (rule subset_mset.order_trans [rotated])
qed

lemma covered_appended: "set cs \<subseteq> set (appended m) \<Longrightarrow> covered m cs"
proof -
  assume s: "set cs \<subseteq> set (appended m)"
  have "set (map take_back (appended m)) \<subseteq> set (teardown_commands m)"
    using set_mset_mono [OF appended_taken_back [of m]] by simp
  then have "take_back c \<in> set (teardown_commands m)" if "c \<in> set cs" for c using s that by auto
  then show ?thesis unfolding covered_def take_back_def by (metis option.sel)
qed

lemma quiet_create: "quiet_step m [[''ipset'', ''create'', IPSetDirect, ''hash:net'', ''-exist''],
    [''ipset'', ''create'', IPSetProxy, ''hash:net'', ''-exist'']]"
  by (simp add: quiet_step_def covered_def undo_def is_append_def teardown_commands_def)

lemma quiet_entries: "quiet_step m (map (\<lambda>n. add_entry s (f n)) ns)"
  by (auto simp: quiet_step_def covered_def undo_def is_append_def add_entry_def filter_empty_conv)

lemma quiet_out_chain:
  "0 < outboundMark m \<Longrightarrow> quiet_step m (mangle ''-N'' [outChain] # outChainRules)"
  by (auto simp: quiet_step_def covered_def undo_def is_append_def outChainRules_def mark_rules_def mangle_def
      teardown_commands_def)

lemma quiet_policy:
  "\<not> sticky m \<Longrightarrow> quiet_step m [[''ip'', ''rule'', ''add'', ''fwmark'', MarkTunnel, ''table'', TableTunnel],
     [''ip'', ''route'', ''replace'', ''unreachable'', ''default'', ''metric'', fallbackMetric, ''table'', TableTunnel]]"
  "\<not> sticky m \<Longrightarrow> quiet_step m [ecmp_args active]"
  by (simp_all add: quiet_step_def covered_def undo_def is_append_def teardown_commands_def ecmp_args_def
      fallbackMetric_def)

lemma quiet_sticky:
  assumes "sticky m" "i < length (tunIfaces m)"
  shows "quiet_step m [[''ip'', ''rule'', ''add'', ''fwmark'', stickyMark i, ''table'', stickyTable i]]"
    "quiet_step m [[''ip'', ''route'', ''replace'', ''unreachable'', ''default'', ''metric'', fallbackMetric, ''table'', stickyTable i]]"
    "ifc \<noteq> ''table'' \<Longrightarrow> quiet_step m [[''ip'', ''route'', ''replace'', ''default'', ''dev'', ifc, ''table'', stickyTable i]]"
proof -
  have "[''ip'', ''route'', ''flush'', ''table'', stickyTable i] \<in> set (teardown_commands m)"
    "[''ip'', ''rule'', ''del'', ''fwmark'', stickyMark i, ''table'', stickyTable i] \<in> set (teardown_commands m)"
    using assms by (auto simp: teardown_commands_def sticky_teardown_def)
  then show "quiet_step m [[''ip'', ''rule'', ''add'', ''fwmark'', stickyMark i, ''table'', stickyTable i]]"
    "quiet_step m [[''ip'', ''route'', ''replace'', ''unreachable'', ''default'', ''metric'', fallbackMetric, ''table'', stickyTable i]]"
    "ifc \<noteq> ''table'' \<Longrightarrow> quiet_step m [[''ip'', ''route'', ''replace'', ''default'', ''dev'', ifc, ''table'', stickyTable i]]"
    by (simp_all add: quiet_step_def covered_def undo_def is_append_def fallbackMetric_def)
qed

lemma quiet_chain:
  "sticky m \<Longrightarrow> quiet_step m [mangle ''-N'' [stickyChain], mangle ''-F'' [stickyChain]]"
  "quiet_step m [[''iptables-restore'', ''--noflush'']]"
  by (auto simp: quiet_step_def covered_def undo_def is_append_def mangle_def teardown_commands_def sticky_teardown_def)

lemma policy_trace:
  assumes "setupPolicyRouting (recorder up r) (m, k) = (None, m', k')" "\<not> sticky m"
  shows "\<exists>cs act. k' = k @ cs \<and> quiet_step m cs \<and> m' = m\<lparr>activeIface := act\<rparr>"
proof -
  let ?p = "[[''ip'', ''rule'', ''add'', ''fwmark'', MarkTunnel, ''table'', TableTunnel],
     [''ip'', ''route'', ''replace'', ''unreachable'', ''default'', ''metric'', fallbackMetric, ''table'', TableTunnel]]"
  from assms(1) have "k' = k @ ?p \<and> m' = m \<or> (\<exists>act. k' = k @ ?p @ [ecmp_args act] \<and> m' = m\<lparr>activeIface := act\<rparr>)"
    by (auto simp: setupPolicyRouting_def addFallbackRoute_def Let_def RebuildECMP_def split: if_splits)
  moreover have "m = m\<lparr>activeIface := activeIface m\<rparr>" by simp
  ultimately show ?thesis
    using quiet_policy [OF assms(2)] quiet_append [of m ?p] by (metis append.assoc)
qed

lemma sticky_tables_trace:
  assumes "each (sticky_table_step (recorder up r)) (zip [0..<length (tunIfaces m)] (tunIfaces m)) k = (None, k1)"
    and "sticky m" "''table'' \<notin> set (tunIfaces m)"
  shows "\<exists>cs. k1 = k @ cs \<and> quiet_step m cs"
proof (rule each_trace [OF _ _ _ assms(1)])
  let ?T = "recorder up r" and ?z = "zip [0..<length (tunIfaces m)] (tunIfaces m)"
  fix x k k'
  assume x: "x \<in> set ?z" "sticky_table_step ?T x k = (None, k')"
  obtain i ifc where i: "x = (i, ifc)" "i < length (tunIfaces m)" "ifc \<in> set (tunIfaces m)"
    using x(1) set_zip_leftD [of _ _ "[0..<length (tunIfaces m)]" "tunIfaces m"]
      set_zip_rightD [of _ _ "[0..<length (tunIfaces m)]" "tunIfaces m"]
    by (metis atLeast_upt lessThan_iff prod.collapse)
  then have "ifc \<noteq> ''table''" using assms(3) by auto
  note q = quiet_sticky [OF assms(2) i(2)] quiet_sticky(3) [OF assms(2) i(2) this]
  from x(2) q show "\<exists>cs. k' = k @ cs \<and> quiet_step m cs"
    by (auto simp: sticky_table_step_def addFallbackRoute_def i(1) quiet_Cons2 split: if_splits)
qed (simp_all add: quiet_step_def)

lemma pin_routes_trace:
  assumes "each (pin_route m (recorder up r)) (existingIfaces T (tunIfaces m) k0) k = (None, k1)" "sticky m"
    and "ifaceIdx m = map_of (rev (zip (tunIfaces m) [0..<length (tunIfaces m)]))" "''table'' \<notin> set (tunIfaces m)"
  shows "\<exists>cs. k1 = k @ cs \<and> quiet_step m cs"
proof (rule each_trace [OF _ _ _ assms(1)])
  fix ifc k k'
  assume i: "ifc \<in> set (existingIfaces T (tunIfaces m) k0)" "pin_route m (recorder up r) ifc k = (None, k')"
  then obtain idx where idx: "ifaceIdx m ifc = Some idx"
    and k': "k' = k @ [[''ip'', ''route'', ''replace'', ''default'', ''dev'', ifc, ''table'', stickyTable idx]]"
    by (auto simp: pin_route_def split: option.splits)
  from idx have "idx < length (tunIfaces m)" by (auto simp: assms(3) dest!: map_of_SomeD simp: set_zip)
  moreover have "ifc \<noteq> ''table''" using i(1) assms(4) by (auto simp: existingIfaces_def filterIfaces_def)
  ultimately show "\<exists>cs. k' = k @ cs \<and> quiet_step m cs"
    using quiet_sticky(3) [OF assms(2)] k' by blast
qed (simp_all add: quiet_step_def)

lemma rebuild_sticky_trace:
  assumes "RebuildSticky (recorder up r) (existingIfaces T (tunIfaces m) k0) (m, k) = (None, m', k')" "sticky m"
    and "ifaceIdx m = map_of (rev (zip (tunIfaces m) [0..<length (tunIfaces m)]))" "''table'' \<notin> set (tunIfaces m)"
  shows "\<exists>cs act. k' = k @ cs \<and> quiet_step m cs \<and> m' = m\<lparr>activeIface := act\<rparr>"
proof -
  let ?ex = "existingIfaces T (tunIfaces m) k0"
  show ?thesis
  proof (cases "?ex = [] \<or> sameStringSet ?ex (activeIface m)")
    case True
    with assms(1) have "k' = k @ [] \<and> m' = m\<lparr>activeIface := activeIface m\<rparr>"
      by (auto simp: RebuildSticky_def split: if_splits)
    then show ?thesis by (metis quiet_step_def covered_Nil filter.simps(1))
  next
    case False
    obtain e3 k3 where p: "each (pin_route m (recorder up r)) ?ex k = (e3, k3)" by fastforce
    with assms(1) False have e3: "e3 = None" and k': "k' = k3 @ [[''iptables-restore'', ''--noflush'']]"
      and m': "m' = m\<lparr>activeIface := ?ex\<rparr>"
      by (auto simp: RebuildSticky_def split: option.splits sum.splits)
    from pin_routes_trace [OF p [unfolded e3] assms(2-4)] obtain c3 where c3: "k3 = k @ c3" "quiet_step m c3" by blast
    show ?thesis
      by (rule exI [of _ "c3 @ [[''iptables-restore'', ''--noflush'']]"], rule exI [of _ ?ex])
        (use c3 k' m' quiet_chain(2) in simp)
  qed
qed

lemma sticky_trace:
  assumes "setupStickyRouting (recorder up r) (m, k) = (None, m', k')" "sticky m"
    and "ifaceIdx m = map_of (rev (zip (tunIfaces m) [0..<length (tunIfaces m)]))" "''table'' \<notin> set (tunIfaces m)"
  shows "\<exists>cs act. k' = k @ cs \<and> quiet_step m cs \<and> m' = m\<lparr>activeIface := act\<rparr>"
proof -
  let ?T = "recorder up r" and ?z = "zip [0..<length (tunIfaces m)] (tunIfaces m)"
  obtain e1 k1 where z: "each (sticky_table_step ?T) ?z k = (e1, k1)" by fastforce
  with assms(1) have "e1 = None" by (auto simp: setupStickyRouting_def split: option.splits)
  from sticky_tables_trace [OF z [unfolded this] assms(2,4)] obtain c1 where c1: "k1 = k @ c1" "quiet_step m c1" by blast
  let ?k2 = "k1 @ [mangle ''-N'' [stickyChain], mangle ''-F'' [stickyChain]]"
  have "RebuildSticky ?T (existingIfaces ?T (tunIfaces m) ?k2) (m, ?k2) = (None, m', k')"
    using assms(1) z \<open>e1 = None\<close> by (simp add: setupStickyRouting_def Let_def)
  from rebuild_sticky_trace [OF this assms(2-4)] obtain c2 act where
    c2: "k' = ?k2 @ c2" "quiet_step m c2" "m' = m\<lparr>activeIface := act\<rparr>" by blast
  show ?thesis
    by (rule exI [of _ "c1 @ [mangle ''-N'' [stickyChain], mangle ''-F'' [stickyChain]] @ c2"], rule exI [of _ act])
      (use c1 c2 quiet_chain(1) [OF assms(2)] in \<open>simp only: append.assoc quiet_append simp_thms\<close>)
qed

lemma teardown_activeIface [simp]:
  "teardown_commands (m\<lparr>activeIface := a\<rparr>) = teardown_commands m"
  by (simp add: teardown_commands_def sticky_teardown_def)

lemma nat_activeIface [simp]: "nat_commands (m\<lparr>activeIface := a\<rparr>) = nat_commands m"
  by (simp add: nat_commands_def)

lemma thenM_None: "thenM r f = (None, s') \<longleftrightarrow> (\<exists>s. r = (None, s) \<and> f s = (None, s'))"
  by (cases r) (auto simp: thenM_def split: option.splits)

lemma lift_None: "lift_result m r = (None, s) \<longleftrightarrow> (\<exists>k. r = (None, k) \<and> s = (m, k))"
  by (cases r) (auto simp: lift_result_def)

lemma ctx_None_iff [simp]: "ctx c r = (None, k) \<longleftrightarrow> r = (None, k)"
  by (cases r) (auto simp: ctx_def)

lemma ctxM_None_iff [simp]: "ctxM c r = (None, s) \<longleftrightarrow> r = (None, s)"
  by (cases r) (auto simp: ctxM_def)

lemma andthen_None_iff: "andthen r f = (None, k') \<longleftrightarrow> (\<exists>k. r = (None, k) \<and> f k = (None, k'))"
  by (cases r) (auto simp: andthen_def split: option.splits)

lemma Setup_trace:
  assumes "Setup (recorder up r) subnets (m, []) = (None, m', tr)"
    and "ifaceIdx m = map_of (rev (zip (tunIfaces m) [0..<length (tunIfaces m)]))" "''table'' \<notin> set (tunIfaces m)"
  shows "covered m tr \<and> filter is_append tr = appended m \<and> (\<exists>act. m' = m\<lparr>activeIface := act\<rparr>)"
proof -
  let ?T = "recorder up r"
  from assms(1) obtain k1 where b: "each (addServerBypass ?T) (serverIPs m) [] = (None, k1)"
    by (auto simp: Setup_def thenM_None lift_None andthen_None_iff)
  from bypass_trace [OF b] have q1: "quiet_step m k1" by auto
  define k2 where "k2 = k1 @ [[''ipset'', ''create'', IPSetDirect, ''hash:net'', ''-exist''],
      [''ipset'', ''create'', IPSetProxy, ''hash:net'', ''-exist'']] @ map (\<lambda>n. add_entry IPSetDirect (net_string n)) subnets"
  have q2: "quiet_step m k2" unfolding k2_def quiet_append using q1 quiet_create quiet_entries by blast
  show ?thesis
  proof (cases "sticky m")
    case True
    from assms(1) b True obtain m1 k3 where s: "setupStickyRouting ?T (m, k2) = (None, m1, k3)"
      and e: "m' = m1" "tr = k3 @ map (mangle ''-A'') (sticky_prerouting (wgIface m1)) @ nat_commands m1"
      by (auto simp: Setup_def thenM_None lift_None andthen_None_iff createIPSets_def loadDirectSubnets_def
          k2_def setupStickyMangle_def setupNAT_def split: if_splits)
    from sticky_trace [OF s True assms(2,3)] obtain cs act
      where q: "k3 = k2 @ cs" "quiet_step m cs" "m1 = m\<lparr>activeIface := act\<rparr>" by blast
    have "appended m = map (mangle ''-A'') (sticky_prerouting (wgIface m)) @ nat_commands m"
      using True by (simp add: appended_def)
    then show ?thesis
      using q2 q e covered_appended [of "appended m" m] by (auto simp: quiet_step_def)
  next
    case False
    let ?pre = "if wgIface m \<noteq> [] then map (mangle ''-A'') (mark_rules [''PREROUTING'', ''-i'', wgIface m]) else []"
      and ?out = "if outboundMark m > 0 then mangle ''-N'' [outChain] # outChainRules else []"
      and ?jump = "if outboundMark m > 0 then [transitJumpRule ''-A'' (outboundMark m)] else []"
    let ?k3 = "k2 @ ?pre @ ?out @ ?jump"
    have mangle: "setupMangle m ?T k2 = (None, ?k3)" by (simp add: setupMangle_def)
    from assms(1) b False mangle obtain m1 k4 where s: "setupPolicyRouting ?T (m, ?k3) = (None, m1, k4)"
      and e: "m' = m1" "tr = k4 @ nat_commands m1"
      by (auto simp: Setup_def thenM_None lift_None andthen_None_iff createIPSets_def loadDirectSubnets_def
          k2_def setupNAT_def)
    from policy_trace [OF s False] obtain cs act
      where q: "k4 = ?k3 @ cs" "quiet_step m cs" "m1 = m\<lparr>activeIface := act\<rparr>" by blast
    have out: "quiet_step m ?out" using quiet_out_chain by (simp add: quiet_step_def)
    have "appended m = ?pre @ ?jump @ nat_commands m" using False by (simp add: appended_def)
    then show ?thesis
      using q2 q e out covered_appended [of "appended m" m] by (auto simp: quiet_step_def)
  qed
qed


definition demo_tools :: "cmd list tools" where
  "demo_tools = recorder (\<lambda>i. i = ''stun0'') ''default via 192.0.2.254 dev eth0''"


end
