(* ===== verification/RoutingRules.thy ===== *)
theory RoutingRules
  imports Routing "HOL-Library.Word"
begin

unbundle bit_operations_syntax

text \<open>
  What the rules of \<open>internal/routing\<close> do to packets and address sets. How \<open>iptables\<close> evaluates a
  rule and how \<open>ipset\<close> changes a set is documented behaviour of those programs: it is stated by
  the predicates \<open>marking_ok\<close>, \<open>selection_ok\<close> and \<open>ipset_ok\<close> on arbitrary operations.
\<close>

section \<open>Marking\<close>

text \<open>\<open>eval spec p k\<close> is the mark of packet \<open>p\<close>, now \<open>k\<close>, after a rule with the given specification.\<close>

definition marking_ok :: "(cmd \<Rightarrow> 'p \<Rightarrow> nat \<Rightarrow> nat) \<Rightarrow> ('p \<Rightarrow> string) \<Rightarrow> (string \<Rightarrow> 'p \<Rightarrow> bool) \<Rightarrow> bool" where
  "marking_ok eval iif ins \<longleftrightarrow>
     (\<forall>w r p k. eval (''-i'' # w # r) p k = (if iif p = w then eval r p k else k))
     \<and> (\<forall>s r p k. eval (''-m'' # ''set'' # ''--match-set'' # s # ''dst'' # r) p k = (if ins s p then eval r p k else k))
     \<and> (\<forall>v p k. eval [''-j'', ''MARK'', ''--set-mark'', ''0x'' @ fmt_x v] p k = v)"

text \<open>The specifications of the rules that commands append to a chain of the mangle table.\<close>

definition chain_specs :: "string \<Rightarrow> cmd list \<Rightarrow> cmd list" where
  "chain_specs chain cs =
     map (drop 5) (filter (\<lambda>c. take 5 c = [''iptables'', ''-t'', ''mangle'', ''-A'', chain]) cs)"

definition walk :: "(cmd \<Rightarrow> 'p \<Rightarrow> nat \<Rightarrow> nat) \<Rightarrow> cmd list \<Rightarrow> 'p \<Rightarrow> nat \<Rightarrow> nat" where
  "walk eval specs p k = fold (\<lambda>s. eval s p) specs k"

definition wanted_mark :: "(string \<Rightarrow> 'p \<Rightarrow> bool) \<Rightarrow> 'p \<Rightarrow> nat" where
  "wanted_mark ins p = (if ins IPSetProxy p then 1 else if ins IPSetDirect p then 0 else 1)"

lemma marks_text: "MarkTunnel = ''0x'' @ fmt_x 1" "MarkDirect = ''0x'' @ fmt_x 0"
  by (simp_all add: MarkTunnel_def MarkDirect_def fmt_x_def digits.simps lower_digit_def)

lemma chain_specs_append [simp]: "chain_specs c (a @ b) = chain_specs c a @ chain_specs c b"
  by (simp add: chain_specs_def)

lemma specs_rules:
  "chain_specs chain (map (mangle ''-A'') (mark_rules (chain # s))) = mark_rules s"
  "chain \<noteq> c \<Longrightarrow> chain_specs c (map (mangle ''-A'') (mark_rules (chain # s))) = []"
  by (simp_all add: chain_specs_def mark_rules_def mangle_def)

lemma walk_mark_rules:
  assumes "marking_ok eval iif ins"
  shows "walk eval (mark_rules []) p k = wanted_mark ins p"
    "walk eval (mark_rules [''-i'', w]) p k = (if iif p = w then wanted_mark ins p else k)"
  using assms
  by (simp_all add: walk_def mark_rules_def marking_ok_def wanted_mark_def marks_text)


text \<open>A concrete evaluator for the witnesses: marks are read back by comparison.\<close>

fun demo_eval :: "(string \<Rightarrow> 'p \<Rightarrow> bool) \<Rightarrow> ('p \<Rightarrow> string) \<Rightarrow> cmd \<Rightarrow> 'p \<Rightarrow> nat \<Rightarrow> nat" where
  "demo_eval ins iif (a # b # r) p k =
     (if a = ''-i'' then if iif p = b then demo_eval ins iif r p k else k
      else if a = ''-m'' \<and> b = ''set'' then
        (case r of
           c # s # d # r' \<Rightarrow> if ins s p then demo_eval ins iif r' p k else k
         | _ \<Rightarrow> k)
      else if a = ''-j'' \<and> b = ''MARK'' then
        (case r of
           [c, v] \<Rightarrow> undigits 16 (map (\<lambda>x. if is_digit x then char_digit x else of_char x - 87) (drop 2 v))
         | _ \<Rightarrow> k)
      else k)"
| "demo_eval ins iif _ p k = k"

lemma hex_digit_back: "d < 16 \<Longrightarrow> (if is_digit (lower_digit d) then char_digit (lower_digit d) else of_char (lower_digit d) - 87) = d"
  by (auto simp: is_digit_def lower_digit_def char_digit_def less_Suc_eq numeral_eq_Suc)

lemma fmt_x_back:
  "undigits 16 (map (\<lambda>x. if is_digit x then char_digit x else of_char x - 87) (fmt_x n)) = n"
proof -
  have "map (\<lambda>x. if is_digit x then char_digit x else of_char x - 87) (fmt_x n) = digits 16 n"
    using digits_less [of 16 _ n] by (auto simp: fmt_x_def hex_digit_back simp del: if_split intro!: map_idI)
  then show ?thesis by (simp add: undigits_digits)
qed

lemma demo_marking_ok: "marking_ok (demo_eval ins iif) iif ins"
  by (simp add: marking_ok_def fmt_x_back)


section \<open>Spreading new flows\<close>

text \<open>
  \<open>eval spec c k\<close> gives a rule's new counter and the packet's mark after the rule, from the counter
  \<open>c\<close> and mark \<open>k\<close> before; the counter is that of the rule's \<open>statistic\<close> match in mode \<open>nth\<close>, which
  matches the first of every \<open>n\<close> packets it sees. No rule of the chain ends it.
\<close>

definition selection_ok :: "(cmd \<Rightarrow> nat \<Rightarrow> 32 word \<Rightarrow> nat \<times> 32 word) \<Rightarrow> bool" where
  "selection_ok eval \<longleftrightarrow>
     (\<forall>r c k. eval (''-m'' # ''mark'' # ''--mark'' # ''0x0/0xf0'' # r) c k = (if k AND 0xf0 = 0 then eval r c k else (c, k)))
     \<and> (\<forall>n r c k. 0 < n \<longrightarrow>
          eval (''-m'' # ''statistic'' # ''--mode'' # ''nth'' # ''--every'' # fmt_d n # ''--packet'' # ''0'' # r) c k
            = (Suc c, if c mod n = 0 then snd (eval r 0 k) else k))
     \<and> (\<forall>v c k. eval [''-j'', ''MARK'', ''--set-mark'', ''0x'' @ fmt_x v] c k = (c, of_nat v))
     \<and> (\<forall>c k. eval [''-j'', ''CONNMARK'', ''--save-mark''] c k = (c, k))"

text \<open>A packet through the chain, and the counters after a number of new flows.\<close>

fun through :: "(cmd \<Rightarrow> nat \<Rightarrow> 32 word \<Rightarrow> nat \<times> 32 word) \<Rightarrow> cmd list \<Rightarrow> nat list \<Rightarrow> 32 word \<Rightarrow> nat list \<times> 32 word" where
  "through eval (s # specs) (c # cs) k =
     (let (c', k') = eval s c k; (cs', k'') = through eval specs cs k' in (c' # cs', k''))"
| "through eval _ cs k = ([], k)"

primrec counters_after :: "(cmd \<Rightarrow> nat \<Rightarrow> 32 word \<Rightarrow> nat \<times> 32 word) \<Rightarrow> cmd list \<Rightarrow> nat \<Rightarrow> nat list" where
  "counters_after eval specs 0 = replicate (length specs) 0"
| "counters_after eval specs (Suc n) = fst (through eval specs (counters_after eval specs n) 0)"

text \<open>The specifications of the selection chain: the rules without \<open>-A\<close> and the chain's name.\<close>

definition select_specs :: "string list \<Rightarrow> cmd list" where
  "select_specs marks = map (drop 2) (stickySelectRules marks)"

definition select_spec :: "nat \<Rightarrow> nat \<Rightarrow> string \<Rightarrow> cmd" where
  "select_spec k j mark = drop 2 (select_rule k j mark)"

lemma select_specs_eq:
  "select_specs marks = map (\<lambda>j. select_spec (length marks) j (marks ! j)) [0..<length marks]
     @ [[''-j'', ''CONNMARK'', ''--save-mark'']]"
  by (simp add: select_specs_def stickySelectRules_def select_spec_def)

lemma eval_select:
  assumes "selection_ok eval" "j < k"
  shows "eval (select_spec k j (''0x'' @ fmt_x v)) c mk =
    (if mk AND 0xf0 \<noteq> 0 then (c, mk)
     else if j + 1 < k then (Suc c, if c mod (k - j) = 0 then of_nat v else mk)
     else (c, of_nat v))"
  using assms unfolding selection_ok_def select_spec_def select_rule_def stickyMarkMask_def by simp

text \<open>The counters after \<open>n\<close> flows: rule \<open>j\<close> has seen the flows whose number modulo \<open>k\<close> is at least \<open>j\<close>.\<close>

definition seen :: "nat \<Rightarrow> nat \<Rightarrow> nat \<Rightarrow> nat" where
  "seen k n j = (if j + 1 < k then n div k * (k - j) + (n mod k - j) else 0)"

lemma seen_step:
  assumes "j < k"
  shows "seen k (Suc n) j = (if j \<le> n mod k \<and> j + 1 < k then Suc (seen k n j) else seen k n j)"
proof (cases "n mod k + 1 = k")
  case True
  then have "Suc n div k = Suc (n div k)" "Suc n mod k = 0"
    by (simp_all add: div_Suc mod_Suc)
  with True assms show ?thesis by (auto simp: seen_def)
next
  case False
  then have "Suc n div k = n div k" "Suc n mod k = Suc (n mod k)"
    using assms by (auto simp: div_Suc mod_Suc)
  with assms show ?thesis by (auto simp: seen_def Suc_diff_le)
qed

lemma seen_hits:
  assumes "j + 1 < k" "j \<le> n mod k"
  shows "seen k n j mod (k - j) = 0 \<longleftrightarrow> j = n mod k"
proof -
  have "n mod k - j < k - j" using assms by (simp add: diff_less_mono)
  then have "seen k n j mod (k - j) = n mod k - j"
    using assms(1) by (simp only: seen_def if_True mod_mult_self3 mod_less)
  then show ?thesis using assms(2) by auto
qed

lemma sticky_bits:
  assumes "i < 16"
  shows "(of_nat (stickyMarkBase + i) :: 32 word) AND 0xf0 = 0x10"
proof -
  have "list_all (\<lambda>i. (of_nat (16 + i) :: 32 word) AND 0xf0 = 0x10) [0..<16]" by code_simp
  with assms show ?thesis by (simp add: list_all_iff stickyMarkBase_def)
qed

text \<open>From rule \<open>j\<close> on, the chain marks an unmarked flow if its turn is at \<open>j\<close> or later.\<close>

lemma through_from:
  assumes "selection_ok eval" "0 < k" "\<forall>j<k. marks ! j = ''0x'' @ fmt_x (v j) \<and> (of_nat (v j) :: 32 word) AND 0xf0 \<noteq> 0"
    and "j \<le> k" "mk = (if n mod k < j then of_nat (v (n mod k)) else 0)"
  shows "through eval (map (\<lambda>j. select_spec k j (marks ! j)) [j..<k] @ [[''-j'', ''CONNMARK'', ''--save-mark'']])
           (map (seen k n) [j..<k] @ [0]) mk
         = (map (seen k (Suc n)) [j..<k] @ [0], of_nat (v (n mod k)))"
  using assms(4,5)
proof (induction "k - j" arbitrary: j mk)
  case 0
  moreover have "n mod k < k" using assms(2) by simp
  ultimately show ?case using assms(1) by (simp add: selection_ok_def)
next
  case (Suc d)
  then have j: "j < k" by simp
  have mj: "marks ! j = ''0x'' @ fmt_x (v j)" "(of_nat (v j) :: 32 word) AND 0xf0 \<noteq> 0" using assms(3) j by auto
  have "n mod k < k" using assms(2) by simp
  then have pick: "(of_nat (v (n mod k)) :: 32 word) AND 0xf0 \<noteq> 0" using assms(3) by auto
  have last: "\<not> Suc j < k \<Longrightarrow> n mod k \<le> j" using j \<open>n mod k < k\<close> by linarith
  let ?mk' = "if n mod k < Suc j then of_nat (v (n mod k)) else 0 :: 32 word"
  have e: "eval (select_spec k j (marks ! j)) (seen k n j) mk = (seen k (Suc n) j, ?mk')"
    using eval_select [OF assms(1) j, of "v j" "seen k n j" mk] Suc.prems(2) j pick seen_hits [of j k n] seen_step [OF j, of n]
      last
    by (auto simp: mj less_Suc_eq)
  have "d = k - Suc j" "Suc j \<le> k" using Suc.hyps(2) j by auto
  from Suc.hyps(1) [OF this refl] show ?case
    using j by (simp add: upt_conv_Cons e)
qed

lemma counters_seen:
  assumes "selection_ok eval" "0 < length marks"
    "\<forall>j<length marks. marks ! j = ''0x'' @ fmt_x (v j) \<and> (of_nat (v j) :: 32 word) AND 0xf0 \<noteq> 0"
  shows "counters_after eval (select_specs marks) n = map (seen (length marks) n) [0..<length marks] @ [0]"
proof (induction n)
  case 0
  have "seen (length marks) 0 j = 0" for j by (simp add: seen_def)
  then show ?case by (simp add: select_specs_eq map_replicate_const replicate_append_same)
next
  case (Suc n)
  with through_from [OF assms, of 0 0 n] show ?case by (simp add: select_specs_eq)
qed

text \<open>
  C23. New flows are spread evenly. In sticky mode with \<open>k\<close> active tunnels, under the documented
  evaluation of the rules, the selection chain that \<open>RebuildSticky\<close> installs gives the \<open>n\<close>-th new
  flow the mark of tunnel \<open>n mod k\<close>, for every \<open>n\<close>: round robin. Every mark it gives is recognised
  as pinned, and packets of pinned flows pass the chain with their mark unchanged.
\<close>

theorem sticky_round_robin:
  assumes "selection_ok eval" "active \<noteq> []" "\<forall>ifc\<in>set active. \<exists>i<16. ifaceIdx m ifc = Some i"
    and "sticky_marks m active = Inr marks"
  shows "snd (through eval (select_specs marks) (counters_after eval (select_specs marks) n) 0)
           = of_nat (stickyMarkBase + the (ifaceIdx m (active ! (n mod length active))))
    \<and> (of_nat (stickyMarkBase + the (ifaceIdx m (active ! (n mod length active)))) :: 32 word) AND 0xf0 = 0x10
    \<and> (\<forall>cs k. k AND 0xf0 \<noteq> 0 \<longrightarrow> length cs = length active + 1 \<longrightarrow> through eval (select_specs marks) cs k = (cs, k))"
proof -
  let ?v = "\<lambda>j. stickyMarkBase + the (ifaceIdx m (active ! j))"
  have marks: "marks = map (\<lambda>ifc. stickyMark (the (ifaceIdx m ifc))) active"
    using assms(4) by (auto simp: sticky_marks_def split: list.splits)
  have idx: "the (ifaceIdx m (active ! j)) < 16" if "j < length active" for j
    using assms(3) that by (metis nth_mem option.sel)
  have v: "\<forall>j<length marks. marks ! j = ''0x'' @ fmt_x (?v j) \<and> (of_nat (?v j) :: 32 word) AND 0xf0 \<noteq> 0"
    using sticky_bits [OF idx] by (simp add: marks stickyMark_def)
  have pos: "0 < length marks" using assms(2) by (simp add: marks)
  have len: "length marks = length active" by (simp add: marks)
  have "n mod length active < length active" using assms(2) by simp
  note bits = sticky_bits [OF idx [OF this]]
  have "through eval (select_specs marks) cs k = (cs, k)" if "k AND 0xf0 \<noteq> 0" "length cs = length active + 1" for cs k
  proof -
    have "through eval (map (\<lambda>j. select_spec (length marks) j (marks ! j)) [j..<length marks]
          @ [[''-j'', ''CONNMARK'', ''--save-mark'']]) cs k = (cs, k)"
      if "j \<le> length marks" "length cs = length marks - j + 1" for j cs
      using that
    proof (induction "length marks - j" arbitrary: j cs)
      case 0
      then obtain c where "cs = [c]" by (auto simp: length_Suc_conv)
      with 0 assms(1) show ?case by (simp add: selection_ok_def)
    next
      case (Suc d)
      then obtain c cs' where cs: "cs = c # cs'" by (cases cs) auto
      have j: "j < length marks" using Suc.hyps(2) by simp
      then have "eval (select_spec (length marks) j (marks ! j)) c k = (c, k)"
        using eval_select [OF assms(1) j] v \<open>k AND 0xf0 \<noteq> 0\<close> by simp
      with Suc.hyps(1) [of "Suc j" cs'] Suc.hyps(2) Suc.prems cs j show ?case
        by (simp add: upt_conv_Cons)
    qed
    from this [of 0 cs] that len show ?thesis by (simp add: select_specs_eq)
  qed
  moreover have "snd (through eval (select_specs marks) (counters_after eval (select_specs marks) n) 0) = of_nat (?v (n mod length marks))"
    unfolding counters_seen [OF assms(1) pos v]
    using through_from [OF assms(1) pos v, of 0 0 n] by (simp add: select_specs_eq)
  ultimately show ?thesis using bits by (simp only: len) blast
qed

function demo_select :: "cmd \<Rightarrow> nat \<Rightarrow> 32 word \<Rightarrow> nat \<times> 32 word" where
  "demo_select spec c k =
     (if take 4 spec = [''-m'', ''mark'', ''--mark'', ''0x0/0xf0''] then
        (if k AND 0xf0 = 0 then demo_select (drop 4 spec) c k else (c, k))
      else if take 5 spec = [''-m'', ''statistic'', ''--mode'', ''nth'', ''--every''] then
        (Suc c, if c mod undigits 10 (map char_digit (spec ! 5)) = 0 then snd (demo_select (drop 8 spec) 0 k) else k)
      else if take 3 spec = [''-j'', ''MARK'', ''--set-mark''] then
        (c, of_nat (undigits 16 (map (\<lambda>x. if is_digit x then char_digit x else of_char x - 87) (drop 2 (spec ! 3)))))
      else (c, k))"
  by pat_completeness auto
termination
  by (relation "measure (\<lambda>(spec, c, k). length spec)") (auto dest!: arg_cong [where f = length])

declare demo_select.simps [simp del]

lemma demo_selection_ok: "selection_ok demo_select"
  unfolding selection_ok_def
  by (intro conjI allI impI; subst demo_select.simps) (simp_all add: fmt_x_back)

definition demo_sticky :: Manager where
  "demo_sticky = NewManager ''wg0'' [''stun0'', ''stun1'', ''stun2''] ''10.8.0.0/24'' [] 0 True"

theorem sticky_round_robin_witness:
  "snd (through demo_select (select_specs [stickyMark 0, stickyMark 2])
      (counters_after demo_select (select_specs [stickyMark 0, stickyMark 2]) 7) 0) = 0x12"
proof -
  have idx: "ifaceIdx demo_sticky ''stun0'' = Some 0" "ifaceIdx demo_sticky ''stun2'' = Some 2"
    by (simp_all add: demo_sticky_def NewManager_def upt_rec [of _ 3] upt_rec [of _ "Suc _"])
  have "sticky_marks demo_sticky [''stun0'', ''stun2''] = Inr [stickyMark 0, stickyMark 2]"
    by (simp add: sticky_marks_def idx)
  moreover have "7 mod Suc (Suc 0) = (1 :: nat)" by (simp flip: numeral_2_eq_2)
  ultimately show ?thesis
    using sticky_round_robin [OF demo_selection_ok, of "[''stun0'', ''stun2'']" demo_sticky _ 7]
    by (simp add: idx stickyMarkBase_def)
qed

section \<open>Address sets\<close>

text \<open>
  \<open>sets k s\<close> are the entries of set \<open>s\<close> in kernel state \<open>k\<close>, if it exists. With \<open>-exist\<close>, creating
  an existing set and adding an existing entry succeed.
\<close>

definition ipset_ok :: "'k tools \<Rightarrow> ('k \<Rightarrow> string \<rightharpoonup> string set) \<Rightarrow> bool" where
  "ipset_ok T sets \<longleftrightarrow>
     (\<forall>k s. fst (t_run T [''ipset'', ''create'', s, ''hash:net'', ''-exist''] k) = None
        \<and> sets (snd (t_run T [''ipset'', ''create'', s, ''hash:net'', ''-exist''] k))
            = (if sets k s = None then (sets k)(s \<mapsto> {}) else sets k))
     \<and> (\<forall>k s x. sets k s = Some x \<longrightarrow> sets (snd (t_run T [''ipset'', ''flush'', s] k)) = (sets k)(s \<mapsto> {}))
     \<and> (\<forall>k s x e. sets k s = Some x \<longrightarrow> sets (snd (t_run T (add_entry s e) k)) = (sets k)(s \<mapsto> insert e x))
     \<and> (\<forall>k a b x y. sets k a = Some x \<and> sets k b = Some y \<longrightarrow>
          fst (t_run T [''ipset'', ''swap'', a, b] k) = None
          \<and> sets (snd (t_run T [''ipset'', ''swap'', a, b] k)) = (sets k)(a \<mapsto> y, b \<mapsto> x))
     \<and> (\<forall>k s. sets (snd (t_run T [''ipset'', ''destroy'', s] k)) = (sets k)(s := None))"

lemma snd_run [simp]: "snd (run T c k) = snd (t_run T c k)" "fst (run T c k) = map_option RunFailed (fst (t_run T c k))"
  by (simp_all add: run_def split: prod.splits)

lemma add_entries:
  assumes "ipset_ok T sets" "sets k s = Some x"
  shows "sets (try_all T (map (\<lambda>n. add_entry s (f n)) ns) k) = (sets k)(s \<mapsto> x \<union> f ` set ns)"
  using assms(2)
proof (induction ns arbitrary: k x)
  case Nil
  then show ?case by (auto simp: try_all_def)
next
  case (Cons n ns)
  have "sets (try_run T (add_entry s (f n)) k) = (sets k)(s \<mapsto> insert (f n) x)"
    using assms(1) Cons.prems by (simp add: ipset_ok_def try_run_def)
  with Cons.IH [of "try_run T (add_entry s (f n)) k" "insert (f n) x"] show ?case
    by (simp add: try_all_def) (auto simp: fun_eq_iff)
qed

lemma ipset_okD:
  assumes "ipset_ok T sets"
  shows "fst (t_run T [''ipset'', ''create'', s, ''hash:net'', ''-exist''] k) = None"
    "sets (snd (t_run T [''ipset'', ''create'', s, ''hash:net'', ''-exist''] k)) = (if sets k s = None then (sets k)(s \<mapsto> {}) else sets k)"
    "sets k s = Some x \<Longrightarrow> sets (try_run T [''ipset'', ''flush'', s] k) = (sets k)(s \<mapsto> {})"
    "sets k a = Some x \<Longrightarrow> sets k b = Some y \<Longrightarrow> fst (t_run T [''ipset'', ''swap'', a, b] k) = None"
    "sets k a = Some x \<Longrightarrow> sets k b = Some y \<Longrightarrow> sets (snd (t_run T [''ipset'', ''swap'', a, b] k)) = (sets k)(a \<mapsto> y, b \<mapsto> x)"
    "sets (try_run T [''ipset'', ''destroy'', s] k) = (sets k)(s := None)"
  using assms by (simp_all add: ipset_ok_def try_run_def)

text \<open>
  The set of direct networks is replaced as a whole. Under the documented behaviour of \<open>ipset\<close>,
  \<open>UpdateDirectIPs\<close> succeeds, leaves exactly the new subnets in the direct set, whatever it held
  before (the exceptions that \<open>applyCIDRs\<close> and \<open>resolveDomains\<close> had added to it included), removes
  its temporary set and touches no other set.
\<close>

theorem direct_set_replaced:
  assumes "ipset_ok T sets" "sets k IPSetDirect = Some old"
  shows "\<exists>k'. UpdateDirectIPs T subnets k = (None, k')
    \<and> sets k' = (sets k)(IPSetDirect \<mapsto> net_string ` set subnets, IPSetDirect @ ''-tmp'' := None)"
proof -
  let ?tmp = "IPSetDirect @ ''-tmp''"
  have ne: "?tmp \<noteq> IPSetDirect" by simp
  obtain e1 k1 where c: "t_run T [''ipset'', ''create'', ?tmp, ''hash:net'', ''-exist''] k = (e1, k1)" by fastforce
  then have e1: "e1 = None" and s1: "\<exists>x. sets k1 ?tmp = Some x" "\<And>s. s \<noteq> ?tmp \<Longrightarrow> sets k1 s = sets k s"
    using ipset_okD(1,2) [OF assms(1), of ?tmp k] by (auto split: if_splits)
  let ?k2 = "try_run T [''ipset'', ''flush'', ?tmp] k1"
  have s2: "sets ?k2 = (sets k1)(?tmp \<mapsto> {})"
    using s1(1) ipset_okD(3) [OF assms(1)] by blast
  let ?k3 = "try_all T (map (\<lambda>n. add_entry ?tmp (net_string n)) subnets) ?k2"
  have s3: "sets ?k3 = (sets k1)(?tmp \<mapsto> net_string ` set subnets)"
    using add_entries [OF assms(1), of ?k2 ?tmp "{}" net_string subnets] s2 by simp
  have d3: "sets ?k3 IPSetDirect = Some old" using s3 ne s1(2) assms(2) by simp
  obtain e4 k4 where w: "t_run T [''ipset'', ''swap'', ?tmp, IPSetDirect] ?k3 = (e4, k4)" by fastforce
  have "sets ?k3 ?tmp = Some (net_string ` set subnets)" using s3 by simp
  note D = ipset_okD [OF assms(1)]
  from D(4) [OF \<open>sets ?k3 ?tmp = _\<close> d3] D(5) [OF \<open>sets ?k3 ?tmp = _\<close> d3] w have e4: "e4 = None"
    and s4: "sets k4 = (sets ?k3)(?tmp \<mapsto> old, IPSetDirect \<mapsto> net_string ` set subnets)"
    by simp_all
  let ?k5 = "try_run T [''ipset'', ''destroy'', ?tmp] k4"
  have "sets ?k5 = (sets k4)(?tmp := None)"
    by (rule ipset_okD(6) [OF assms(1)])
  then have "sets ?k5 = (sets k)(IPSetDirect \<mapsto> net_string ` set subnets, ?tmp := None)"
    using s4 s3 s1(2) ne by (auto simp: fun_eq_iff)
  moreover have "UpdateDirectIPs T subnets k = (None, ?k5)"
    using c e1 w e4 by (simp add: UpdateDirectIPs_def Let_def run_def ctx_def)
  ultimately show ?thesis by blast
qed

text \<open>A concrete kernel for the witness: the sets themselves.\<close>

definition demo_ipset :: "(string \<rightharpoonup> string set) tools" where
  "demo_ipset = \<lparr>t_run = (\<lambda>c k.
       if take 2 c = [''ipset'', ''create''] then (None, if k (c ! 2) = None then k(c ! 2 \<mapsto> {}) else k)
       else if take 2 c = [''ipset'', ''flush''] then (None, k(c ! 2 \<mapsto> {}))
       else if take 2 c = [''ipset'', ''add''] then (None, k(c ! 2 \<mapsto> insert (c ! 3) (the (k (c ! 2)))))
       else if take 2 c = [''ipset'', ''swap''] then (None, k(c ! 2 := k (c ! 3), c ! 3 := k (c ! 2)))
       else if take 2 c = [''ipset'', ''destroy''] then (None, k(c ! 2 := None))
       else (None, k)),
     t_stdin = (\<lambda>_ _ k. (None, k)), t_default = (\<lambda>_. None), t_link = (\<lambda>_ _. False)\<rparr>"

lemma demo_ipset_ok: "ipset_ok demo_ipset (\<lambda>k. k)"
  unfolding ipset_ok_def
  by (intro conjI allI impI) (simp_all add: demo_ipset_def add_entry_def fun_eq_iff)

theorem direct_set_replaced_witness:
  "\<exists>k'. UpdateDirectIPs demo_ipset [\<lparr>net_ip = [10, 9, 0, 0], net_ones = 16\<rparr>]
       (applyCIDRs demo_ipset [\<lparr>Domain = [], CIDR = ''192.0.2.0/24'', Direction = ''direct''\<rparr>]
          [IPSetDirect \<mapsto> {}]) = (None, k')
     \<and> k' IPSetDirect = Some {''10.9.0.0/16''}"
proof -
  let ?k = "applyCIDRs demo_ipset [\<lparr>Domain = [], CIDR = ''192.0.2.0/24'', Direction = ''direct''\<rparr>] [IPSetDirect \<mapsto> {}]"
  have "?k IPSetDirect = Some {''192.0.2.0/24''}"
    by (simp add: applyCIDRs_def add_by_direction_def AddDirectIP_def demo_ipset_def add_entry_def)
  from direct_set_replaced [of demo_ipset "\<lambda>k. k" ?k _ "[\<lparr>net_ip = [10, 9, 0, 0], net_ones = 16\<rparr>]",
      OF demo_ipset_ok this]
  obtain k' where k': "UpdateDirectIPs demo_ipset [\<lparr>net_ip = [10, 9, 0, 0], net_ones = 16\<rparr>] ?k = (None, k')"
    "k' = (?k)(IPSetDirect \<mapsto> net_string ` set [\<lparr>net_ip = [10, 9, 0, 0], net_ones = 16\<rparr>], IPSetDirect @ ''-tmp'' := None)"
    by blast
  have "net_string \<lparr>net_ip = [10, 9, 0, 0], net_ones = 16\<rparr> = ''10.9.0.0/16''" by code_simp
  with k' show ?thesis by (intro exI [of _ k']) simp
qed

end
