(* ===== verification/Frame.thy ===== *)
theory Frame
  imports Config
begin

text \<open>
  Component \<open>internal/proto\<close>: \<open>crypto.go\<close>, \<open>padding.go\<close> and \<open>frame.go\<close>. A frame is
  \<open>[version 1][type 1][payload length 2][padding length 2][nonce 12][AEAD(payload, padding)]\<close>
  with the first six header bytes as additional data. ChaCha20-Poly1305 and HKDF are code
  outside the repository: the AEAD is a record of operations passed to the model, and what
  the frame codec needs of it is the predicate \<open>aead_ok\<close>, the documented contract of Go's
  \<open>cipher.AEAD\<close>. Randomness is read from a tape.
\<close>

section \<open>Ciphers (\<open>crypto.go\<close>)\<close>

definition KeySize :: nat where "KeySize = 32"
definition NonceSize :: nat where "NonceSize = 12"
definition ECDHKeySize :: nat where "ECDHKeySize = 32"

text \<open>Arguments of the operations in Go's order: nonce, text, additional data.\<close>

record AEAD =
  aead_overhead :: nat
  aead_seal :: "bytes \<Rightarrow> bytes \<Rightarrow> bytes \<Rightarrow> bytes"
  aead_open :: "bytes \<Rightarrow> bytes \<Rightarrow> bytes \<Rightarrow> bytes option"

record Cipher =
  cipher_aead :: AEAD

definition NewCipher :: "(bytes \<Rightarrow> AEAD option) \<Rightarrow> bytes \<Rightarrow> Cipher option" where
  "NewCipher chacha_new key = map_option (\<lambda>a. \<lparr>cipher_aead = a\<rparr>) (chacha_new key)"

definition Overhead :: "Cipher \<Rightarrow> nat" where
  "Overhead c = aead_overhead (cipher_aead c)"

definition Seal :: "Cipher \<Rightarrow> bytes \<Rightarrow> bytes \<Rightarrow> bytes \<Rightarrow> bytes \<Rightarrow> bytes" where
  "Seal c dst nonce plaintext ad = dst @ aead_seal (cipher_aead c) nonce plaintext ad"

definition Open :: "Cipher \<Rightarrow> bytes \<Rightarrow> bytes \<Rightarrow> bytes \<Rightarrow> bytes \<Rightarrow> bytes option" where
  "Open c dst nonce ciphertext ad =
     map_option (\<lambda>p. dst @ p) (aead_open (cipher_aead c) nonce ciphertext ad)"

text \<open>\<open>hkdf ikm salt info n\<close> reads \<open>n\<close> bytes of HKDF-SHA256 output.\<close>

definition DeriveKey ::
  "(bytes \<Rightarrow> bytes \<Rightarrow> bytes \<Rightarrow> nat \<Rightarrow> bytes option) \<Rightarrow> bytes \<Rightarrow> bytes \<Rightarrow> bytes \<Rightarrow> bytes option" where
  "DeriveKey hkdf psk ecdhSecret salt =
     hkdf (psk @ ecdhSecret) salt (bytes_of ''shadowtunnel-session-v1'') KeySize"

definition aead_ok :: "Cipher \<Rightarrow> bool" where
  "aead_ok c \<longleftrightarrow>
     (\<forall>nonce p ad. length nonce = NonceSize \<longrightarrow>
        length (aead_seal (cipher_aead c) nonce p ad) = length p + Overhead c
        \<and> aead_open (cipher_aead c) nonce (aead_seal (cipher_aead c) nonce p ad) ad = Some p)
     \<and> (\<forall>nonce x ad p. aead_open (cipher_aead c) nonce x ad = Some p
          \<longrightarrow> length x = length p + Overhead c)"

section \<open>Padding (\<open>padding.go\<close>)\<close>

text \<open>Go's \<open>%\<close> on integers: the remainder takes the sign of the dividend.\<close>

definition go_rem :: "int \<Rightarrow> int \<Rightarrow> int" where
  "go_rem a b = sgn a * (\<bar>a\<bar> mod \<bar>b\<bar>)"

datatype frame_error =
    PayloadTooLarge nat
  | InvalidPaddingRange int int
  | ReadHeader io_error
  | UnsupportedVersion byte
  | ReadCiphertext io_error
  | DecryptFailed
  | PanicDivide
  | PanicSlice

definition GeneratePadding :: "int \<Rightarrow> int \<Rightarrow> tape \<Rightarrow> (frame_error + bytes) \<times> tape" where
  "GeneratePadding mn mx t =
     (if mn < 0 \<or> mx < 0 \<or> mn > mx then (Inl (InvalidPaddingRange mn mx), t)
      else if mx = 0 then (Inr [], t)
      else
        let rangeSize = mx - mn + 1;
            (buf, t1) = rand_read 2 t;
            padLen = mn + go_rem (uint (get_u16 buf)) rangeSize;
            (padding, t2) = rand_read (nat padLen) t1
        in (Inr padding, t2))"

definition PadPayload ::
  "bytes \<Rightarrow> PaddingConfig \<Rightarrow> tape \<Rightarrow> (frame_error + (bytes \<times> 16 word)) \<times> tape" where
  "PadPayload payload padCfg t =
     (case GeneratePadding (pad_min padCfg) (pad_max padCfg) t of
        (Inl e, t') \<Rightarrow> (Inl e, t')
      | (Inr padding, t') \<Rightarrow> (Inr (payload @ padding, of_nat (length padding)), t'))"

section \<open>Frames (\<open>frame.go\<close>)\<close>

definition Version :: byte where "Version = 0x01"

definition FrameData :: byte where "FrameData = 0x01"
definition FrameKeepalive :: byte where "FrameKeepalive = 0x02"
definition FrameHandshake :: byte where "FrameHandshake = 0x03"
definition FrameClose :: byte where "FrameClose = 0x04"
definition FrameAssign :: byte where "FrameAssign = 0x05"
definition FrameDecoy :: byte where "FrameDecoy = 0x06"
definition FramePing :: byte where "FramePing = 0x07"
definition FramePong :: byte where "FramePong = 0x08"

lemmas frame_types =
  FrameData_def FrameKeepalive_def FrameHandshake_def FrameClose_def FrameAssign_def
  FrameDecoy_def FramePing_def FramePong_def

definition HeaderSize :: nat where "HeaderSize = 1 + 1 + 2 + 2 + NonceSize"
definition MaxPayloadSize :: nat where "MaxPayloadSize = 65535"

definition randomPadLen :: "int \<Rightarrow> int \<Rightarrow> tape \<Rightarrow> (frame_error + int) \<times> tape" where
  "randomPadLen mn mx t =
     (if mx = 0 then (Inr 0, t)
      else
        let rangeSize = mx - mn + 1; (buf, t1) = rand_read 2 t
        in if rangeSize = 0 then (Inl PanicDivide, t1)
           else (Inr (mn + go_rem (uint (get_u16 buf)) rangeSize), t1))"

text \<open>
  \<open>Seal\<close> appends to the zero-length slice \<open>frame[HeaderSize:HeaderSize]\<close>: the ciphertext
  lands in the frame's own storage when it fits in the \<open>room\<close> bytes left there, otherwise a
  new array is allocated and the frame keeps its zeros.
\<close>

definition seal_in_place :: "nat \<Rightarrow> bytes \<Rightarrow> bytes" where
  "seal_in_place room ct =
     (if length ct \<le> room then ct @ replicate (room - length ct) 0 else replicate room 0)"

definition frame_header :: "byte \<Rightarrow> nat \<Rightarrow> int \<Rightarrow> bytes" where
  "frame_header frameType n padLen =
     [Version, frameType] @ put_u16 (of_nat n) @ put_u16 (of_int padLen)"

definition Encode ::
  "byte \<Rightarrow> bytes \<Rightarrow> Cipher \<Rightarrow> PaddingConfig \<Rightarrow> tape \<Rightarrow> (frame_error + bytes) \<times> tape" where
  "Encode frameType payload c padCfg t =
     (if length payload > MaxPayloadSize then (Inl (PayloadTooLarge (length payload)), t)
      else
        case (if pad_max padCfg > 0 then randomPadLen (pad_min padCfg) (pad_max padCfg) t
              else (Inr 0, t)) of
          (Inl e, t1) \<Rightarrow> (Inl e, t1)
        | (Inr padLen, t1) \<Rightarrow>
            let plaintextLen = int (length payload) + padLen in
            if plaintextLen < 0 then (Inl PanicSlice, t1)
            else
              let hdr = frame_header frameType (length payload) padLen;
                  (nonce, t2) = rand_read NonceSize t1;
                  (pad, t3) = (if padLen > 0 then rand_read (nat padLen) t2 else ([], t2));
                  ptBuf = take (nat plaintextLen) payload @ pad;
                  room = nat plaintextLen + Overhead c
              in (Inr (hdr @ nonce @ seal_in_place room (Seal c [] nonce ptBuf hdr)), t3))"

definition Decode :: "Cipher \<Rightarrow> bytes \<Rightarrow> frame_error + ((byte \<times> bytes) \<times> bytes)" where
  "Decode c r =
     (case read_full HeaderSize r of
        Inl e \<Rightarrow> Inl (ReadHeader e)
      | Inr (header, r1) \<Rightarrow>
          if header ! 0 \<noteq> Version then Inl (UnsupportedVersion (header ! 0))
          else
            let frameType = header ! 1;
                payloadLen = unat (get_u16 (take 2 (drop 2 header)));
                padLen = unat (get_u16 (take 2 (drop 4 header)));
                nonce = drop 6 header;
                ciphertextLen = payloadLen + padLen + Overhead c
            in case read_full ciphertextLen r1 of
                 Inl e \<Rightarrow> Inl (ReadCiphertext e)
               | Inr (ct, r2) \<Rightarrow>
                   (case Open c [] nonce ct (take 6 header) of
                      None \<Rightarrow> Inl DecryptFailed
                    | Some plaintext \<Rightarrow>
                        if length plaintext < payloadLen then Inl PanicSlice
                        else Inr ((frameType, take payloadLen plaintext), r2)))"

definition EncodeRaw :: "byte \<Rightarrow> bytes \<Rightarrow> bytes" where
  "EncodeRaw frameType d = [Version, frameType] @ put_u16 (of_nat (length d)) @ d"

section \<open>The shape of an encoded frame\<close>

text \<open>The frame that \<open>Encode\<close> builds once its random choices are made.\<close>

definition frame_of :: "Cipher \<Rightarrow> byte \<Rightarrow> bytes \<Rightarrow> bytes \<Rightarrow> bytes \<Rightarrow> bytes" where
  "frame_of c ft p nonce pad =
     (let hdr = frame_header ft (length p) (int (length pad))
      in hdr @ nonce @ seal_in_place (length p + length pad + Overhead c)
                         (aead_seal (cipher_aead c) nonce (p @ pad) hdr))"

lemma go_rem_nonneg: "0 \<le> a \<Longrightarrow> 0 < b \<Longrightarrow> 0 \<le> go_rem a b \<and> go_rem a b < b \<and> go_rem a b \<le> a"
  by (auto simp: go_rem_def sgn_if zmod_le_nonneg_dividend)

lemma randomPadLen_range:
  assumes "check_padding cfg = None" "0 < pad_max cfg"
  shows "\<exists>n t'. randomPadLen (pad_min cfg) (pad_max cfg) t = (Inr n, t')
           \<and> pad_min cfg \<le> n \<and> n \<le> pad_max cfg \<and> n \<le> pad_min cfg + 65535"
proof -
  obtain buf t1 where r: "rand_read 2 t = (buf, t1)"
    by fastforce
  let ?u = "uint (get_u16 buf)" and ?k = "pad_max cfg - pad_min cfg + 1"
  from assms have k: "0 < ?k" by (simp add: check_padding_None)
  have u: "0 \<le> ?u" "?u \<le> 65535"
    using uint_bounded [of "get_u16 buf"] by simp_all
  from go_rem_nonneg [OF u(1) k] u(2) k r assms(2) show ?thesis
    by (auto simp: randomPadLen_def)
qed

lemma length_frame_header [simp, wire_len]: "length (frame_header ft n k) = 6"
  by (simp add: frame_header_def)

lemma frame_header_nth [simp]:
  "frame_header ft n k ! 0 = Version"
  "frame_header ft n k ! Suc 0 = ft"
  by (simp_all add: frame_header_def)

lemma frame_header_fields [simp]:
  "get_u16 (take 2 (drop 2 (frame_header ft n k @ r))) = of_nat n"
  "get_u16 (take 2 (drop 4 (frame_header ft n k @ r))) = of_int k"
  by (simp_all add: frame_header_def)

lemma Encode_eq:
  assumes "check_padding cfg = None" "length p \<le> MaxPayloadSize"
  shows "\<exists>nonce pad t'. Encode ft p c cfg t = (Inr (frame_of c ft p nonce pad), t')
           \<and> length nonce = NonceSize
           \<and> (pad_max cfg = 0 \<longrightarrow> pad = [])
           \<and> (0 < pad_max cfg \<longrightarrow> pad_min cfg \<le> int (length pad) \<and> int (length pad) \<le> pad_max cfg
                \<and> int (length pad) \<le> pad_min cfg + 65535)"
proof (cases "pad_max cfg = 0")
  case True
  obtain nonce t2 where "rand_read NonceSize t = (nonce, t2)" by fastforce
  with True assms show ?thesis
    by (auto simp: Encode_def frame_of_def Seal_def Let_def rand_read_length)
next
  case False
  with assms(1) have pos: "0 < pad_max cfg" by (auto simp: check_padding_None)
  from randomPadLen_range [OF assms(1) pos, of t] obtain n t1
    where n: "randomPadLen (pad_min cfg) (pad_max cfg) t = (Inr n, t1)"
      "pad_min cfg \<le> n" "n \<le> pad_max cfg" "n \<le> pad_min cfg + 65535" by blast
  obtain nonce t2 where r1: "rand_read NonceSize t1 = (nonce, t2)" by fastforce
  obtain pad t3 where r2: "rand_read (nat n) t2 = (pad, t3)" by fastforce
  from n(2) assms(1) have "0 \<le> n" by (auto simp: check_padding_None)
  have lp: "int (length pad) = n" using rand_read_length [OF r2] \<open>0 \<le> n\<close> by simp
  have "\<exists>t'. Encode ft p c cfg t = (Inr (frame_of c ft p nonce pad), t')"
    using assms(2) n(1) pos r1 r2 lp \<open>0 \<le> n\<close>
    by (cases "n = 0") (auto simp: Encode_def frame_of_def Seal_def Let_def nat_add_distrib)
  with n(2-4) pos lp rand_read_length [OF r1] show ?thesis
    by auto
qed

lemma Encode_too_large:
  "MaxPayloadSize < length p \<Longrightarrow> Encode ft p c cfg t = (Inl (PayloadTooLarge (length p)), t)"
  by (simp add: Encode_def)

lemma length_seal_in_place [simp, wire_len]: "length (seal_in_place room ct) = room"
  by (simp add: seal_in_place_def)

lemma length_frame_of [wire_len]:
  "length nonce = NonceSize \<Longrightarrow>
     length (frame_of c ft p nonce pad) = HeaderSize + length p + length pad + Overhead c"
  by (simp add: frame_of_def Let_def HeaderSize_def)

section \<open>Decoding what was encoded\<close>

definition good_frame :: "Cipher \<Rightarrow> byte \<times> bytes \<times> bytes \<times> bytes \<Rightarrow> bool" where
  "good_frame c = (\<lambda>(ft, p, nonce, pad).
     aead_ok c \<and> length nonce = NonceSize \<and> length p \<le> MaxPayloadSize \<and> length pad \<le> 65535)"

lemma Decode_frame_of:
  assumes "aead_ok c" "length nonce = NonceSize" "length p \<le> MaxPayloadSize" "length pad \<le> 65535"
  shows "Decode c (frame_of c ft p nonce pad @ rest) = Inr ((ft, p), rest)"
proof -
  define hdr where "hdr = frame_header ft (length p) (int (length pad))"
  define ct where "ct = aead_seal (cipher_aead c) nonce (p @ pad) hdr"
  have ct: "length ct = length p + length pad + Overhead c"
    "aead_open (cipher_aead c) nonce ct hdr = Some (p @ pad)"
    using assms(1,2) by (auto simp: aead_ok_def ct_def)
  have f: "frame_of c ft p nonce pad @ rest = (hdr @ nonce) @ ct @ rest"
    using ct(1) by (simp add: frame_of_def seal_in_place_def hdr_def ct_def Let_def)
  have len: "length (hdr @ nonce) = HeaderSize"
    using assms(2) by (simp add: hdr_def HeaderSize_def)
  have u: "unat (of_nat (length p) :: 16 word) = length p"
    "unat (of_int (int (length pad)) :: 16 word) = length pad"
    using assms(3,4) by (simp_all add: MaxPayloadSize_def unat_of_nat)
  have fields: "(hdr @ nonce) ! 0 = Version" "(hdr @ nonce) ! Suc 0 = ft"
    "get_u16 (take 2 (drop 2 (hdr @ nonce))) = of_nat (length p)"
    "get_u16 (take 2 (drop 4 (hdr @ nonce))) = of_int (int (length pad))"
    by (simp_all add: hdr_def nth_append del: drop_append of_int_of_nat_eq)
  have tk: "take (length p) (p @ pad) = p"
    by simp
  have split6: "drop 6 (hdr @ nonce) = nonce" "take 6 (hdr @ nonce) = hdr"
    by (simp_all add: hdr_def)
  show ?thesis
    unfolding Decode_def f read_full_append [OF len] Let_def Open_def
    by (simp add: fields split6 u ct tk del: append_assoc drop_append take_append of_int_of_nat_eq)
qed

interpretation frames: stream_codec
  "\<lambda>(ft, p, nonce, pad). frame_of c ft p nonce pad" "\<lambda>(ft, p, nonce, pad). (ft, p)"
  "Decode c" "good_frame c" for c
  by unfold_locales (auto simp: good_frame_def Decode_frame_of)

text \<open>What a successful decode says about the input: the six header bytes it parsed are the
  additional data the AEAD accepted, and exactly the announced bytes were consumed.\<close>

lemma Decode_Inr:
  assumes "Decode c r = Inr ((ft, p), rest)"
  shows "\<exists>n k nonce ct plain.
    r = [Version, ft] @ put_u16 n @ put_u16 k @ nonce @ ct @ rest
    \<and> length nonce = NonceSize \<and> length ct = unat n + unat k + Overhead c
    \<and> aead_open (cipher_aead c) nonce ct ([Version, ft] @ put_u16 n @ put_u16 k) = Some plain
    \<and> length p = unat n \<and> p = take (unat n) plain"
proof -
  from assms obtain header r1 where h: "read_full HeaderSize r = Inr (header, r1)"
    by (auto simp: Decode_def split: sum.splits)
  then have r: "r = header @ r1" and lh: "length header = 18"
    by (simp_all add: read_full_Inr HeaderSize_def NonceSize_def)
  define n k where "n = get_u16 (take 2 (drop 2 header))" and "k = get_u16 (take 2 (drop 4 header))"
  from assms h obtain ct plain where d:
    "header ! 0 = Version" "header ! 1 = ft"
    "read_full (unat n + unat k + Overhead c) r1 = Inr (ct, rest)"
    "aead_open (cipher_aead c) (drop 6 header) ct (take 6 header) = Some plain"
    "unat n \<le> length plain" "p = take (unat n) plain"
    by (auto simp: Decode_def Let_def Open_def n_def k_def
        split: sum.splits if_splits option.splits)
  have hd6: "take 6 header = [Version, ft] @ put_u16 n @ put_u16 k"
    using lh d(1,2) unfolding n_def k_def
    by (subst (1 2) put_get_u16) (auto simp: take_Suc_conv_app_nth numeral_eq_Suc
        take_drop [symmetric] intro!: nth_equalityI)
  then have "header = [Version, ft] @ put_u16 n @ put_u16 k @ drop 6 header"
    by (metis append_assoc append_take_drop_id)
  with r d hd6 lh show ?thesis
    by (intro exI [of _ n] exI [of _ k] exI [of _ "drop 6 header"] exI [of _ ct] exI [of _ plain])
       (auto simp: read_full_Inr NonceSize_def)
qed

section \<open>Properties\<close>

text \<open>A concrete AEAD for witnesses: the text followed by a 16-byte zero tag.\<close>

definition demo_aead :: Cipher where
  "demo_aead = \<lparr>cipher_aead =
     \<lparr>aead_overhead = 16,
      aead_seal = (\<lambda>nonce p ad. p @ replicate 16 0),
      aead_open = (\<lambda>nonce x ad.
         if 16 \<le> length x \<and> drop (length x - 16) x = replicate 16 0
         then Some (take (length x - 16) x) else None)\<rparr>\<rparr>"

lemma demo_aead_ok: "aead_ok demo_aead"
  by (auto simp: aead_ok_def demo_aead_def Overhead_def split: if_splits)



text \<open>
  C4. Whatever \<open>Decode\<close> returns was authenticated: the bytes read were version 1, the returned
  type and two length fields, the AEAD opened the ciphertext with exactly those six bytes as
  additional data, the payload has the announced length, and nothing beyond the announced frame
  was consumed. This holds for every AEAD.
\<close>

theorem decode_authenticates_header:
  assumes "Decode c r = Inr ((ft, p), rest)"
  shows "\<exists>n k nonce ct plain.
    r = [Version, ft] @ put_u16 n @ put_u16 k @ nonce @ ct @ rest
    \<and> length nonce = NonceSize \<and> length ct = unat n + unat k + Overhead c
    \<and> aead_open (cipher_aead c) nonce ct ([Version, ft] @ put_u16 n @ put_u16 k) = Some plain
    \<and> length p = unat n \<and> p = take (unat n) plain"
  using assms by (rule Decode_Inr)

lemma demo_frame:
  "Decode demo_aead ([1, 7] @ put_u16 2 @ put_u16 1 @ replicate 12 5 @ [8, 9, 4] @ replicate 16 0)
     = Inr ((7, [8, 9]), [])"
  by code_simp

theorem decode_authenticates_header_witness:
  "\<exists>n k nonce ct plain.
    [1, 7] @ put_u16 2 @ put_u16 1 @ replicate 12 5 @ [8, 9, 4] @ replicate 16 0
      = [Version, 7] @ put_u16 n @ put_u16 k @ nonce @ ct @ []
    \<and> length nonce = NonceSize \<and> length ct = unat n + unat k + Overhead demo_aead
    \<and> aead_open (cipher_aead demo_aead) nonce ct ([Version, 7] @ put_u16 n @ put_u16 k) = Some plain
    \<and> length [8, 9 :: byte] = unat n \<and> [8, 9] = take (unat n) plain"
  by (rule decode_authenticates_header [OF demo_frame])

lemma frame_desync_aux:
  assumes "length nonce = NonceSize" and "length p \<le> MaxPayloadSize" and "65535 < length pad"
  shows "Decode c (frame_of c ft p nonce pad @ rest) \<noteq> Inr (m, rest)"
proof
  obtain ft' p' where m: "m = (ft', p')" by fastforce
  assume "Decode c (frame_of c ft p nonce pad @ rest) = Inr (m, rest)"
  from Decode_Inr [OF this [unfolded m]] obtain n k nonce' ct
    where eq: "frame_of c ft p nonce pad = [Version, ft'] @ put_u16 n @ put_u16 k @ nonce' @ ct"
      and len: "length nonce' = NonceSize" "length ct = unat n + unat k + Overhead c"
    by auto
  then have "put_u16 n = put_u16 (of_nat (length p))"
    by (auto simp: frame_of_def frame_header_def Let_def append_eq_append_conv)
  then have "unat n = length p"
    using assms(2) by (simp add: unat_of_nat MaxPayloadSize_def)
  moreover have "length (frame_of c ft p nonce pad) = 6 + NonceSize + unat n + unat k + Overhead c"
    unfolding eq using len by simp
  ultimately have "unat k = length pad"
    using assms(1) by (simp add: length_frame_of HeaderSize_def)
  with assms(3) unat_u16 [of k] show False by simp
qed

text \<open>
  \<open>Config.Validate\<close> puts no upper bound on the padding, and a minimum above 65535 breaks the
  wire format: \<open>Encode\<close> still succeeds, but the padding length does not fit its two-byte field,
  so \<open>Decode\<close> never returns a frame and the correct rest of the stream, for any cipher, payload
  and random bytes.
\<close>

theorem oversized_padding_desync:
  assumes "check_padding cfg = None" and "65535 < pad_min cfg" and "pad_max cfg \<noteq> 0"
    and "length p \<le> MaxPayloadSize"
  shows "\<exists>f t'. Encode ft p c cfg t = (Inr f, t') \<and> (\<forall>m. Decode c (f @ rest) \<noteq> Inr (m, rest))"
proof -
  from assms(1,3) have "0 < pad_max cfg" by (auto simp: check_padding_None)
  with Encode_eq [OF assms(1,4), of ft c t] assms(2) obtain nonce pad t'
    where "Encode ft p c cfg t = (Inr (frame_of c ft p nonce pad), t')"
      and "length nonce = NonceSize" and "65535 < length pad"
    by fastforce
  with frame_desync_aux [OF this(2) assms(4) this(3)] show ?thesis by blast
qed

theorem oversized_padding_desync_witness:
  "\<exists>f t'. Encode FrameData [1] demo_aead \<lparr>pad_min = 70000, pad_max = 70001\<rparr> (\<lambda>i. 0) = (Inr f, t')
     \<and> (\<forall>m. Decode demo_aead (f @ [2]) \<noteq> Inr (m, [2]))"
  using oversized_padding_desync [of "\<lparr>pad_min = 70000, pad_max = 70001\<rparr>" "[1]" FrameData demo_aead
      "\<lambda>i. 0" "[2]"]
  by (simp add: check_padding_def MaxPayloadSize_def)

text \<open>
  \<open>GeneratePadding\<close> fails exactly on a range that is negative or reversed; otherwise it
  returns a padding whose length lies in the range, and \<open>PadPayload\<close> appends it to the payload
  and reports its length modulo \<open>2^16\<close>.
\<close>

theorem padding_in_range:
  "case PadPayload payload cfg t of
     (Inl e, _) \<Rightarrow> e = InvalidPaddingRange (pad_min cfg) (pad_max cfg)
       \<and> (pad_min cfg < 0 \<or> pad_max cfg < 0 \<or> pad_max cfg < pad_min cfg)
   | (Inr (padded, n), _) \<Rightarrow>
       0 \<le> pad_min cfg \<and> pad_min cfg \<le> pad_max cfg
       \<and> (\<exists>padding. padded = payload @ padding \<and> n = of_nat (length padding)
            \<and> pad_min cfg \<le> int (length padding) \<and> int (length padding) \<le> pad_max cfg)"
proof (cases "pad_min cfg < 0 \<or> pad_max cfg < 0 \<or> pad_max cfg < pad_min cfg \<or> pad_max cfg = 0")
  case True
  then show ?thesis by (auto simp: PadPayload_def GeneratePadding_def)
next
  case False
  obtain buf t1 where r1: "rand_read 2 t = (buf, t1)" by fastforce
  define n where "n = pad_min cfg + go_rem (uint (get_u16 buf)) (pad_max cfg - pad_min cfg + 1)"
  obtain padding t2 where r2: "rand_read (nat n) t1 = (padding, t2)" by fastforce
  have "pad_min cfg \<le> n" "n \<le> pad_max cfg"
    using False go_rem_nonneg [of "uint (get_u16 buf)" "pad_max cfg - pad_min cfg + 1"]
    by (auto simp: n_def)
  with False r1 r2 rand_read_length [OF r2] show ?thesis
    by (auto simp: PadPayload_def GeneratePadding_def n_def)
qed

end
