(* ===== verification/Handshake.thy ===== *)
theory Handshake
  imports Frame
begin

text \<open>
  Component \<open>internal/proto/handshake.go\<close>: the X25519 + PSK handshake that runs on the mux
  stream, and the replay guard. Time is in nanoseconds; \<open>Unix()\<close> is its whole seconds. A
  connection is its remaining input, what was written to it, and whether a write succeeds.
  HMAC-SHA256, X25519 and HKDF are the fields of a record passed to the model; what agreement
  needs of them is \<open>crypto_ok\<close>.
\<close>

section \<open>Constants and primitives\<close>

definition SaltSize :: nat where "SaltSize = 32"
definition HMACSize :: nat where "HMACSize = 32"
definition TimestampSize :: nat where "TimestampSize = 8"
definition second :: int where "second = 1000000000"
definition MaxTimestampSkew :: int where "MaxTimestampSkew = 30 * second"
definition NoncesTTL :: int where "NoncesTTL = 60 * second"

definition ClientHelloSize :: nat where
  "ClientHelloSize = SaltSize + TimestampSize + ECDHKeySize + HMACSize"

definition ServerHelloSize :: nat where
  "ServerHelloSize = SaltSize + ECDHKeySize + HMACSize"

lemmas hello_sizes =
  ClientHelloSize_def ServerHelloSize_def SaltSize_def HMACSize_def TimestampSize_def
  ECDHKeySize_def

definition unix :: "int \<Rightarrow> int" where
  "unix t = t div second"

record Crypto =
  hmac_sha256 :: "bytes \<Rightarrow> bytes \<Rightarrow> bytes"
  X25519 :: "bytes \<Rightarrow> bytes \<Rightarrow> bytes option"
  Basepoint :: bytes
  hkdf_sha256 :: "bytes \<Rightarrow> bytes \<Rightarrow> bytes \<Rightarrow> nat \<Rightarrow> bytes option"

definition computeHMAC :: "Crypto \<Rightarrow> bytes \<Rightarrow> bytes \<Rightarrow> bytes" where
  "computeHMAC cr psk d = hmac_sha256 cr psk d"

section \<open>The replay guard\<close>

record ReplayGuard =
  seen :: "bytes \<rightharpoonup> int"
  ttl :: int

definition NewReplayGuard :: ReplayGuard where
  "NewReplayGuard = \<lparr>seen = Map.empty, ttl = NoncesTTL\<rparr>"

text \<open>One tick of the cleanup goroutine at time \<open>now\<close>.\<close>

definition cleanup :: "int \<Rightarrow> ReplayGuard \<Rightarrow> ReplayGuard" where
  "cleanup now rg =
     rg\<lparr>seen := (\<lambda>k. case seen rg k of
                       None \<Rightarrow> None
                     | Some t \<Rightarrow> if now - t > ttl rg then None else Some t)\<rparr>"

definition Check :: "int \<Rightarrow> bytes \<Rightarrow> ReplayGuard \<Rightarrow> bool \<times> ReplayGuard" where
  "Check now salt rg =
     (if length salt \<noteq> SaltSize then (False, rg)
      else case seen rg salt of
        Some _ \<Rightarrow> (False, rg)
      | None \<Rightarrow> (True, rg\<lparr>seen := (seen rg)(salt \<mapsto> now)\<rparr>))"

section \<open>The two sides of the handshake\<close>

datatype hs_error =
    ComputePubkey
  | SendHello
  | ReadHello io_error
  | InvalidHelloFrame
  | TimestampSkewed int
  | HMACFailed
  | ReplayDetected
  | SharedSecretFailed
  | DeriveFailed

definition client_hmac_input :: "bytes \<Rightarrow> bytes \<Rightarrow> bytes \<Rightarrow> bytes" where
  "client_hmac_input salt timestamp pub =
     copy_at (SaltSize + TimestampSize) pub
       (copy_at SaltSize timestamp
         (copy_at 0 salt (replicate (SaltSize + TimestampSize + ECDHKeySize) 0)))"

definition server_hmac_input :: "bytes \<Rightarrow> bytes \<Rightarrow> bytes" where
  "server_hmac_input salt pub =
     copy_at SaltSize pub (copy_at 0 salt (replicate (SaltSize + ECDHKeySize) 0))"

definition client_hello :: "bytes \<Rightarrow> bytes \<Rightarrow> bytes \<Rightarrow> bytes \<Rightarrow> bytes" where
  "client_hello salt timestamp pub mac =
     copy_at (SaltSize + TimestampSize + ECDHKeySize) mac
       (copy_at (SaltSize + TimestampSize) pub
         (copy_at SaltSize timestamp
           (copy_at 0 salt (replicate ClientHelloSize 0))))"

definition server_hello :: "bytes \<Rightarrow> bytes \<Rightarrow> bytes \<Rightarrow> bytes" where
  "server_hello salt pub mac =
     copy_at (SaltSize + ECDHKeySize) mac
       (copy_at SaltSize pub (copy_at 0 salt (replicate ServerHelloSize 0)))"

definition combined_salt :: "bytes \<Rightarrow> bytes \<Rightarrow> bytes" where
  "combined_salt a b = copy_at SaltSize b (copy_at 0 a (replicate (SaltSize * 2) 0))"

text \<open>\<open>slice lo hi b\<close> is \<open>b[lo:hi]\<close>.\<close>

definition slice :: "nat \<Rightarrow> nat \<Rightarrow> bytes \<Rightarrow> bytes" where
  "slice lo hi b = take (hi - lo) (drop lo b)"

text \<open>
  The client: output written, then the session key and the unread input. \<open>wr\<close> says whether the
  write of the hello succeeds.
\<close>

definition ClientHandshake ::
  "Crypto \<Rightarrow> bytes \<Rightarrow> int \<Rightarrow> tape \<Rightarrow> bool \<Rightarrow> bytes \<Rightarrow> bytes \<times> (hs_error + (bytes \<times> bytes))" where
  "ClientHandshake cr psk now t wr inp =
     (let (clientSalt, t1) = rand_read SaltSize t;
          (clientPriv, t2) = rand_read ECDHKeySize t1
      in case X25519 cr clientPriv (Basepoint cr) of
           None \<Rightarrow> ([], Inl ComputePubkey)
         | Some clientPub \<Rightarrow>
             let timestamp = put_u64 (of_int (unix now));
                 mac = computeHMAC cr psk (client_hmac_input clientSalt timestamp clientPub);
                 hello = client_hello clientSalt timestamp clientPub mac;
                 frame = EncodeRaw FrameHandshake hello
             in if \<not> wr then ([], Inl SendHello)
                else (frame,
                  case read_full (4 + ServerHelloSize) inp of
                    Inl e \<Rightarrow> Inl (ReadHello e)
                  | Inr (serverFrame, rest) \<Rightarrow>
                      if serverFrame ! 0 \<noteq> Version \<or> serverFrame ! 1 \<noteq> FrameHandshake
                      then Inl InvalidHelloFrame
                      else
                        let serverSalt = slice 4 (4 + SaltSize) serverFrame;
                            serverECDHPub = slice (4 + SaltSize) (4 + SaltSize + ECDHKeySize) serverFrame;
                            serverMAC = drop (4 + SaltSize + ECDHKeySize) serverFrame;
                            expectedMAC = computeHMAC cr psk (server_hmac_input serverSalt serverECDHPub)
                        in if serverMAC \<noteq> expectedMAC then Inl HMACFailed
                           else case X25519 cr clientPriv serverECDHPub of
                             None \<Rightarrow> Inl SharedSecretFailed
                           | Some sharedSecret \<Rightarrow>
                               (case DeriveKey (hkdf_sha256 cr) psk sharedSecret
                                       (combined_salt clientSalt serverSalt) of
                                  None \<Rightarrow> Inl DeriveFailed
                                | Some key \<Rightarrow> Inr (key, rest))))"

text \<open>
  The freshness test: 64-bit subtraction, then negation of a negative difference, both with
  wrap-around, against 30 seconds. \<open>timestamp_skew\<close> is the value compared.
\<close>

definition timestamp_skew :: "int \<Rightarrow> bytes \<Rightarrow> int" where
  "timestamp_skew now timestamp =
     (let ts = get_u64 timestamp;
          diff = (of_int (unix now) :: 64 word) - ts;
          diff' = (if sint diff < 0 then - diff else diff)
      in sint diff')"

definition ServerHandshake ::
  "Crypto \<Rightarrow> bytes \<Rightarrow> int \<Rightarrow> int \<Rightarrow> tape \<Rightarrow> bool \<Rightarrow> ReplayGuard \<Rightarrow> bytes
     \<Rightarrow> bytes \<times> ReplayGuard \<times> (hs_error + (bytes \<times> bytes))" where
  "ServerHandshake cr psk now now' t wr guard inp =
     (case read_full (4 + ClientHelloSize) inp of
        Inl e \<Rightarrow> ([], guard, Inl (ReadHello e))
      | Inr (clientFrame, rest) \<Rightarrow>
          if clientFrame ! 0 \<noteq> Version \<or> clientFrame ! 1 \<noteq> FrameHandshake
          then ([], guard, Inl InvalidHelloFrame)
          else
            let clientSalt = slice 4 (4 + SaltSize) clientFrame;
                timestamp = slice (4 + SaltSize) (4 + SaltSize + TimestampSize) clientFrame;
                clientECDHPub = slice (4 + SaltSize + TimestampSize)
                                  (4 + SaltSize + TimestampSize + ECDHKeySize) clientFrame;
                clientMAC = drop (4 + SaltSize + TimestampSize + ECDHKeySize) clientFrame;
                diff = timestamp_skew now timestamp
            in if diff > unix MaxTimestampSkew then ([], guard, Inl (TimestampSkewed diff))
               else
                 let expectedMAC = computeHMAC cr psk
                       (client_hmac_input clientSalt timestamp clientECDHPub)
                 in if clientMAC \<noteq> expectedMAC then ([], guard, Inl HMACFailed)
                    else case Check now' clientSalt guard of
                      (False, guard') \<Rightarrow> ([], guard', Inl ReplayDetected)
                    | (True, guard') \<Rightarrow>
                        let (serverPriv, t1) = rand_read ECDHKeySize t
                        in (case X25519 cr serverPriv (Basepoint cr) of
                              None \<Rightarrow> ([], guard', Inl ComputePubkey)
                            | Some serverPub \<Rightarrow>
                                (case X25519 cr serverPriv clientECDHPub of
                                   None \<Rightarrow> ([], guard', Inl SharedSecretFailed)
                                 | Some sharedSecret \<Rightarrow>
                                     let (serverSalt, t2) = rand_read SaltSize t1;
                                         mac = computeHMAC cr psk (server_hmac_input serverSalt serverPub);
                                         hello = server_hello serverSalt serverPub mac;
                                         frame = EncodeRaw FrameHandshake hello
                                     in if \<not> wr then ([], guard', Inl SendHello)
                                        else (frame, guard',
                                          case DeriveKey (hkdf_sha256 cr) psk sharedSecret
                                                 (combined_salt clientSalt serverSalt) of
                                            None \<Rightarrow> Inl DeriveFailed
                                          | Some key \<Rightarrow> Inr (key, rest)))))"

section \<open>Message layout\<close>

lemma client_hmac_input_eq:
  assumes "length salt = 32" "length ts = 8" "length pub = 32"
  shows "client_hmac_input salt ts pub = salt @ ts @ pub"
  using assms copy_at_fresh [of ts 40 salt] copy_at_fresh [of pub 32 "salt @ ts"]
  by (simp add: client_hmac_input_def hello_sizes copy_at_start)

lemma server_hmac_input_eq:
  assumes "length salt = 32" "length pub = 32"
  shows "server_hmac_input salt pub = salt @ pub"
  using assms copy_at_fresh [of pub 32 salt]
  by (simp add: server_hmac_input_def hello_sizes copy_at_start)

lemma combined_salt_eq:
  assumes "length a = 32" "length b = 32"
  shows "combined_salt a b = a @ b"
  using assms copy_at_fresh [of b 32 a]
  by (simp add: combined_salt_def SaltSize_def copy_at_start)

lemma client_hello_eq:
  assumes "length salt = 32" "length ts = 8" "length pub = 32" "length mac = 32"
  shows "client_hello salt ts pub mac = salt @ ts @ pub @ mac"
  using assms copy_at_fresh [of ts 72 salt] copy_at_fresh [of pub 64 "salt @ ts"]
    copy_at_fresh [of mac 32 "salt @ ts @ pub"]
  by (simp add: client_hello_def hello_sizes copy_at_start)

lemma server_hello_eq:
  assumes "length salt = 32" "length pub = 32" "length mac = 32"
  shows "server_hello salt pub mac = salt @ pub @ mac"
  using assms copy_at_fresh [of pub 64 salt] copy_at_fresh [of mac 32 "salt @ pub"]
  by (simp add: server_hello_def hello_sizes copy_at_start)

lemmas hello_layout =
  client_hmac_input_eq server_hmac_input_eq combined_salt_eq client_hello_eq server_hello_eq

lemma EncodeRaw_nth [simp]:
  "EncodeRaw ft d ! 0 = Version"
  "EncodeRaw ft d ! Suc 0 = ft"
  by (simp_all add: EncodeRaw_def)

lemma length_EncodeRaw [simp, wire_len]: "length (EncodeRaw ft d) = 4 + length d"
  by (simp add: EncodeRaw_def)

lemma slice_mid: "length a = lo \<Longrightarrow> length b = hi - lo \<Longrightarrow> slice lo hi (a @ b @ c) = b"
  by (simp add: slice_def)

lemma slice_split: "lo \<le> hi \<Longrightarrow> drop lo b = slice lo hi b @ drop hi b"
  by (metis append_take_drop_id drop_drop le_add_diff_inverse2 slice_def)

text \<open>
  Hello frames with the given fields. The receivers never look at the two length bytes
  \<open>lenb\<close>; the senders write the true length there.
\<close>

definition hello_frame :: "bytes \<Rightarrow> bytes \<Rightarrow> bytes \<Rightarrow> bytes \<Rightarrow> bytes \<Rightarrow> bytes" where
  "hello_frame lenb salt ts pub mac = [Version, FrameHandshake] @ lenb @ salt @ ts @ pub @ mac"

definition reply_frame :: "bytes \<Rightarrow> bytes \<Rightarrow> bytes \<Rightarrow> bytes \<Rightarrow> bytes" where
  "reply_frame lenb salt pub mac = [Version, FrameHandshake] @ lenb @ salt @ pub @ mac"

definition hello_lens :: "bytes \<Rightarrow> bytes \<Rightarrow> bytes \<Rightarrow> bytes \<Rightarrow> bytes \<Rightarrow> bool" where
  "hello_lens lenb salt ts pub mac \<longleftrightarrow>
     length lenb = 2 \<and> length salt = 32 \<and> length ts = 8 \<and> length pub = 32 \<and> length mac = 32"

lemma EncodeRaw_hello:
  "EncodeRaw FrameHandshake (salt @ ts @ pub @ mac) =
     hello_frame (put_u16 (of_nat (length (salt @ ts @ pub @ mac)))) salt ts pub mac"
  "EncodeRaw FrameHandshake (salt @ pub @ mac) =
     reply_frame (put_u16 (of_nat (length (salt @ pub @ mac)))) salt pub mac"
  by (simp_all add: EncodeRaw_def hello_frame_def reply_frame_def)

lemma hello_slices:
  assumes "hello_lens lenb salt ts pub mac"
  defines "f \<equiv> hello_frame lenb salt ts pub mac"
  shows "f ! 0 = Version" "f ! Suc 0 = FrameHandshake" "slice 4 36 f = salt" "slice 36 44 f = ts"
    "slice 44 76 f = pub" "drop 76 f = mac" "length f = 4 + ClientHelloSize"
  using assms slice_mid [of "[Version, FrameHandshake] @ lenb" 4 salt 36]
    slice_mid [of "[Version, FrameHandshake] @ lenb @ salt" 36 ts 44]
    slice_mid [of "[Version, FrameHandshake] @ lenb @ salt @ ts" 44 pub 76 mac]
  by (simp_all add: hello_frame_def hello_lens_def hello_sizes)

lemma reply_slices:
  assumes "length lenb = 2" "length salt = 32" "length pub = 32" "length mac = 32"
  defines "f \<equiv> reply_frame lenb salt pub mac"
  shows "f ! 0 = Version" "f ! Suc 0 = FrameHandshake" "slice 4 36 f = salt" "slice 36 68 f = pub"
    "drop 68 f = mac" "length f = 4 + ServerHelloSize"
  using assms slice_mid [of "[Version, FrameHandshake] @ lenb" 4 salt 36]
    slice_mid [of "[Version, FrameHandshake] @ lenb @ salt" 36 pub 68 mac]
  by (simp_all add: reply_frame_def hello_sizes)

text \<open>Every input with the right first two bytes and enough bytes is a hello frame.\<close>

lemma hello_decompose:
  assumes "length f = 4 + ClientHelloSize" "f ! 0 = Version" "f ! Suc 0 = FrameHandshake"
  shows "\<exists>lenb salt ts pub mac. hello_lens lenb salt ts pub mac \<and> f = hello_frame lenb salt ts pub mac"
proof -
  from assms(1) have len: "length f = 108" by (simp add: hello_sizes)
  then have "f = [f ! 0, f ! Suc 0] @ drop 2 f"
    by (cases f; cases "tl f") auto
  then have "f = hello_frame (slice 2 4 f) (slice 4 36 f) (slice 36 44 f) (slice 44 76 f) (drop 76 f)"
    using slice_split [of 2 4 f] slice_split [of 4 36 f] slice_split [of 36 44 f]
      slice_split [of 44 76 f] assms(2,3)
    by (simp add: hello_frame_def)
  moreover have "hello_lens (slice 2 4 f) (slice 4 36 f) (slice 36 44 f) (slice 44 76 f) (drop 76 f)"
    using len by (simp add: hello_lens_def slice_def)
  ultimately show ?thesis by blast
qed

section \<open>Timestamps\<close>

lemma skew_cases:
  "timestamp_skew now b =
     (let d = sint ((of_int (unix now) :: 64 word) - get_u64 b)
      in if d = - (2 ^ 63) then - (2 ^ 63) else \<bar>d\<bar>)"
proof -
  define w where "w = (of_int (unix now) :: 64 word) - get_u64 b"
  have rng: "- (2 ^ 63) \<le> sint w" "sint w < 2 ^ 63"
    using sint_ge [of w] sint_lt [of w] by simp_all
  have neg: "sint (- w) = - sint w" if "sint w \<noteq> - (2 ^ 63)"
  proof -
    have "sint (- w) = sint (of_int (- sint w) :: 64 word)"
      by simp
    also have "\<dots> = signed_take_bit 63 (- sint w)"
      unfolding sint_sbintrunc' by simp
    also have "\<dots> = - sint w"
      using rng that by (intro signed_take_bit_int_eq_self) auto
    finally show ?thesis .
  qed
  have min: "sint (- w) = - (2 ^ 63)" if "sint w = - (2 ^ 63)"
  proof -
    have "of_int (sint w) = w" by simp
    then have "of_int (- (2 ^ 63)) = w" unfolding that .
    then have "- w = w" by auto
    then show ?thesis using that by (simp only:)
  qed
  show ?thesis
    using neg min by (auto simp: timestamp_skew_def w_def [symmetric] Let_def abs_if)
qed


text \<open>For clocks between 1970 and the far future the skew is the distance in seconds.\<close>

lemma skew_distance:
  assumes "0 \<le> s" "s < 2 ^ 62" "0 \<le> unix now" "unix now < 2 ^ 62"
  shows "timestamp_skew now (put_u64 (of_int s)) = \<bar>unix now - s\<bar>"
proof -
  have "sint (of_int (unix now - s) :: 64 word) = unix now - s"
    unfolding sint_sbintrunc' using assms by (intro signed_take_bit_int_eq_self) simp_all
  with assms show ?thesis
    by (simp add: skew_cases Let_def)
qed

section \<open>What the server has checked when it accepts\<close>

definition server_reply ::
  "Crypto \<Rightarrow> bytes \<Rightarrow> tape \<Rightarrow> bytes \<Rightarrow> bytes \<Rightarrow> hs_error + (bytes \<times> bytes option)" where
  "server_reply cr psk t clientSalt clientPub =
     (let (serverPriv, t1) = rand_read ECDHKeySize t; (serverSalt, t2) = rand_read SaltSize t1
      in case X25519 cr serverPriv (Basepoint cr) of
           None \<Rightarrow> Inl ComputePubkey
         | Some serverPub \<Rightarrow>
             (case X25519 cr serverPriv clientPub of
                None \<Rightarrow> Inl SharedSecretFailed
              | Some sharedSecret \<Rightarrow>
                  Inr (EncodeRaw FrameHandshake
                         (server_hello serverSalt serverPub
                           (computeHMAC cr psk (server_hmac_input serverSalt serverPub))),
                       DeriveKey (hkdf_sha256 cr) psk sharedSecret
                         (combined_salt clientSalt serverSalt))))"

text \<open>On a well-formed hello the server's decision is three tests in order.\<close>

lemma ServerHandshake_hello:
  assumes "hello_lens lenb salt ts pub mac"
  shows "ServerHandshake cr psk now now' t True guard (hello_frame lenb salt ts pub mac @ rest) =
    (if timestamp_skew now ts > 30 then ([], guard, Inl (TimestampSkewed (timestamp_skew now ts)))
     else if mac \<noteq> computeHMAC cr psk (salt @ ts @ pub) then ([], guard, Inl HMACFailed)
     else if seen guard salt \<noteq> None then ([], guard, Inl ReplayDetected)
     else let guard' = guard\<lparr>seen := (seen guard)(salt \<mapsto> now')\<rparr>
       in case server_reply cr psk t salt pub of
            Inl e \<Rightarrow> ([], guard', Inl e)
          | Inr (frame, None) \<Rightarrow> (frame, guard', Inl DeriveFailed)
          | Inr (frame, Some key) \<Rightarrow> (frame, guard', Inr (key, rest)))"
proof -
  let ?f = "hello_frame lenb salt ts pub mac"
  have rd: "read_full (4 + ClientHelloSize) (?f @ rest) = Inr (?f, rest)"
    using hello_slices(7) [OF assms] by simp
  have "unix MaxTimestampSkew = 30"
    by (simp add: unix_def MaxTimestampSkew_def second_def)
  with rd hello_slices [OF assms] assms show ?thesis
    by (auto simp: ServerHandshake_def hello_sizes client_hmac_input_eq Check_def hello_lens_def
        server_reply_def Let_def split: option.splits prod.splits)
qed

lemma ServerHandshake_no_write:
  "snd (snd (ServerHandshake cr psk now now' t False guard inp)) \<noteq> Inr x"
  by (auto simp: ServerHandshake_def Let_def split: sum.splits option.splits prod.splits bool.splits)

lemma ServerHandshake_accept:
  assumes "ServerHandshake cr psk now now' t wr guard inp = (out, guard', Inr (key, rest))"
  obtains lenb salt ts pub where "wr"
    "hello_lens lenb salt ts pub (computeHMAC cr psk (salt @ ts @ pub))"
    "inp = hello_frame lenb salt ts pub (computeHMAC cr psk (salt @ ts @ pub)) @ rest"
    "timestamp_skew now ts \<le> 30" "seen guard salt = None"
    "guard' = guard\<lparr>seen := (seen guard)(salt \<mapsto> now')\<rparr>"
    "server_reply cr psk t salt pub = Inr (out, Some key)"
proof -
  from assms obtain f r where f: "read_full (4 + ClientHelloSize) inp = Inr (f, r)"
    "f ! 0 = Version" "f ! Suc 0 = FrameHandshake"
    by (auto simp: ServerHandshake_def split: sum.splits if_splits)
  from f(1) have inp: "inp = f @ r" "length f = 4 + ClientHelloSize"
    by (simp_all add: read_full_Inr)
  from hello_decompose [OF inp(2) f(2,3)] obtain lenb salt ts pub mac
    where l: "hello_lens lenb salt ts pub mac" and ff: "f = hello_frame lenb salt ts pub mac"
    by blast
  from ServerHandshake_no_write [of cr psk now now' t guard inp "(key, rest)"] assms
  have wr: "wr" by (cases wr) auto
  have hs: "ServerHandshake cr psk now now' t True guard (hello_frame lenb salt ts pub mac @ r)
      = (out, guard', Inr (key, rest))"
    using assms wr by (simp add: inp ff)
  have acc: "\<not> timestamp_skew now ts > 30" "mac = computeHMAC cr psk (salt @ ts @ pub)"
    "seen guard salt = None"
    using hs unfolding ServerHandshake_hello [OF l] by (auto split: if_splits)
  then have "guard' = guard\<lparr>seen := (seen guard)(salt \<mapsto> now')\<rparr>" "r = rest"
    "server_reply cr psk t salt pub = Inr (out, Some key)"
    using hs unfolding ServerHandshake_hello [OF l]
    by (auto simp: Let_def split: sum.splits option.splits prod.splits)
  with that wr l acc inp ff show thesis by auto
qed

section \<open>The guard between two handshakes\<close>

text \<open>What can happen to the guard: checks of other handshakes and cleanup ticks.\<close>

datatype guard_event = EvCheck int bytes | EvCleanup int

fun guard_time :: "guard_event \<Rightarrow> int" where
  "guard_time (EvCheck now salt) = now"
| "guard_time (EvCleanup now) = now"

fun guard_step :: "ReplayGuard \<Rightarrow> guard_event \<Rightarrow> ReplayGuard" where
  "guard_step rg (EvCheck now salt) = snd (Check now salt rg)"
| "guard_step rg (EvCleanup now) = cleanup now rg"

lemma guard_step_ttl [simp]: "ttl (guard_step rg ev) = ttl rg"
  by (cases ev) (auto simp: Check_def cleanup_def split: option.splits)

lemma guard_step_keeps:
  assumes "seen rg salt = Some t0" "guard_time ev \<le> t0 + ttl rg"
  shows "seen (guard_step rg ev) salt = Some t0"
  using assms by (cases ev) (auto simp: Check_def cleanup_def split: option.splits)

lemma guard_run_keeps:
  assumes "seen rg salt = Some t0" "\<forall>ev\<in>set evs. guard_time ev \<le> t0 + ttl rg"
  shows "seen (foldl guard_step rg evs) salt = Some t0"
  using assms by (induction evs arbitrary: rg) (auto simp: guard_step_keeps)

lemma second_pos [simp]: "0 < second"
  by (simp add: second_def)

lemma unix_gap: "unix b - unix a \<le> n \<Longrightarrow> b - a < (n + 1) * second"
proof -
  assume "unix b - unix a \<le> n"
  then have "unix b * second \<le> (unix a + n) * second"
    by (intro mult_right_mono) (simp_all add: second_def)
  moreover have "a = unix a * second + a mod second" "b = unix b * second + b mod second"
    by (simp_all add: unix_def)
  moreover have "0 \<le> a mod second" "b mod second < second"
    by simp_all
  ultimately show ?thesis
    unfolding distrib_right by linarith
qed

text \<open>Unless it wraps, an accepted timestamp is within 30 seconds of the server's clock.\<close>

lemma skew_le_abs:
  assumes "timestamp_skew now ts \<le> 30" "get_u64 ts \<noteq> of_int (unix now) + 2 ^ 63"
  shows "\<bar>sint ((of_int (unix now) :: 64 word) - get_u64 ts)\<bar> \<le> 30"
proof -
  define d where "d = (of_int (unix now) :: 64 word) - get_u64 ts"
  have "sint d \<noteq> - (2 ^ 63)"
  proof
    assume *: "sint d = - (2 ^ 63)"
    have "of_int (sint d) = d" by simp
    then have "d = of_int (- (2 ^ 63))" unfolding * by simp
    then have "get_u64 ts = of_int (unix now) + 2 ^ 63"
      by (simp add: d_def algebra_simps)
    with assms(2) show False by simp
  qed
  with assms(1) show ?thesis
    by (simp add: skew_cases d_def [symmetric] Let_def)
qed

section \<open>Agreement\<close>

definition crypto_ok :: "Crypto \<Rightarrow> bool" where
  "crypto_ok cr \<longleftrightarrow>
     (\<forall>k d. length (hmac_sha256 cr k d) = HMACSize)
     \<and> (\<forall>a b. length a = ECDHKeySize \<and> length b = ECDHKeySize \<longrightarrow>
          (\<exists>pa pb s. X25519 cr a (Basepoint cr) = Some pa \<and> length pa = ECDHKeySize
             \<and> X25519 cr b (Basepoint cr) = Some pb \<and> length pb = ECDHKeySize
             \<and> X25519 cr a pb = Some s \<and> X25519 cr b pa = Some s))
     \<and> (\<forall>ikm salt info. \<exists>k. hkdf_sha256 cr ikm salt info KeySize = Some k \<and> length k = KeySize)"

text \<open>The hello a client sends for given random choices, and the key it derives from a reply.\<close>

lemma ClientHandshake_reply:
  fixes now :: int
  assumes "crypto_ok cr" "rand_read SaltSize t = (salt, t1)" "rand_read ECDHKeySize t1 = (priv, t2)"
    and "X25519 cr priv (Basepoint cr) = Some pub" "length pub = 32"
    and "length lenb = 2" "length salt' = 32" "length pub' = 32"
    and "X25519 cr priv pub' = Some s"
    and "hkdf_sha256 cr (psk @ s) (salt @ salt') (bytes_of ''shadowtunnel-session-v1'') KeySize = Some key"
  defines "ts \<equiv> put_u64 (of_int (unix now))"
  shows "ClientHandshake cr psk now t True
           (reply_frame lenb salt' pub' (computeHMAC cr psk (salt' @ pub')) @ rest)
       = (hello_frame (put_u16 104) salt ts pub (computeHMAC cr psk (salt @ ts @ pub)), Inr (key, rest))"
proof -
  let ?mac = "computeHMAC cr psk (salt @ ts @ pub)" and ?mac' = "computeHMAC cr psk (salt' @ pub')"
  have mac: "length ?mac = 32" "length ?mac' = 32" and salt: "length salt = 32" "length ts = 8"
    using assms(1,2) by (simp_all add: crypto_ok_def computeHMAC_def HMACSize_def rand_read_length
        SaltSize_def ts_def)
  have rd: "read_full (4 + ServerHelloSize) (reply_frame lenb salt' pub' ?mac' @ rest)
      = Inr (reply_frame lenb salt' pub' ?mac', rest)"
    using reply_slices(6) [OF assms(6-8) mac(2)] by simp
  have hello: "EncodeRaw FrameHandshake (client_hello salt ts pub ?mac)
      = hello_frame (put_u16 104) salt ts pub ?mac"
    using salt mac assms(5) by (simp add: hello_layout EncodeRaw_hello(1))
  from rd hello reply_slices [OF assms(6-8) mac(2)] mac salt assms show ?thesis
    by (simp add: ClientHandshake_def Let_def hello_sizes hello_layout DeriveKey_def ts_def)
qed

text \<open>
  C2. Handshake agreement. With primitives that satisfy their contract, clocks at most 30
  seconds apart and a client salt the guard has not seen, the transcript of the two sides
  exists: the client's output fed to the server makes it accept, the server's output fed to the
  client makes it accept, and both derive the same 32-byte session key, whatever the PSK and the
  random choices are. Neither side leaves input unread.
\<close>

theorem handshake_agreement:
  assumes cr: "crypto_ok cr"
    and clocks: "0 \<le> unix nowc" "unix nowc < 2 ^ 62" "0 \<le> unix nows" "unix nows < 2 ^ 62"
      "\<bar>unix nows - unix nowc\<bar> \<le> 30"
    and fresh: "seen guard (fst (rand_read SaltSize tc)) = None"
  shows "\<exists>hello reply guard' key.
    ClientHandshake cr psk nowc tc True reply = (hello, Inr (key, []))
    \<and> ServerHandshake cr psk nows nows' ts True guard hello = (reply, guard', Inr (key, []))
    \<and> length key = KeySize"
proof -
  obtain salt t1 where r1: "rand_read SaltSize tc = (salt, t1)" by fastforce
  obtain priv t2 where r2: "rand_read ECDHKeySize t1 = (priv, t2)" by fastforce
  obtain priv' t3 where r3: "rand_read ECDHKeySize ts = (priv', t3)" by fastforce
  obtain salt' t4 where r4: "rand_read SaltSize t3 = (salt', t4)" by fastforce
  note lens = rand_read_length [OF r1] rand_read_length [OF r2] rand_read_length [OF r3]
    rand_read_length [OF r4]
  from cr lens(2,3) obtain pub pub' s where dh:
    "X25519 cr priv (Basepoint cr) = Some pub" "length pub = 32"
    "X25519 cr priv' (Basepoint cr) = Some pub'" "length pub' = 32"
    "X25519 cr priv pub' = Some s" "X25519 cr priv' pub = Some s"
    unfolding crypto_ok_def ECDHKeySize_def by metis
  from cr obtain key where key: "length key = KeySize"
    "hkdf_sha256 cr (psk @ s) (salt @ salt') (bytes_of ''shadowtunnel-session-v1'') KeySize = Some key"
    unfolding crypto_ok_def by metis
  define tsb where "tsb = put_u64 (of_int (unix nowc))"
  let ?mac = "computeHMAC cr psk (salt @ tsb @ pub)" and ?mac' = "computeHMAC cr psk (salt' @ pub')"
  have mac: "length ?mac = 32" "length ?mac' = 32"
    using cr by (simp_all add: crypto_ok_def computeHMAC_def HMACSize_def)
  have l: "hello_lens (put_u16 104) salt tsb pub ?mac"
    using lens dh mac by (simp add: hello_lens_def tsb_def SaltSize_def)
  have reply: "server_reply cr psk ts salt pub
      = Inr (reply_frame (put_u16 96) salt' pub' ?mac', Some key)"
    using r3 r4 dh lens mac key
    by (simp add: server_reply_def DeriveKey_def hello_layout EncodeRaw_hello(2) SaltSize_def)
  have skew: "timestamp_skew nows tsb \<le> 30"
    using clocks by (simp add: tsb_def skew_distance)
  have "ServerHandshake cr psk nows nows' ts True guard (hello_frame (put_u16 104) salt tsb pub ?mac)
      = (reply_frame (put_u16 96) salt' pub' ?mac', guard\<lparr>seen := (seen guard)(salt \<mapsto> nows')\<rparr>,
         Inr (key, []))"
    using ServerHandshake_hello [OF l, of cr psk nows nows' ts guard "[]"] skew fresh r1 reply
    by simp
  moreover have "ClientHandshake cr psk nowc tc True (reply_frame (put_u16 96) salt' pub' ?mac')
      = (hello_frame (put_u16 104) salt tsb pub ?mac, Inr (key, []))"
    using ClientHandshake_reply [OF cr r1 r2 dh(1,2) _ _ dh(4,5) key(2), of "put_u16 96" nowc "[]"]
      lens(4) by (simp add: tsb_def SaltSize_def)
  ultimately show ?thesis using key(1) by blast
qed

text \<open>Concrete primitives for witnesses: addition as the group, constant MAC and key.\<close>

definition demo_crypto :: Crypto where
  "demo_crypto =
     \<lparr>hmac_sha256 = (\<lambda>k d. replicate 32 7),
      X25519 = (\<lambda>a p. Some (map2 (+) a p)),
      Basepoint = replicate 32 9,
      hkdf_sha256 = (\<lambda>ikm salt info n. Some (replicate n 1))\<rparr>"

lemma demo_crypto_ok: "crypto_ok demo_crypto"
  unfolding crypto_ok_def
  by (auto simp: demo_crypto_def HMACSize_def ECDHKeySize_def intro!: nth_equalityI)

theorem handshake_agreement_witness:
  "\<exists>hello reply guard' key.
    ClientHandshake demo_crypto [1] (100 * second) (\<lambda>i. of_nat i) True reply = (hello, Inr (key, []))
    \<and> ServerHandshake demo_crypto [1] (120 * second) (120 * second) (\<lambda>i. 3) True NewReplayGuard hello
        = (reply, guard', Inr (key, []))
    \<and> length key = KeySize"
proof (rule handshake_agreement [OF demo_crypto_ok])
  show "0 \<le> unix (100 * second)" "unix (100 * second) < 2 ^ 62" "0 \<le> unix (120 * second)"
    "unix (120 * second) < 2 ^ 62" "\<bar>unix (120 * second) - unix (100 * second)\<bar> \<le> 30"
    by (simp_all add: unix_def second_def)
  show "seen NewReplayGuard (fst (rand_read SaltSize (\<lambda>i. of_nat i))) = None"
    by (simp add: NewReplayGuard_def)
qed

section \<open>Replay protection\<close>

text \<open>A hello with timestamp 130 that the server accepts at time 100 seconds.\<close>

definition demo_hello :: bytes where
  "demo_hello = hello_frame (put_u16 104) (replicate 32 1) (put_u64 (of_int 130)) (replicate 32 2)
     (computeHMAC demo_crypto [1] (replicate 32 1 @ put_u64 (of_int 130) @ replicate 32 2))"

definition demo_reply :: bytes where
  "demo_reply = fst (ServerHandshake demo_crypto [1] (100 * second) (100 * second) (\<lambda>i. 3) True
     NewReplayGuard demo_hello)"

lemma demo_accept_rest:
  "\<exists>out. ServerHandshake demo_crypto [1] (100 * second) (100 * second) (\<lambda>i. 3) True NewReplayGuard
       (demo_hello @ rest)
     = (out, NewReplayGuard\<lparr>seen := [replicate 32 1 \<mapsto> 100 * second]\<rparr>, Inr (replicate 32 1, rest))"
proof -
  let ?mac = "computeHMAC demo_crypto [1] (replicate 32 1 @ put_u64 (of_int 130) @ replicate 32 2)"
  have l: "hello_lens (put_u16 104) (replicate 32 1) (put_u64 (of_int 130)) (replicate 32 2) ?mac"
    by (simp add: hello_lens_def computeHMAC_def demo_crypto_def)
  have "timestamp_skew (100 * second) (put_u64 (of_int 130)) = 30"
    by (subst skew_distance) (simp_all add: unix_def second_def)
  moreover have "\<exists>out. server_reply demo_crypto [1] (\<lambda>i. 3) (replicate 32 1) (replicate 32 2)
      = Inr (out, Some (replicate 32 1))"
    by (simp add: server_reply_def rand_read_def demo_crypto_def DeriveKey_def KeySize_def)
  ultimately show ?thesis
    using ServerHandshake_hello [OF l, of demo_crypto "[1]" "100 * second" "100 * second" "\<lambda>i. 3"
        NewReplayGuard rest]
    by (auto simp: demo_hello_def NewReplayGuard_def)
qed

lemma demo_accept:
  "ServerHandshake demo_crypto [1] (100 * second) (100 * second) (\<lambda>i. 3) True NewReplayGuard demo_hello
     = (demo_reply, NewReplayGuard\<lparr>seen := [replicate 32 1 \<mapsto> 100 * second]\<rparr>, Inr (replicate 32 1, []))"
  using demo_accept_rest [of "[]"] by (auto simp: demo_reply_def)

lemma demo_hello_ts: "slice 36 44 demo_hello = put_u64 (of_int 130)"
  unfolding demo_hello_def
  by (rule hello_slices(4)) (simp add: hello_lens_def computeHMAC_def demo_crypto_def)

text \<open>
  C3. When the server accepts, it has verified everything: the input is a hello whose MAC is the
  HMAC under the PSK of salt, timestamp and public key; the timestamp passed the skew test; the
  salt had not been seen; and the guard now remembers the salt with the time of the check and is
  otherwise unchanged.
\<close>

theorem server_accepts_only_fresh_authentic:
  assumes "ServerHandshake cr psk now now' t wr guard inp = (out, guard', Inr (key, rest))"
  shows "\<exists>lenb salt ts pub.
    hello_lens lenb salt ts pub (computeHMAC cr psk (salt @ ts @ pub))
    \<and> inp = hello_frame lenb salt ts pub (computeHMAC cr psk (salt @ ts @ pub)) @ rest
    \<and> timestamp_skew now ts \<le> 30
    \<and> seen guard salt = None
    \<and> guard' = guard\<lparr>seen := (seen guard)(salt \<mapsto> now')\<rparr>"
  using assms by (rule ServerHandshake_accept) blast

theorem server_accepts_only_fresh_authentic_witness:
  "\<exists>lenb salt ts pub.
    hello_lens lenb salt ts pub (computeHMAC demo_crypto [1] (salt @ ts @ pub))
    \<and> demo_hello = hello_frame lenb salt ts pub (computeHMAC demo_crypto [1] (salt @ ts @ pub)) @ []
    \<and> timestamp_skew (100 * second) ts \<le> 30
    \<and> seen NewReplayGuard salt = None
    \<and> NewReplayGuard\<lparr>seen := [replicate 32 1 \<mapsto> 100 * second]\<rparr>
        = NewReplayGuard\<lparr>seen := (seen NewReplayGuard)(salt \<mapsto> 100 * second)\<rparr>"
  by (rule server_accepts_only_fresh_authentic [OF demo_accept])

lemma slice_append: "hi \<le> length f \<Longrightarrow> slice lo hi (f @ r) = slice lo hi f"
  by (auto simp: slice_def)

lemma accepted_fields:
  assumes "ServerHandshake cr psk now now' t wr guard inp = (out, guard', Inr (key, rest))"
  shows "timestamp_skew now (slice 36 44 inp) \<le> 30"
    and "guard' = guard\<lparr>seen := (seen guard)(slice 4 36 inp \<mapsto> now')\<rparr>"
  by (rule ServerHandshake_accept [OF assms],
      simp add: slice_append hello_slices(3-5,7) hello_sizes)+

lemma replay_refused:
  assumes acc: "ServerHandshake cr psk a a' t wr guard inp = (out, guard', Inr (key, rest))"
    and ttl: "ttl guard = NoncesTTL"
    and evs: "\<forall>ev\<in>set evs. guard_time ev \<le> a' + 60 * second"
  shows "\<exists>e. ServerHandshake cr psk b b' t2 True (foldl guard_step guard' evs) inp
               = ([], foldl guard_step guard' evs, Inl e)
           \<and> (e = ReplayDetected \<or> (\<exists>d>30. e = TimestampSkewed d))"
proof -
  from acc obtain lenb salt ts pub where h:
    "hello_lens lenb salt ts pub (computeHMAC cr psk (salt @ ts @ pub))"
    "inp = hello_frame lenb salt ts pub (computeHMAC cr psk (salt @ ts @ pub)) @ rest"
    "guard' = guard\<lparr>seen := (seen guard)(salt \<mapsto> a')\<rparr>"
    by (rule ServerHandshake_accept)
  from h(3) ttl evs have "seen (foldl guard_step guard' evs) salt = Some a'"
    by (intro guard_run_keeps) (simp_all add: NoncesTTL_def)
  then show ?thesis
    unfolding h(2) ServerHandshake_hello [OF h(1)] by simp
qed

text \<open>
  C5. Replay protection inside the guard's lifetime. Once a hello has been accepted, presenting
  the same bytes again is refused as long as every check and every cleanup tick in between
  happened at most 60 seconds after the acceptance, whatever the other handshakes were, and the
  guard still holds the salt.
\<close>

theorem replay_rejected:
  assumes acc: "ServerHandshake cr psk a a' t wr guard inp = (out, guard', Inr (key, rest))"
    and ttl: "ttl guard = NoncesTTL"
    and evs: "\<forall>ev\<in>set evs. guard_time ev \<le> a' + 60 * second"
  shows "\<exists>e. ServerHandshake cr psk b b' t2 True (foldl guard_step guard' evs) inp
               = ([], foldl guard_step guard' evs, Inl e)
           \<and> (e = ReplayDetected \<or> (\<exists>d>30. e = TimestampSkewed d))"
  using assms by (rule replay_refused)

theorem replay_rejected_witness:
  "\<exists>e. ServerHandshake demo_crypto [1] (159 * second) (159 * second) (\<lambda>i. 4) True
          (foldl guard_step (NewReplayGuard\<lparr>seen := [replicate 32 1 \<mapsto> 100 * second]\<rparr>)
             [EvCleanup (150 * second)]) demo_hello
        = ([], foldl guard_step (NewReplayGuard\<lparr>seen := [replicate 32 1 \<mapsto> 100 * second]\<rparr>)
             [EvCleanup (150 * second)], Inl e)
     \<and> (e = ReplayDetected \<or> (\<exists>d>30. e = TimestampSkewed d))"
  by (rule replay_rejected [OF demo_accept]) (simp_all add: NewReplayGuard_def second_def)

text \<open>
  The guard forgets too early. A hello accepted at time \<open>a\<close> is accepted again at any later
  time \<open>b\<close> more than 60 seconds on at which a cleanup tick has run, if its timestamp still
  passes the skew test at \<open>b\<close>. Both can hold: seconds are truncated before the comparison, so a
  hello whose timestamp is 30 seconds ahead stays fresh for almost 61 seconds while the guard
  remembers it for 60.
\<close>

theorem replay_accepted_after_ttl:
  assumes acc: "ServerHandshake cr psk a a t True guard inp = (out, guard', Inr (key, rest))"
    and ttl: "ttl guard = NoncesTTL"
    and late: "60 * second < b - a"
    and fresh: "timestamp_skew b (slice 36 44 inp) \<le> 30"
  shows "ServerHandshake cr psk b b t True (cleanup b guard') inp
           = (out, (cleanup b guard')\<lparr>seen := (seen (cleanup b guard'))(slice 4 36 inp \<mapsto> b)\<rparr>,
              Inr (key, rest))"
proof -
  from acc obtain lenb salt ts pub where h:
    "hello_lens lenb salt ts pub (computeHMAC cr psk (salt @ ts @ pub))"
    "inp = hello_frame lenb salt ts pub (computeHMAC cr psk (salt @ ts @ pub)) @ rest"
    "guard' = guard\<lparr>seen := (seen guard)(salt \<mapsto> a)\<rparr>"
    "server_reply cr psk t salt pub = Inr (out, Some key)"
    by (rule ServerHandshake_accept)
  from h(2) hello_slices [OF h(1)] have f: "slice 4 36 inp = salt" "slice 36 44 inp = ts"
    by (simp_all add: slice_append hello_sizes)
  have "seen (cleanup b guard') salt = None"
    using late ttl h(3) by (simp add: cleanup_def NoncesTTL_def)
  with fresh h(4) show ?thesis
    unfolding f unfolding h(2) ServerHandshake_hello [OF h(1)] by simp
qed


theorem replay_accepted_after_ttl_witness:
  "let b = 160 * second + 500000000;
       g = cleanup b (NewReplayGuard\<lparr>seen := [replicate 32 1 \<mapsto> 100 * second]\<rparr>)
   in ServerHandshake demo_crypto [1] b b (\<lambda>i. 3) True g demo_hello
        = (demo_reply, g\<lparr>seen := (seen g)(slice 4 36 demo_hello \<mapsto> b)\<rparr>, Inr (replicate 32 1, []))"
proof -
  let ?b = "160 * second + 500000000"
  have "timestamp_skew ?b (slice 36 44 demo_hello) \<le> 30"
    unfolding demo_hello_ts by (subst skew_distance) (simp_all add: unix_def second_def)
  with replay_accepted_after_ttl [OF demo_accept, of ?b] show ?thesis
    by (simp add: NewReplayGuard_def second_def Let_def)
qed

lemma skew_bound_int:
  assumes "timestamp_skew now ts \<le> 30" "0 \<le> sint (get_u64 ts)" "0 \<le> unix now" "unix now < 2 ^ 62"
  shows "\<bar>unix now - sint (get_u64 ts)\<bar> \<le> 30"
proof -
  let ?s = "sint (get_u64 ts)"
  have "?s < 2 ^ 63" using sint_lt [of "get_u64 ts"] by simp
  then have "sint (of_int (unix now - ?s) :: 64 word) = unix now - ?s"
    unfolding sint_sbintrunc' using assms by (intro signed_take_bit_int_eq_self) simp_all
  then have "sint ((of_int (unix now) :: 64 word) - get_u64 ts) = unix now - ?s"
    by simp
  with assms(1) show ?thesis
    using \<open>?s < 2 ^ 63\<close> assms by (auto simp: skew_cases Let_def split: if_splits)
qed

text \<open>
  The exposure is bounded. If the same hello, with a timestamp after 1970, is accepted twice
  on one guard, at \<open>a\<close> and later at \<open>b\<close> with every guard operation in between at or before \<open>b\<close>,
  then the two acceptances are more than 60 and less than 61 seconds apart.
\<close>

theorem replay_exposure_bounded:
  assumes acc1: "ServerHandshake cr psk a a t wr guard inp = (out, guard', Inr (key, rest))"
    and acc2: "ServerHandshake cr psk b b t2 True (foldl guard_step guard' evs) inp
                 = (out2, guard2, Inr (key2, rest2))"
    and ttl: "ttl guard = NoncesTTL"
    and evs: "\<forall>ev\<in>set evs. guard_time ev \<le> b"
    and clocks: "0 \<le> unix a" "unix a < 2 ^ 62" "0 \<le> unix b" "unix b < 2 ^ 62"
    and ts: "0 \<le> sint (get_u64 (slice 36 44 inp))"
  shows "60 * second < b - a \<and> b - a < 61 * second"
proof
  show "60 * second < b - a"
  proof (rule ccontr)
    assume "\<not> 60 * second < b - a"
    with evs have "\<forall>ev\<in>set evs. guard_time ev \<le> a + 60 * second" by fastforce
    from replay_refused [OF acc1 ttl this, of b b t2] acc2 show False by auto
  qed
  from accepted_fields(1) [OF acc1] accepted_fields(1) [OF acc2] clocks ts
  have "unix b - unix a \<le> 60"
    using skew_bound_int [of a "slice 36 44 inp"] skew_bound_int [of b "slice 36 44 inp"] by linarith
  from unix_gap [OF this] show "b - a < 61 * second" by simp
qed


theorem replay_exposure_bounded_witness:
  "60 * second < (160 * second + 500000000) - 100 * second
   \<and> (160 * second + 500000000) - 100 * second < 61 * second"
proof -
  let ?b = "160 * second + 500000000"
  let ?g = "NewReplayGuard\<lparr>seen := [replicate 32 1 \<mapsto> 100 * second]\<rparr>"
  obtain out2 guard2 where acc2: "ServerHandshake demo_crypto [1] ?b ?b (\<lambda>i. 3) True
      (foldl guard_step ?g [EvCleanup ?b]) demo_hello = (out2, guard2, Inr (replicate 32 1, []))"
  proof -
    let ?mac = "computeHMAC demo_crypto [1] (replicate 32 1 @ put_u64 (of_int 130) @ replicate 32 2)"
    have l: "hello_lens (put_u16 104) (replicate 32 1) (put_u64 (of_int 130)) (replicate 32 2) ?mac"
      by (simp add: hello_lens_def computeHMAC_def demo_crypto_def)
    have "timestamp_skew ?b (put_u64 (of_int 130)) = 30"
      by (subst skew_distance) (simp_all add: unix_def second_def)
    with that ServerHandshake_hello [OF l, of demo_crypto "[1]" ?b ?b "\<lambda>i. 3"
        "cleanup ?b ?g" "[]"]
    show thesis
      by (auto simp: demo_hello_def cleanup_def NewReplayGuard_def NoncesTTL_def second_def
          server_reply_def rand_read_def demo_crypto_def DeriveKey_def KeySize_def)
  qed
  show ?thesis
    by (rule replay_exposure_bounded [OF demo_accept acc2])
       (simp_all add: NewReplayGuard_def unix_def second_def demo_hello_ts)
qed

text \<open>
  The exact set of timestamps the server takes as fresh: those at most 30 seconds from its
  clock in 64-bit arithmetic, and one more. The timestamp \<open>2^63\<close> seconds away makes the
  difference the minimal 64-bit integer, whose negation is itself, so it passes the test.
\<close>

theorem timestamp_gate:
  "timestamp_skew now ts \<le> unix MaxTimestampSkew \<longleftrightarrow>
     \<bar>sint ((of_int (unix now) :: 64 word) - get_u64 ts)\<bar> \<le> 30
     \<or> get_u64 ts = of_int (unix now) + 2 ^ 63"
proof -
  have "unix MaxTimestampSkew = 30"
    by (simp add: unix_def MaxTimestampSkew_def second_def)
  moreover have "timestamp_skew now ts \<le> 30"
    if "get_u64 ts = of_int (unix now) + 2 ^ 63"
    using that by (simp add: skew_cases Let_def)
  moreover have "timestamp_skew now ts \<le> 30"
    if "\<bar>sint ((of_int (unix now) :: 64 word) - get_u64 ts)\<bar> \<le> 30"
    using that by (auto simp: skew_cases Let_def)
  ultimately show ?thesis
    using skew_le_abs [of now ts] by auto
qed

end
