(* ===== verification/Upstream.thy ===== *)
theory Upstream
  imports Handshake
begin

text \<open>
  Component \<open>internal/tunnel/conn.go\<close> and \<open>internal/tunnel/pool.go\<close>: the connection manager
  that dials, multiplexes and handshakes with one upstream server and reconnects with back-off,
  and the pool of such members with their health and the notification of changes. Dialling, the
  mux library and the handshake are callbacks of the manager: how an attempt ends is an argument.
  The network resources of a manager are numbered by attempt, and the set of those that are open
  is kept in the state, so that leaks can be stated.
\<close>

section \<open>The connection manager (\<open>conn.go\<close>)\<close>

definition initialBackoff :: int where "initialBackoff = 1 * second"
definition maxBackoff :: int where "maxBackoff = 30 * second"
definition reconnectTimeout :: int where "reconnectTimeout = 15 * second"

datatype resource = RawConn nat | MuxSession nat | MuxStream nat

text \<open>The last two fields record the resources in use and the number of the next attempt.\<close>

record ConnManager =
  cm_session :: "nat option"
  cm_stream :: "nat option"
  cm_sessionKey :: bytes
  cm_rawConn :: "nat option"
  cm_done :: bool
  cm_live :: "resource set"
  cm_next :: nat

definition NewConnManager :: ConnManager where
  "NewConnManager =
     \<lparr>cm_session = None, cm_stream = None, cm_sessionKey = [], cm_rawConn = None, cm_done = False,
      cm_live = {}, cm_next = 0\<rparr>"

text \<open>
  How an attempt ends: the step that fails, or the session key. The flag says that the watchdog
  had fired by then and closed the raw connection.
\<close>

datatype attempt =
    DialFails
  | MuxFails bool
  | OpenFails bool
  | HandshakeFails bool
  | Established bytes bool

datatype conn_error =
    EDial
  | EMuxClient bool
  | EOpenStream bool
  | EHandshake bool
  | EManagerClosed

definition open_res :: "resource \<Rightarrow> ConnManager \<Rightarrow> ConnManager" where
  "open_res r cm = cm\<lparr>cm_live := insert r (cm_live cm)\<rparr>"

definition close_res :: "resource \<Rightarrow> ConnManager \<Rightarrow> ConnManager" where
  "close_res r cm = cm\<lparr>cm_live := cm_live cm - {r}\<rparr>"

definition close_if :: "('a \<Rightarrow> resource) \<Rightarrow> 'a option \<Rightarrow> ConnManager \<Rightarrow> ConnManager" where
  "close_if f x cm = (case x of None \<Rightarrow> cm | Some n \<Rightarrow> close_res (f n) cm)"

definition close_current :: "ConnManager \<Rightarrow> ConnManager" where
  "close_current cm =
     close_if RawConn (cm_rawConn cm)
       (close_if MuxSession (cm_session cm) (close_if MuxStream (cm_stream cm) cm))"

definition reconnect :: "attempt \<Rightarrow> ConnManager \<Rightarrow> (conn_error + unit) \<times> ConnManager" where
  "reconnect a cm =
     (let cm0 = close_current cm; n = cm_next cm0 in
      if a = DialFails then (Inl EDial, cm0)
      else
        let cm1 = open_res (RawConn n) (cm0\<lparr>cm_next := n + 1\<rparr>) in
        case a of
          MuxFails fired \<Rightarrow> (Inl (EMuxClient fired), close_res (RawConn n) cm1)
        | OpenFails fired \<Rightarrow>
            (Inl (EOpenStream fired),
             close_res (RawConn n) (close_res (MuxSession n) (open_res (MuxSession n) cm1)))
        | HandshakeFails fired \<Rightarrow>
            (Inl (EHandshake fired),
             close_res (RawConn n) (close_res (MuxSession n) (close_res (MuxStream n)
               (open_res (MuxStream n) (open_res (MuxSession n) cm1)))))
        | Established key fired \<Rightarrow>
            let cm2 = open_res (MuxStream n) (open_res (MuxSession n) cm1);
                cm3 = (if fired then close_res (RawConn n) cm2 else cm2)
            in (Inr (), cm3\<lparr>cm_rawConn := Some n, cm_session := Some n, cm_stream := Some n,
                            cm_sessionKey := key\<rparr>))"

definition Connect :: "attempt \<Rightarrow> ConnManager \<Rightarrow> (conn_error + unit) \<times> ConnManager" where
  "Connect a cm = reconnect a cm"

definition GetActiveStream :: "ConnManager \<Rightarrow> nat option \<times> bytes" where
  "GetActiveStream cm = (cm_stream cm, cm_sessionKey cm)"

definition SessionKey :: "ConnManager \<Rightarrow> bytes" where
  "SessionKey cm = cm_sessionKey cm"

text \<open>Closing the channel \<open>done\<close> twice panics.\<close>

definition cm_Close :: "ConnManager \<Rightarrow> ConnManager option" where
  "cm_Close cm = (if cm_done cm then None else Some (close_current (cm\<lparr>cm_done := True\<rparr>)))"

definition next_backoff :: "int \<Rightarrow> int" where
  "next_backoff b = (if b * 2 > maxBackoff then maxBackoff else b * 2)"

text \<open>
  The reconnect loop on a list of rounds: how the attempt ends and whether the manager is closed
  during the wait after it. The result comes with the waits; \<open>None\<close> means that the loop is still
  trying when the rounds are used up.
\<close>

fun Reconnect ::
  "(attempt \<times> bool) list \<Rightarrow> int \<Rightarrow> ConnManager \<Rightarrow> ((conn_error + unit) \<times> int list \<times> ConnManager) option" where
  "Reconnect rounds backoff cm =
     (if cm_done cm then Some (Inl EManagerClosed, [], cm)
      else case rounds of
        [] \<Rightarrow> None
      | (a, closed) # rest \<Rightarrow>
          (case reconnect a cm of
             (Inr u, cm') \<Rightarrow> Some (Inr u, [], cm')
           | (Inl e, cm') \<Rightarrow>
               if closed then map_option (\<lambda>cm''. (Inl EManagerClosed, [backoff], cm'')) (cm_Close cm')
               else map_option (\<lambda>(r, ws, cm''). (r, backoff # ws, cm''))
                      (Reconnect rest (next_backoff backoff) cm')))"

declare Reconnect.simps [simp del]

section \<open>Members and the pool (\<open>pool.go\<close>)\<close>

text \<open>
  A device is known by its interface name. A nil \<open>assignedIP\<close> is the empty list (copying an empty
  slice with \<open>append\<close> gives nil too).
\<close>

record Member =
  Name :: string
  Addr :: string
  IfName :: string
  CM :: ConnManager
  Token :: bytes
  healthy :: bool
  lastDown :: int
  m_iface :: "string option"
  assignedIP :: bytes
  lastRTTus :: int

definition SetRTTus :: "int \<Rightarrow> Member \<Rightarrow> Member" where
  "SetRTTus us m = m\<lparr>lastRTTus := us\<rparr>"

definition SetIface :: "string \<Rightarrow> bytes \<Rightarrow> Member \<Rightarrow> Member" where
  "SetIface iface ip m = m\<lparr>m_iface := Some iface, assignedIP := ip\<rparr>"

definition setHealthy :: "int \<Rightarrow> bool \<Rightarrow> Member \<Rightarrow> bool \<times> Member" where
  "setHealthy now v m =
     (if healthy m = v then (False, m)
      else (True, if v then m\<lparr>healthy := v\<rparr> else m\<lparr>healthy := v, lastDown := now\<rparr>))"

text \<open>The event channel holds at most eight events; they carry no value.\<close>

record Pool =
  members :: "Member list"
  events :: nat
  pool_done :: bool

definition event_cap :: nat where "event_cap = 8"

definition NewPool :: "Member list \<Rightarrow> Pool" where
  "NewPool ms = \<lparr>members = ms, events = 0, pool_done = False\<rparr>"

definition Active :: "Pool \<Rightarrow> Member list" where
  "Active p = filter healthy (members p)"

definition notify :: "Pool \<Rightarrow> Pool" where
  "notify p = (if events p < event_cap then p\<lparr>events := events p + 1\<rparr> else p)"

text \<open>The two halves of \<open>MarkHealthy\<close> and \<open>MarkUnhealthy\<close>, which other goroutines may separate.\<close>

definition set_health :: "int \<Rightarrow> bool \<Rightarrow> nat \<Rightarrow> Pool \<Rightarrow> bool \<times> Pool" where
  "set_health now v i p =
     (let (changed, m) = setHealthy now v (members p ! i)
      in (changed, p\<lparr>members := (members p)[i := m]\<rparr>))"

definition MarkHealthy :: "int \<Rightarrow> nat \<Rightarrow> Pool \<Rightarrow> Pool" where
  "MarkHealthy now i p =
     (let (changed, p') = set_health now True i p in if changed then notify p' else p')"

definition MarkUnhealthy :: "int \<Rightarrow> nat \<Rightarrow> Pool \<Rightarrow> Pool" where
  "MarkUnhealthy now i p =
     (let (changed, p') = set_health now False i p in if changed then notify p' else p')"

text \<open>
  \<open>ConnectAll\<close>: member \<open>i\<close>'s attempt ends as \<open>outcome i\<close>, and the results arrive in some
  \<open>order\<close>. The error is the number of members.
\<close>

definition connect_member :: "int \<Rightarrow> (nat \<Rightarrow> attempt) \<Rightarrow> nat \<Rightarrow> nat \<times> Pool \<Rightarrow> nat \<times> Pool" where
  "connect_member now outcome i = (\<lambda>(n, p).
     let m = members p ! i; (r, cm') = Connect (outcome i) (CM m); m' = m\<lparr>CM := cm'\<rparr>
     in case r of
          Inr _ \<Rightarrow> (n + 1, p\<lparr>members := (members p)[i := snd (setHealthy now True m')]\<rparr>)
        | Inl e \<Rightarrow> (n, p\<lparr>members := (members p)[i := snd (setHealthy now False m')]\<rparr>))"

definition ConnectAll :: "int \<Rightarrow> (nat \<Rightarrow> attempt) \<Rightarrow> nat list \<Rightarrow> Pool \<Rightarrow> (nat + unit) \<times> Pool" where
  "ConnectAll now outcome order p =
     (let (n, p') = fold (connect_member now outcome) order (0, p)
      in if n = 0 then (Inl (length (members p)), p') else (Inr (), notify p'))"

text \<open>\<open>Close\<close>: closes every manager, once; \<open>None\<close> is the panic of a manager closed before.\<close>

fun close_all :: "Member list \<Rightarrow> Member list option" where
  "close_all [] = Some []"
| "close_all (m # ms) =
     (case cm_Close (CM m) of
        None \<Rightarrow> None
      | Some cm' \<Rightarrow> map_option ((#) (m\<lparr>CM := cm'\<rparr>)) (close_all ms))"

definition pool_Close :: "Pool \<Rightarrow> Pool option" where
  "pool_Close p =
     (if pool_done p then Some p
      else map_option (\<lambda>ms. p\<lparr>pool_done := True, members := ms\<rparr>) (close_all (members p)))"

definition SuggestIfaceName :: "string \<Rightarrow> nat \<Rightarrow> nat \<Rightarrow> string" where
  "SuggestIfaceName base idx n = (if n \<le> 1 then base else base @ fmt_d idx)"

text \<open>The host of Go's \<open>net.SplitHostPort\<close>, or \<open>None\<close> for its errors.\<close>

definition split_last :: "char \<Rightarrow> string \<Rightarrow> (string \<times> string) option" where
  "split_last c s =
     (if c \<in> set s
      then Some (rev (tl (dropWhile (\<lambda>x. x \<noteq> c) (rev s))), rev (takeWhile (\<lambda>x. x \<noteq> c) (rev s)))
      else None)"

definition SplitHostPort :: "string \<Rightarrow> (string \<times> string) option" where
  "SplitHostPort hostport =
     (case split_last (CHR '':'') hostport of
        None \<Rightarrow> None
      | Some (before, port) \<Rightarrow>
          if hd hostport = CHR ''['' then
            (if CHR '']'' \<notin> set hostport then None
             else
               let host = tl (takeWhile (\<lambda>x. x \<noteq> CHR '']'') hostport);
                   rest = tl (dropWhile (\<lambda>x. x \<noteq> CHR '']'') hostport)
               in if length host + 2 \<noteq> length before then None
                  else if CHR ''['' \<in> set (tl hostport) then None
                  else if CHR '']'' \<in> set rest then None
                  else Some (host, port))
          else if CHR '':'' \<in> set before then None
          else if CHR ''['' \<in> set hostport then None
          else if CHR '']'' \<in> set hostport then None
          else Some (before, port))"

definition ResolveServerIPs :: "string list \<Rightarrow> string list" where
  "ResolveServerIPs addrs =
     map (\<lambda>a. case SplitHostPort a of Some (host, _) \<Rightarrow> host | None \<Rightarrow> a) addrs"

section \<open>No connection is leaked\<close>

definition current_res :: "ConnManager \<Rightarrow> resource set" where
  "current_res cm = RawConn ` set_option (cm_rawConn cm) \<union> MuxSession ` set_option (cm_session cm)
     \<union> MuxStream ` set_option (cm_stream cm)"

text \<open>What is open belongs to the current connection, whose three parts are of one attempt.\<close>

definition cm_inv :: "ConnManager \<Rightarrow> bool" where
  "cm_inv cm \<longleftrightarrow>
     cm_live cm \<subseteq> current_res cm
     \<and> cm_rawConn cm = cm_stream cm \<and> cm_session cm = cm_stream cm
     \<and> (\<forall>n. cm_stream cm = Some n \<longrightarrow> n < cm_next cm)"

lemma close_current_simps [simp]:
  "cm_live (close_current cm) = cm_live cm - current_res cm"
  "cm_session (close_current cm) = cm_session cm" "cm_stream (close_current cm) = cm_stream cm"
  "cm_rawConn (close_current cm) = cm_rawConn cm" "cm_done (close_current cm) = cm_done cm"
  "cm_next (close_current cm) = cm_next cm" "cm_sessionKey (close_current cm) = cm_sessionKey cm"
  by (auto simp: close_current_def close_if_def close_res_def current_res_def split: option.splits)

lemma reconnect_Inl:
  "cm_inv cm \<Longrightarrow> reconnect a cm = (Inl e, cm') \<Longrightarrow>
     cm_live cm' = {} \<and> GetActiveStream cm' = GetActiveStream cm \<and> cm_done cm' = cm_done cm \<and> cm_inv cm'"
  by (cases a) (auto simp: reconnect_def Let_def open_res_def close_res_def cm_inv_def
      GetActiveStream_def current_res_def)

lemma reconnect_Inr:
  "cm_inv cm \<Longrightarrow> reconnect a cm = (Inr u, cm') \<Longrightarrow>
     \<exists>key fired. a = Established key fired
       \<and> cm_live cm' = (if fired then {} else {RawConn (cm_next cm)}) \<union> {MuxSession (cm_next cm), MuxStream (cm_next cm)}
       \<and> GetActiveStream cm' = (Some (cm_next cm), key) \<and> cm_done cm' = cm_done cm \<and> cm_inv cm'"
  by (cases a) (auto simp: reconnect_def Let_def open_res_def close_res_def cm_inv_def
      GetActiveStream_def current_res_def)

lemma cm_Close_spec:
  "cm_inv cm \<Longrightarrow> \<not> cm_done cm \<Longrightarrow> \<exists>cm'. cm_Close cm = Some cm' \<and> cm_live cm' = {} \<and> cm_done cm' \<and> cm_inv cm'"
  by (auto simp: cm_Close_def cm_inv_def current_res_def)

text \<open>The operations other goroutines can call on a manager in any order.\<close>

inductive cm_step :: "ConnManager \<Rightarrow> ConnManager \<Rightarrow> bool" where
  attempt: "reconnect a cm = (r, cm') \<Longrightarrow> cm_step cm cm'"
| close: "cm_Close cm = Some cm' \<Longrightarrow> cm_step cm cm'"

interpretation managers: invariant_system "\<lambda>cm. cm = NewConnManager" cm_step cm_inv
proof
  show "cm_inv s" if "s = NewConnManager" for s
    using that by (simp add: cm_inv_def NewConnManager_def)
  show "cm_inv t" if inv: "cm_inv s" and st: "cm_step s t" for s t
    using st
  proof cases
    case (attempt a r)
    then show ?thesis using reconnect_Inl [OF inv] reconnect_Inr [OF inv] by (cases r) blast+
  next
    case close
    then have "\<not> cm_done s" by (auto simp: cm_Close_def split: if_splits)
    with close cm_Close_spec [OF inv] show ?thesis by auto
  qed
qed

text \<open>
  C30. Connections are not leaked. Whatever the order of attempts and closing, every open resource of
  a manager is part of its current connection, whose connection, session and stream come from one
  attempt; a failed attempt leaves nothing open and does not touch the stream and key clients see;
  a successful one installs its own stream together with its own key; closing closes everything.
\<close>

theorem conn_no_leak:
  assumes "reach (\<lambda>cm. cm = NewConnManager) cm_step cm"
  shows "cm_live cm \<subseteq> (case cm_stream cm of None \<Rightarrow> {} | Some n \<Rightarrow> {RawConn n, MuxSession n, MuxStream n})
    \<and> (case reconnect a cm of
         (Inl e, cm') \<Rightarrow> cm_live cm' = {} \<and> GetActiveStream cm' = GetActiveStream cm
       | (Inr _, cm') \<Rightarrow> \<exists>key fired. a = Established key fired
            \<and> GetActiveStream cm' = (Some (cm_next cm), key) \<and> MuxStream (cm_next cm) \<in> cm_live cm')
    \<and> (case cm_Close cm of None \<Rightarrow> cm_done cm | Some cm' \<Rightarrow> cm_live cm' = {})"
proof -
  note inv = managers.reach_inv [OF assms]
  have "cm_live cm \<subseteq> (case cm_stream cm of None \<Rightarrow> {} | Some n \<Rightarrow> {RawConn n, MuxSession n, MuxStream n})"
    using inv by (auto simp: cm_inv_def current_res_def split: option.splits)
  moreover have "case cm_Close cm of None \<Rightarrow> cm_done cm | Some cm' \<Rightarrow> cm_live cm' = {}"
    using cm_Close_spec [OF inv] by (cases "cm_done cm") (auto simp: cm_Close_def)
  moreover have "case reconnect a cm of
         (Inl e, cm') \<Rightarrow> cm_live cm' = {} \<and> GetActiveStream cm' = GetActiveStream cm
       | (Inr _, cm') \<Rightarrow> \<exists>key fired. a = Established key fired
            \<and> GetActiveStream cm' = (Some (cm_next cm), key) \<and> MuxStream (cm_next cm) \<in> cm_live cm'"
  proof (cases "reconnect a cm")
    case (Pair r cm')
    with reconnect_Inl [OF inv, of a _ cm'] reconnect_Inr [OF inv, of a _ cm'] show ?thesis
      by (cases r) auto
  qed
  ultimately show ?thesis by blast
qed

theorem conn_no_leak_witness:
  "cm_live (snd (reconnect (MuxFails True) (snd (reconnect (Established [7] False) NewConnManager)))) = {}"
proof -
  let ?cm = "snd (reconnect (Established [7] False) NewConnManager)"
  have "reach (\<lambda>cm. cm = NewConnManager) cm_step ?cm"
  proof (rule reach_step)
    show "reach (\<lambda>cm. cm = NewConnManager) cm_step NewConnManager" by (simp add: reach_init)
    show "cm_step NewConnManager ?cm" by (rule cm_step.attempt) (rule prod.collapse [symmetric])
  qed
  from conn_no_leak [OF this, of "MuxFails True"] show ?thesis
    by (auto simp: reconnect_def Let_def)
qed

section \<open>Back-off\<close>

definition fails :: "attempt \<Rightarrow> bool" where
  "fails a \<longleftrightarrow> (\<forall>key fired. a \<noteq> Established key fired)"

lemma reconnect_fails: "cm_inv cm \<Longrightarrow> fails a \<Longrightarrow> \<exists>e cm'. reconnect a cm = (Inl e, cm')"
  by (cases a) (auto simp: fails_def reconnect_def Let_def)

lemma reconnect_succeeds: "\<exists>cm'. reconnect (Established key fired) cm = (Inr (), cm')"
  by (simp add: reconnect_def Let_def)

definition backoff_at :: "nat \<Rightarrow> int" where
  "backoff_at i = min (2 ^ i) 30 * second"

lemma next_backoff_at: "next_backoff (backoff_at i) = backoff_at (Suc i)"
proof -
  have "min (2 * min (2 ^ i) 30) 30 = min (2 * 2 ^ i) (30 :: int)" by simp
  then show ?thesis
    by (auto simp: next_backoff_def backoff_at_def maxBackoff_def second_def min_def)
qed

lemma Reconnect_runs:
  assumes "cm_inv cm" "\<not> cm_done cm" "list_all fails fs"
  shows "\<exists>cm'. Reconnect (map (\<lambda>a. (a, False)) fs @ (Established key fired, c) # rest) (backoff_at i) cm
            = Some (Inr (), map backoff_at [i..<i + length fs], cm')
          \<and> snd (GetActiveStream cm') = key \<and> cm_inv cm'"
  using assms
proof (induction fs arbitrary: cm i)
  case Nil
  obtain cm' where r: "reconnect (Established key fired) cm = (Inr (), cm')"
    using reconnect_succeeds by blast
  with reconnect_Inr [OF Nil(1) r] Nil(2) show ?case
    by (auto simp: Reconnect.simps [of _ _ cm])
next
  case (Cons a fs)
  then obtain e cm1 where r: "reconnect a cm = (Inl e, cm1)" using reconnect_fails by fastforce
  with reconnect_Inl [OF Cons.prems(1) r] Cons.prems have "cm_inv cm1" "\<not> cm_done cm1" "list_all fails fs"
    by auto
  from Cons.IH [OF this, of "Suc i"] r Cons.prems(2) show ?case
    by (auto simp: Reconnect.simps [of _ _ cm] next_backoff_at upt_conv_Cons simp del: upt_Suc)
qed

text \<open>
  Reconnecting. After any number \<open>k\<close> of failed attempts the first attempt that succeeds ends the
  loop with success and its key; the waits are 1, 2, 4, 8, 16 and then always 30 seconds.
\<close>

theorem reconnect_backoff:
  assumes "reach (\<lambda>cm. cm = NewConnManager) cm_step cm" "\<not> cm_done cm" "list_all fails fs"
  shows "\<exists>cm'. Reconnect (map (\<lambda>a. (a, False)) fs @ (Established key fired, c) # rest) initialBackoff cm
            = Some (Inr (), map (\<lambda>i. min (2 ^ i) 30 * second) [0..<length fs], cm')
          \<and> snd (GetActiveStream cm') = key"
proof -
  have "initialBackoff = backoff_at 0" "backoff_at = (\<lambda>i. min (2 ^ i) 30 * second)"
    by (auto simp: initialBackoff_def backoff_at_def)
  with Reconnect_runs [OF managers.reach_inv [OF assms(1)] assms(2,3), of key fired c rest 0]
  show ?thesis by auto
qed

theorem reconnect_backoff_witness:
  "\<exists>cm'. Reconnect ([(DialFails, False), (HandshakeFails True, False), (Established [7] False, False)]) initialBackoff
       NewConnManager = Some (Inr (), [1 * second, 2 * second], cm') \<and> snd (GetActiveStream cm') = [7]"
proof -
  have "reach (\<lambda>cm. cm = NewConnManager) cm_step NewConnManager" by (simp add: reach_init)
  from reconnect_backoff [OF this, of "[DialFails, HandshakeFails True]" "[7]" False False "[]"]
  show ?thesis by (simp add: NewConnManager_def fails_def numeral_2_eq_2)
qed

text \<open>
  Closing races with reconnecting. \<open>Reconnect\<close> looks at the \<open>done\<close> channel before it takes the
  lock: when \<open>Close\<close> runs in between, the attempt still connects and leaves an open connection in a
  closed manager, which nothing closes afterwards (a second \<open>Close\<close> panics).
\<close>

theorem close_race_leaks:
  assumes "cm_Close cm = Some cm1"
  shows "\<exists>cm2. reconnect (Established key False) cm1 = (Inr (), cm2) \<and> cm_done cm2
    \<and> RawConn (cm_next cm) \<in> cm_live cm2 \<and> cm_Close cm2 = None"
  using assms
  by (auto simp: cm_Close_def reconnect_def Let_def open_res_def close_current_def close_if_def close_res_def
      split: if_splits option.splits)

theorem close_race_leaks_witness:
  "\<exists>cm2. reconnect (Established [7] False) (the (cm_Close NewConnManager)) = (Inr (), cm2)
     \<and> cm_live cm2 \<noteq> {}"
proof -
  have "cm_Close NewConnManager = Some (the (cm_Close NewConnManager))"
    by (simp add: cm_Close_def NewConnManager_def)
  from close_race_leaks [OF this, of "[7]"] show ?thesis by auto
qed

end
