(* ===== verification/Wireguard.thy ===== *)
theory Wireguard
  imports Upstream Routing
begin

text \<open>
  Component \<open>internal/wireguard/wireguard.go\<close>: the WireGuard interface of the gateway, its keys and
  its peers with the allocation of their addresses. The programs \<open>ip\<close> and \<open>wg\<close>, the file system,
  the YAML library and the web are operations on an arbitrary state; a slice expression out of
  bounds, which panics, is an error of its own.
\<close>

section \<open>Data\<close>

record Peer =
  peerName :: string
  PublicKey :: string
  PeerPrivateKey :: string
  AllowedIP :: string

record wgManager =
  cfg :: WireGuardConfig
  serverPub :: string
  peers :: "Peer list"

datatype file_error = NotExist | FileError string

text \<open>
  \<open>h_temp\<close> creates an empty temporary file and returns its name; the error results are texts. \<open>h_get\<close> is the body of a web page, \<open>h_parse_ip\<close> is \<open>net.ParseIP\<close>.
\<close>

record 'k host =
  h_run :: "cmd \<Rightarrow> 'k \<Rightarrow> string option \<times> 'k"
  h_read :: "string \<Rightarrow> 'k \<Rightarrow> file_error + string"
  h_write :: "string \<Rightarrow> string \<Rightarrow> 'k \<Rightarrow> string option \<times> 'k"
  h_mkdir :: "string \<Rightarrow> 'k \<Rightarrow> string option \<times> 'k"
  h_temp :: "'k \<Rightarrow> (string + string) \<times> 'k"
  h_remove :: "string \<Rightarrow> 'k \<Rightarrow> 'k"
  h_genkey :: "'k \<Rightarrow> (string + string) \<times> 'k"
  h_pubkey :: "string \<Rightarrow> string + string"
  h_marshal :: "Peer list \<Rightarrow> string + string"
  h_unmarshal :: "string \<Rightarrow> string + Peer list"
  h_get :: "string \<Rightarrow> string option"
  h_parse_ip :: "string \<Rightarrow> IP"

datatype wg_error =
    PeerExists string
  | PeerNotFound string
  | GenKey string
  | DerivePublic string
  | ParseSubnet
  | NoFreePeerIP
  | Command string
  | Write string
  | Yaml string
  | ReadPeers file_error
  | SliceBounds

definition NewWgManager :: "WireGuardConfig \<Rightarrow> wgManager" where
  "NewWgManager c = \<lparr>cfg = c, serverPub = [], peers = []\<rparr>"

definition iface :: "wgManager \<Rightarrow> string" where
  "iface m = (if Interface (cfg m) \<noteq> [] then Interface (cfg m) else ''wg0'')"

definition listenPort :: "wgManager \<Rightarrow> int" where
  "listenPort m = (if ListenPort (cfg m) > 0 then ListenPort (cfg m) else 51820)"

text \<open>The path up to the last slash; without a slash the slice bound is \<open>-1\<close>.\<close>

definition dir_of :: "string \<Rightarrow> string option" where
  "dir_of path = map_option fst (split_last (CHR ''/'') path)"

section \<open>Addresses of peers\<close>

text \<open>\<open>inc\<close>: the carry moves to the left while a byte wraps to zero.\<close>

fun inc_rev :: "bytes \<Rightarrow> bytes" where
  "inc_rev [] = []"
| "inc_rev (b # bs) = (if b + 1 > 0 then (b + 1) # bs else (b + 1) # inc_rev bs)"

definition inc :: "bytes \<Rightarrow> bytes" where
  "inc ip = rev (inc_rev (rev ip))"

text \<open>
  The scan of \<open>allocateIP\<close> from address \<open>ip\<close>. It runs until it leaves the subnet, which need not
  happen, so it is a partial function: \<open>None\<close> is a scan that does not end.
\<close>

partial_function (option) alloc_scan :: "IPNet \<Rightarrow> string set \<Rightarrow> IP \<Rightarrow> IP option option" where
  "alloc_scan net used ip =
     (if net_Contains net ip then
        (if ip ! 3 = 255 then alloc_scan net used (inc ip)
         else if ip_string ip \<notin> used then Some (Some ip)
         else alloc_scan net used (inc ip))
      else Some None)"

definition used_ips :: "wgManager \<Rightarrow> string set" where
  "used_ips m =
     (case ParseCIDR (Address (cfg m)) of Some (ip, _) \<Rightarrow> {ip_string ip} | None \<Rightarrow> {})
     \<union> set (List.map_filter (\<lambda>p. map_option (\<lambda>(ip, _). ip_string ip) (ParseCIDR (AllowedIP p))) (peers m))"

definition allocateIP :: "wgManager \<Rightarrow> (wg_error + string) option" where
  "allocateIP m =
     (case ParseCIDR (Subnet (cfg m)) of
        None \<Rightarrow> Some (Inl ParseSubnet)
      | Some (_, net) \<Rightarrow>
          map_option (\<lambda>r. case r of None \<Rightarrow> Inl NoFreePeerIP | Some ip \<Rightarrow> Inr (ip_string ip))
            (alloc_scan net (used_ips m) (inc (net_ip net))))"

section \<open>Keys\<close>

definition keyPath :: "wgManager \<Rightarrow> string option" where
  "keyPath m =
     (if PeersFile (cfg m) \<noteq> [] then map_option (\<lambda>d. d @ ''/wg-private.key'') (dir_of (PeersFile (cfg m)))
      else Some ''/etc/gateway/wg-private.key'')"

definition generate_and_save :: "'k host \<Rightarrow> string \<Rightarrow> 'k \<Rightarrow> (wg_error + string) \<times> 'k" where
  "generate_and_save H path k =
     (case h_genkey H k of
        (Inl e, k1) \<Rightarrow> (Inl (GenKey e), k1)
      | (Inr key, k1) \<Rightarrow>
          (case dir_of path of
             None \<Rightarrow> (Inl SliceBounds, k1)
           | Some dir \<Rightarrow>
               (case h_mkdir H dir k1 of
                  (Some e, k2) \<Rightarrow> (Inl (Write e), k2)
                | (None, k2) \<Rightarrow>
                    (case h_write H path (key @ [CHR 0x0A]) k2 of
                       (Some e, k3) \<Rightarrow> (Inl (Write e), k3)
                     | (None, k3) \<Rightarrow> (Inr key, k3)))))"

definition loadOrGenerateKey :: "'k host \<Rightarrow> wgManager \<Rightarrow> 'k \<Rightarrow> (wg_error + string) \<times> 'k" where
  "loadOrGenerateKey H m k =
     (case keyPath m of
        None \<Rightarrow> (Inl SliceBounds, k)
      | Some path \<Rightarrow>
          (case h_read H path k of
             Inl e \<Rightarrow> generate_and_save H path k
           | Inr content \<Rightarrow>
               if TrimSpace content \<noteq> [] then (Inr (TrimSpace content), k) else generate_and_save H path k))"

definition derive :: "'k host \<Rightarrow> wgManager \<times> 'k \<Rightarrow> wg_error option \<times> wgManager \<times> 'k" where
  "derive H = (\<lambda>(m, k).
     case h_pubkey H (PrivateKey (cfg m)) of
       Inl e \<Rightarrow> (Some (DerivePublic e), m, k)
     | Inr pub \<Rightarrow> (None, m\<lparr>serverPub := pub\<rparr>, k))"

definition InitKeys :: "'k host \<Rightarrow> wgManager \<times> 'k \<Rightarrow> wg_error option \<times> wgManager \<times> 'k" where
  "InitKeys H = (\<lambda>(m, k).
     if PrivateKey (cfg m) = [] then
       (case loadOrGenerateKey H m k of
          (Inl e, k1) \<Rightarrow> (Some e, m, k1)
        | (Inr key, k1) \<Rightarrow> derive H (m\<lparr>cfg := (cfg m)\<lparr>PrivateKey := key\<rparr>\<rparr>, k1))
     else derive H (m, k))"

section \<open>Peers\<close>

definition wg_run :: "'k host \<Rightarrow> cmd \<Rightarrow> 'k \<Rightarrow> wg_error option \<times> 'k" where
  "wg_run H c k = (case h_run H c k of (e, k') \<Rightarrow> (map_option Command e, k'))"

definition addPeerToWG :: "'k host \<Rightarrow> wgManager \<Rightarrow> Peer \<Rightarrow> 'k \<Rightarrow> wg_error option \<times> 'k" where
  "addPeerToWG H m p = wg_run H [''wg'', ''set'', iface m, ''peer'', PublicKey p, ''allowed-ips'', AllowedIP p]"

definition savePeers :: "'k host \<Rightarrow> wgManager \<Rightarrow> 'k \<Rightarrow> wg_error option \<times> 'k" where
  "savePeers H m k =
     (case h_marshal H (peers m) of
        Inl e \<Rightarrow> (Some (Yaml e), k)
      | Inr data \<Rightarrow>
          (case dir_of (PeersFile (cfg m)) of
             None \<Rightarrow> (Some SliceBounds, k)
           | Some dir \<Rightarrow>
               (case h_mkdir H dir k of
                  (Some e, k1) \<Rightarrow> (Some (Write e), k1)
                | (None, k1) \<Rightarrow>
                    (case h_write H (PeersFile (cfg m)) data k1 of (e, k2) \<Rightarrow> (map_option Write e, k2)))))"

definition LoadPeers :: "'k host \<Rightarrow> wgManager \<times> 'k \<Rightarrow> wg_error option \<times> wgManager \<times> 'k" where
  "LoadPeers H = (\<lambda>(m, k).
     case h_read H (PeersFile (cfg m)) k of
       Inl e \<Rightarrow> (Some (ReadPeers e), m, k)
     | Inr data \<Rightarrow>
         (case h_unmarshal H data of
            Inl e \<Rightarrow> (Some (Yaml e), m, k)
          | Inr ps \<Rightarrow> (None, m\<lparr>peers := ps\<rparr>, k)))"

fun detect_from :: "'k host \<Rightarrow> string list \<Rightarrow> string" where
  "detect_from H [] = []"
| "detect_from H (url # urls) =
     (case h_get H url of
        None \<Rightarrow> detect_from H urls
      | Some body \<Rightarrow>
          if h_parse_ip H (TrimSpace body) \<noteq> [] then TrimSpace body else detect_from H urls)"

definition detectPublicIP :: "'k host \<Rightarrow> string" where
  "detectPublicIP H = detect_from H [''https://ifconfig.me'', ''https://api.ipify.org'', ''https://icanhazip.com'']"

definition trim_suffix :: "string \<Rightarrow> string \<Rightarrow> string" where
  "trim_suffix s suf = (if suffix suf s then take (length s - length suf) s else s)"

definition generateClientConfig :: "'k host \<Rightarrow> wgManager \<Rightarrow> Peer \<Rightarrow> string" where
  "generateClientConfig H m p =
     (let port = listenPort m;
          dns = (if wDNS (cfg m) = [] then ''1.1.1.1'' else wDNS (cfg m));
          ip = detectPublicIP H;
          endpoint = (if ip = [] then ''<GATEWAY_IP>'' else ip);
          line = (\<lambda>s. s @ newline)
      in line ''[Interface]'' @ line (''PrivateKey = '' @ PeerPrivateKey p)
         @ line (''Address = '' @ trim_suffix (AllowedIP p) ''/32'' @ ''/32'') @ line (''DNS = '' @ dns)
         @ line ''MTU = 1380'' @ line [] @ line ''[Peer]'' @ line (''PublicKey = '' @ serverPub m)
         @ line (''Endpoint = '' @ endpoint @ '':'' @ fmt_d (nat port))
         @ line ''AllowedIPs = 0.0.0.0/0, ::/0'' @ line ''PersistentKeepalive = 25'')"

text \<open>\<open>None\<close> is an allocation that does not end.\<close>

definition AddPeer :: "'k host \<Rightarrow> string \<Rightarrow> wgManager \<times> 'k \<Rightarrow> ((wg_error + string) \<times> wgManager \<times> 'k) option" where
  "AddPeer H nm = (\<lambda>(m, k).
     if nm \<in> set (map peerName (peers m)) then Some (Inl (PeerExists nm), m, k)
     else case h_genkey H k of
       (Inl e, k1) \<Rightarrow> Some (Inl (GenKey e), m, k1)
     | (Inr privKey, k1) \<Rightarrow>
         (case h_pubkey H privKey of
            Inl e \<Rightarrow> Some (Inl (DerivePublic e), m, k1)
          | Inr pubKey \<Rightarrow>
              (case allocateIP m of
                 None \<Rightarrow> None
               | Some (Inl e) \<Rightarrow> Some (Inl e, m, k1)
               | Some (Inr ip) \<Rightarrow>
                   let peer = \<lparr>peerName = nm, PublicKey = pubKey, PeerPrivateKey = privKey, AllowedIP = ip @ ''/32''\<rparr> in
                   (case addPeerToWG H m peer k1 of
                      (Some e, k2) \<Rightarrow> Some (Inl e, m, k2)
                    | (None, k2) \<Rightarrow>
                        let m' = m\<lparr>peers := peers m @ [peer]\<rparr> in
                        (case savePeers H m' k2 of
                           (Some e, k3) \<Rightarrow> Some (Inl e, m', k3)
                         | (None, k3) \<Rightarrow> Some (Inr (generateClientConfig H m' peer), m', k3))))))"

fun peer_index :: "string \<Rightarrow> Peer list \<Rightarrow> nat option" where
  "peer_index nm [] = None"
| "peer_index nm (p # ps) = (if peerName p = nm then Some 0 else map_option Suc (peer_index nm ps))"

definition RemovePeer :: "'k host \<Rightarrow> string \<Rightarrow> wgManager \<times> 'k \<Rightarrow> wg_error option \<times> wgManager \<times> 'k" where
  "RemovePeer H nm = (\<lambda>(m, k).
     case peer_index nm (peers m) of
       None \<Rightarrow> (Some (PeerNotFound nm), m, k)
     | Some i \<Rightarrow>
         (case wg_run H [''wg'', ''set'', iface m, ''peer'', PublicKey (peers m ! i), ''remove''] k of
            (Some e, k1) \<Rightarrow> (Some e, m, k1)
          | (None, k1) \<Rightarrow>
              let m' = m\<lparr>peers := take i (peers m) @ drop (i + 1) (peers m)\<rparr> in
              (case savePeers H m' k1 of (e, k2) \<Rightarrow> (e, m', k2))))"

section \<open>The interface\<close>

definition configureWG :: "'k host \<Rightarrow> wgManager \<Rightarrow> 'k \<Rightarrow> wg_error option \<times> 'k" where
  "configureWG H m k =
     (case h_temp H k of
        (Inl e, k1) \<Rightarrow> (Some (Write e), k1)
      | (Inr file, k1) \<Rightarrow>
          (case h_write H file (PrivateKey (cfg m)) k1 of
             (Some e, k2) \<Rightarrow> (Some (Write e), h_remove H file k2)
           | (None, k2) \<Rightarrow>
               (case wg_run H [''wg'', ''set'', iface m, ''listen-port'', fmt_d (nat (listenPort m)), ''private-key'', file] k2 of
                  (e, k3) \<Rightarrow> (e, h_remove H file k3))))"

text \<open>A command whose error is tolerated when its text contains one of the given parts.\<close>

definition tolerant :: "string list \<Rightarrow> wg_error option \<times> 'k \<Rightarrow> wg_error option \<times> 'k" where
  "tolerant parts r =
     (case r of
        (Some (Command e), k) \<Rightarrow> (if list_ex (\<lambda>p. sublist p e) parts then None else Some (Command e), k)
      | _ \<Rightarrow> r)"

fun add_all :: "'k host \<Rightarrow> wgManager \<Rightarrow> Peer list \<Rightarrow> 'k \<Rightarrow> wg_error option \<times> 'k" where
  "add_all H m [] k = (None, k)"
| "add_all H m (p # ps) k =
     (case addPeerToWG H m p k of (Some e, k1) \<Rightarrow> (Some e, k1) | (None, k1) \<Rightarrow> add_all H m ps k1)"

definition wg_Setup :: "'k host \<Rightarrow> wgManager \<times> 'k \<Rightarrow> wg_error option \<times> wgManager \<times> 'k" where
  "wg_Setup H s =
     (case InitKeys H s of
        (Some e, s1) \<Rightarrow> (Some e, s1)
      | (None, m, k) \<Rightarrow>
          (case tolerant [''exists''] (wg_run H [''ip'', ''link'', ''add'', ''dev'', iface m, ''type'', ''wireguard''] k) of
             (Some e, k1) \<Rightarrow> (Some e, m, k1)
           | (None, k1) \<Rightarrow>
          (case tolerant [''exists'', ''already assigned''] (wg_run H [''ip'', ''addr'', ''add'', Address (cfg m), ''dev'', iface m] k1) of
             (Some e, k2) \<Rightarrow> (Some e, m, k2)
           | (None, k2) \<Rightarrow>
          (case configureWG H m k2 of
             (Some e, k3) \<Rightarrow> (Some e, m, k3)
           | (None, k3) \<Rightarrow>
          (case wg_run H [''ip'', ''link'', ''set'', ''up'', ''dev'', iface m] k3 of
             (Some e, k4) \<Rightarrow> (Some e, m, k4)
           | (None, k4) \<Rightarrow>
          (case LoadPeers H (m, k4) of
             (Some e, m5, k5) \<Rightarrow>
               if e = ReadPeers NotExist then (case add_all H m5 (peers m5) k5 of (e, k6) \<Rightarrow> (e, m5, k6))
               else (Some e, m5, k5)
           | (None, m5, k5) \<Rightarrow> (case add_all H m5 (peers m5) k5 of (e, k6) \<Rightarrow> (e, m5, k6))))))))"

definition wg_Teardown :: "'k host \<Rightarrow> wgManager \<Rightarrow> 'k \<Rightarrow> 'k" where
  "wg_Teardown H m k = snd (wg_run H [''ip'', ''link'', ''del'', ''dev'', iface m] k)"

section \<open>Allocation ends and finds the first free address\<close>

lemma byte_of_nat:
  assumes "k + 8 \<le> 32"
  shows "(ucast (drop_bit k (of_nat m :: 32 word)) :: byte) = of_nat (m div 2 ^ k)"
  using assms by (intro bit_word_eqI) (auto simp: bit_simps drop_bit_eq_div [symmetric])

text \<open>A number as bytes, least significant first.\<close>

primrec le_bytes :: "nat \<Rightarrow> nat \<Rightarrow> bytes" where
  "le_bytes 0 n = []"
| "le_bytes (Suc k) n = of_nat n # le_bytes k (n div 256)"

lemma put_u32_of_nat: "put_u32 (of_nat m) = rev (le_bytes (Suc (Suc (Suc (Suc 0)))) m)"
proof -

  have "(ucast (of_nat m :: 32 word) :: byte) = of_nat m" using byte_of_nat [of 0 m] by simp
  then show ?thesis
    by (simp add: put_u32_def byte_of_nat div_mult2_eq [symmetric])
qed

lemma of_nat_byte_0: "(of_nat n :: byte) + 1 = 0 \<longleftrightarrow> 256 dvd Suc n"
proof -
  have "(of_nat (Suc n) :: byte) = 0 \<longleftrightarrow> 2 ^ LENGTH(8) dvd Suc n" by (rule word_of_nat_eq_0_iff)
  moreover have "(2 :: nat) ^ LENGTH(8) = 256" by simp
  moreover have "(of_nat (Suc n) :: byte) = of_nat n + 1" by simp
  ultimately show ?thesis by (simp only:)
qed

lemma inc_le_bytes: "inc_rev (le_bytes k n) = le_bytes k (Suc n)"
proof (induction k arbitrary: n)
  case (Suc k)
  have "(of_nat n :: byte) + 1 = of_nat (Suc n)" by simp
  moreover have "(of_nat (Suc n) :: byte) > 0 \<longleftrightarrow> Suc n mod 256 \<noteq> 0"
    using of_nat_byte_0 [of n] by (simp only: word_greater_zero_iff dvd_eq_mod_eq_0 calculation)
  ultimately show ?case using Suc by (simp del: of_nat_Suc add: div_Suc)
qed simp

lemma inc_put_u32: "inc (put_u32 v) = put_u32 (v + 1)"
proof -
  obtain m where v: "v = of_nat m" by (metis word_nat_cases)
  have "v + 1 = of_nat (Suc m)" by (simp add: v)
  then show ?thesis by (simp only: v inc_def put_u32_of_nat rev_rev_ident inc_le_bytes)
qed

definition host_at :: "IPNet \<Rightarrow> nat \<Rightarrow> IP" where
  "host_at net i = put_u32 (get_u32 (net_ip net) + of_nat i)"

definition host_count :: "IPNet \<Rightarrow> nat" where
  "host_count net = 2 ^ (32 - net_ones net)"

definition free_host :: "IPNet \<Rightarrow> string set \<Rightarrow> nat \<Rightarrow> bool" where
  "free_host net used i \<longleftrightarrow> host_at net i ! 3 \<noteq> 255 \<and> ip_string (host_at net i) \<notin> used"

lemma length_host_at [simp]: "length (host_at net i) = 4"
  by (simp add: host_at_def)

lemma inc_host_at: "inc (host_at net i) = host_at net (Suc i)"
  by (simp add: host_at_def inc_put_u32 add.assoc add.commute)

lemma host_in_net: "good_net net \<Longrightarrow> i < host_count net \<Longrightarrow> net_Contains net (host_at net i)"
  by (auto simp: good_net_def net_Contains_def host_count_def host_at_def base_plus_host)

lemma past_net:
  assumes "good_net net" "0 < net_ones net"
  shows "\<not> net_Contains net (host_at net (host_count net))"
proof
  let ?b = "get_u32 (net_ip net)" and ?k = "32 - net_ones net"
  assume "net_Contains net (host_at net (host_count net))"
  then have "(?b + of_nat (2 ^ ?k)) AND mask32 (net_ones net) = ?b"
    using assms(1) by (simp add: net_Contains_def good_net_def host_at_def host_count_def)
  from host_number [OF this] obtain i where i: "i < 2 ^ ?k" "?b + of_nat (2 ^ ?k) = ?b + of_nat i"
    by auto
  have "(2 :: nat) ^ ?k < 2 ^ 32" using assms by (intro power_strict_increasing) (auto simp: good_net_def)
  moreover from this i(1) have "i < 2 ^ 32" by linarith
  ultimately have "unat (of_nat (2 ^ ?k) :: 32 word) = 2 ^ ?k" "unat (of_nat i :: 32 word) = i"
    by (simp_all only: unat_of_nat) simp_all
  with i show False by (metis add_left_cancel less_irrefl)
qed

lemma alloc_scan_finds:
  assumes net: "good_net net" "0 < net_ones net" and "i \<le> host_count net"
  shows "alloc_scan net used (host_at net i)
     = Some (map_option (host_at net) (find (free_host net used) [i..<host_count net]))"
  using assms(3)
proof (induction rule: inc_induct)
  case base
  then show ?case by (subst alloc_scan.simps) (simp add: past_net [OF net])
next
  case (step i)
  then have "[i..<host_count net] = i # [Suc i..<host_count net]" by (simp add: upt_conv_Cons)
  with step host_in_net [OF net(1)] show ?case
    by (subst alloc_scan.simps) (auto simp: free_host_def [abs_def] inc_host_at)
qed

lemma allocateIP_eq:
  assumes "ParseCIDR (Subnet (cfg m)) = Some (a, net)" "0 < net_ones net"
  shows "allocateIP m = Some (case find (free_host net (used_ips m)) [1..<host_count net] of
       None \<Rightarrow> Inl NoFreePeerIP
     | Some i \<Rightarrow> Inr (ip_string (host_at net i)))"
proof -
  from ParseCIDR_good [OF assms(1)] have net: "good_net net" by simp
  then have "inc (net_ip net) = host_at net 1"
    using inc_put_u32 [of "get_u32 (net_ip net)"] by (simp add: good_net_def put_get_u32 host_at_def)
  moreover have "1 \<le> host_count net" by (simp add: host_count_def)
  ultimately show ?thesis
    using alloc_scan_finds [OF net assms(2)] assms(1)
    by (simp add: allocateIP_def split: option.splits)
qed

text \<open>
  C36. Address allocation ends. For every IPv4 subnet with a prefix of at least 1 the unbounded scan of
  \<open>allocateIP\<close> returns after at most one pass over the subnet: it gives the first host number whose
  address does not end in 255 and is neither the gateway's nor a peer's, and an error exactly when
  there is no such host.
\<close>

theorem allocation_terminates:
  assumes "ParseCIDR (Subnet (cfg m)) = Some (a, net)" "0 < net_ones net"
  shows "allocateIP m = Some (case find (free_host net (used_ips m)) [1..<host_count net] of
       None \<Rightarrow> Inl NoFreePeerIP
     | Some i \<Rightarrow> Inr (ip_string (host_at net i)))"
  by (rule allocateIP_eq [OF assms])

definition demo_wg :: wgManager where
  "demo_wg = NewWgManager \<lparr>ListenPort = 0, Interface = [], Address = ''10.8.0.1/30'', Subnet = ''10.8.0.0/30'',
     PrivateKey = [], wDNS = [], PeersFile = ''/etc/gateway/peers.yaml''\<rparr>"

theorem allocation_terminates_witness:
  "allocateIP demo_wg = Some (Inr ''10.8.0.2'')"
proof -
  have c: "ParseCIDR (Subnet (cfg demo_wg)) = Some (v4InV6Prefix @ [10, 8, 0, 0], \<lparr>net_ip = [10, 8, 0, 0], net_ones = 30\<rparr>)"
    by code_simp
  have "find (free_host \<lparr>net_ip = [10, 8, 0, 0], net_ones = 30\<rparr> (used_ips demo_wg)) [1..<4] = Some 2"
    by code_simp
  moreover have "ip_string (host_at \<lparr>net_ip = [10, 8, 0, 0], net_ones = 30\<rparr> 2) = ''10.8.0.2''"
    by code_simp
  ultimately show ?thesis
    using allocation_terminates [OF c] by (simp add: host_count_def)
qed

section \<open>Names and addresses of peers never collide\<close>

definition peer_addr :: "Peer \<Rightarrow> IP option" where
  "peer_addr p = map_option (\<lambda>(ip, _). To4 ip) (ParseCIDR (AllowedIP p))"

definition gateway_addr :: "wgManager \<Rightarrow> IP option" where
  "gateway_addr m = map_option (\<lambda>(ip, _). To4 ip) (ParseCIDR (Address (cfg m)))"

definition usable_host :: "IPNet \<Rightarrow> IP \<Rightarrow> bool" where
  "usable_host net ip \<longleftrightarrow> net_Contains net ip \<and> ip \<noteq> net_ip net \<and> ip ! 3 \<noteq> 255"

definition peer_ok :: "IPNet \<Rightarrow> wgManager \<Rightarrow> Peer \<Rightarrow> bool" where
  "peer_ok net m p \<longleftrightarrow>
     (case peer_addr p of
        None \<Rightarrow> False
      | Some ip \<Rightarrow> AllowedIP p = ip_string ip @ ''/32'' \<and> usable_host net ip \<and> gateway_addr m \<noteq> Some ip)"

definition peers_inv :: "IPNet \<Rightarrow> wgManager \<Rightarrow> bool" where
  "peers_inv net m \<longleftrightarrow> (\<exists>a. ParseCIDR (Subnet (cfg m)) = Some (a, net)) \<and> 0 < net_ones net
     \<and> distinct (map peerName (peers m)) \<and> distinct (map peer_addr (peers m))
     \<and> (\<forall>p\<in>set (peers m). peer_ok net m p)"

inductive wg_step :: "'k host \<Rightarrow> wgManager \<times> 'k \<Rightarrow> wgManager \<times> 'k \<Rightarrow> bool" for H where
  wg_add: "AddPeer H nm s = Some (r, s') \<Longrightarrow> wg_step H s s'"
| wg_remove: "RemovePeer H nm s = (e, s') \<Longrightarrow> wg_step H s s'"

lemma host_at_usable:
  assumes "good_net net" "0 < i" "i < host_count net" "host_at net i ! 3 \<noteq> 255"
  shows "usable_host net (host_at net i)"
proof -
  have "host_at net i \<noteq> net_ip net"
  proof
    assume "host_at net i = net_ip net"
    then have "get_u32 (net_ip net) + of_nat i = get_u32 (net_ip net)"
      by (metis get_put_Nil(2) host_at_def)
    then have "(of_nat i :: 32 word) = of_nat 0" by simp
    with of_nat_host_inject [of i "net_ones net" 0] assms(2,3) show False
      by (simp add: host_count_def)
  qed
  with assms host_in_net show ?thesis by (simp add: usable_host_def)
qed

lemma allocated_usable:
  assumes "ParseCIDR (Subnet (cfg m)) = Some (a, net)" "0 < net_ones net" "allocateIP m = Some (Inr s)"
  shows "\<exists>ip. s = ip_string ip \<and> length ip = 4 \<and> usable_host net ip \<and> s \<notin> used_ips m"
proof -
  from allocateIP_eq [OF assms(1,2)] assms(3) obtain i
    where i: "find (free_host net (used_ips m)) [1..<host_count net] = Some i" "s = ip_string (host_at net i)"
    by (auto split: option.splits)
  then have "1 \<le> i" "i < host_count net" "free_host net (used_ips m) i"
    by (auto simp: find_Some_iff)
  with host_at_usable [of net i] ParseCIDR_good [OF assms(1)] i(2) show ?thesis
    by (auto simp: free_host_def)
qed

lemma peer_addr_new: "AllowedIP p = ip_string ip @ ''/32'' \<Longrightarrow> length ip = 4 \<Longrightarrow> peer_addr p = Some ip"
proof -
  have "fmt_d 32 = ''32''" by code_simp
  then show "AllowedIP p = ip_string ip @ ''/32'' \<Longrightarrow> length ip = 4 \<Longrightarrow> peer_addr p = Some ip"
    using ParseCIDR_print [of ip 32] by (auto simp: peer_addr_def)
qed

lemma ip_string_To4: "length (To4 ip) = 4 \<Longrightarrow> ip_string (To4 ip) = ip_string ip"
  by (auto simp: ip_string_def)

text \<open>An address whose text is not in use differs from the gateway's and from every peer's.\<close>

lemma used_ips_complete:
  assumes "ip_string ip \<notin> used_ips m"
  shows "gateway_addr m \<noteq> Some ip" "Some ip \<notin> peer_addr ` set (peers m)"
proof -
  have str: "ip_string ip = ip_string x" if "ParseCIDR c = Some (x, n)" "ip = To4 x" for c x n
    using that ParseCIDR_good ip_string_To4 by metis
  show "gateway_addr m \<noteq> Some ip"
    using assms str by (force simp: gateway_addr_def used_ips_def)
  show "Some ip \<notin> peer_addr ` set (peers m)"
  proof
    assume "Some ip \<in> peer_addr ` set (peers m)"
    then obtain p where "p \<in> set (peers m)" "peer_addr p = Some ip"
      by (metis imageE)
    then obtain x n where p: "p \<in> set (peers m)" "ParseCIDR (AllowedIP p) = Some (x, n)" "ip = To4 x"
      by (auto simp: peer_addr_def)
    then have "ip_string x \<in> used_ips m"
      by (force simp: used_ips_def List.map_filter_def)
    with str [OF p(2,3)] assms show False by simp
  qed
qed

lemma AddPeer_cases:
  assumes "AddPeer H nm (m, k) = Some (r, m', k')"
  obtains (same) "m' = m" "\<exists>e. r = Inl e"
  | (added) p s where "m' = m\<lparr>peers := peers m @ [p]\<rparr>" "allocateIP m = Some (Inr s)"
      "peerName p = nm" "AllowedIP p = s @ ''/32''" "nm \<notin> peerName ` set (peers m)"
      "r = Inr (generateClientConfig H m' p) \<or> (\<exists>e. r = Inl e \<and> savePeers H m' (snd (addPeerToWG H m p (snd (h_genkey H k)))) = (Some e, k'))"
  using assms unfolding AddPeer_def
  by (auto simp: Let_def split: if_splits prod.splits sum.splits option.splits)

lemma RemovePeer_cases:
  assumes "RemovePeer H nm (m, k) = (e, m', k')"
  obtains (same) "m' = m" "e \<noteq> None"
  | (removed) i where "m' = m\<lparr>peers := take i (peers m) @ drop (i + 1) (peers m)\<rparr>" "peer_index nm (peers m) = Some i"
  using assms unfolding RemovePeer_def
  by (auto simp: Let_def wg_run_def split: if_splits prod.splits sum.splits option.splits)

lemma distinct_without:
  assumes "distinct (map f xs)"
  shows "distinct (map f (take i xs @ drop (Suc i) xs))"
  using assms set_take_disj_set_drop_if_distinct [of "map f xs" i "Suc i"]
  by (simp add: take_map [symmetric] drop_map [symmetric])

lemma peer_ok_cong: "cfg m' = cfg m \<Longrightarrow> peer_ok net m' p = peer_ok net m p"
  by (simp add: peer_ok_def gateway_addr_def cong: option.case_cong)

lemma peers_inv_step:
  assumes "peers_inv net (fst s)" "wg_step H s s'"
  shows "peers_inv net (fst s')"
  using assms(2)
proof cases
  case (wg_add nm r)
  obtain m k m' k' where s: "s = (m, k)" "s' = (m', k')" by (metis surj_pair)
  from wg_add s have "AddPeer H nm (m, k) = Some (r, m', k')" by simp
  then show ?thesis
  proof (cases rule: AddPeer_cases)
    case same
    then show ?thesis using assms(1) s by simp
  next
    case (added p x)
    from assms(1) s obtain a where inv: "ParseCIDR (Subnet (cfg m)) = Some (a, net)" "0 < net_ones net"
      by (auto simp: peers_inv_def)
    from allocated_usable [OF inv added(2)] obtain ip where
      ip: "x = ip_string ip" "length ip = 4" "usable_host net ip" "ip_string ip \<notin> used_ips m" by auto
    have addr: "peer_addr p = Some ip" using added(4) ip by (auto intro: peer_addr_new)
    from used_ips_complete [OF ip(4)] ip added(4) addr have "peer_ok net m p" "peer_addr p \<notin> peer_addr ` set (peers m)"
      by (auto simp: peer_ok_def)
    moreover have "peer_ok net m' = peer_ok net m"
      using added(1) by (intro ext peer_ok_cong) simp
    ultimately show ?thesis
      using assms(1) s added(1,3,5) by (auto simp: peers_inv_def)
  qed
next
  case (wg_remove nm e)
  obtain m k m' k' where s: "s = (m, k)" "s' = (m', k')" by (metis surj_pair)
  from wg_remove s have "RemovePeer H nm (m, k) = (e, m', k')" by simp
  then show ?thesis
  proof (cases rule: RemovePeer_cases)
    case same
    then show ?thesis using assms(1) s by simp
  next
    case (removed i)
    have "peer_ok net m' = peer_ok net m"
      using removed(1) by (intro ext peer_ok_cong) simp
    moreover have "set (peers m') \<subseteq> set (peers m)"
      using removed(1) by (auto dest: in_set_takeD in_set_dropD)
    moreover have "distinct (map peerName (peers m'))" "distinct (map peer_addr (peers m'))"
      using distinct_without [of peerName "peers m" i] distinct_without [of peer_addr "peers m" i]
        assms(1) s removed(1) by (simp_all add: peers_inv_def)
    ultimately show ?thesis
      using assms(1) s removed(1) by (auto simp: peers_inv_def)
  qed
qed

definition wg_start :: "IPNet \<Rightarrow> wgManager \<times> 'k \<Rightarrow> bool" where
  "wg_start net s \<longleftrightarrow> peers_inv net (fst s) \<and> peers (fst s) = []"

interpretation wg_peers: invariant_system "wg_start net" "wg_step H" "\<lambda>s. peers_inv net (fst s)" for net H
  by unfold_locales (auto simp: wg_start_def intro: peers_inv_step)

text \<open>
  C35. Peers never collide. However peers are added and removed, whether the commands and the file
  writes succeed or fail, the peers have pairwise distinct names and pairwise distinct addresses; each
  is allowed exactly one address, a host of the WireGuard subnet that is not its base, does not end in
  255 and is not the gateway's own.
\<close>

theorem peers_never_collide:
  assumes "reach (wg_start net) (wg_step H) (m, k)"
  shows "distinct (map peerName (peers m)) \<and> distinct (map peer_addr (peers m))
    \<and> (\<forall>p\<in>set (peers m). \<exists>ip. peer_addr p = Some ip \<and> AllowedIP p = ip_string ip @ ''/32''
          \<and> usable_host net ip \<and> gateway_addr m \<noteq> Some ip)"
  using wg_peers.reach_inv [OF assms] by (auto simp: peers_inv_def peer_ok_def split: option.splits)

definition demo_host :: "unit host" where
  "demo_host = \<lparr>h_run = (\<lambda>_ k. (None, k)), h_read = (\<lambda>_ _. Inl NotExist), h_write = (\<lambda>_ _ k. (None, k)),
     h_mkdir = (\<lambda>_ k. (None, k)), h_temp = (\<lambda>k. (Inr ''/tmp/wg-key-1'', k)), h_remove = (\<lambda>_ k. k),
     h_genkey = (\<lambda>k. (Inr ''priv'', k)), h_pubkey = (\<lambda>_. Inr ''pub''), h_marshal = (\<lambda>_. Inr []),
     h_unmarshal = (\<lambda>_. Inr []), h_get = (\<lambda>_. None), h_parse_ip = (\<lambda>_. [])\<rparr>"

definition demo_peer :: "string \<Rightarrow> string \<Rightarrow> Peer" where
  "demo_peer nm ip = \<lparr>peerName = nm, PublicKey = ''pub'', PeerPrivateKey = ''priv'', AllowedIP = ip @ ''/32''\<rparr>"

lemma demo_alloc:
  assumes "cfg m = cfg demo_wg"
  shows "allocateIP m = Some (case find (free_host \<lparr>net_ip = [10, 8, 0, 0], net_ones = 30\<rparr> (used_ips m)) [1..<4] of
       None \<Rightarrow> Inl NoFreePeerIP
     | Some i \<Rightarrow> Inr (ip_string (host_at \<lparr>net_ip = [10, 8, 0, 0], net_ones = 30\<rparr> i)))"
proof -
  have "ParseCIDR (Subnet (cfg m)) = Some (v4InV6Prefix @ [10, 8, 0, 0], \<lparr>net_ip = [10, 8, 0, 0], net_ones = 30\<rparr>)"
    unfolding assms by code_simp
  from allocateIP_eq [OF this] show ?thesis by (simp add: host_count_def)
qed

text \<open>The last address of the subnet, its broadcast address, is given to a peer.\<close>

theorem peers_never_collide_witness:
  "\<exists>m. reach (wg_start \<lparr>net_ip = [10, 8, 0, 0], net_ones = 30\<rparr>) (wg_step demo_host) (m, ())
     \<and> peers m = [demo_peer ''a'' ''10.8.0.2'', demo_peer ''b'' ''10.8.0.3''] \<and> distinct (map peer_addr (peers m))"
proof -
  let ?net = "\<lparr>net_ip = [10, 8, 0, 0 :: byte], net_ones = 30\<rparr>"
  let ?a = "demo_peer ''a'' ''10.8.0.2''" and ?b = "demo_peer ''b'' ''10.8.0.3''"
  let ?m1 = "demo_wg\<lparr>peers := [?a]\<rparr>"
  let ?m2 = "demo_wg\<lparr>peers := [?a, ?b]\<rparr>"
  have start: "wg_start ?net (demo_wg, ())"
  proof -
    have "ParseCIDR (Subnet (cfg demo_wg)) = Some (v4InV6Prefix @ [10, 8, 0, 0], ?net)" by code_simp
    then show ?thesis by (simp add: wg_start_def peers_inv_def demo_wg_def NewWgManager_def)
  qed
  have dir: "dir_of ''/etc/gateway/peers.yaml'' = Some ''/etc/gateway''" by code_simp
  have save: "savePeers demo_host m () = (None, ())" if "cfg m = cfg demo_wg" for m
    using dir by (simp add: savePeers_def demo_host_def that) (simp add: demo_wg_def NewWgManager_def)
  have "find (free_host ?net (used_ips demo_wg)) [1..<4] = Some 2" by code_simp
  moreover have "ip_string (host_at ?net 2) = ''10.8.0.2''" by code_simp
  ultimately have alloc1: "allocateIP demo_wg = Some (Inr ''10.8.0.2'')" using demo_alloc [of demo_wg] by simp
  have "find (free_host ?net (used_ips ?m1)) [1..<4] = Some 3" by code_simp
  moreover have "ip_string (host_at ?net 3) = ''10.8.0.3''" by code_simp
  ultimately have alloc2: "allocateIP ?m1 = Some (Inr ''10.8.0.3'')" using demo_alloc [of ?m1] by simp
  have add: "AddPeer demo_host nm (m, ()) = Some (Inr (generateClientConfig demo_host (m\<lparr>peers := peers m @ [demo_peer nm s]\<rparr>)
       (demo_peer nm s)), m\<lparr>peers := peers m @ [demo_peer nm s]\<rparr>, ())"
    if "nm \<notin> set (map peerName (peers m))" "allocateIP m = Some (Inr s)" "cfg m = cfg demo_wg" for nm m s
    using that save [of "m\<lparr>peers := peers m @ [demo_peer nm s]\<rparr>"]
    by (simp add: AddPeer_def demo_host_def addPeerToWG_def wg_run_def demo_peer_def Let_def)
  have "peers demo_wg = []" by (simp add: demo_wg_def NewWgManager_def)
  then have "wg_step demo_host (demo_wg, ()) (?m1, ())" "wg_step demo_host (?m1, ()) (?m2, ())"
    using wg_add [OF add [OF _ alloc1, of "''a''"]] wg_add [OF add [OF _ alloc2, of "''b''"]]
    by (simp_all add: demo_peer_def)
  with start have r: "reach (wg_start ?net) (wg_step demo_host) (?m2, ())"
    by (meson reach_init reach_step)
  from peers_never_collide [OF r] r show ?thesis by fastforce
qed

end
