(* ===== verification/RouterLinux.thy ===== *)
theory RouterLinux
  imports NetAddr
begin

text \<open>
  Components \<open>internal/tunnel/router.go\<close> and \<open>internal/tunnel/tun_linux.go\<close>: the routes of a client
  on Linux and its TUN device. The netlink and water libraries are a record of operations on an
  arbitrary kernel state; error results are texts. A device is known by its name. Text of IPv6
  addresses does not parse, so the two IPv6 destinations are kept as text. Log lines are not
  modelled.
\<close>

section \<open>Routes and the kernel\<close>

datatype dst_net = V4Net IP nat | V6Net string

record nlroute =
  rt_dst :: "dst_net option"
  rt_gw :: IP
  rt_link :: nat
  rt_unreachable :: bool

record 'k netlink =
  nl_list :: "'k \<Rightarrow> string + nlroute list"
  nl_name :: "nat \<Rightarrow> 'k \<Rightarrow> string option"
  nl_index :: "string \<Rightarrow> 'k \<Rightarrow> nat option"
  nl_add :: "nlroute \<Rightarrow> 'k \<Rightarrow> string option \<times> 'k"
  nl_del :: "nlroute \<Rightarrow> 'k \<Rightarrow> string option \<times> 'k"
  nl_replace :: "nlroute \<Rightarrow> 'k \<Rightarrow> string option \<times> 'k"
  nl_new_tun :: "string \<Rightarrow> 'k \<Rightarrow> (string + string) \<times> 'k"
  nl_close_tun :: "string \<Rightarrow> 'k \<Rightarrow> 'k"
  nl_set_mtu :: "nat \<Rightarrow> int \<Rightarrow> 'k \<Rightarrow> string option \<times> 'k"
  nl_set_up :: "nat \<Rightarrow> 'k \<Rightarrow> string option \<times> 'k"
  nl_addr_list :: "nat \<Rightarrow> 'k \<Rightarrow> string + (IP \<times> nat) list"
  nl_addr_add :: "nat \<Rightarrow> IP \<times> nat \<Rightarrow> 'k \<Rightarrow> string option \<times> 'k"
  nl_addr_del :: "nat \<Rightarrow> IP \<times> nat \<Rightarrow> 'k \<Rightarrow> string option \<times> 'k"

text \<open>\<open>net.ParseIP\<close> on IPv4 text.\<close>

definition ParseIP :: "string \<Rightarrow> IP" where
  "ParseIP s = (case parse_ipv4 s of Some ip \<Rightarrow> v4InV6Prefix @ ip | None \<Rightarrow> [])"

section \<open>The default gateway\<close>

datatype router_error =
    ListRoutes string
  | NoDefault
  | GetGateway router_error
  | InvalidGateway string
  | GetTunLink string
  | InvalidServerIP string
  | AddServerRoute string
  | AddTunRoute string string
  | AddUnreachable string string
  | CreateTun string
  | ParseCidr string
  | SetMtu string
  | ListAddrs string
  | DelAddr string
  | AddAddr string
  | SetLinkUp string

definition is_default :: "nlroute \<Rightarrow> bool" where
  "is_default r =
     (case rt_dst r of
        None \<Rightarrow> True
      | Some (V4Net ip n) \<Rightarrow> ip_Equal ip IPv4zero
      | Some (V6Net s) \<Rightarrow> False)"

fun first_default :: "'k netlink \<Rightarrow> nlroute list \<Rightarrow> 'k \<Rightarrow> router_error + (IP \<times> string)" where
  "first_default nl [] k = Inl NoDefault"
| "first_default nl (r # rs) k =
     (if is_default r then
        Inr (rt_gw r,
             if rt_link r > 0 then (case nl_name nl (rt_link r) k of Some s \<Rightarrow> s | None \<Rightarrow> []) else [])
      else first_default nl rs k)"

definition GetDefaultGateway :: "'k netlink \<Rightarrow> 'k \<Rightarrow> router_error + (IP \<times> string)" where
  "GetDefaultGateway nl k =
     (case nl_list nl k of
        Inl e \<Rightarrow> Inl (ListRoutes e)
      | Inr routes \<Rightarrow> first_default nl routes k)"

text \<open>On Linux there is nothing to clean up before a session.\<close>

definition CleanupStaleRoutes :: "string \<Rightarrow> 'k \<Rightarrow> 'k" where
  "CleanupStaleRoutes serverIP k = k"

section \<open>Blocking IPv6\<close>

definition ipv6Halves :: "string list" where
  "ipv6Halves = [''::/1'', ''8000::/1'']"

definition unreachable_route :: "string \<Rightarrow> nlroute" where
  "unreachable_route cidr = \<lparr>rt_dst = Some (V6Net cidr), rt_gw = [], rt_link = 0, rt_unreachable = True\<rparr>"

definition del_all :: "'k netlink \<Rightarrow> nlroute list \<Rightarrow> 'k \<Rightarrow> 'k" where
  "del_all nl rs k = fold (\<lambda>r k. snd (nl_del nl r k)) rs k"

text \<open>The routes already added come first; on an error they are taken back.\<close>

fun block_from :: "'k netlink \<Rightarrow> string list \<Rightarrow> nlroute list \<Rightarrow> 'k \<Rightarrow> (router_error + nlroute list) \<times> 'k" where
  "block_from nl [] added k = (Inr added, k)"
| "block_from nl (cidr # cidrs) added k =
     (case nl_replace nl (unreachable_route cidr) k of
        (Some e, k1) \<Rightarrow> (Inl (AddUnreachable cidr e), del_all nl added k1)
      | (None, k1) \<Rightarrow> block_from nl cidrs (added @ [unreachable_route cidr]) k1)"

definition blockIPv6 :: "'k netlink \<Rightarrow> 'k \<Rightarrow> (router_error + nlroute list) \<times> 'k" where
  "blockIPv6 nl = block_from nl ipv6Halves []"

section \<open>The routes of a session\<close>

text \<open>What the clean-up function returned by \<open>SetupRoutes\<close> has captured.\<close>

record route_cleanup =
  cu_v6 :: "nlroute list"
  cu_tun2 :: nlroute
  cu_tun1 :: nlroute
  cu_server :: nlroute
  cu_bypass :: "nlroute list"
  cu_iface :: string
  cu_gw :: IP

definition host_route :: "IP \<Rightarrow> IP \<Rightarrow> nlroute" where
  "host_route ip gw = \<lparr>rt_dst = Some (V4Net ip 32), rt_gw = gw, rt_link = 0, rt_unreachable = False\<rparr>"

definition tun_route :: "IP \<Rightarrow> nat \<Rightarrow> nlroute" where
  "tun_route ip lnk = \<lparr>rt_dst = Some (V4Net ip 1), rt_gw = [], rt_link = lnk, rt_unreachable = False\<rparr>"

definition default_route :: "IP \<Rightarrow> nat \<Rightarrow> nlroute" where
  "default_route gw lnk = \<lparr>rt_dst = None, rt_gw = gw, rt_link = lnk, rt_unreachable = False\<rparr>"

fun add_bypass :: "'k netlink \<Rightarrow> string \<Rightarrow> IP \<Rightarrow> string list \<Rightarrow> 'k \<Rightarrow> nlroute list \<times> 'k" where
  "add_bypass nl serverIP gw [] k = ([], k)"
| "add_bypass nl serverIP gw (ip # ips) k =
     (if ip = [] \<or> ip = serverIP then add_bypass nl serverIP gw ips k
      else if ParseIP ip = [] then add_bypass nl serverIP gw ips k
      else case nl_add nl (host_route (ParseIP ip) gw) k of
        (Some e, k1) \<Rightarrow> add_bypass nl serverIP gw ips k1
      | (None, k1) \<Rightarrow>
          (case add_bypass nl serverIP gw ips k1 of (rs, k2) \<Rightarrow> (host_route (ParseIP ip) gw # rs, k2)))"

text \<open>From the route to the server on: the bypasses, the two halves of the address space, IPv6.\<close>

definition install_routes ::
  "'k netlink \<Rightarrow> string \<Rightarrow> string list \<Rightarrow> IP \<Rightarrow> nat \<Rightarrow> IP \<Rightarrow> string \<Rightarrow> IP \<Rightarrow> 'k
     \<Rightarrow> (router_error + route_cleanup) \<times> 'k" where
  "install_routes nl serverIP bypassIPs srvIP tunIndex serverGW origIface origGW k =
     (let serverRoute = host_route srvIP serverGW;
          tunRoute1 = tun_route [0, 0, 0, 0] tunIndex;
          tunRoute2 = tun_route [128, 0, 0, 0] tunIndex
      in case nl_add nl serverRoute k of
           (Some e, k1) \<Rightarrow> (Inl (AddServerRoute e), k1)
         | (None, k1) \<Rightarrow>
             (case add_bypass nl serverIP serverGW bypassIPs k1 of
                (bypassRoutes, k2) \<Rightarrow>
                  (case nl_add nl tunRoute1 k2 of
                     (Some e, k3) \<Rightarrow> (Inl (AddTunRoute ''0/1'' e), snd (nl_del nl serverRoute k3))
                   | (None, k3) \<Rightarrow>
                       (case nl_add nl tunRoute2 k3 of
                          (Some e, k4) \<Rightarrow>
                            (Inl (AddTunRoute ''128/1'' e), snd (nl_del nl tunRoute1 (snd (nl_del nl serverRoute k4))))
                        | (None, k4) \<Rightarrow>
                            (case blockIPv6 nl k4 of (r, k5) \<Rightarrow>
                               (Inr \<lparr>cu_v6 = (case r of Inl e \<Rightarrow> [] | Inr added \<Rightarrow> added),
                                     cu_tun2 = tunRoute2, cu_tun1 = tunRoute1, cu_server = serverRoute,
                                     cu_bypass = bypassRoutes, cu_iface = origIface, cu_gw = origGW\<rparr>, k5))))))"

definition SetupRoutes ::
  "'k netlink \<Rightarrow> string \<Rightarrow> string \<Rightarrow> string \<Rightarrow> string \<Rightarrow> string list \<Rightarrow> 'k
     \<Rightarrow> (router_error + (route_cleanup \<times> string)) \<times> 'k" where
  "SetupRoutes nl serverIP tunName tunCIDR customGW bypassIPs k =
     (case GetDefaultGateway nl k of
        Inl e \<Rightarrow> (Inl (GetGateway e), k)
      | Inr (origGW, origIface) \<Rightarrow>
          let custom = customGW \<noteq> [];
              serverGW = (if custom then ParseIP customGW else origGW);
              gwInfo = ip_string serverGW @ '' ('' @ (if custom then ''custom'' else origIface) @ '')''
          in if custom \<and> serverGW = [] then (Inl (InvalidGateway customGW), k)
             else case nl_index nl tunName k of
               None \<Rightarrow> (Inl (GetTunLink tunName), k)
             | Some tunIndex \<Rightarrow>
                 if ParseIP serverIP = [] then (Inl (InvalidServerIP serverIP), k)
                 else case install_routes nl serverIP bypassIPs (ParseIP serverIP) tunIndex serverGW origIface origGW k of
                   (Inl e, k1) \<Rightarrow> (Inl e, k1)
                 | (Inr c, k1) \<Rightarrow> (Inr (c, gwInfo), k1))"

definition run_cleanup :: "'k netlink \<Rightarrow> route_cleanup \<Rightarrow> 'k \<Rightarrow> 'k" where
  "run_cleanup nl c k =
     (let k1 = del_all nl (cu_v6 c) k;
          k2 = del_all nl [cu_tun2 c, cu_tun1 c, cu_server c] k1;
          k3 = del_all nl (cu_bypass c) k2
      in case nl_index nl (cu_iface c) k3 of
           None \<Rightarrow> k3
         | Some lnk \<Rightarrow> snd (nl_add nl (default_route (cu_gw c) lnk) k3))"

section \<open>The TUN device\<close>

definition DefaultMTU :: int where "DefaultMTU = 1500"

text \<open>The steps after the device exists; the first error closes it again.\<close>

definition configure_tun ::
  "'k netlink \<Rightarrow> string \<Rightarrow> string \<Rightarrow> int \<Rightarrow> 'k \<Rightarrow> router_error option \<times> 'k" where
  "configure_tun nl dev cidr mtu k =
     (case ParseCIDR cidr of
        None \<Rightarrow> (Some (ParseCidr cidr), k)
      | Some (ip, ipNet) \<Rightarrow>
          (case nl_index nl dev k of
             None \<Rightarrow> (Some (GetTunLink dev), k)
           | Some lnk \<Rightarrow>
               (case nl_set_mtu nl lnk mtu k of
                  (Some e, k1) \<Rightarrow> (Some (SetMtu e), k1)
                | (None, k1) \<Rightarrow>
                    (case nl_addr_add nl lnk (ip, net_ones ipNet) k1 of
                       (Some e, k2) \<Rightarrow> (Some (AddAddr e), k2)
                     | (None, k2) \<Rightarrow>
                         (case nl_set_up nl lnk k2 of
                            (Some e, k3) \<Rightarrow> (Some (SetLinkUp e), k3)
                          | (None, k3) \<Rightarrow> (None, k3))))))"

definition CreateTUN :: "'k netlink \<Rightarrow> string \<Rightarrow> string \<Rightarrow> int \<Rightarrow> 'k \<Rightarrow> (router_error + string) \<times> 'k" where
  "CreateTUN nl name cidr mtu k =
     (let mtu' = (if mtu \<le> 0 then DefaultMTU else mtu) in
      case nl_new_tun nl name k of
        (Inl e, k1) \<Rightarrow> (Inl (CreateTun e), k1)
      | (Inr dev, k1) \<Rightarrow>
          (case configure_tun nl dev cidr mtu' k1 of
             (Some e, k2) \<Rightarrow> (Inl e, nl_close_tun nl dev k2)
           | (None, k2) \<Rightarrow> (Inr dev, k2)))"

fun flush_addrs :: "'k netlink \<Rightarrow> nat \<Rightarrow> (IP \<times> nat) list \<Rightarrow> 'k \<Rightarrow> router_error option \<times> 'k" where
  "flush_addrs nl lnk [] k = (None, k)"
| "flush_addrs nl lnk (a # as) k =
     (case nl_addr_del nl lnk a k of
        (Some e, k1) \<Rightarrow> (Some (DelAddr e), k1)
      | (None, k1) \<Rightarrow> flush_addrs nl lnk as k1)"

definition RebindTUN :: "'k netlink \<Rightarrow> string \<Rightarrow> string \<Rightarrow> 'k \<Rightarrow> router_error option \<times> 'k" where
  "RebindTUN nl name cidr k =
     (case ParseCIDR cidr of
        None \<Rightarrow> (Some (ParseCidr cidr), k)
      | Some (ip, ipNet) \<Rightarrow>
          (case nl_index nl name k of
             None \<Rightarrow> (Some (GetTunLink name), k)
           | Some lnk \<Rightarrow>
               (case nl_addr_list nl lnk k of
                  Inl e \<Rightarrow> (Some (ListAddrs e), k)
                | Inr addrs \<Rightarrow>
                    (case flush_addrs nl lnk addrs k of
                       (Some e, k1) \<Rightarrow> (Some e, k1)
                     | (None, k1) \<Rightarrow>
                         (case nl_addr_add nl lnk (ip, net_ones ipNet) k1 of
                            (Some e, k2) \<Rightarrow> (Some (AddAddr e), k2)
                          | (None, k2) \<Rightarrow> (None, k2))))))"

section \<open>The clean-up takes the session's routes back\<close>

text \<open>
  What is documented of netlink, on the set of routes asked for and not deleted since: adding a route
  that exists is an error, a deleted route is gone, replacing removes the routes to the same
  destination. A call that fails changes nothing.
\<close>

definition netlink_ok :: "'k netlink \<Rightarrow> ('k \<Rightarrow> nlroute set) \<Rightarrow> bool" where
  "netlink_ok nl table \<longleftrightarrow>
     (\<forall>r k. case nl_add nl r k of
        (None, k') \<Rightarrow> r \<notin> table k \<and> table k' = insert r (table k)
      | (Some e, k') \<Rightarrow> table k' = table k)
     \<and> (\<forall>r k. table (snd (nl_del nl r k)) = table k - {r})
     \<and> (\<forall>r k. case nl_replace nl r k of
        (None, k') \<Rightarrow> table k' = insert r {x \<in> table k. rt_dst x \<noteq> rt_dst r}
      | (Some e, k') \<Rightarrow> table k' = table k)"

lemma netlink_laws:
  assumes "netlink_ok nl table"
  shows "nl_add nl r k = (None, k') \<Longrightarrow> r \<notin> table k \<and> table k' = insert r (table k)"
    and "nl_add nl r k = (Some e, k') \<Longrightarrow> table k' = table k"
    and "table (snd (nl_del nl r k)) = table k - {r}"
    and "nl_replace nl r k = (None, k') \<Longrightarrow> table k' = insert r {x \<in> table k. rt_dst x \<noteq> rt_dst r}"
    and "nl_replace nl r k = (Some e, k') \<Longrightarrow> table k' = table k"
proof -
  note ok = assms [unfolded netlink_ok_def]
  show "nl_add nl r k = (None, k') \<Longrightarrow> r \<notin> table k \<and> table k' = insert r (table k)"
    "nl_add nl r k = (Some e, k') \<Longrightarrow> table k' = table k"
    using ok [THEN conjunct1, rule_format, of r k] by simp_all
  show "table (snd (nl_del nl r k)) = table k - {r}"
    using ok by blast
  show "nl_replace nl r k = (None, k') \<Longrightarrow> table k' = insert r {x \<in> table k. rt_dst x \<noteq> rt_dst r}"
    "nl_replace nl r k = (Some e, k') \<Longrightarrow> table k' = table k"
    using ok [THEN conjunct2, THEN conjunct2, rule_format, of r k] by simp_all
qed

definition v6_route :: "nlroute \<Rightarrow> bool" where
  "v6_route r \<longleftrightarrow> (\<exists>c\<in>set ipv6Halves. rt_dst r = Some (V6Net c))"

definition bypass_of :: "IP \<Rightarrow> string list \<Rightarrow> nlroute set" where
  "bypass_of gw ips = (\<lambda>ip. host_route (ParseIP ip) gw) ` set ips"

lemma del_all_table:
  "netlink_ok nl table \<Longrightarrow> table (del_all nl rs k) = table k - set rs"
  by (induction rs arbitrary: k) (auto simp: del_all_def netlink_laws(3))

lemma add_bypass_table:
  assumes "netlink_ok nl table" "add_bypass nl serverIP gw ips k = (rs, k')"
  shows "table k' = table k \<union> set rs \<and> set rs \<inter> table k = {} \<and> set rs \<subseteq> bypass_of gw ips"
  using assms(2)
proof (induction ips arbitrary: k rs)
  case Nil
  then show ?case by simp
next
  case (Cons ip ips)
  let ?r = "host_route (ParseIP ip) gw"
  have weaken: "bypass_of gw ips \<subseteq> bypass_of gw (ip # ips)" "?r \<in> bypass_of gw (ip # ips)"
    by (auto simp: bypass_of_def)
  show ?case
  proof (cases "ip = [] \<or> ip = serverIP \<or> ParseIP ip = []")
    case True
    with Cons.prems have "add_bypass nl serverIP gw ips k = (rs, k')" by (auto split: if_splits)
    from Cons.IH [OF this] weaken show ?thesis by blast
  next
    case False
    obtain e k1 where a: "nl_add nl ?r k = (e, k1)" by fastforce
    show ?thesis
    proof (cases e)
      case None
      with False Cons.prems a obtain qs where q: "add_bypass nl serverIP gw ips k1 = (qs, k')" "rs = ?r # qs"
        by (auto split: prod.splits)
      from Cons.IH [OF q(1)] netlink_laws(1) [OF assms(1) a [unfolded None]] weaken q(2) show ?thesis
        by auto
    next
      case (Some x)
      with False Cons.prems a have "add_bypass nl serverIP gw ips k1 = (rs, k')" by simp
      from Cons.IH [OF this] netlink_laws(2) [OF assms(1) a [unfolded Some]] weaken show ?thesis by auto
    qed
  qed
qed

lemma block_from_table:
  assumes "netlink_ok nl table" "block_from nl cidrs added k = (r, k')"
    and "set cidrs \<subseteq> set ipv6Halves" "\<forall>x\<in>set added. v6_route x"
  shows "table k - {x. v6_route x} \<subseteq> table k'
    \<and> (case r of Inl e \<Rightarrow> table k' \<subseteq> table k - set added
        | Inr rs \<Rightarrow> table k' \<subseteq> table k \<union> set rs \<and> set added \<subseteq> set rs \<and> (\<forall>x\<in>set rs. v6_route x))"
  using assms(2-)
proof (induction cidrs arbitrary: added k)
  case Nil
  then show ?case by (auto simp: sum.case_eq_if)
next
  case (Cons c cs)
  let ?r = "unreachable_route c"
  have v6: "v6_route ?r" "v6_route x" if "rt_dst x = rt_dst ?r" for x
    using that Cons.prems(2) by (auto simp: v6_route_def unreachable_route_def)
  obtain e k1 where a: "nl_replace nl ?r k = (e, k1)" by fastforce
  show ?case
  proof (cases e)
    case None
    with Cons.prems a have "block_from nl cs (added @ [?r]) k1 = (r, k')" by simp
    note IH = Cons.IH [OF this]
    from netlink_laws(4) [OF assms(1) a [unfolded None]] v6 Cons.prems(2,3)
    show ?thesis using IH by (cases r) auto
  next
    case (Some x)
    with Cons.prems a have "r = Inl (AddUnreachable c x)" "k' = del_all nl added k1" by auto
    with netlink_laws(5) [OF assms(1) a [unfolded Some]] del_all_table [OF assms(1)] Cons.prems(3)
    show ?thesis by auto
  qed
qed

lemma blockIPv6_table:
  assumes "netlink_ok nl table" "blockIPv6 nl k = (r, k')"
  defines "rs \<equiv> (case r of Inl e \<Rightarrow> [] | Inr added \<Rightarrow> added)"
  shows "table k - {x. v6_route x} \<subseteq> table k'" "table k' \<subseteq> table k \<union> set rs" "\<forall>x\<in>set rs. v6_route x"
  using block_from_table [OF assms(1) assms(2) [unfolded blockIPv6_def]]
  by (cases r; auto simp: rs_def)+

text \<open>The three kinds of routes do not mix.\<close>

lemma route_kinds [simp]:
  "tun_route ip lnk \<noteq> host_route ip' gw" "host_route ip' gw \<noteq> tun_route ip lnk"
  "\<not> v6_route (tun_route ip lnk)" "\<not> v6_route (host_route ip' gw)"
  "tun_route [0, 0, 0, 0] lnk \<noteq> tun_route [128, 0, 0, 0] lnk"
  by (simp_all add: tun_route_def host_route_def v6_route_def)

lemma install_routes_spec:
  assumes "netlink_ok nl table"
    and "install_routes nl serverIP ips srv lnk gw iface origGW k = (r, k')"
  shows "case r of
      Inl e \<Rightarrow> table k \<subseteq> table k' \<and> table k' \<subseteq> table k \<union> bypass_of gw ips
    | Inr c \<Rightarrow> {host_route srv gw, tun_route [0, 0, 0, 0] lnk, tun_route [128, 0, 0, 0] lnk} \<subseteq> table k'
        \<and> cu_gw c = origGW \<and> cu_iface c = iface
        \<and> table k - {x. v6_route x} \<subseteq> table k'
        \<and> (let own = set (cu_v6 c) \<union> {cu_tun2 c, cu_tun1 c, cu_server c} \<union> set (cu_bypass c)
           in table k' \<subseteq> table k \<union> own \<and> (\<forall>x\<in>own. x \<in> table k \<longrightarrow> v6_route x))"
proof -
  let ?s = "host_route srv gw" and ?t1 = "tun_route [0, 0, 0, 0] lnk" and ?t2 = "tun_route [128, 0, 0, 0] lnk"
  note laws = netlink_laws [OF assms(1)]
  obtain e1 k1 where a1: "nl_add nl ?s k = (e1, k1)" by fastforce
  show ?thesis
  proof (cases e1)
    case (Some x)
    with laws(2) [OF a1 [unfolded Some]] a1 assms(2) show ?thesis
      by (auto simp: install_routes_def Let_def)
  next
    case None
    note s1 = laws(1) [OF a1 [unfolded None]] and n1 = None
    obtain bs k2 where a2: "add_bypass nl serverIP gw ips k1 = (bs, k2)" by fastforce
    note s2 = add_bypass_table [OF assms(1) a2]
    obtain e3 k3 where a3: "nl_add nl ?t1 k2 = (e3, k3)" by fastforce
    show ?thesis
    proof (cases e3)
      case (Some x)
      from assms(2) n1 a1 a2 a3 Some have "r = Inl (AddTunRoute ''0/1'' x)" "k' = snd (nl_del nl ?s k3)"
        by (auto simp: install_routes_def Let_def)
      with laws(2) [OF a3 [unfolded Some]] laws(3) [of ?s k3] s1 s2 show ?thesis by auto
    next
      case None
      note s3 = laws(1) [OF a3 [unfolded None]] and n3 = None
      obtain e4 k4 where a4: "nl_add nl ?t2 k3 = (e4, k4)" by fastforce
      show ?thesis
      proof (cases e4)
        case (Some x)
        from assms(2) n1 n3 a1 a2 a3 a4 Some
        have "r = Inl (AddTunRoute ''128/1'' x)" "k' = snd (nl_del nl ?t1 (snd (nl_del nl ?s k4)))"
          by (auto simp: install_routes_def Let_def)
        with laws(2) [OF a4 [unfolded Some]] laws(3) s1 s2 s3 show ?thesis by auto
      next
        case None
        note s4 = laws(1) [OF a4 [unfolded None]]
        obtain b k5 where a5: "blockIPv6 nl k4 = (b, k5)" by fastforce
        note s5 = blockIPv6_table [OF assms(1) a5]
        from assms(2) n1 n3 None a1 a2 a3 a4 a5
        have r: "r = Inr \<lparr>cu_v6 = (case b of Inl e \<Rightarrow> [] | Inr added \<Rightarrow> added), cu_tun2 = ?t2,
            cu_tun1 = ?t1, cu_server = ?s, cu_bypass = bs, cu_iface = iface, cu_gw = origGW\<rparr>" "k' = k5"
          by (auto simp: install_routes_def Let_def)
        have "\<not> v6_route x" if "x \<in> set bs" for x
          using that s2 by (auto simp: bypass_of_def)
        then show ?thesis
          using s1 s2 s3 s4 s5 unfolding r by (auto simp: Let_def)
      qed
    qed
  qed
qed

lemma run_cleanup_table:
  assumes "netlink_ok nl table"
  defines "own c \<equiv> set (cu_v6 c) \<union> {cu_tun2 c, cu_tun1 c, cu_server c} \<union> set (cu_bypass c)"
  shows "table k - own c \<subseteq> table (run_cleanup nl c k)
    \<and> table (run_cleanup nl c k) \<subseteq> (table k - own c) \<union> {default_route (cu_gw c) lnk | lnk. True}"
proof -
  define k3 where "k3 = del_all nl (cu_bypass c) (del_all nl [cu_tun2 c, cu_tun1 c, cu_server c] (del_all nl (cu_v6 c) k))"
  have k3: "table k3 = table k - own c"
    by (auto simp: k3_def del_all_table [OF assms(1)] own_def)
  show ?thesis
  proof (cases "nl_index nl (cu_iface c) k3")
    case None
    then have "run_cleanup nl c k = k3" by (simp add: run_cleanup_def Let_def k3_def)
    with k3 show ?thesis by auto
  next
    case (Some lnk)
    then have *: "run_cleanup nl c k = snd (nl_add nl (default_route (cu_gw c) lnk) k3)"
      by (simp add: run_cleanup_def Let_def k3_def)
    obtain e k4 where a: "nl_add nl (default_route (cu_gw c) lnk) k3 = (e, k4)" by fastforce
    show ?thesis
    proof (cases e)
      case None
      from netlink_laws(1) [OF assms(1) a [unfolded None]] a k3 show ?thesis unfolding * by auto
    next
      case (Some x)
      from netlink_laws(2) [OF assms(1) a [unfolded Some]] a k3 show ?thesis unfolding * by auto
    qed
  qed
qed

lemma SetupRoutes_effect:
  assumes "netlink_ok nl table"
    and "SetupRoutes nl serverIP tunName tunCIDR customGW ips k = (r, k')"
  shows "case r of
      Inl e \<Rightarrow> table k \<subseteq> table k' \<and> (\<exists>gw. table k' \<subseteq> table k \<union> bypass_of gw ips)
    | Inr (c, info) \<Rightarrow>
        (\<exists>lnk gw. nl_index nl tunName k = Some lnk
           \<and> {host_route (ParseIP serverIP) gw, tun_route [0, 0, 0, 0] lnk, tun_route [128, 0, 0, 0] lnk} \<subseteq> table k')
        \<and> (\<forall>k2. table k2 = table k' \<longrightarrow>
              table k - {x. v6_route x} \<subseteq> table (run_cleanup nl c k2)
            \<and> table (run_cleanup nl c k2) \<subseteq> table k \<union> {default_route (cu_gw c) lnk | lnk. True})"
proof (cases r)
  case (Inl e)
  with assms(2) consider "k' = k"
    | gw srv lnk iface origGW where "install_routes nl serverIP ips srv lnk gw iface origGW k = (Inl e, k')"
    by (auto simp: SetupRoutes_def Let_def split: sum.splits prod.splits option.splits if_splits)
  then show ?thesis
  proof cases
    case 1
    with Inl show ?thesis by auto
  next
    case (2 gw srv lnk iface origGW)
    from install_routes_spec [OF assms(1) 2] Inl show ?thesis by auto
  qed
next
  case (Inr ci)
  obtain c info where ci: "ci = (c, info)" by fastforce
  with Inr assms(2) obtain gw lnk iface origGW where lnk: "nl_index nl tunName k = Some lnk"
    and i: "install_routes nl serverIP ips (ParseIP serverIP) lnk gw iface origGW k = (Inr c, k')"
    by (auto simp: SetupRoutes_def Let_def split: sum.splits prod.splits option.splits if_splits)
  let ?own = "set (cu_v6 c) \<union> {cu_tun2 c, cu_tun1 c, cu_server c} \<union> set (cu_bypass c)"
  from install_routes_spec [OF assms(1) i] have spec:
    "{host_route (ParseIP serverIP) gw, tun_route [0, 0, 0, 0] lnk, tun_route [128, 0, 0, 0] lnk} \<subseteq> table k'"
    "table k - {x. v6_route x} \<subseteq> table k'" "table k' \<subseteq> table k \<union> ?own" "\<forall>x\<in>?own. x \<in> table k \<longrightarrow> v6_route x"
    by (simp_all add: Let_def)
  have "table k - {x. v6_route x} \<subseteq> table (run_cleanup nl c k2)
      \<and> table (run_cleanup nl c k2) \<subseteq> table k \<union> {default_route (cu_gw c) lnk | lnk. True}"
    if "table k2 = table k'" for k2
    using run_cleanup_table [OF assms(1), of k2 c] spec(2-4) unfolding that by blast
  with spec(1) lnk Inr ci show ?thesis by auto
qed

lemma SetupRoutes_spec:
  assumes "netlink_ok nl table"
    and "SetupRoutes nl serverIP tunName tunCIDR customGW ips k = (Inr (c, info), k')"
  shows "\<exists>gw. host_route (ParseIP serverIP) gw \<in> table k'"
    and "table k - {x. v6_route x} \<subseteq> table (run_cleanup nl c k')"
    and "table (run_cleanup nl c k') \<subseteq> table k \<union> {default_route (cu_gw c) lnk | lnk. True}"
  using SetupRoutes_effect [OF assms] by auto


text \<open>A kernel that keeps a list of routes.\<close>

definition demo_nl :: "nlroute list netlink" where
  "demo_nl =
     \<lparr>nl_list = Inr, nl_name = (\<lambda>_ _. Some ''eth0''), nl_index = (\<lambda>s _. Some (if s = ''stun0'' then 7 else 2)),
      nl_add = (\<lambda>r k. if r \<in> set k then (Some ''file exists'', k) else (None, r # k)),
      nl_del = (\<lambda>r k. if r \<in> set k then (None, removeAll r k) else (Some ''no such process'', k)),
      nl_replace = (\<lambda>r k. (None, r # filter (\<lambda>x. rt_dst x \<noteq> rt_dst r) k)),
      nl_new_tun = (\<lambda>s k. (Inr s, k)), nl_close_tun = (\<lambda>_ k. k), nl_set_mtu = (\<lambda>_ _ k. (None, k)),
      nl_set_up = (\<lambda>_ k. (None, k)), nl_addr_list = (\<lambda>_ _. Inr []), nl_addr_add = (\<lambda>_ _ k. (None, k)),
      nl_addr_del = (\<lambda>_ _ k. (None, k))\<rparr>"

lemma demo_nl_ok: "netlink_ok demo_nl set"
  by (auto simp: netlink_ok_def demo_nl_def)

definition is_Inr :: "'a + 'b \<Rightarrow> bool" where
  "is_Inr r = (case r of Inl _ \<Rightarrow> False | Inr _ \<Rightarrow> True)"


text \<open>
  Behaviours that the comments do not suggest. A failure after the bypass routes leaves them behind;
  a route to the server left by a crashed session makes every set-up fail; a route for the lower half
  of the address space is taken for the default route.
\<close>

lemma failed_setup_leaves_bypass:
  "let k = [default_route [192, 168, 0, 1] 2, tun_route [0, 0, 0, 0] 7];
       (r, k') = SetupRoutes demo_nl ''1.2.3.4'' ''stun0'' ''10.7.0.2/24'' [] [''1.1.1.1''] k
   in \<not> is_Inr r \<and> host_route (ParseIP ''1.1.1.1'') [192, 168, 0, 1] \<in> set k'"
  by code_simp

lemma stale_server_route_fails:
  assumes "netlink_ok nl table" "GetDefaultGateway nl k = Inr (gw, iface)" "nl_index nl tunName k = Some lnk"
    and "ParseIP serverIP \<noteq> []" "host_route (ParseIP serverIP) gw \<in> table k"
  shows "\<exists>e k'. SetupRoutes nl serverIP tunName tunCIDR [] ips k = (Inl (AddServerRoute e), k') \<and> table k' = table k"
proof -
  let ?r = "host_route (ParseIP serverIP) gw"
  obtain e k1 where a: "nl_add nl ?r k = (e, k1)" by fastforce
  with netlink_laws(1) [OF assms(1), of ?r k k1] assms(5) obtain x where x: "e = Some x" by (cases e) auto
  with a netlink_laws(2) [OF assms(1), of ?r k x k1] assms(2-4) show ?thesis
    by (simp add: SetupRoutes_def install_routes_def Let_def)
qed

lemma lower_half_is_default: "is_default (tun_route [0, 0, 0, 0] lnk)"
  by (simp add: is_default_def tun_route_def)

section \<open>The TUN device\<close>

lemma CreateTUN_closes:
  assumes "CreateTUN nl name cidr mtu k = (Inl e, k')" "nl_new_tun nl name k = (Inr dev, k1)"
  shows "\<exists>k2. configure_tun nl dev cidr (if mtu \<le> 0 then DefaultMTU else mtu) k1 = (Some e, k2) \<and> k' = nl_close_tun nl dev k2"
  using assms by (auto simp: CreateTUN_def Let_def split: prod.splits option.splits)

text \<open>
  What is documented of the addresses of a link: the list is complete, adding and deleting one
  address does just that.
\<close>

definition addrs_ok :: "'k netlink \<Rightarrow> nat \<Rightarrow> ('k \<Rightarrow> (IP \<times> nat) set) \<Rightarrow> bool" where
  "addrs_ok nl lnk addrs \<longleftrightarrow>
     (\<forall>k as. nl_addr_list nl lnk k = Inr as \<longrightarrow> set as = addrs k)
     \<and> (\<forall>a k k'. nl_addr_add nl lnk a k = (None, k') \<longrightarrow> addrs k' = insert a (addrs k))
     \<and> (\<forall>a k k'. nl_addr_del nl lnk a k = (None, k') \<longrightarrow> addrs k' = addrs k - {a})"

lemma flush_addrs_all:
  "addrs_ok nl lnk addrs \<Longrightarrow> flush_addrs nl lnk as k = (None, k') \<Longrightarrow> addrs k' = addrs k - set as"
proof (induction as arbitrary: k)
  case (Cons a as)
  then obtain k1 where k1: "nl_addr_del nl lnk a k = (None, k1)" "flush_addrs nl lnk as k1 = (None, k')"
    by (auto split: prod.splits option.splits)
  moreover from this(1) Cons.prems(1) have "addrs k1 = addrs k - {a}" by (cases a) (simp add: addrs_ok_def)
  ultimately show ?case using Cons by auto
qed simp

text \<open>A rebound device has exactly the new address.\<close>

lemma RebindTUN_replaces:
  assumes "RebindTUN nl name cidr k = (None, k')"
    and "\<And>lnk. nl_index nl name k = Some lnk \<Longrightarrow> addrs_ok nl lnk addrs"
  shows "\<exists>ip ipNet. ParseCIDR cidr = Some (ip, ipNet) \<and> addrs k' = {(ip, net_ones ipNet)}"
proof -
  from assms(1) obtain ip ipNet lnk as k1
    where s: "ParseCIDR cidr = Some (ip, ipNet)" "nl_index nl name k = Some lnk" "nl_addr_list nl lnk k = Inr as"
      "flush_addrs nl lnk as k = (None, k1)" "nl_addr_add nl lnk (ip, net_ones ipNet) k1 = (None, k')"
    by (auto simp: RebindTUN_def split: option.splits prod.splits sum.splits)
  note ok = assms(2) [OF s(2)]
  from flush_addrs_all [OF ok s(4)] s(3) ok have "addrs k1 = {}" by (auto simp: addrs_ok_def)
  with s ok show ?thesis by (auto simp: addrs_ok_def)
qed

end
