(* ===== verification/RouterDarwin.thy ===== *)
theory RouterDarwin
  imports Routing RouterLinux
begin

text \<open>
  Components \<open>internal/tunnel/router_darwin.go\<close> and \<open>internal/tunnel/tun_darwin.go\<close>: the routes, the
  DNS override and the TUN device of a client on macOS. The programs \<open>netstat\<close>, \<open>route\<close>,
  \<open>ifconfig\<close>, \<open>scutil\<close> and those that flush caches are operations on an arbitrary state. Log lines
  are not modelled.
\<close>

section \<open>Programs\<close>

record 'k mac =
  mc_netstat :: "'k \<Rightarrow> string + string"
  mc_run :: "cmd \<Rightarrow> 'k \<Rightarrow> string option \<times> 'k"
  mc_scutil :: "string \<Rightarrow> 'k \<Rightarrow> string option \<times> 'k"
  mc_new_tun :: "'k \<Rightarrow> (string + string) \<times> 'k"
  mc_close_tun :: "string \<Rightarrow> 'k \<Rightarrow> 'k"

datatype mac_error =
    Netstat string
  | NoIPGateway
  | GetGw mac_error
  | BadGateway string
  | BadServerIP string
  | BadTunCidr string
  | ServerRoute string
  | HalfRoute string string
  | NewTun string
  | Ifconfig string
  | RebindUnsupported

definition mac_try :: "'k mac \<Rightarrow> cmd \<Rightarrow> 'k \<Rightarrow> 'k" where
  "mac_try M c k = snd (mc_run M c k)"

section \<open>Default routes\<close>

record defaultRoute =
  gateway :: IP
  dr_iface :: string

definition TrimRight :: "char \<Rightarrow> string \<Rightarrow> string" where
  "TrimRight c s = rev (dropWhile (\<lambda>x. x = c) (rev s))"

definition default_of_line :: "string \<Rightarrow> defaultRoute option" where
  "default_of_line l =
     (let fs = Fields l in
      if length fs < 4 then None
      else if fs ! 0 \<noteq> ''default'' then None
      else if ParseIP (fs ! 1) = [] then None
      else Some \<lparr>gateway = ParseIP (fs ! 1), dr_iface = TrimRight (CHR ''!'') (last fs)\<rparr>)"

text \<open>A line of the scanner may keep a trailing carriage return, which \<open>Fields\<close> drops.\<close>

definition getDefaultRoutes :: "'k mac \<Rightarrow> 'k \<Rightarrow> mac_error + defaultRoute list" where
  "getDefaultRoutes M k =
     (case mc_netstat M k of
        Inl e \<Rightarrow> Inl (Netstat e)
      | Inr out \<Rightarrow>
          let routes = List.map_filter default_of_line (split_on (CHR 0x0A) out)
          in if routes = [] then Inl NoIPGateway else Inr routes)"

definition mac_GetDefaultGateway :: "'k mac \<Rightarrow> 'k \<Rightarrow> mac_error + (IP \<times> string)" where
  "mac_GetDefaultGateway M k =
     (case getDefaultRoutes M k of
        Inl e \<Rightarrow> Inl e
      | Inr routes \<Rightarrow> Inr (gateway (routes ! 0), dr_iface (routes ! 0)))"

definition is_utun :: "string \<Rightarrow> bool" where
  "is_utun s \<longleftrightarrow> prefix ''utun'' s"

text \<open>One route of the loop: the first other VPN and the first physical interface are kept.\<close>

definition pick :: "string \<Rightarrow> defaultRoute \<Rightarrow> defaultRoute option \<times> defaultRoute option
    \<Rightarrow> defaultRoute option \<times> defaultRoute option" where
  "pick ownTunName r = (\<lambda>(vpnRoute, physRoute).
     if is_utun (dr_iface r) \<and> dr_iface r \<noteq> ownTunName then
       (if vpnRoute = None then Some r else vpnRoute, physRoute)
     else if \<not> is_utun (dr_iface r) then (vpnRoute, if physRoute = None then Some r else physRoute)
     else (vpnRoute, physRoute))"

definition findServerGateway :: "'k mac \<Rightarrow> string \<Rightarrow> 'k \<Rightarrow> mac_error + (IP \<times> string)" where
  "findServerGateway M ownTunName k =
     (case getDefaultRoutes M k of
        Inl e \<Rightarrow> Inl e
      | Inr routes \<Rightarrow>
          (case fold (pick ownTunName) routes (None, None) of
             (Some r, _) \<Rightarrow> Inr (gateway r, dr_iface r)
           | (None, Some r) \<Rightarrow> Inr (gateway r, dr_iface r)
           | (None, None) \<Rightarrow> Inr (gateway (routes ! 0), dr_iface (routes ! 0))))"

section \<open>The DNS override\<close>

definition scutilDNSKey :: string where
  "scutilDNSKey = ''State:/Network/Service/shadowtunnel/DNS''"

definition scutil_set :: string where
  "scutil_set = ''d.init'' @ newline
     @ ''d.add ServerAddresses * 1.1.1.1 1.0.0.1'' @ newline
     @ ''d.add SupplementalMatchDomains * \"\"'' @ newline
     @ ''set '' @ scutilDNSKey @ newline
     @ ''quit'' @ newline"

definition scutil_remove :: string where
  "scutil_remove = ''remove '' @ scutilDNSKey @ newline @ ''quit'' @ newline"

definition setDNSviaScutil :: "'k mac \<Rightarrow> 'k \<Rightarrow> string option \<times> 'k" where
  "setDNSviaScutil M = mc_scutil M scutil_set"

definition removeDNSviaScutil :: "'k mac \<Rightarrow> 'k \<Rightarrow> 'k" where
  "removeDNSviaScutil M k = snd (mc_scutil M scutil_remove k)"

definition flushDNSCache :: "'k mac \<Rightarrow> 'k \<Rightarrow> 'k" where
  "flushDNSCache M k = mac_try M [''killall'', ''-HUP'', ''mDNSResponder''] (mac_try M [''dscacheutil'', ''-flushcache''] k)"

section \<open>Routes\<close>

definition del_net :: "string \<Rightarrow> cmd" where
  "del_net n = [''route'', ''delete'', ''-net'', n]"

definition del_host :: "string \<Rightarrow> cmd" where
  "del_host h = [''route'', ''delete'', ''-host'', h]"

definition del_v6 :: "string \<Rightarrow> cmd" where
  "del_v6 n = [''route'', ''-n'', ''delete'', ''-inet6'', ''-net'', n]"

definition unblockIPv6 :: "'k mac \<Rightarrow> 'k \<Rightarrow> 'k" where
  "unblockIPv6 M k = fold (\<lambda>c. mac_try M (del_v6 c)) ipv6Halves k"

fun mac_block_from :: "'k mac \<Rightarrow> string list \<Rightarrow> 'k \<Rightarrow> string option \<times> 'k" where
  "mac_block_from M [] k = (None, k)"
| "mac_block_from M (cidr # cidrs) k =
     (case mc_run M [''route'', ''-n'', ''add'', ''-inet6'', ''-net'', cidr, ''::1'', ''-reject''] (mac_try M (del_v6 cidr) k) of
        (Some e, k1) \<Rightarrow> (Some e, unblockIPv6 M k1)
      | (None, k1) \<Rightarrow> mac_block_from M cidrs k1)"

definition mac_blockIPv6 :: "'k mac \<Rightarrow> 'k \<Rightarrow> string option \<times> 'k" where
  "mac_blockIPv6 M = mac_block_from M ipv6Halves"

definition mac_CleanupStaleRoutes :: "'k mac \<Rightarrow> string \<Rightarrow> 'k \<Rightarrow> 'k" where
  "mac_CleanupStaleRoutes M serverIP k =
     (case getDefaultRoutes M k of
        Inl e \<Rightarrow> k
      | Inr routes \<Rightarrow>
          if \<not> list_ex (\<lambda>r. is_utun (dr_iface r)) routes then k
          else
            let k1 = mac_try M (del_net ''0.0.0.0/1'') k;
                k2 = mac_try M (del_net ''128.0.0.0/1'') k1;
                k3 = unblockIPv6 M k2;
                k4 = (if serverIP \<noteq> [] then mac_try M (del_host serverIP) k3 else k3)
            in flushDNSCache M (removeDNSviaScutil M k4))"

text \<open>The other end of the point-to-point link; bytes wrap.\<close>

definition peerAddress :: "IP \<Rightarrow> IPNet \<Rightarrow> IP" where
  "peerAddress ip ipNet =
     (let network = To4 (net_ip ipNet) in
      if ip_Equal ip (v4InV6Prefix @ network[3 := network ! 3 + 1]) then network[3 := network ! 3 + 2]
      else network[3 := network ! 3 + 1])"

record mac_cleanup =
  mu_v6 :: bool
  mu_server :: string
  mu_bypass :: "string list"
  mu_dns :: bool

fun mac_bypass :: "'k mac \<Rightarrow> string \<Rightarrow> string \<Rightarrow> string list \<Rightarrow> 'k \<Rightarrow> string list \<times> 'k" where
  "mac_bypass M serverIP gw [] k = ([], k)"
| "mac_bypass M serverIP gw (ip # ips) k =
     (if ip = [] \<or> ip = serverIP then mac_bypass M serverIP gw ips k
      else case mc_run M [''route'', ''add'', ''-host'', ip, gw] (mac_try M (del_host ip) k) of
        (Some e, k1) \<Rightarrow> mac_bypass M serverIP gw ips k1
      | (None, k1) \<Rightarrow> (case mac_bypass M serverIP gw ips k1 of (added, k2) \<Rightarrow> (ip # added, k2)))"

text \<open>From the stale routes to the end; \<open>dnsSet\<close> says whether the override is in place.\<close>

definition mac_install ::
  "'k mac \<Rightarrow> string \<Rightarrow> string list \<Rightarrow> string \<Rightarrow> string \<Rightarrow> string \<Rightarrow> bool \<Rightarrow> 'k
     \<Rightarrow> (mac_error + mac_cleanup) \<times> 'k" where
  "mac_install M serverIP bypassIPs srv gw tunGW dnsSet k =
     (let k1 = mac_try M (del_net ''128.0.0.0/1'') (mac_try M (del_net ''0.0.0.0/1'') (mac_try M (del_host srv) k)) in
      case mc_run M [''route'', ''add'', ''-host'', srv, gw] k1 of
        (Some e, k2) \<Rightarrow> (Inl (ServerRoute e), k2)
      | (None, k2) \<Rightarrow>
          (case mac_bypass M serverIP gw bypassIPs k2 of
             (addedBypass, k3) \<Rightarrow>
               (case mc_run M [''route'', ''add'', ''-net'', ''0.0.0.0/1'', tunGW] k3 of
                  (Some e, k4) \<Rightarrow> (Inl (HalfRoute ''0/1'' e), mac_try M (del_host srv) k4)
                | (None, k4) \<Rightarrow>
                    (case mc_run M [''route'', ''add'', ''-net'', ''128.0.0.0/1'', tunGW] k4 of
                       (Some e, k5) \<Rightarrow>
                         (Inl (HalfRoute ''128/1'' e), mac_try M (del_host srv) (mac_try M (del_net ''0.0.0.0/1'') k5))
                     | (None, k5) \<Rightarrow>
                         (case mac_blockIPv6 M k5 of
                            (b, k6) \<Rightarrow>
                              (Inr \<lparr>mu_v6 = (b = None), mu_server = srv, mu_bypass = addedBypass, mu_dns = dnsSet\<rparr>, k6))))))"

text \<open>The gateway of the route to the server, and where it comes from.\<close>

definition server_gateway :: "'k mac \<Rightarrow> string \<Rightarrow> string \<Rightarrow> 'k \<Rightarrow> mac_error + (IP \<times> string)" where
  "server_gateway M tunName customGW k =
     (if customGW \<noteq> [] then
        (if ParseIP customGW = [] then Inl (BadGateway customGW) else Inr (ParseIP customGW, ''custom''))
      else case findServerGateway M tunName k of
        Inl e \<Rightarrow> Inl (GetGw e)
      | Inr (gw, ifc) \<Rightarrow> Inr (gw, if is_utun ifc then ''vpn/'' @ ifc else ifc))"

definition mac_SetupRoutes ::
  "'k mac \<Rightarrow> string \<Rightarrow> string \<Rightarrow> string \<Rightarrow> string \<Rightarrow> string list \<Rightarrow> 'k
     \<Rightarrow> (mac_error + (mac_cleanup \<times> string)) \<times> 'k" where
  "mac_SetupRoutes M serverIP tunName tunCIDR customGW bypassIPs k =
     (case server_gateway M tunName customGW k of
           Inl e \<Rightarrow> (Inl e, k)
         | Inr (serverGW, gwSource) \<Rightarrow>
             if ParseIP serverIP = [] then (Inl (BadServerIP serverIP), k)
             else case ParseCIDR tunCIDR of
               None \<Rightarrow> (Inl (BadTunCidr tunCIDR), k)
             | Some (tunIP, tunNet) \<Rightarrow>
                 let tunGW = ip_string (peerAddress tunIP tunNet);
                     (e, k2) = setDNSviaScutil M (removeDNSviaScutil M k);
                     k3 = (if e = None then flushDNSCache M k2 else k2)
                 in case mac_install M serverIP bypassIPs (ip_string (ParseIP serverIP)) (ip_string serverGW) tunGW (e = None) k3 of
                      (Inl e, k4) \<Rightarrow> (Inl e, k4)
                    | (Inr c, k4) \<Rightarrow> (Inr (c, ip_string serverGW @ '' ('' @ gwSource @ '')''), k4))"

definition mac_run_cleanup :: "'k mac \<Rightarrow> mac_cleanup \<Rightarrow> 'k \<Rightarrow> 'k" where
  "mac_run_cleanup M c k =
     (let k1 = (if mu_v6 c then unblockIPv6 M k else k);
          k2 = mac_try M (del_host (mu_server c))
                 (mac_try M (del_net ''0.0.0.0/1'') (mac_try M (del_net ''128.0.0.0/1'') k1));
          k3 = fold (\<lambda>ip. mac_try M (del_host ip)) (mu_bypass c) k2
      in if mu_dns c then flushDNSCache M (removeDNSviaScutil M k3) else k3)"

section \<open>The TUN device\<close>

definition mac_CreateTUN :: "'k mac \<Rightarrow> string \<Rightarrow> string \<Rightarrow> int \<Rightarrow> 'k \<Rightarrow> (mac_error + string) \<times> 'k" where
  "mac_CreateTUN M name cidr mtu k =
     (let mtu' = (if mtu \<le> 0 then DefaultMTU else mtu) in
      case mc_new_tun M k of
        (Inl e, k1) \<Rightarrow> (Inl (NewTun e), k1)
      | (Inr ifName, k1) \<Rightarrow>
          (case ParseCIDR cidr of
             None \<Rightarrow> (Inl (BadTunCidr cidr), mc_close_tun M ifName k1)
           | Some (ip, ipNet) \<Rightarrow>
               (case mc_run M [''ifconfig'', ifName, ''inet'', ip_string ip, ip_string (peerAddress ip ipNet),
                        ''netmask'', ip_string (put_u32 (mask32 (net_ones ipNet))), ''mtu'', fmt_d (nat mtu'), ''up''] k1 of
                  (Some e, k2) \<Rightarrow> (Inl (Ifconfig e), mc_close_tun M ifName k2)
                | (None, k2) \<Rightarrow> (Inr ifName, k2))))"

definition mac_RebindTUN :: "string \<Rightarrow> string \<Rightarrow> mac_error option" where
  "mac_RebindTUN name cidr = Some RebindUnsupported"

section \<open>The choice of the gateway\<close>

text \<open>
  The loop keeps the first route of another VPN and the first one of a physical interface, so the
  choice is: another VPN, then a physical interface, then the first route.
\<close>

lemma pick_fold:
  "fold (pick own) rs (v, p) =
     (case v of Some x \<Rightarrow> Some x | None \<Rightarrow> find (\<lambda>r. is_utun (dr_iface r) \<and> dr_iface r \<noteq> own) rs,
      case p of Some x \<Rightarrow> Some x | None \<Rightarrow> find (\<lambda>r. \<not> is_utun (dr_iface r)) rs)"
  by (induction rs arbitrary: v p) (auto simp: pick_def split: option.splits)

lemma findServerGateway_order:
  assumes "getDefaultRoutes M k = Inr routes"
  shows "findServerGateway M own k =
    (let r = (case find (\<lambda>r. is_utun (dr_iface r) \<and> dr_iface r \<noteq> own) routes of
                Some v \<Rightarrow> v
              | None \<Rightarrow> (case find (\<lambda>r. \<not> is_utun (dr_iface r)) routes of Some p \<Rightarrow> p | None \<Rightarrow> hd routes))
     in Inr (gateway r, dr_iface r))"
proof -
  from assms have "routes \<noteq> []" by (auto simp: getDefaultRoutes_def Let_def split: sum.splits if_splits)
  then have "routes ! 0 = hd routes" by (simp add: hd_conv_nth)
  with assms show ?thesis by (simp add: findServerGateway_def pick_fold Let_def split: option.splits)
qed

section \<open>The clean-up takes routes and override back\<close>

text \<open>
  What is documented of \<open>route\<close> and \<open>scutil\<close>, on the set of destinations with a route of their own
  and the presence of the override: an addition that succeeds is there, a deleted route is gone,
  every other command leaves both alone.
\<close>

datatype route_key = HostKey string | NetKey string | Net6Key string

definition added_key :: "cmd \<Rightarrow> route_key option" where
  "added_key c =
     (if length c = 5 \<and> take 3 c = [''route'', ''add'', ''-host''] then Some (HostKey (c ! 3))
      else if length c = 5 \<and> take 3 c = [''route'', ''add'', ''-net''] then Some (NetKey (c ! 3))
      else if length c = 8 \<and> take 5 c = [''route'', ''-n'', ''add'', ''-inet6'', ''-net''] then Some (Net6Key (c ! 5))
      else None)"

definition deleted_key :: "cmd \<Rightarrow> route_key option" where
  "deleted_key c =
     (if length c = 4 \<and> take 3 c = [''route'', ''delete'', ''-host''] then Some (HostKey (c ! 3))
      else if length c = 4 \<and> take 3 c = [''route'', ''delete'', ''-net''] then Some (NetKey (c ! 3))
      else if length c = 6 \<and> take 5 c = [''route'', ''-n'', ''delete'', ''-inet6'', ''-net''] then Some (Net6Key (c ! 5))
      else None)"

definition after_cmd :: "cmd \<Rightarrow> string option \<Rightarrow> route_key set \<Rightarrow> route_key set" where
  "after_cmd c e K =
     (if e = None then K \<union> set_option (added_key c) else K) - set_option (deleted_key c)"

definition mac_ok :: "'k mac \<Rightarrow> ('k \<Rightarrow> route_key set) \<Rightarrow> ('k \<Rightarrow> bool) \<Rightarrow> bool" where
  "mac_ok M keys dns \<longleftrightarrow>
     (\<forall>c k. case mc_run M c k of (e, k') \<Rightarrow> keys k' = after_cmd c e (keys k) \<and> dns k' = dns k)
     \<and> (\<forall>k. case mc_scutil M scutil_set k of (e, k') \<Rightarrow> keys k' = keys k \<and> dns k' = (e = None \<or> dns k))
     \<and> (\<forall>k. case mc_scutil M scutil_remove k of (e, k') \<Rightarrow> keys k' = keys k \<and> \<not> dns k')"

lemma key_simps [simp]:
  "added_key (del_host h) = None" "deleted_key (del_host h) = Some (HostKey h)"
  "added_key (del_net h) = None" "deleted_key (del_net h) = Some (NetKey h)"
  "added_key (del_v6 h) = None" "deleted_key (del_v6 h) = Some (Net6Key h)"
  "added_key [''route'', ''add'', ''-host'', h, g] = Some (HostKey h)"
  "deleted_key [''route'', ''add'', ''-host'', h, g] = None"
  "added_key [''route'', ''add'', ''-net'', h, g] = Some (NetKey h)"
  "deleted_key [''route'', ''add'', ''-net'', h, g] = None"
  "added_key [''route'', ''-n'', ''add'', ''-inet6'', ''-net'', h, a, b] = Some (Net6Key h)"
  "deleted_key [''route'', ''-n'', ''add'', ''-inet6'', ''-net'', h, a, b] = None"
  "added_key [''killall'', a, b] = None" "deleted_key [''killall'', a, b] = None"
  "added_key [''dscacheutil'', a] = None" "deleted_key [''dscacheutil'', a] = None"
  by (simp_all add: added_key_def deleted_key_def del_host_def del_net_def del_v6_def)

lemma mac_laws:
  assumes "mac_ok M keys dns"
  shows "mc_run M c k = (e, k') \<Longrightarrow> keys k' = after_cmd c e (keys k) \<and> dns k' = dns k"
    and "added_key c = None \<Longrightarrow> keys (mac_try M c k) = keys k - set_option (deleted_key c)"
    and "dns (mac_try M c k) = dns k"
    and "setDNSviaScutil M k = (e, k') \<Longrightarrow> keys k' = keys k \<and> dns k' = (e = None \<or> dns k)"
    and "keys (removeDNSviaScutil M k) = keys k \<and> \<not> dns (removeDNSviaScutil M k)"
proof -
  note ok = assms [unfolded mac_ok_def]
  show run: "mc_run M c k = (e, k') \<Longrightarrow> keys k' = after_cmd c e (keys k) \<and> dns k' = dns k" for c k e k'
    using ok [THEN conjunct1, rule_format, of c k] by simp
  obtain e1 k1 where a: "mc_run M c k = (e1, k1)" by fastforce
  from run [OF a] a show "dns (mac_try M c k) = dns k" by (simp add: mac_try_def)
  show "added_key c = None \<Longrightarrow> keys (mac_try M c k) = keys k - set_option (deleted_key c)"
    using run [OF a] a by (simp add: mac_try_def after_cmd_def)
  show "setDNSviaScutil M k = (e, k') \<Longrightarrow> keys k' = keys k \<and> dns k' = (e = None \<or> dns k)"
    using ok [THEN conjunct2, THEN conjunct1, rule_format, of k] by (simp add: setDNSviaScutil_def)
  show "keys (removeDNSviaScutil M k) = keys k \<and> \<not> dns (removeDNSviaScutil M k)"
    using ok [THEN conjunct2, THEN conjunct2, rule_format, of k]
    by (simp add: removeDNSviaScutil_def split: prod.splits)
qed


lemma unblock_effect:
  assumes "mac_ok M keys dns"
  shows "keys (unblockIPv6 M k) = keys k - Net6Key ` set ipv6Halves" "dns (unblockIPv6 M k) = dns k"
  using mac_laws(2,3) [OF assms] by (auto simp: unblockIPv6_def ipv6Halves_def)

lemma flush_effect:
  assumes "mac_ok M keys dns"
  shows "keys (flushDNSCache M k) = keys k" "dns (flushDNSCache M k) = dns k"
  using mac_laws(2,3) [OF assms] by (simp_all add: flushDNSCache_def)

lemma fold_del_effect:
  assumes "mac_ok M keys dns"
  shows "keys (fold (\<lambda>ip. mac_try M (del_host ip)) ips k) = keys k - HostKey ` set ips
    \<and> dns (fold (\<lambda>ip. mac_try M (del_host ip)) ips k) = dns k"
  using mac_laws(2,3) [OF assms] by (induction ips arbitrary: k) auto

lemma block_effect:
  assumes "mac_ok M keys dns" "mac_block_from M cidrs k = (e, k')" "set cidrs \<subseteq> set ipv6Halves"
  shows "dns k' = dns k \<and> keys k - Net6Key ` set ipv6Halves \<subseteq> keys k'
    \<and> keys k' \<subseteq> (if e = None then keys k \<union> Net6Key ` set ipv6Halves else keys k - Net6Key ` set ipv6Halves)"
  using assms(2-)
proof (induction cidrs arbitrary: k)
  case (Cons c cs)
  let ?add = "[''route'', ''-n'', ''add'', ''-inet6'', ''-net'', c, ''::1'', ''-reject'']"
  obtain e1 k1 where a: "mc_run M ?add (mac_try M (del_v6 c) k) = (e1, k1)" by fastforce
  note s = mac_laws(1) [OF assms(1) a] mac_laws(2,3) [OF assms(1)]
  show ?case
  proof (cases e1)
    case None
    with Cons.prems a have "mac_block_from M cs k1 = (e, k')" by simp
    from Cons.IH [OF this] Cons.prems(2) s None show ?thesis
      by (cases e) (auto simp: after_cmd_def)
  next
    case (Some x)
    with Cons.prems a have "e = Some x" "k' = unblockIPv6 M k1" by auto
    with s Some unblock_effect [OF assms(1), of k1] Cons.prems(2) show ?thesis by (auto simp: after_cmd_def)
  qed
qed auto

lemma bypass_effect:
  assumes "mac_ok M keys dns" "mac_bypass M serverIP gw ips k = (added, k')"
  shows "dns k' = dns k \<and> set added \<subseteq> set ips - {serverIP} \<and> keys k' \<subseteq> keys k \<union> HostKey ` set added
    \<and> keys k - HostKey ` (set ips - {serverIP}) \<subseteq> keys k'"
  using assms(2)
proof (induction ips arbitrary: k added)
  case (Cons ip ips)
  show ?case
  proof (cases "ip = [] \<or> ip = serverIP")
    case True
    with Cons.prems have "mac_bypass M serverIP gw ips k = (added, k')" by auto
    from Cons.IH [OF this] show ?thesis by auto
  next
    case False
    obtain e k1 where a: "mc_run M [''route'', ''add'', ''-host'', ip, gw] (mac_try M (del_host ip) k) = (e, k1)" by fastforce
    obtain more where m: "mac_bypass M serverIP gw ips k1 = (more, k')"
      "added = (if e = None then ip # more else more)"
      using False Cons.prems a by (auto split: option.splits prod.splits)
    from Cons.IH [OF m(1)] mac_laws(1) [OF assms(1) a] mac_laws(2,3) [OF assms(1)] m(2) False show ?thesis
      by (auto simp: after_cmd_def insert_Diff_if)
  qed
qed auto


text \<open>The routes of a session, and all the destinations the set-up touches.\<close>

definition own_keys :: "mac_cleanup \<Rightarrow> route_key set" where
  "own_keys c = {HostKey (mu_server c), NetKey ''0.0.0.0/1'', NetKey ''128.0.0.0/1''} \<union> HostKey ` set (mu_bypass c)
     \<union> (if mu_v6 c then Net6Key ` set ipv6Halves else {})"

definition touched :: "string \<Rightarrow> string list \<Rightarrow> route_key set" where
  "touched srv ips = {HostKey srv, NetKey ''0.0.0.0/1'', NetKey ''128.0.0.0/1''} \<union> HostKey ` set ips
     \<union> Net6Key ` set ipv6Halves"

text \<open>One half of the default route, and the routes before the halves.\<close>

abbreviation half1 :: route_key where "half1 \<equiv> NetKey ''0.0.0.0/1''"
abbreviation half2 :: route_key where "half2 \<equiv> NetKey ''128.0.0.0/1''"

lemma half_effect:
  assumes "mac_ok M keys dns" "mc_run M [''route'', ''add'', ''-net'', net, gw] k = (e, k')"
  shows "keys k \<subseteq> keys k'" "keys k' \<subseteq> insert (NetKey net) (keys k)" "dns k' = dns k"
    "e = None \<Longrightarrow> NetKey net \<in> keys k'" "e = Some x \<Longrightarrow> keys k' = keys k"
  using mac_laws(1) [OF assms] by (auto simp: after_cmd_def)

lemma server_route_effect:
  assumes "mac_ok M keys dns"
    and "mc_run M [''route'', ''add'', ''-host'', srv, gw]
          (mac_try M (del_net ''128.0.0.0/1'') (mac_try M (del_net ''0.0.0.0/1'') (mac_try M (del_host srv) k))) = (e, k')"
  shows "keys k - {HostKey srv, half1, half2} \<subseteq> keys k'" "keys k' \<subseteq> insert (HostKey srv) (keys k)" "dns k' = dns k"
    "e = Some x \<Longrightarrow> keys k' \<subseteq> keys k"
  using mac_laws(1) [OF assms] mac_laws(2,3) [OF assms(1)] by (auto simp: after_cmd_def)

lemma before_halves:
  assumes ok: "mac_ok M keys dns"
    and a: "mc_run M [''route'', ''add'', ''-host'', srv, gw]
          (mac_try M (del_net ''128.0.0.0/1'') (mac_try M (del_net ''0.0.0.0/1'') (mac_try M (del_host srv) k))) = (e, k2)"
    and b: "mac_bypass M serverIP gw ips k2 = (bs, k3)"
  shows "keys k - touched srv ips \<subseteq> keys k3" "keys k3 \<subseteq> insert (HostKey srv) (keys k \<union> HostKey ` set bs)" "dns k3 = dns k"
    "HostKey ` set bs \<subseteq> HostKey ` set ips" "HostKey ` set bs \<subseteq> touched srv ips"
proof -
  note s = server_route_effect [OF ok a] and b = bypass_effect [OF ok b]
  have t: "HostKey ` (set ips - {serverIP}) \<subseteq> touched srv ips" "{HostKey srv, half1, half2} \<subseteq> touched srv ips"
    by (auto simp: touched_def)
  have "keys k2 - HostKey ` (set ips - {serverIP}) \<subseteq> keys k3" using b by blast
  with s(1) t show "keys k - touched srv ips \<subseteq> keys k3" by blast
  have "keys k3 \<subseteq> keys k2 \<union> HostKey ` set bs" using b by blast
  with s(2) show "keys k3 \<subseteq> insert (HostKey srv) (keys k \<union> HostKey ` set bs)" by blast
  show "dns k3 = dns k" using b s(3) by simp
  show "HostKey ` set bs \<subseteq> HostKey ` set ips" "HostKey ` set bs \<subseteq> touched srv ips"
    using b by (auto simp: touched_def)
qed

text \<open>A clean-up record made after all routes are in place owns exactly what was added.\<close>

lemma install_complete:
  assumes ok: "mac_ok M keys dns" and "mac_blockIPv6 M k5 = (v, k6)"
    and lo: "keys k - touched srv ips \<subseteq> keys k5" and half: "{half1, half2} \<subseteq> keys k5"
    and hi: "keys k5 \<subseteq> keys k \<union> ({HostKey srv, half1, half2} \<union> HostKey ` set bs)"
    and bs: "HostKey ` set bs \<subseteq> touched srv ips" and dns: "dns k5 = dns k"
    and c: "c = \<lparr>mu_v6 = (v = None), mu_server = srv, mu_bypass = bs, mu_dns = d\<rparr>"
  shows "dns k6 = dns k \<and> keys k - touched srv ips \<subseteq> keys k6 \<and> keys k6 \<subseteq> keys k \<union> own_keys c
    \<and> {half1, half2} \<subseteq> keys k6 \<and> own_keys c \<subseteq> touched srv ips \<and> mu_dns c = d"
proof -
  let ?n6 = "Net6Key ` set ipv6Halves"
  have s6: "dns k6 = dns k5" "keys k5 - ?n6 \<subseteq> keys k6" "keys k6 \<subseteq> keys k5 \<union> (if v = None then ?n6 else {})"
    using block_effect [OF ok _ order.refl, of k5 v k6] assms(2) by (auto simp: mac_blockIPv6_def split: if_splits)
  have own: "own_keys c = {HostKey srv, half1, half2} \<union> HostKey ` set bs \<union> (if v = None then ?n6 else {})"
    by (simp add: c own_keys_def)
  have t: "{HostKey srv, half1, half2} \<subseteq> touched srv ips" "?n6 \<subseteq> touched srv ips" by (auto simp: touched_def)
  have "keys k6 \<subseteq> keys k \<union> own_keys c" using s6(3) hi unfolding own by blast
  moreover have "keys k - touched srv ips \<subseteq> keys k6" using lo s6(2) t(2) by blast
  moreover have "{half1, half2} \<subseteq> keys k6" using half s6(2) by auto
  moreover have "own_keys c \<subseteq> touched srv ips" unfolding own using t bs by (simp split: if_splits)
  ultimately show ?thesis using s6(1) dns by (simp add: c)
qed

lemma mac_install_effect:
  assumes ok: "mac_ok M keys dns" and "mac_install M serverIP ips srv gw tunGW dnsSet k = (r, k')"
  shows "dns k' = dns k \<and> keys k - touched srv ips \<subseteq> keys k'
    \<and> (case r of
         Inl e \<Rightarrow> keys k' \<subseteq> keys k \<union> HostKey ` set ips
       | Inr c \<Rightarrow> keys k' \<subseteq> keys k \<union> own_keys c \<and> {half1, half2} \<subseteq> keys k'
           \<and> own_keys c \<subseteq> touched srv ips \<and> mu_dns c = dnsSet)"
proof -
  note attempts = mac_laws(2,3) [OF ok]
  let ?k1 = "mac_try M (del_net ''128.0.0.0/1'') (mac_try M (del_net ''0.0.0.0/1'') (mac_try M (del_host srv) k))"
  obtain e2 k2 where a2: "mc_run M [''route'', ''add'', ''-host'', srv, gw] ?k1 = (e2, k2)" by fastforce
  obtain bs k3 where a3: "mac_bypass M serverIP gw ips k2 = (bs, k3)" by fastforce
  obtain e4 k4 where a4: "mc_run M [''route'', ''add'', ''-net'', ''0.0.0.0/1'', tunGW] k3 = (e4, k4)" by fastforce
  obtain e5 k5 where a5: "mc_run M [''route'', ''add'', ''-net'', ''128.0.0.0/1'', tunGW] k4 = (e5, k5)" by fastforce
  obtain v k6 where a6: "mac_blockIPv6 M k5 = (v, k6)" by fastforce
  note s2 = server_route_effect [OF ok a2] and s3 = before_halves [OF ok a2 a3]
  note s4 = half_effect [OF ok a4] and s5 = half_effect [OF ok a5]
  have t: "{HostKey srv, half1, half2} \<subseteq> touched srv ips" by (auto simp: touched_def)
  note run = assms(2) [unfolded mac_install_def Let_def]
  consider x where "e2 = Some x" "r = Inl (ServerRoute x)" "k' = k2"
    | x where "e4 = Some x" "r = Inl (HalfRoute ''0/1'' x)" "k' = mac_try M (del_host srv) k4"
    | x where "e4 = None" "e5 = Some x" "r = Inl (HalfRoute ''128/1'' x)"
        "k' = mac_try M (del_host srv) (mac_try M (del_net ''0.0.0.0/1'') k5)"
    | "e4 = None" "e5 = None" "k' = k6" "r = Inr \<lparr>mu_v6 = (v = None), mu_server = srv, mu_bypass = bs, mu_dns = dnsSet\<rparr>"
    using run a2 a3 a4 a5 a6 by (auto split: option.splits)
  then show ?thesis
  proof cases
    case (1 x)
    have "keys k2 \<subseteq> keys k" using 1(1) by (rule s2(4))
    moreover have "keys k - touched srv ips \<subseteq> keys k2" using s2(1) t by blast
    ultimately show ?thesis using s2(3) by (auto simp: 1)
  next
    case (2 x)
    have "keys k' = keys k3 - {HostKey srv}" "dns k' = dns k3" using s4(3) s4(5) [OF 2(1)] by (simp_all add: 2 attempts)
    moreover from this(1) s3(2,4) have "keys k' \<subseteq> keys k \<union> HostKey ` set ips" by blast
    moreover from \<open>keys k' = _\<close> s3(1) t have "keys k - touched srv ips \<subseteq> keys k'" by blast
    ultimately show ?thesis using s3(3) by (simp add: 2)
  next
    case (3 x)
    have k': "keys k' = keys k4 - {half1} - {HostKey srv}" "dns k' = dns k3"
      using s4(3) s5(3) s5(5) [OF 3(2)] by (simp_all add: 3 attempts)
    have "keys k' \<subseteq> keys k3 - {HostKey srv}" using k'(1) s4(2) by blast
    then have "keys k' \<subseteq> keys k \<union> HostKey ` set ips" using s3(2,4) by blast
    moreover have "keys k - touched srv ips \<subseteq> keys k'" using k'(1) s3(1) s4(1) t by blast
    ultimately show ?thesis using k'(2) s3(3) by (simp add: 3)
  next
    case 4
    have "keys k - touched srv ips \<subseteq> keys k5" using s3(1) s4(1) s5(1) by blast
    moreover have "{half1, half2} \<subseteq> keys k5" using s4(4) [OF 4(1)] s5(1) s5(4) [OF 4(2)] by blast
    moreover have "keys k5 \<subseteq> keys k \<union> ({HostKey srv, half1, half2} \<union> HostKey ` set bs)" using s3(2) s4(2) s5(2) by blast
    ultimately show ?thesis
      using install_complete [OF ok a6 _ _ _ s3(5) _ refl, of k dnsSet] s3(3) s4(3) s5(3) by (simp add: 4)
  qed
qed

lemma mac_cleanup_effect:
  assumes "mac_ok M keys dns"
  shows "keys (mac_run_cleanup M c k) = keys k - own_keys c"
    and "dns (mac_run_cleanup M c k) \<longleftrightarrow> dns k \<and> \<not> mu_dns c"
proof -
  define k1 where "k1 = (if mu_v6 c then unblockIPv6 M k else k)"
  define k2 where "k2 = mac_try M (del_host (mu_server c))
      (mac_try M (del_net ''0.0.0.0/1'') (mac_try M (del_net ''128.0.0.0/1'') k1))"
  define k3 where "k3 = fold (\<lambda>ip. mac_try M (del_host ip)) (mu_bypass c) k2"
  have "keys k1 = keys k - (if mu_v6 c then Net6Key ` set ipv6Halves else {})" "dns k1 = dns k"
    by (simp_all add: k1_def unblock_effect [OF assms])
  then have k3: "keys k3 = keys k - own_keys c" "dns k3 = dns k"
    using fold_del_effect [OF assms, of "mu_bypass c" k2] mac_laws(2,3) [OF assms]
    by (auto simp: k3_def k2_def own_keys_def)
  have run: "mac_run_cleanup M c k = (if mu_dns c then flushDNSCache M (removeDNSviaScutil M k3) else k3)"
    by (simp add: mac_run_cleanup_def Let_def k1_def k2_def k3_def)
  show "keys (mac_run_cleanup M c k) = keys k - own_keys c"
    "dns (mac_run_cleanup M c k) \<longleftrightarrow> dns k \<and> \<not> mu_dns c"
    using mac_laws(5) [OF assms, of k3] k3 by (simp_all add: run flush_effect [OF assms])
qed

lemma mac_SetupRoutes_cases:
  assumes "mac_SetupRoutes M serverIP tunName tunCIDR customGW ips k = (r, k')"
  obtains (early) e where "r = Inl e" "k' = k"
  | (installed) e k2 k3 gw tunGW q info where "setDNSviaScutil M (removeDNSviaScutil M k) = (e, k2)"
      "k3 = (if e = None then flushDNSCache M k2 else k2)"
      "mac_install M serverIP ips (ip_string (ParseIP serverIP)) gw tunGW (e = None) k3 = (q, k')"
      "r = (case q of Inl x \<Rightarrow> Inl x | Inr c \<Rightarrow> Inr (c, info))"
proof -
  obtain e k2 where s: "setDNSviaScutil M (removeDNSviaScutil M k) = (e, k2)" by fastforce
  show thesis
  proof (cases "server_gateway M tunName customGW k")
    case (Inl x)
    with assms show thesis by (intro early [of x]) (auto simp: mac_SetupRoutes_def)
  next
    case (Inr g)
    obtain gw src where g: "g = (gw, src)" by fastforce
    show thesis
    proof (cases "ParseIP serverIP = [] \<or> ParseCIDR tunCIDR = None")
      case True
      with assms Inr g early show thesis by (auto simp: mac_SetupRoutes_def split: if_splits)
    next
      case False
      then obtain tunIP tunNet where p: "ParseCIDR tunCIDR = Some (tunIP, tunNet)" by auto
      obtain q k4 where q: "mac_install M serverIP ips (ip_string (ParseIP serverIP)) (ip_string gw)
          (ip_string (peerAddress tunIP tunNet)) (e = None) (if e = None then flushDNSCache M k2 else k2) = (q, k4)"
        by fastforce
      then show thesis
        using assms Inr g False p s
        by (intro installed [OF s refl, of _ _ q "ip_string gw @ '' ('' @ src @ '')''"])
          (auto simp: mac_SetupRoutes_def Let_def split: sum.splits)
    qed
  qed
qed

text \<open>
  Routes of a macOS client are taken back. After a successful set-up both halves of the address
  space go through the TUN device; running its clean-up, in any later state with the same routes and
  override, leaves only routes from before, touches no destination other than the server, the bypassed
  hosts, the halves of IPv4 and IPv6, and leaves no DNS override. A failed set-up adds at most routes
  to bypassed hosts, but once it got as far as the override it leaves that in place.
\<close>

theorem mac_routes_restored:
  assumes "mac_ok M keys dns"
    and "mac_SetupRoutes M serverIP tunName tunCIDR customGW ips k = (r, k')"
  shows "keys k - touched (ip_string (ParseIP serverIP)) ips \<subseteq> keys k'
    \<and> (case r of
         Inl e \<Rightarrow> keys k' \<subseteq> keys k \<union> HostKey ` set ips
           \<and> (k' = k \<or> dns k' = (fst (setDNSviaScutil M (removeDNSviaScutil M k)) = None))
       | Inr (c, info) \<Rightarrow> {NetKey ''0.0.0.0/1'', NetKey ''128.0.0.0/1''} \<subseteq> keys k'
           \<and> (\<forall>k2. keys k2 = keys k' \<and> dns k2 = dns k' \<longrightarrow>
                keys k - touched (ip_string (ParseIP serverIP)) ips \<subseteq> keys (mac_run_cleanup M c k2)
              \<and> keys (mac_run_cleanup M c k2) \<subseteq> keys k \<and> \<not> dns (mac_run_cleanup M c k2)))"
  using assms(2)
proof (cases rule: mac_SetupRoutes_cases)
  case (early e)
  then show ?thesis by auto
next
  case (installed e k2 k3 gw tunGW q info)
  let ?T = "touched (ip_string (ParseIP serverIP)) ips"
  have k3: "keys k3 = keys k" "dns k3 = (e = None)"
    using mac_laws(4) [OF assms(1) installed(1)] mac_laws(5) [OF assms(1), of k] installed(2)
    by (auto simp: flush_effect [OF assms(1)])
  note eff = mac_install_effect [OF assms(1) installed(3)] 
  show ?thesis
  proof (cases q)
    case (Inl x)
    with installed eff k3 show ?thesis by simp
  next
    case (Inr c)
    have "keys k - ?T \<subseteq> keys k' - own_keys c" "keys k' - own_keys c \<subseteq> keys k"
      using eff Inr k3(1) by auto
    moreover have "dns k' \<longrightarrow> mu_dns c" using eff Inr k3(2) by simp
    ultimately show ?thesis
      using eff Inr installed(4) k3(1) by (simp add: mac_cleanup_effect [OF assms(1)])
  qed
qed


text \<open>A machine that keeps the destinations and the override.\<close>

definition demo_mac :: "(route_key list \<times> bool) mac" where
  "demo_mac =
     \<lparr>mc_netstat = (\<lambda>_. Inr (''default 192.168.0.1 UGScg en0'' @ newline)),
      mc_run = (\<lambda>c (K, d). (None, filter (\<lambda>x. deleted_key c \<noteq> Some x) (case added_key c of Some x \<Rightarrow> x # K | None \<Rightarrow> K), d)),
      mc_scutil = (\<lambda>s (K, d). (None, K, s = scutil_set)),
      mc_new_tun = (\<lambda>k. (Inr ''utun5'', k)), mc_close_tun = (\<lambda>_ k. k)\<rparr>"

lemma scutil_differ [simp]: "scutil_remove \<noteq> scutil_set"
  by (simp add: scutil_remove_def scutil_set_def)

lemma demo_mac_ok: "mac_ok demo_mac (\<lambda>k. set (fst k)) snd"
  by (auto simp: mac_ok_def demo_mac_def after_cmd_def split: option.splits)

theorem mac_routes_restored_witness:
  "\<exists>c info k'. mac_SetupRoutes demo_mac ''1.2.3.4'' ''utun5'' ''10.7.0.2/24'' [] [''1.1.1.1''] ([HostKey ''8.8.8.8''], False)
       = (Inr (c, info), k')
     \<and> NetKey ''0.0.0.0/1'' \<in> set (fst k')
     \<and> set (fst (mac_run_cleanup demo_mac c k')) = {HostKey ''8.8.8.8''} \<and> \<not> snd (mac_run_cleanup demo_mac c k')"
proof -
  let ?k = "([HostKey ''8.8.8.8''], False)"
  let ?run = "mac_SetupRoutes demo_mac ''1.2.3.4'' ''utun5'' ''10.7.0.2/24'' [] [''1.1.1.1''] ?k"
  have "is_Inr (fst ?run)" by code_simp
  then obtain c info k' where r: "?run = (Inr (c, info), k')"
    by (cases ?run) (auto simp: is_Inr_def split: sum.splits)
  have "HostKey ''8.8.8.8'' \<notin> touched (ip_string (ParseIP ''1.2.3.4'')) [''1.1.1.1'']" by code_simp
  with mac_routes_restored [OF demo_mac_ok r] r show ?thesis by fastforce
qed

text \<open>
  A failure of the route to the server after the override was set leaves the override in place, and no
  clean-up function is returned that could take it back.
\<close>

definition broken_mac :: "(route_key list \<times> bool) mac" where
  "broken_mac = demo_mac\<lparr>mc_run := (\<lambda>c (K, d). (Some ''route: not permitted'', filter (\<lambda>x. deleted_key c \<noteq> Some x) K, d))\<rparr>"

lemma failed_setup_leaves_override:
  "let (r, K, dns) = mac_SetupRoutes broken_mac ''1.2.3.4'' ''utun5'' ''10.7.0.2/24'' [] [] ([], False)
   in \<not> is_Inr r \<and> dns"
  by code_simp

section \<open>The other end of the link\<close>

text \<open>The peer always differs from the own address.\<close>

lemma peerAddress_differs:
  assumes "good_net net" "length ip = 4"
  shows "peerAddress (v4InV6Prefix @ ip) net \<noteq> ip \<and> length (peerAddress (v4InV6Prefix @ ip) net) = 4"
proof -
  from assms(1) have len: "length (net_ip net) = 4" by (simp add: good_net_def)
  then obtain a b c d where n: "net_ip net = [a, b, c, d]" by (auto simp: numeral_eq_Suc length_Suc_conv)
  have ne: "d + 2 \<noteq> d + 1" by simp
  show ?thesis
    using len assms(2) ne by (auto simp: peerAddress_def n ip_Equal_def v4InV6Prefix_def Let_def)
qed

end
