(* ===== verification/Setup.thy ===== *)
theory Setup
  imports Upstream Routing
begin

text \<open>
  Components \<open>cmd/client/setup.go\<close> and \<open>cmd/tray/setup.go\<close>: the search for the configuration and the
  interactive wizards. The lines typed by the user are a list; ending the program (end of input, no
  home directory, a failed write) is \<open>None\<close>. The file system is a record of operations, and
  \<open>filepath.Join\<close> is one of them. Texts printed are not modelled.
\<close>

section \<open>Finding the configuration\<close>

record 'k disk =
  dk_home :: "string option"
  dk_join :: "string list \<Rightarrow> string"
  dk_dir :: "string \<Rightarrow> string"
  dk_exists :: "string \<Rightarrow> 'k \<Rightarrow> bool"
  dk_mkdir :: "string \<Rightarrow> 'k \<Rightarrow> bool \<times> 'k"
  dk_write :: "string \<Rightarrow> string \<Rightarrow> 'k \<Rightarrow> bool \<times> 'k"

definition configDir :: string where "configDir = ''.config/ftybucks''"
definition configFile :: string where "configFile = ''client.yaml''"

definition configSearchPath :: "'k disk \<Rightarrow> string" where
  "configSearchPath D = (case dk_home D of None \<Rightarrow> [] | Some home \<Rightarrow> dk_join D [home, configDir, configFile])"

definition findConfig :: "'k disk \<Rightarrow> 'k \<Rightarrow> string" where
  "findConfig D k =
     (if configSearchPath D \<noteq> [] \<and> dk_exists D (configSearchPath D) k then configSearchPath D
      else if dk_exists D ''configs/client.yaml'' k then ''configs/client.yaml''
      else [])"

section \<open>Validation\<close>

text \<open>\<open>strconv.Atoi\<close>: an optional sign, decimal digits, 64 bits.\<close>

definition Atoi :: "string \<Rightarrow> int option" where
  "Atoi s =
     (let neg = (s \<noteq> [] \<and> hd s = CHR ''-'');
          ds = (if s \<noteq> [] \<and> (hd s = CHR ''-'' \<or> hd s = CHR ''+'') then tl s else s);
          n = int (undigits 10 (map char_digit ds));
          v = (if neg then - n else n)
      in if ds = [] \<or> \<not> list_all is_digit ds then None
         else if - (2 ^ 63) \<le> v \<and> v < 2 ^ 63 then Some v else None)"

datatype prompt_error = BadHostPort | EmptyHost | BadPort | BadBase64 | BadKeySize nat | BadCIDR | BadNumber

definition validateHostPort :: "string \<Rightarrow> prompt_error option" where
  "validateHostPort s =
     (case SplitHostPort s of
        None \<Rightarrow> Some BadHostPort
      | Some (host, port) \<Rightarrow>
          if host = [] then Some EmptyHost
          else if Atoi port = None then Some BadPort
          else None)"

definition validateBase64 :: "string \<Rightarrow> prompt_error option" where
  "validateBase64 s =
     (case base64_decode s of
        None \<Rightarrow> Some BadBase64
      | Some b \<Rightarrow> if length b \<noteq> 32 then Some (BadKeySize (length b)) else None)"

definition validateInt :: "string \<Rightarrow> prompt_error option" where
  "validateInt s = (if Atoi s = None then Some BadNumber else None)"

definition validateCIDR :: "string \<Rightarrow> prompt_error option" where
  "validateCIDR s = (if ParseCIDR s = None then Some BadCIDR else None)"

section \<open>The wizards\<close>

text \<open>\<open>None\<close> is the end of the input. A prompt without validation takes \<open>\<lambda>_. None\<close>.\<close>

fun promptRequired :: "(string \<Rightarrow> prompt_error option) \<Rightarrow> string list \<Rightarrow> (string \<times> string list) option" where
  "promptRequired validate [] = None"
| "promptRequired validate (l # ls) =
     (let val = TrimSpace l in
      if val = [] then promptRequired validate ls
      else if validate val \<noteq> None then promptRequired validate ls
      else Some (val, ls))"

fun promptDefault :: "string \<Rightarrow> (string \<Rightarrow> prompt_error option) \<Rightarrow> string list \<Rightarrow> (string \<times> string list) option" where
  "promptDefault def validate [] = None"
| "promptDefault def validate (l # ls) =
     (let val = TrimSpace l in
      if val = [] then Some (def, ls)
      else if validate val \<noteq> None then promptDefault def validate ls
      else Some (val, ls))"

record answers =
  an_server :: string
  an_psk :: string
  an_cidr :: "string option"
  an_dns :: string
  an_padding :: string

definition default_dns :: string where "default_dns = ''https://1.1.1.1/dns-query''"

definition ask_client :: "string list \<Rightarrow> answers option" where
  "ask_client ls0 =
     (case promptRequired validateHostPort ls0 of None \<Rightarrow> None | Some (server, ls1) \<Rightarrow>
      (case promptRequired validateBase64 ls1 of None \<Rightarrow> None | Some (psk, ls2) \<Rightarrow>
      (case promptDefault default_dns (\<lambda>_. None) ls2 of None \<Rightarrow> None | Some (dns, ls3) \<Rightarrow>
      (case promptDefault ''64'' validateInt ls3 of None \<Rightarrow> None | Some (paddingMax, ls4) \<Rightarrow>
        Some \<lparr>an_server = server, an_psk = psk, an_cidr = None, an_dns = dns, an_padding = paddingMax\<rparr>))))"

definition ask_tray :: "string list \<Rightarrow> answers option" where
  "ask_tray ls0 =
     (case promptRequired validateHostPort ls0 of None \<Rightarrow> None | Some (server, ls1) \<Rightarrow>
      (case promptRequired validateBase64 ls1 of None \<Rightarrow> None | Some (psk, ls2) \<Rightarrow>
      (case promptDefault ''10.7.0.2/24'' validateCIDR ls2 of None \<Rightarrow> None | Some (tunCIDR, ls3) \<Rightarrow>
      (case promptDefault default_dns (\<lambda>_. None) ls3 of None \<Rightarrow> None | Some (dns, ls4) \<Rightarrow>
      (case promptDefault ''64'' validateInt ls4 of None \<Rightarrow> None | Some (paddingMax, ls5) \<Rightarrow>
        Some \<lparr>an_server = server, an_psk = psk, an_cidr = Some tunCIDR, an_dns = dns, an_padding = paddingMax\<rparr>)))))"

definition yaml_text :: "answers \<Rightarrow> string" where
  "yaml_text a =
     (let q = (\<lambda>key val. key @ '': \"'' @ val @ ''\"'' @ newline) in
      q ''server'' (an_server a) @ q ''tun_name'' ''stun0''
      @ (case an_cidr a of None \<Rightarrow> [] | Some c \<Rightarrow> q ''tun_cidr'' c)
      @ q ''dns'' (an_dns a) @ q ''psk'' (an_psk a)
      @ ''jitter_ms: 0'' @ newline @ ''padding:'' @ newline @ ''  min: 0'' @ newline
      @ ''  max: '' @ an_padding a @ newline)"

text \<open>Saving the file: its path, or \<open>None\<close> when the program ends.\<close>

definition save_config :: "'k disk \<Rightarrow> answers \<Rightarrow> 'k \<Rightarrow> string option \<times> 'k" where
  "save_config D a k =
     (let outPath = configSearchPath D in
      if outPath = [] then (None, k)
      else case dk_mkdir D (dk_dir D outPath) k of
        (False, k1) \<Rightarrow> (None, k1)
      | (True, k1) \<Rightarrow>
          (case dk_write D outPath (yaml_text a) k1 of
             (False, k2) \<Rightarrow> (None, k2)
           | (True, k2) \<Rightarrow> (Some outPath, k2)))"

definition runSetupWizard :: "'k disk \<Rightarrow> string list \<Rightarrow> 'k \<Rightarrow> string option \<times> 'k" where
  "runSetupWizard D ls k = (case ask_client ls of None \<Rightarrow> (None, k) | Some a \<Rightarrow> save_config D a k)"

definition tray_runSetupWizard :: "'k disk \<Rightarrow> string list \<Rightarrow> 'k \<Rightarrow> string option \<times> 'k" where
  "tray_runSetupWizard D ls k = (case ask_tray ls of None \<Rightarrow> (None, k) | Some a \<Rightarrow> save_config D a k)"

text \<open>
  \<open>main\<close> of the tray application up to its event loop: \<open>cfgPath\<close> is the value of the flag \<open>-c\<close>, \<open>setup\<close>
  the flag \<open>-setup\<close>, and \<open>load\<close> is \<open>config.Load\<close> on the file system.
\<close>

datatype tray_start = TrayNeedsRoot | TrayWizardEnds | TrayConfigError load_error | TrayRuns Config

definition tray_main ::
  "'k disk \<Rightarrow> ('k \<Rightarrow> string \<Rightarrow> load_error + Config) \<Rightarrow> bool \<Rightarrow> string \<Rightarrow> bool \<Rightarrow> string list \<Rightarrow> 'k \<Rightarrow> tray_start \<times> 'k" where
  "tray_main D load root cfgPath setup ls k =
     (let start = (\<lambda>path k. case load k path of Inl e \<Rightarrow> (TrayConfigError e, k) | Inr cfg \<Rightarrow> (TrayRuns cfg, k));
          wizard = (case tray_runSetupWizard D ls k of
                      (None, k1) \<Rightarrow> (TrayWizardEnds, k1)
                    | (Some path, k1) \<Rightarrow> start path k1)
      in if \<not> root then (TrayNeedsRoot, k)
         else if setup then wizard
         else if cfgPath \<noteq> [] then start cfgPath k
         else if findConfig D k \<noteq> [] then start (findConfig D k) k
         else wizard)"

section \<open>What the wizards accept\<close>

lemma promptRequired_ok:
  "promptRequired v ls = Some (x, r) \<Longrightarrow> v x = None \<and> x \<noteq> []"
  by (induction v ls rule: promptRequired.induct) (auto simp: Let_def split: if_splits)

lemma promptDefault_ok:
  "promptDefault d v ls = Some (x, r) \<Longrightarrow> v d = None \<Longrightarrow> v x = None"
  by (induction d v ls rule: promptDefault.induct) (auto simp: Let_def split: if_splits)

text \<open>The configuration with the answers in its fields.\<close>

definition answer_config :: "answers \<Rightarrow> Config" where
  "answer_config a =
     \<lparr>Server = an_server a, Listen = [], SNI = [], TunName = ''stun0'',
      TunCIDR = (case an_cidr a of None \<Rightarrow> [] | Some c \<Rightarrow> c), DNS = an_dns a, PSK = an_psk a, Gateway = [],
      Padding = \<lparr>pad_min = 0, pad_max = the (Atoi (an_padding a))\<rparr>, JitterMs = 0\<rparr>"

text \<open>
  What the wizards write can be loaded. The answers either wizard accepts make a configuration
  with a server address that splits into host and port and a key of exactly 32 bytes, and it passes
  the validation of the loader unless the padding is negative, which both wizards accept.
\<close>

theorem wizard_config_valid:
  assumes "ask_client ls = Some a \<or> ask_tray ls = Some a"
  shows "(\<exists>host port. SplitHostPort (Server (answer_config a)) = Some (host, port) \<and> host \<noteq> [])
    \<and> (\<exists>b. PSKBytes (answer_config a) = Some b \<and> length b = 32)
    \<and> (Validate (answer_config a) = None \<longleftrightarrow> 0 \<le> pad_max (Padding (answer_config a)))
    \<and> (\<exists>n. Atoi (an_padding a) = Some n)"
proof -
  have "Atoi ''64'' = Some 64" by code_simp
  then have d: "validateInt ''64'' = None" by (simp add: validateInt_def)
  have "validateHostPort (an_server a) = None \<and> validateBase64 (an_psk a) = None \<and> an_psk a \<noteq> []
      \<and> validateInt (an_padding a) = None"
    using assms promptRequired_ok promptDefault_ok [where v = validateInt and d = "''64''"] d
    by (auto simp: ask_client_def ask_tray_def split: option.splits)
  then show ?thesis
    by (auto simp: validateHostPort_def validateBase64_def validateInt_def answer_config_def PSKBytes_def
        Validate_def check_psk_def check_padding_def split: option.splits if_splits)
qed

theorem wizard_config_valid_witness:
  "\<exists>a. ask_client [''vpn.example.org'', ''1.2.3.4:5432'', ''AAAAAAAAAAAAAAAAAAAAAAAAAAAAAAAAAAAAAAAAAAA='', [], ''-5''] = Some a
     \<and> an_server a = ''1.2.3.4:5432'' \<and> pad_max (Padding (answer_config a)) = - 5 \<and> Validate (answer_config a) \<noteq> None"
proof -
  let ?ls = "[''vpn.example.org'', ''1.2.3.4:5432'', ''AAAAAAAAAAAAAAAAAAAAAAAAAAAAAAAAAAAAAAAAAAA='', [], ''-5'']"
  have "map_option (\<lambda>a. (an_server a, an_padding a)) (ask_client ?ls) = Some (''1.2.3.4:5432'', ''-5'')" by code_simp
  then obtain a where a: "ask_client ?ls = Some a" "an_server a = ''1.2.3.4:5432''" "an_padding a = ''-5''" by auto
  have "Atoi ''-5'' = Some (- 5)" by code_simp
  with a have "pad_max (Padding (answer_config a)) = - 5" by (simp add: answer_config_def)
  with wizard_config_valid [of ?ls a] a show ?thesis by auto
qed

end
