(* ===== verification/Inet.thy ===== *)
theory Inet
  imports NetAddr
begin

text \<open>
  The Internet checksum as the program computes it three times (\<open>ipChecksum\<close> and \<open>udpChecksum\<close>
  in \<open>internal/dns/resolver.go\<close>, \<open>fixIPv4Checksum\<close> in \<open>cmd/gateway/main.go\<close>): a 32-bit sum of
  16-bit words, folded until it fits 16 bits, complemented. The lemmas say when a receiver that
  sums the words including the checksum gets all ones.
\<close>

definition word16 :: "byte \<Rightarrow> byte \<Rightarrow> 32 word" where
  "word16 a b = push_bit 8 (ucast a) OR ucast b"

text \<open>The loop over byte pairs; an odd last byte is not read.\<close>

fun sum16 :: "bytes \<Rightarrow> 32 word" where
  "sum16 (a # b # r) = word16 a b + sum16 r"
| "sum16 _ = 0"

lemma unat_word16: "unat (word16 a b) = unat a * 256 + unat b"
proof -
  have disj: "\<not> bit (push_bit 8 (ucast a) :: 32 word) n \<or> \<not> bit (ucast b :: 32 word) n" for n
    by (auto simp: bit_simps dest: bit_imp_le_length)
  have "word16 a b = push_bit 8 (ucast a) + ucast b"
    unfolding word16_def by (rule disjunctive_add [symmetric, OF disj])
  moreover have u: "unat (ucast x :: 32 word) = unat x" for x :: byte
    using unat_byte [of x] by (simp add: unsigned_ucast_eq take_bit_eq_mod)
  moreover have "unat (push_bit 8 (ucast a) :: 32 word) = unat a * 256"
    unfolding unsigned_push_bit_eq u using unat_byte [of a]
    by (simp add: take_bit_eq_mod push_bit_eq_mult)
  ultimately show ?thesis
    using unat_byte [of a] unat_byte [of b] by (simp add: unat_plus_if_size word_size)
qed

text \<open>One folding step, and the loop.\<close>

definition fold_step :: "32 word \<Rightarrow> 32 word" where
  "fold_step s = drop_bit 16 s + (s AND 0xffff)"

lemma unat_fold_step: "unat (fold_step s) = unat s div 65536 + unat s mod 65536"
proof -
  have m: "s AND 0xffff = take_bit 16 s" by (simp add: take_bit_eq_mask mask_eq_exp_minus_1)
  have a: "unat (drop_bit 16 s) = unat s div 65536"
    unfolding drop_bit_eq_div by (simp add: unat_div)
  have b: "unat (take_bit 16 s) = unat s mod 65536"
    unfolding take_bit_eq_mod by (simp add: unat_mod_distrib)
  have "unat s div 65536 < 65536" using unat_u32 [of s] by (simp add: less_mult_imp_div_less)
  moreover have "unat s mod 65536 < 65536" by simp
  ultimately have "unat s div 65536 + unat s mod 65536 < 2 ^ 32" by simp
  then show ?thesis
    unfolding fold_step_def m by (simp add: unat_plus_if_size word_size a b)
qed

lemma fold_step_less: "0xffff < s \<Longrightarrow> unat (fold_step s) < unat s"
proof -
  assume "0xffff < s"
  then have "65535 < unat s" by (simp add: word_less_nat_alt)
  then have "0 < unat s div 65536" by (simp add: div_greater_zero_iff)
  moreover have "unat s = unat s div 65536 * 65536 + unat s mod 65536" by simp
  ultimately show ?thesis unfolding unat_fold_step by linarith
qed

function fold16 :: "32 word \<Rightarrow> 32 word" where
  "fold16 s = (if s > 0xffff then fold16 (fold_step s) else s)"
  by pat_completeness auto
termination
  by (relation "measure unat") (auto simp: fold_step_less)

declare fold16.simps [simp del]

text \<open>Folding is reduction modulo 65535 with representatives 1 to 65535 for positive sums.\<close>

lemma fold16_spec:
  "unat (fold16 s) mod 65535 = unat s mod 65535 \<and> unat (fold16 s) \<le> 65535
   \<and> (0 < unat s \<longrightarrow> 0 < unat (fold16 s))"
proof (induction s rule: fold16.induct)
  case (1 s)
  show ?case
  proof (cases "0xffff < s")
    case False
    then show ?thesis by (subst (1 2 3) fold16.simps) (simp add: word_less_nat_alt not_less)
  next
    case True
    then have big: "65535 < unat s" by (simp add: word_less_nat_alt)
    let ?f = "unat s div 65536 + unat s mod 65536"
    have "unat s = ?f + unat s div 65536 * 65535"
    proof -
      have "unat s = unat s div 65536 * 65536 + unat s mod 65536" by simp
      then show ?thesis by linarith
    qed
    then have "?f mod 65535 = unat s mod 65535"
      by (metis mod_mult_self1 mult.commute)
    moreover have "0 < ?f" using big by (simp add: div_greater_zero_iff)
    ultimately show ?thesis
      using "1.IH" [OF True] True by (subst (1 2 3) fold16.simps) (simp add: unat_fold_step)
  qed
qed

lemma fold16_exact:
  assumes "0 < unat s" "65535 dvd unat s"
  shows "unat (fold16 s) = 65535"
proof -
  from fold16_spec [of s] assms have "65535 dvd unat (fold16 s)" "0 < unat (fold16 s)"
      "unat (fold16 s) \<le> 65535"
    by (auto simp: dvd_eq_mod_eq_0)
  then show ?thesis by (auto elim!: dvdE)
qed

text \<open>The complement as a 16-bit word.\<close>

definition checksum_of :: "32 word \<Rightarrow> 16 word" where
  "checksum_of s = NOT (ucast (fold16 s))"

lemma unat_checksum_of: "unat (checksum_of s) = 65535 - unat (fold16 s)"
proof -
  have "unat (ucast (fold16 s) :: 16 word) = unat (fold16 s)"
    using fold16_spec [of s] by (simp add: unsigned_ucast_eq take_bit_eq_mod)
  moreover have "unat (NOT w) = 65535 - unat w" for w :: "16 word"
  proof -
    have "NOT w = - 1 - w" by (simp add: not_eq_complement)
    then show ?thesis by (simp add: unat_sub unsigned_minus_1_eq_mask mask_eq_exp_minus_1)
  qed
  ultimately show ?thesis unfolding checksum_of_def by simp
qed

section \<open>Sums without overflow\<close>

text \<open>The sum as a natural number; 65537 words cannot overflow 32 bits.\<close>

fun nsum16 :: "bytes \<Rightarrow> nat" where
  "nsum16 (a # b # r) = unat a * 256 + unat b + nsum16 r"
| "nsum16 _ = 0"

lemma nsum16_bound: "nsum16 b \<le> length b div 2 * 65535"
proof (induction b rule: nsum16.induct)
  case (1 a b r)
  then show ?case using unat_byte [of a] unat_byte [of b] by auto
qed simp_all

lemma unat_sum16: "length b \<le> 131074 \<Longrightarrow> unat (sum16 b) = nsum16 b"
proof (induction b rule: sum16.induct)
  case (1 x y r)
  have "nsum16 (x # y # r) \<le> 65537 * 65535"
  proof -
    have "length (x # y # r) div 2 \<le> 65537" using "1.prems" by simp
    then have "length (x # y # r) div 2 * 65535 \<le> 65537 * 65535" by (rule mult_le_mono1)
    with nsum16_bound [of "x # y # r"] show ?thesis by linarith
  qed
  then have "unat (word16 x y) + nsum16 r < 2 ^ 32" by (simp add: unat_word16)
  with 1 show ?case by (simp add: unat_plus_if_size word_size unat_word16)
qed simp_all

lemma sum16_append: "even (length a) \<Longrightarrow> sum16 (a @ b) = sum16 a + sum16 b"
  by (induction a rule: sum16.induct) simp_all

lemma nsum16_append: "even (length a) \<Longrightarrow> nsum16 (a @ b) = nsum16 a + nsum16 b"
  by (induction a rule: nsum16.induct) simp_all

lemma nsum16_put_u16: "nsum16 (put_u16 w) = unat w"
proof -
  have "unat (word16 (ucast (drop_bit 8 w)) (ucast w)) = unat w"
  proof -
    have "word16 (ucast (drop_bit 8 w)) (ucast w) = ucast w"
      by (rule bit_word_eqI) (auto simp: word16_def bit_simps dest: bit_imp_le_length)
    then show ?thesis using unat_u16 [of w] by (simp add: unsigned_ucast_eq take_bit_eq_mod)
  qed
  then show ?thesis by (simp add: put_u16_def unat_word16)
qed

text \<open>A positive sum plus its checksum folds to all ones: the receiver's test.\<close>

lemma checksum_verifies:
  assumes "unat s = n" "0 < n" "unat s' = n + unat (checksum_of s)"
  shows "unat (fold16 s') = 65535"
proof (rule fold16_exact)
  note f = fold16_spec [of s]
  show "0 < unat s'" using assms by simp
  have "unat s' + unat (fold16 s) = n + 65535"
    using assms(3) f by (simp add: unat_checksum_of)
  have "(unat s' + unat (fold16 s)) mod 65535 = unat (fold16 s) mod 65535"
    using \<open>unat s' + unat (fold16 s) = n + 65535\<close> f assms(1) by simp
  then show "65535 dvd unat s'"
    by (metis add_diff_cancel_right' dvd_eq_mod_eq_0 mod_add_cong mod_eq_dvd_iff_nat le_add2)
qed

lemma fold16_ones: "unat (fold16 s) = 65535 \<Longrightarrow> checksum_of s = 0"
  using unat_checksum_of [of s] by (simp add: unat_eq_zero [symmetric] del: unat_eq_zero)

end
