(* ===== verification/Dns.thy ===== *)
theory Dns
  imports Inet Handshake
begin

text \<open>
  Component \<open>internal/dns/resolver.go\<close>: the DNS-over-HTTPS resolver with its cache, and the
  parsing and building of the IP packets around DNS messages; with it \<open>handleDNS\<close> of the clients.
  The HTTPS exchange is an argument. Cache keys are byte strings. An index out of range is a
  run-time panic, modelled as \<open>None\<close>.
\<close>

section \<open>Packets\<close>

definition IsDNSPacket :: "bytes \<Rightarrow> bool \<times> bytes" where
  "IsDNSPacket pkt =
     (if length pkt < 20 then (False, [])
      else if drop_bit 4 (pkt ! 0) \<noteq> 4 then (False, [])
      else
        let headerLen = unat (pkt ! 0 AND 0x0f) * 4 in
        if length pkt < headerLen + 8 then (False, [])
        else if pkt ! 9 \<noteq> 17 then (False, [])
        else if get_u16 (slice (headerLen + 2) (headerLen + 4) pkt) \<noteq> 53 then (False, [])
        else if length pkt < headerLen + 8 then (False, [])
        else (True, drop (headerLen + 8) pkt))"

definition ipChecksum :: "bytes \<Rightarrow> 16 word" where
  "ipChecksum header = checksum_of (sum16 header)"

text \<open>The sum over pseudo-header and segment, before folding.\<close>

definition udp_sum :: "bytes \<Rightarrow> bytes \<Rightarrow> bytes \<Rightarrow> 32 word" where
  "udp_sum srcIP dstIP udpSegment =
     word16 (srcIP ! 0) (srcIP ! 1) + word16 (srcIP ! 2) (srcIP ! 3)
     + word16 (dstIP ! 0) (dstIP ! 1) + word16 (dstIP ! 2) (dstIP ! 3)
     + 17 + of_nat (length udpSegment) + sum16 udpSegment
     + (if odd (length udpSegment) then push_bit 8 (ucast (last udpSegment)) else 0)"

definition udpChecksum :: "bytes \<Rightarrow> bytes \<Rightarrow> bytes \<Rightarrow> 16 word" where
  "udpChecksum srcIP dstIP udpSegment =
     (let csum = checksum_of (udp_sum srcIP dstIP udpSegment) in if csum = 0 then 0xffff else csum)"

text \<open>\<open>copy(pkt[12:16], ip.To4())\<close> into zeros.\<close>

definition addr_field :: "IP \<Rightarrow> bytes" where
  "addr_field ip = copy_at 0 (To4 ip) (replicate 4 0)"

definition ip_header :: "nat \<Rightarrow> 16 word \<Rightarrow> IP \<Rightarrow> IP \<Rightarrow> bytes" where
  "ip_header totalLen csum srcIP dstIP =
     [0x45, 0] @ put_u16 (of_nat totalLen) @ [0, 0, 0x40, 0, 64, 17] @ put_u16 csum
       @ addr_field srcIP @ addr_field dstIP"

definition udp_segment :: "16 word \<Rightarrow> 16 word \<Rightarrow> nat \<Rightarrow> 16 word \<Rightarrow> bytes \<Rightarrow> bytes" where
  "udp_segment srcPort dstPort udpLen csum payload =
     put_u16 srcPort @ put_u16 dstPort @ put_u16 (of_nat udpLen) @ put_u16 csum @ payload"

definition BuildDNSResponse :: "bytes \<Rightarrow> IP \<Rightarrow> IP \<Rightarrow> 16 word \<Rightarrow> 16 word \<Rightarrow> bytes" where
  "BuildDNSResponse dnsResp srcIP dstIP srcPort dstPort =
     (let udpLen = 8 + length dnsResp; totalLen = 20 + udpLen;
          ipCsum = ipChecksum (ip_header totalLen 0 srcIP dstIP);
          udpCsum = udpChecksum (addr_field srcIP) (addr_field dstIP)
                      (udp_segment srcPort dstPort udpLen 0 dnsResp)
      in ip_header totalLen ipCsum srcIP dstIP @ udp_segment srcPort dstPort udpLen udpCsum dnsResp)"

definition ExtractDNSInfo :: "bytes \<Rightarrow> (IP \<times> IP \<times> 16 word \<times> 16 word) option" where
  "ExtractDNSInfo pkt =
     (if length pkt < 28 then Some ([], [], 0, 0)
      else
        let headerLen = unat (pkt ! 0 AND 0x0f) * 4 in
        if length pkt \<le> headerLen + 3 then None
        else Some (To4 (slice 12 16 pkt), To4 (slice 16 20 pkt),
                   get_u16 (slice headerLen (headerLen + 2) pkt),
                   get_u16 (slice (headerLen + 2) (headerLen + 4) pkt)))"

section \<open>The resolver\<close>

text \<open>
  The labels of the question from position \<open>pos\<close>: the name so far and the position after it,
  or \<open>None\<close> when a label runs past the end.
\<close>

function read_name :: "bytes \<Rightarrow> nat \<Rightarrow> bytes \<Rightarrow> (bytes \<times> nat) option" where
  "read_name query pos name =
     (if pos < length query then
        (let labelLen = unat (query ! pos) in
         if labelLen = 0 then Some (name, pos + 1)
         else if pos + 1 + labelLen > length query then None
         else read_name query (pos + 1 + labelLen)
                ((if length name > 0 then name @ [of_char (CHR ''.'')] else name)
                 @ slice (pos + 1) (pos + 1 + labelLen) query))
      else Some (name, pos))"
  by pat_completeness auto
termination
  by (relation "measure (\<lambda>(query, pos, name). length query - pos)") auto

declare read_name.simps [simp del]

definition extractQueryKey :: "bytes \<Rightarrow> bytes" where
  "extractQueryKey query =
     (if length query < 12 then []
      else case read_name query 12 [] of
        None \<Rightarrow> []
      | Some (name, pos) \<Rightarrow>
          if pos + 2 > length query then name
          else name @ bytes_of (''/'' @ fmt_d (unat (get_u16 (slice pos (pos + 2) query)))))"

record cacheEntry =
  response :: bytes
  expiresAt :: int

definition defaultCacheTTL :: int where "defaultCacheTTL = 5 * 60 * second"

datatype dns_error = DohRequest | DohStatus nat | DohRead

text \<open>Copying the transaction identifier of the query into a response.\<close>

definition with_id :: "bytes \<Rightarrow> bytes \<Rightarrow> bytes" where
  "with_id query resp =
     (if length query \<ge> 2 \<and> length resp \<ge> 2 then resp[0 := query ! 0, 1 := query ! 1] else resp)"

text \<open>\<open>now\<close> is the time of the lookup and \<open>now'\<close> that of the store.\<close>

definition Resolve ::
  "(bytes \<Rightarrow> dns_error + bytes) \<Rightarrow> int \<Rightarrow> int \<Rightarrow> bytes \<Rightarrow> (bytes \<rightharpoonup> cacheEntry)
     \<Rightarrow> (dns_error + bytes) \<times> (bytes \<rightharpoonup> cacheEntry)" where
  "Resolve doh now now' query cache =
     (let key = extractQueryKey query;
          hit = (if key \<noteq> [] then cache key else None);
          fetch = (\<lambda>cache. case doh query of
             Inl e \<Rightarrow> (Inl e, cache)
           | Inr body \<Rightarrow>
               (Inr body,
                if key \<noteq> [] then cache(key \<mapsto> \<lparr>response = body, expiresAt = now' + defaultCacheTTL\<rparr>)
                else cache))
      in case hit of
           None \<Rightarrow> fetch cache
         | Some ce \<Rightarrow>
             if now < expiresAt ce then (Inr (with_id query (response ce)), cache)
             else fetch (cache(key := None)))"

text \<open>
  \<open>handleDNS\<close>: the packet written back to the TUN device, if any, the cache and the counters of the
  throttled error log (\<open>unow\<close> is the Unix time). \<open>None\<close> is the panic of \<open>ExtractDNSInfo\<close>.
\<close>

record dnsLog =
  dnsErrCount :: int
  dnsErrLogged :: int

definition handleDNS ::
  "(bytes \<Rightarrow> dns_error + bytes) \<Rightarrow> int \<Rightarrow> int \<Rightarrow> int \<Rightarrow> bytes \<Rightarrow> bytes \<Rightarrow> (bytes \<rightharpoonup> cacheEntry) \<Rightarrow> dnsLog
     \<Rightarrow> (bytes option \<times> (bytes \<rightharpoonup> cacheEntry) \<times> dnsLog) option" where
  "handleDNS doh now now' unow pkt dnsQuery cache lg =
     (case ExtractDNSInfo pkt of
        None \<Rightarrow> None
      | Some (srcIP, dstIP, srcPort, dstPort) \<Rightarrow>
          (case Resolve doh now now' dnsQuery cache of
             (Inl e, cache') \<Rightarrow>
               Some (None, cache',
                 if unow - dnsErrLogged lg \<ge> 5 then \<lparr>dnsErrCount = 0, dnsErrLogged = unow\<rparr>
                 else lg\<lparr>dnsErrCount := dnsErrCount lg + 1\<rparr>)
           | (Inr resp, cache') \<Rightarrow>
               Some (Some (BuildDNSResponse resp dstIP srcIP dstPort srcPort), cache',
                     lg\<lparr>dnsErrCount := 0\<rparr>)))"

section \<open>Checksums of built packets\<close>

lemma addr_field_4 [simp]: "length ip = 4 \<Longrightarrow> addr_field ip = ip"
  by (simp add: addr_field_def copy_at_def)

lemma length_addr_field [simp, wire_len]: "length (addr_field ip) = 4"
  using length_To4 [of ip] by (auto simp: addr_field_def copy_at_def)

lemma length_ip_header [simp, wire_len]: "length (ip_header n c a b) = 20"
  by (simp add: ip_header_def)

lemma length_udp_segment [simp, wire_len]: "length (udp_segment s d n c p) = 8 + length p"
  by (simp add: udp_segment_def)

lemma nsum16_ip_header: "nsum16 (ip_header n c a b) = nsum16 (ip_header n 0 a b) + unat c"
  by (simp add: ip_header_def nsum16_append nsum16_put_u16)

lemma nsum16_ip_header_pos: "0 < nsum16 (ip_header n c a b)"
proof -
  have "ip_header n c a b = [0x45, 0] @ drop 2 (ip_header n c a b)" by (simp add: ip_header_def)
  moreover have "0 < nsum16 ([0x45, 0] @ r)" for r by simp
  ultimately show ?thesis by metis
qed

lemma ip_checksum_ok: "ipChecksum (ip_header n (ipChecksum (ip_header n 0 a b)) a b) = 0"
proof -
  let ?c = "ipChecksum (ip_header n 0 a b)"
  have "unat (sum16 (ip_header n 0 a b)) = nsum16 (ip_header n 0 a b)"
    by (rule unat_sum16) simp
  moreover have "unat (sum16 (ip_header n ?c a b))
      = nsum16 (ip_header n 0 a b) + unat (checksum_of (sum16 (ip_header n 0 a b)))"
    by (subst unat_sum16, simp) (subst nsum16_ip_header, simp only: ipChecksum_def)
  ultimately have "unat (fold16 (sum16 (ip_header n ?c a b))) = 65535"
    by (rule checksum_verifies [OF _ nsum16_ip_header_pos])
  then show ?thesis unfolding ipChecksum_def by (rule fold16_ones)
qed

lemma sum16_nsum16: "length b \<le> 131074 \<Longrightarrow> sum16 b = of_nat (nsum16 b)"
  by (metis unat_sum16 of_nat_unat ucast_id)

lemma word16_nat: "word16 a b = of_nat (unat a * 256 + unat b)"
  by (metis unat_word16 of_nat_unat ucast_id)

text \<open>The UDP sum as a natural number.\<close>

definition nudp :: "bytes \<Rightarrow> bytes \<Rightarrow> bytes \<Rightarrow> nat" where
  "nudp a b seg =
     (unat (a ! 0) * 256 + unat (a ! 1)) + (unat (a ! 2) * 256 + unat (a ! 3))
     + (unat (b ! 0) * 256 + unat (b ! 1)) + (unat (b ! 2) * 256 + unat (b ! 3))
     + 17 + length seg + nsum16 seg + (if odd (length seg) then unat (last seg) * 256 else 0)"

lemma pair_bound: "unat (x :: byte) * 256 + unat (y :: byte) \<le> 65535"
  using unat_byte [of x] unat_byte [of y] by linarith

lemma unat_udp_sum:
  assumes "length seg \<le> 65535"
  shows "unat (udp_sum a b seg) = nudp a b seg"
proof -
  have last: "push_bit 8 (ucast x) = (of_nat (unat x * 256) :: 32 word)" for x :: byte
    using word16_nat [of x 0] by (simp add: word16_def)
  have "udp_sum a b seg = of_nat (nudp a b seg)"
    using assms
    by (cases "odd (length seg)")
      (simp_all only: udp_sum_def nudp_def sum16_nsum16 word16_nat last of_nat_add of_nat_numeral
         semiring_1_class.of_nat_0 if_True if_False not_False_eq_True)
  moreover have "nudp a b seg < 4294967296"
  proof -
    have "length seg div 2 * 65535 \<le> 32767 * 65535" using assms by (intro mult_le_mono1) simp
    then have "nsum16 seg \<le> 2147385345" using nsum16_bound [of seg] by linarith
    moreover define l where "l = (if odd (length seg) then unat (last seg) * 256 else 0)"
    then have "l \<le> 65535" using unat_byte [of "last seg"] by simp
    ultimately show ?thesis
      unfolding nudp_def l_def [symmetric]
      using assms pair_bound [of "a ! 0" "a ! 1"] pair_bound [of "a ! 2" "a ! 3"]
        pair_bound [of "b ! 0" "b ! 1"] pair_bound [of "b ! 2" "b ! 3"]
      by linarith
  qed
  ultimately show ?thesis by (simp add: unat_of_nat)
qed

lemma nudp_udp_segment:
  "nudp a b (udp_segment s d n c p) = nudp a b (udp_segment s d n 0 p) + unat c"
proof -
  have "nsum16 (udp_segment s d n c p) = nsum16 (udp_segment s d n 0 p) + unat c"
    by (simp add: udp_segment_def nsum16_append nsum16_put_u16)
  moreover have "last (udp_segment s d n c p) = last (udp_segment s d n 0 p)"
    if "odd (length (udp_segment s d n c p))"
    using that by (cases "p = []") (auto simp: udp_segment_def)
  ultimately show ?thesis unfolding nudp_def by simp
qed

text \<open>The receiver's sum over a segment with the computed checksum is all ones.\<close>

lemma udp_checksum_ok:
  assumes "length p \<le> 65507" and z_def: "z = udp_segment s d n 0 p"
  shows "unat (fold16 (udp_sum a b (udp_segment s d n (udpChecksum a b z) p))) = 65535"
proof -
  note spec = fold16_spec [of "udp_sum a b z"]
  have "length z \<le> 65535" using assms by simp
  then have z: "unat (udp_sum a b z) = nudp a b z" by (rule unat_udp_sum)
  have pos: "0 < nudp a b z" unfolding nudp_def by linarith
  have sum: "unat (udp_sum a b (udp_segment s d n c p)) = nudp a b z + unat c" for c
    unfolding z_def nudp_udp_segment [symmetric] by (rule unat_udp_sum) (use assms(1) in simp)
  show ?thesis
  proof (cases "checksum_of (udp_sum a b z) = 0")
    case False
    then have "udpChecksum a b z = checksum_of (udp_sum a b z)" unfolding udpChecksum_def Let_def
      by (rule if_not_P)
    then show ?thesis by (intro checksum_verifies [OF z pos]) (simp only: sum)
  next
    case True
    then have "unat (checksum_of (udp_sum a b z)) = 0" by (simp only: unat_0)
    then have "unat (fold16 (udp_sum a b z)) = 65535"
      using unat_checksum_of [of "udp_sum a b z"] spec by linarith
    then have "nudp a b z mod 65535 = 65535 mod 65535" using spec z by argo
    then have "65535 dvd nudp a b z" by (simp only: dvd_eq_mod_eq_0 mod_self)
    moreover have "unat (udpChecksum a b z) = 65535"
      unfolding udpChecksum_def Let_def if_P [OF True] by simp
    ultimately have "65535 dvd nudp a b z + unat (udpChecksum a b z)" by (simp only: dvd_add dvd_refl)
    with pos show ?thesis by (intro fold16_exact) (simp_all only: sum add_pos_nonneg)
  qed
qed

section \<open>Names in cache keys\<close>

text \<open>A question section: labels with their lengths, the root label, type and class.\<close>

definition enc_labels :: "bytes list \<Rightarrow> bytes" where
  "enc_labels ls = concat (map (\<lambda>l. of_nat (length l) # l) ls)"

definition dns_query :: "bytes \<Rightarrow> bytes list \<Rightarrow> 16 word \<Rightarrow> 16 word \<Rightarrow> bytes" where
  "dns_query hdr ls qtype qclass = hdr @ enc_labels ls @ 0 # put_u16 qtype @ put_u16 qclass"

definition label_ok :: "bytes \<Rightarrow> bool" where
  "label_ok l \<longleftrightarrow> l \<noteq> [] \<and> length l \<le> 63"

text \<open>The name \<open>read_name\<close> builds.\<close>

fun dotted :: "bytes \<Rightarrow> bytes list \<Rightarrow> bytes" where
  "dotted name [] = name"
| "dotted name (l # ls) =
     dotted ((if length name > 0 then name @ [of_char (CHR ''.'')] else name) @ l) ls"

lemma read_name_labels:
  assumes "list_all label_ok ls"
  shows "read_name (pre @ enc_labels ls @ 0 # rest) (length pre) name
           = Some (dotted name ls, length pre + length (enc_labels ls) + 1)"
  using assms
proof (induction ls arbitrary: pre name)
  case Nil
  then show ?case by (subst read_name.simps) (simp add: enc_labels_def nth_append)
next
  case (Cons l ls)
  let ?q = "pre @ enc_labels (l # ls) @ 0 # rest"
  from Cons.prems have "label_ok l" and ls: "list_all label_ok ls" by simp_all
  then have l: "l \<noteq> []" "length l \<le> 63" by (simp_all add: label_ok_def)
  then have u: "unat (of_nat (length l) :: byte) = length l" by (simp add: unat_of_nat)
  have q: "?q = (pre @ of_nat (length l) # l) @ enc_labels ls @ 0 # rest"
    by (simp add: enc_labels_def)
  have step: "read_name ?q (length pre) name
      = read_name ?q (length pre + 1 + length l)
          ((if length name > 0 then name @ [of_char (CHR ''.'')] else name) @ l)"
    unfolding q using l u by (subst read_name.simps) (simp add: nth_append Let_def slice_def)
  show ?case
    unfolding step using Cons.IH [OF ls, of "pre @ of_nat (length l) # l"]
    unfolding q by (simp add: enc_labels_def)
qed

lemma dotted_join: "dotted name ls = (if name = [] then join_with (of_char (CHR ''.'')) ls
    else join_with (of_char (CHR ''.'')) (name # ls))" if "\<forall>l\<in>set ls. l \<noteq> []"
  using that
proof (induction name ls rule: dotted.induct)
  case (2 name l ls)
  then show ?case by (cases ls) auto
qed simp

lemma extractQueryKey_query:
  assumes "length hdr = 12" "list_all label_ok ls"
  shows "extractQueryKey (dns_query hdr ls t c)
           = join_with (of_char (CHR ''.'')) ls @ bytes_of (''/'' @ fmt_d (unat t))"
proof -
  have "dotted [] ls = join_with (of_char (CHR ''.'')) ls"
    using assms(2) by (simp add: dotted_join label_ok_def list_all_iff)
  then show ?thesis
    using read_name_labels [OF assms(2), of hdr "put_u16 t @ put_u16 c" "[]"] assms(1)
    by (simp add: extractQueryKey_def dns_query_def slice_def)
qed

text \<open>Name and type can be read off a key: the type is what follows the last slash.\<close>

lemma last_separator:
  "x \<notin> set d \<Longrightarrow> x \<notin> set e \<Longrightarrow> a @ x # d = b @ x # e \<Longrightarrow> a = b \<and> d = e"
  by (auto simp: append_eq_append_conv2 Cons_eq_append_conv append_eq_Cons_conv)

lemma key_split:
  "a @ bytes_of (''/'' @ fmt_d m) = b @ bytes_of (''/'' @ fmt_d n) \<Longrightarrow> a = b \<and> m = n"
proof -
  assume e: "a @ bytes_of (''/'' @ fmt_d m) = b @ bytes_of (''/'' @ fmt_d n)"
  have no: "of_char (CHR ''/'') \<notin> set (bytes_of (fmt_d k))" for k
  proof
    assume "of_char (CHR ''/'') \<in> set (bytes_of (fmt_d k))"
    then obtain ch where "ch \<in> set (fmt_d k)" "of_char ch = (of_char (CHR ''/'') :: byte)"
      by (auto simp: bytes_of_def)
    then have "CHR ''/'' \<in> set (fmt_d k)" by (metis unat_of_char of_char_eq_iff)
    then show False using fmt_d_digits by (fastforce simp: is_digit_def)
  qed
  from e have "a @ of_char (CHR ''/'') # bytes_of (fmt_d m) = b @ of_char (CHR ''/'') # bytes_of (fmt_d n)"
    by (simp add: bytes_of_def)
  then have "a = b \<and> bytes_of (fmt_d m) = bytes_of (fmt_d n)" by (rule last_separator [OF no no])
  then show ?thesis by simp
qed

section \<open>Properties\<close>

text \<open>
  The cache key of a query is exact: for questions with non-empty labels of at most 63 bytes
  and no dot inside a label, two queries have the same key exactly when name and type agree,
  whatever their headers and classes.
\<close>

theorem query_key_exact:
  assumes "length hdr = 12" "length hdr' = 12"
    and "list_all label_ok ls" "list_all label_ok ls'" "ls \<noteq> []" "ls' \<noteq> []"
    and "\<forall>l\<in>set ls. of_char (CHR ''.'') \<notin> set l" "\<forall>l\<in>set ls'. of_char (CHR ''.'') \<notin> set l"
  shows "extractQueryKey (dns_query hdr ls t c) = extractQueryKey (dns_query hdr' ls' t' c')
           \<longleftrightarrow> ls = ls' \<and> t = t'"
proof
  assume "extractQueryKey (dns_query hdr ls t c) = extractQueryKey (dns_query hdr' ls' t' c')"
  then have "join_with (of_char (CHR ''.'')) ls = join_with (of_char (CHR ''.'')) ls' \<and> unat t = unat t'"
    unfolding extractQueryKey_query [OF assms(1,3)] extractQueryKey_query [OF assms(2,4)]
    by (rule key_split)
  moreover note split_join [OF assms(5,7)] split_join [OF assms(6,8)]
  ultimately show "ls = ls' \<and> t = t'" by (metis word_unat_eq_iff)
qed (simp add: extractQueryKey_query assms)

theorem query_key_exact_witness:
  "extractQueryKey (dns_query (replicate 12 0) [bytes_of ''ya'', bytes_of ''ru''] 1 1)
     \<noteq> extractQueryKey (dns_query (replicate 12 7) [bytes_of ''ya'', bytes_of ''ru''] 28 1)"
proof -
  have ok: "list_all label_ok [bytes_of ''ya'', bytes_of ''ru'']"
    "\<forall>l\<in>set [bytes_of ''ya'', bytes_of ''ru'']. of_char (CHR ''.'') \<notin> set l"
    by (simp_all add: label_ok_def bytes_of_def)
  show ?thesis
    using query_key_exact [of "replicate 12 0" "replicate 12 7", OF _ _ ok(1) ok(1) _ _ ok(2) ok(2), of 1 1 28 1]
    by simp
qed

text \<open>
  Caching. A query with a key and no fresh entry is answered by the upstream server and its
  answer stored; until five minutes after the store every query with that key gets the same answer,
  with its own transaction identifier, and no upstream request; from then on it is asked again.
\<close>

theorem resolve_caches:
  assumes "extractQueryKey q \<noteq> []" "\<And>ce. cache (extractQueryKey q) = Some ce \<Longrightarrow> expiresAt ce \<le> now"
    and "doh q = Inr body" "Resolve doh now now' q cache = (r, cache')"
    and "extractQueryKey q' = extractQueryKey q" "2 \<le> length q'" "2 \<le> length body"
  shows "r = Inr body
    \<and> (if t < now' + 5 * 60 * second
       then Resolve doh' t t' q' cache' = (Inr (take 2 q' @ drop 2 body), cache')
       else fst (Resolve doh' t t' q' cache') = doh' q')"
proof -
  have "cache' (extractQueryKey q) = Some \<lparr>response = body, expiresAt = now' + defaultCacheTTL\<rparr>"
    and r: "r = Inr body"
    using assms(1-4) by (force simp: Resolve_def Let_def split: option.splits if_splits)+
  moreover have "with_id q' body = take 2 q' @ drop 2 body"
    using assms(6,7)
    by (cases q'; cases "tl q'"; cases body; cases "tl body") (auto simp: with_id_def)
  ultimately show ?thesis
    using assms(1,5) by (auto simp: Resolve_def Let_def defaultCacheTTL_def split: sum.splits)
qed

definition demo_query :: "byte \<Rightarrow> bytes" where
  "demo_query i = dns_query (i # replicate 11 0) [bytes_of ''ru''] 1 1"

lemma demo_key [simp]: "extractQueryKey (demo_query i) = bytes_of ''ru/1''"
  unfolding demo_query_def
  by (subst extractQueryKey_query) (simp_all add: label_ok_def bytes_of_def fmt_d_def digits.simps lower_digit_def)

theorem resolve_caches_witness:
  "Resolve (\<lambda>_. Inl DohRequest) 7 8 (demo_query 9)
      (snd (Resolve (\<lambda>_. Inr [1, 2, 3]) 0 0 (demo_query 5) Map.empty))
     = (Inr [9, 0, 3], snd (Resolve (\<lambda>_. Inr [1, 2, 3]) 0 0 (demo_query 5) Map.empty))"
proof -
  have two: "take 2 (demo_query 9) = [9, 0]" "2 \<le> length (demo_query 9)"
    by (simp_all add: demo_query_def dns_query_def)
  let ?R = "Resolve (\<lambda>_. Inr [1, 2, 3]) 0 0 (demo_query 5) Map.empty"
  show ?thesis
    using resolve_caches [of "demo_query 5" Map.empty 0 "\<lambda>_. Inr [1, 2, 3]" "[1, 2, 3]" 0 "fst ?R" "snd ?R"
        "demo_query 9" 7 "\<lambda>_. Inl DohRequest" 8] two
    by (simp add: second_def)
qed

text \<open>What a receiver reads from a built packet.\<close>

lemma length_BuildDNSResponse [simp]: "length (BuildDNSResponse r a b s d) = 28 + length r"
  by (simp add: BuildDNSResponse_def Let_def)

lemma BuildDNSResponse_split:
  "BuildDNSResponse r a b s d
     = ip_header (28 + length r) (ipChecksum (ip_header (28 + length r) 0 a b)) a b
       @ udp_segment s d (8 + length r)
           (udpChecksum (addr_field a) (addr_field b) (udp_segment s d (8 + length r) 0 r)) r"
  by (simp add: BuildDNSResponse_def Let_def)

lemma ip_header_fields:
  assumes "length a = 4" "length b = 4"
  shows "ip_header n c a b ! 0 = 0x45" "slice 2 4 (ip_header n c a b @ r) = put_u16 (of_nat n)"
    "slice 12 16 (ip_header n c a b @ r) = a" "slice 16 20 (ip_header n c a b @ r) = b"
  using assms by (simp_all add: ip_header_def slice_def put_u16_def)

lemma udp_segment_fields:
  assumes "length h = 20"
  shows "slice 20 22 (h @ udp_segment s d n c r) = put_u16 s"
    "slice 22 24 (h @ udp_segment s d n c r) = put_u16 d"
    "slice 24 26 (h @ udp_segment s d n c r) = put_u16 (of_nat n)"
    "slice 26 28 (h @ udp_segment s d n c r) = put_u16 c"
  using assms by (simp_all add: udp_segment_def slice_def put_u16_def)

lemma drop_udp_segment [simp]: "drop 8 (udp_segment s d n c r) = r"
  by (simp add: udp_segment_def put_u16_def)

lemma ExtractDNSInfo_built:
  assumes "length a = 4" "length b = 4"
  shows "ExtractDNSInfo (BuildDNSResponse r a b s d) = Some (a, b, s, d)"
proof -
  have "BuildDNSResponse r a b s d ! 0 = 0x45"
    unfolding BuildDNSResponse_split by (simp add: nth_append ip_header_fields [OF assms])
  moreover have "unat ((0x45 :: byte) AND 0xf) * 4 = 20" by simp
  ultimately show ?thesis
    using assms unfolding ExtractDNSInfo_def
    by (simp add: BuildDNSResponse_split ip_header_fields udp_segment_fields)
qed

text \<open>
  Answers of the local DNS handler are valid packets to the asker. When a DNS query packet is
  answered, the packet written to the TUN device comes from the queried server and port and goes to
  the sender's address and port, carries exactly the resolver's answer, has right length fields, an
  IP header checksum that sums to zero, and a UDP checksum that is present (not zero) and verifies
  over the pseudo-header; the failure counter is cleared.
\<close>

theorem dns_answer_valid:
  assumes "handleDNS doh now now' unow pkt q cache lg = Some (Some out, cache', lg')"
    and "ExtractDNSInfo pkt = Some (src, dst, sp, dp)" "28 \<le> length pkt" "length out \<le> 65535"
  shows "fst (Resolve doh now now' q cache) = Inr (drop 28 out)
    \<and> ExtractDNSInfo out = Some (dst, src, dp, sp)
    \<and> unat (get_u16 (slice 2 4 out)) = length out
    \<and> unat (get_u16 (slice 24 26 out)) = length out - 20
    \<and> ipChecksum (take 20 out) = 0
    \<and> get_u16 (slice 26 28 out) \<noteq> 0
    \<and> unat (fold16 (udp_sum dst src (drop 20 out))) = 65535
    \<and> dnsErrCount lg' = 0"
proof -
  from assms(1,2) obtain r where r: "Resolve doh now now' q cache = (Inr r, cache')"
    and out: "out = BuildDNSResponse r dst src dp sp" and lg: "dnsErrCount lg' = 0"
    by (auto simp: handleDNS_def split: sum.splits prod.splits)
  have ip: "length src = 4" "length dst = 4"
    using assms(2,3) by (auto simp: ExtractDNSInfo_def Let_def slice_def split: if_splits)
  have len: "length r \<le> 65507" "length out = 28 + length r" using assms(4) out by simp_all
  let ?h = "ip_header (28 + length r) (ipChecksum (ip_header (28 + length r) 0 dst src)) dst src"
  let ?c = "udpChecksum dst src (udp_segment dp sp (8 + length r) 0 r)"
  have split: "out = ?h @ udp_segment dp sp (8 + length r) ?c r"
    using ip by (simp add: out BuildDNSResponse_split)
  have "?c \<noteq> 0" by (simp add: udpChecksum_def Let_def)
  moreover have "unat (of_nat (28 + length r) :: 16 word) = 28 + length r"
    "unat (of_nat (8 + length r) :: 16 word) = 8 + length r"
    using len by (simp_all only: unat_of_nat len_num1 len_num0 len_bit0 len_bit1) simp_all
  ultimately show ?thesis
    using r lg len ip udp_checksum_ok [OF len(1) refl, of dst src dp sp "8 + length r"]
      ip_checksum_ok [of "28 + length r" dst src] ExtractDNSInfo_built [of dst src r dp sp]
    unfolding out [symmetric]
    by (simp add: split ip_header_fields udp_segment_fields)
qed

theorem dns_answer_valid_witness:
  "\<exists>out cache' lg'.
     handleDNS (\<lambda>_. Inr [1, 2, 3]) 0 0 0
        (BuildDNSResponse (demo_query 5) [10, 0, 0, 2] [8, 8, 8, 8] 5000 53) (demo_query 5)
        Map.empty \<lparr>dnsErrCount = 4, dnsErrLogged = 0\<rparr> = Some (Some out, cache', lg')
     \<and> drop 28 out = [1, 2, 3] \<and> ExtractDNSInfo out = Some ([8, 8, 8, 8], [10, 0, 0, 2], 53, 5000)
     \<and> ipChecksum (take 20 out) = 0"
proof -
  let ?d = "\<lambda>_. Inr [1, 2, 3]" and ?c = "Map.empty :: bytes \<rightharpoonup> cacheEntry"
    and ?l = "\<lparr>dnsErrCount = 4, dnsErrLogged = 0\<rparr>"
  let ?pkt = "BuildDNSResponse (demo_query 5) [10, 0, 0, 2] [8, 8, 8, 8] 5000 53"
  have info: "ExtractDNSInfo ?pkt = Some ([10, 0, 0, 2], [8, 8, 8, 8], 5000, 53)"
    by (rule ExtractDNSInfo_built) simp_all
  have res: "fst (Resolve ?d 0 0 (demo_query 5) ?c) = Inr [1, 2, 3]"
    by (simp add: Resolve_def Let_def)
  obtain out cache' lg' where h: "handleDNS ?d 0 0 0 ?pkt (demo_query 5) ?c ?l = Some (Some out, cache', lg')"
    and out: "out = BuildDNSResponse [1, 2, 3] [8, 8, 8, 8] [10, 0, 0, 2] 53 5000"
    by (simp add: handleDNS_def info Resolve_def Let_def)
  have "length out \<le> 65535" by (simp add: out)
  from dns_answer_valid [OF h info _ this] h res show ?thesis by auto
qed

end
