(* ===== verification/IPPool.thy ===== *)
theory IPPool
  imports NetAddr
begin

text \<open>
  Component \<open>internal/tunnel/ippool.go\<close>: the pool of tunnel addresses. The set of allocated
  address texts is the Go map with empty values. What users of the pool rely on is the
  interface \<open>address_pool\<close>, interpreted on the model's own operations.
\<close>

section \<open>Interface: an address pool\<close>

text \<open>
  \<open>held\<close> are the addresses given out, \<open>hosts\<close> those that may be given out. A request names an
  address or leaves the choice to the pool; a failed request changes nothing.
\<close>

locale address_pool =
  fixes alloc :: "'r \<Rightarrow> 'p \<Rightarrow> ('e + 'a) \<times> 'p"
    and rel :: "'a \<Rightarrow> 'p \<Rightarrow> 'p"
    and held :: "'p \<Rightarrow> 'a set"
    and hosts :: "'p \<Rightarrow> 'a set"
    and wf :: "'p \<Rightarrow> bool"
  assumes alloc_ok: "wf p \<Longrightarrow> alloc r p = (Inr a, p') \<Longrightarrow>
      a \<in> hosts p \<and> a \<notin> held p \<and> held p' = insert a (held p) \<and> hosts p' = hosts p \<and> wf p'"
    and alloc_fail: "alloc r p = (Inl e, p') \<Longrightarrow> p' = p"
    and rel_ok: "wf p \<Longrightarrow> a \<in> hosts p \<Longrightarrow>
      held (rel a p) = held p - {a} \<and> hosts (rel a p) = hosts p \<and> wf (rel a p)"
    and held_hosts: "wf p \<Longrightarrow> held p \<subseteq> hosts p"
    and finite_hosts: "wf p \<Longrightarrow> finite (hosts p)"
begin

lemma alloc_release: "wf p \<Longrightarrow> alloc r p = (Inr a, p') \<Longrightarrow> held (rel a p') = held p"
  using alloc_ok [of p r a p'] rel_ok [of p' a] by auto

text \<open>The addresses out on lease are exactly the held ones, each leased once.\<close>

definition lease_inv :: "'p \<Rightarrow> 'a list \<Rightarrow> bool" where
  "lease_inv p L \<longleftrightarrow> wf p \<and> distinct L \<and> set L = held p"

lemma lease_alloc:
  "lease_inv p L \<Longrightarrow> alloc r p = (Inr a, p') \<Longrightarrow> lease_inv p' (a # L) \<and> hosts p' = hosts p"
  using alloc_ok [of p r a p'] by (auto simp: lease_inv_def)

lemma lease_free:
  "lease_inv p L \<Longrightarrow> a \<in> set L \<Longrightarrow> lease_inv (rel a p) (remove1 a L) \<and> hosts (rel a p) = hosts p"
  using rel_ok [of p a] held_hosts [of p] by (auto simp: lease_inv_def)

lemma lease_bounded: "lease_inv p L \<Longrightarrow> set L \<subseteq> hosts p \<and> length L \<le> card (hosts p)"
  using held_hosts [of p] finite_hosts [of p] card_mono [of "hosts p" "set L"] distinct_card [of L]
  by (simp add: lease_inv_def)

end

section \<open>The pool\<close>

record IPPool =
  network :: IPNet
  serverIP :: IP
  allocated :: "string set"

datatype pool_error =
    ParseCIDRError
  | OnlyIPv4
  | NotInSubnet IP
  | IsServerIP IP
  | IsNetworkOrBroadcast IP
  | AlreadyAllocated IP
  | NoFreeIPs

definition NewIPPool :: "string \<Rightarrow> pool_error + IPPool" where
  "NewIPPool cidr =
     (case ParseCIDR cidr of
        None \<Rightarrow> Inl ParseCIDRError
      | Some (ip, net) \<Rightarrow>
          if To4 ip = [] then Inl OnlyIPv4
          else Inr \<lparr>network = net, serverIP = To4 ip, allocated = {}\<rparr>)"

definition isNetworkOrBroadcast :: "IPPool \<Rightarrow> IP \<Rightarrow> bool" where
  "isNetworkOrBroadcast p ip =
     (let ip4 = To4 ip; net = To4 (net_ip (network p)); m = put_u32 (mask32 (net_ones (network p)))
      in ip_Equal ip4 net
         \<or> ip_Equal ip4 (map2 (\<lambda>b k. b OR NOT k) net m))"

text \<open>The scan of \<open>nextFree\<close> from host number \<open>i\<close>; \<open>[]\<close> is \<open>nil\<close>.\<close>

function scan_free :: "IPPool \<Rightarrow> 32 word \<Rightarrow> nat \<Rightarrow> nat \<Rightarrow> IP" where
  "scan_free p base sz i =
     (if i < sz - 1 then
        (let candidate = put_u32 (base + of_nat i)
         in if ip_Equal candidate (serverIP p) then scan_free p base sz (i + 1)
            else if ip_string candidate \<notin> allocated p then candidate
            else scan_free p base sz (i + 1))
      else [])"
  by pat_completeness auto
termination
  by (relation "measure (\<lambda>(p, base, sz, i). sz - i)") auto

declare scan_free.simps [simp del]

definition nextFree :: "IPPool \<Rightarrow> IP" where
  "nextFree p =
     (let base = get_u32 (To4 (net_ip (network p)));
          sz = 2 ^ (32 - net_ones (network p))
      in scan_free p base sz 2)"

definition Allocate :: "IP \<Rightarrow> IPPool \<Rightarrow> (pool_error + IP) \<times> IPPool" where
  "Allocate pref p =
     (let preferred = To4 pref in
      if preferred \<noteq> [] \<and> \<not> ip_Equal preferred IPv4zero then
        (if \<not> net_Contains (network p) preferred then (Inl (NotInSubnet preferred), p)
         else if ip_Equal preferred (serverIP p) then (Inl (IsServerIP preferred), p)
         else if isNetworkOrBroadcast p preferred then (Inl (IsNetworkOrBroadcast preferred), p)
         else if ip_string preferred \<in> allocated p then (Inl (AlreadyAllocated preferred), p)
         else (Inr preferred, p\<lparr>allocated := insert (ip_string preferred) (allocated p)\<rparr>))
      else
        let ip = nextFree p in
        if ip = [] then (Inl NoFreeIPs, p)
        else (Inr ip, p\<lparr>allocated := insert (ip_string ip) (allocated p)\<rparr>))"

definition Release :: "IP \<Rightarrow> IPPool \<Rightarrow> IPPool" where
  "Release ip p = p\<lparr>allocated := allocated p - {ip_string (To4 ip)}\<rparr>"

definition PrefixLen :: "IPPool \<Rightarrow> nat" where
  "PrefixLen p = net_ones (network p)"

section \<open>Invariant and laws\<close>

text \<open>The addresses the pool may hand out: in the subnet, not the server, not the ends.\<close>

definition pool_hosts :: "IPPool \<Rightarrow> IP set" where
  "pool_hosts p = {ip. length ip = 4 \<and> net_Contains (network p) ip \<and> ip \<noteq> serverIP p
                      \<and> \<not> isNetworkOrBroadcast p ip}"

definition pool_held :: "IPPool \<Rightarrow> IP set" where
  "pool_held p = {ip. length ip = 4 \<and> ip_string ip \<in> allocated p}"

definition pool_inv :: "IPPool \<Rightarrow> bool" where
  "pool_inv p \<longleftrightarrow> good_net (network p) \<and> length (serverIP p) = 4
     \<and> allocated p \<subseteq> ip_string ` pool_hosts p"

lemma NewIPPool_inv: "NewIPPool cidr = Inr p \<Longrightarrow> pool_inv p \<and> allocated p = {}"
  by (auto simp: NewIPPool_def pool_inv_def split: option.splits if_splits dest!: ParseCIDR_good)

lemma hosts_cong [simp]:
  "pool_hosts (p\<lparr>allocated := A\<rparr>) = pool_hosts p"
  "isNetworkOrBroadcast (p\<lparr>allocated := A\<rparr>) = isNetworkOrBroadcast p"
  by (auto simp: pool_hosts_def isNetworkOrBroadcast_def)

lemma put_u32_map2:
  "map2 (\<lambda>b k. b OR NOT k) (put_u32 x) (put_u32 y) = put_u32 (x OR NOT y)"
  by (auto simp: put_u32_def intro!: bit_word_eqI) (auto simp: bit_simps)

lemma isNetworkOrBroadcast_eq:
  assumes "good_net (network p)" "length ip = 4"
  shows "isNetworkOrBroadcast p ip \<longleftrightarrow>
    get_u32 ip = get_u32 (net_ip (network p))
    \<or> get_u32 ip = get_u32 (net_ip (network p)) OR NOT (mask32 (net_ones (network p)))"
proof -
  have n: "net_ip (network p) = put_u32 (get_u32 (net_ip (network p)))"
    and i: "ip = put_u32 (get_u32 ip)"
    using assms by (simp_all add: good_net_def put_get_u32)
  show ?thesis
    unfolding isNetworkOrBroadcast_def Let_def
    by (subst (1 2) n, subst (1 2) i) (simp add: put_u32_map2)
qed

lemma broadcast_eq:
  assumes "b AND mask32 n = b" "n \<le> 32"
  shows "b OR NOT (mask32 n) = b + of_nat (2 ^ (32 - n) - 1)"
proof -
  have "(of_nat (2 ^ (32 - n) - 1) :: 32 word) = mask (32 - n)"
    by (simp add: mask_eq_exp_minus_1 of_nat_diff)
  moreover have "NOT (mask32 n) = mask (32 - n)"
    by (rule bit_word_eqI) (auto simp: mask32_def bit_simps)
  moreover have "b + of_nat (2 ^ (32 - n) - 1) = b OR of_nat (2 ^ (32 - n) - 1)"
    by (rule base_plus_host(1) [OF assms(1)]) simp
  ultimately show ?thesis by simp
qed

text \<open>The hosts of a pool are base plus host number, without the ends and the server.\<close>

lemma host_iff:
  assumes "pool_inv p" and sz: "sz = 2 ^ (32 - net_ones (network p))"
    and base: "base = get_u32 (net_ip (network p))"
  shows "ip \<in> pool_hosts p \<longleftrightarrow>
    (\<exists>i. 0 < i \<and> i < sz - 1 \<and> ip = put_u32 (base + of_nat i) \<and> ip \<noteq> serverIP p)"
proof -
  let ?n = "net_ones (network p)"
  from assms have g: "good_net (network p)" and b: "base AND mask32 ?n = base" "?n \<le> 32"
    by (auto simp: pool_inv_def good_net_def)
  have ends: "isNetworkOrBroadcast p (put_u32 (base + of_nat i)) \<longleftrightarrow> i = 0 \<or> i = sz - 1"
    if "i < sz" for i
  proof -
    have "of_nat i = (of_nat 0 :: 32 word) \<longleftrightarrow> i = 0"
      "of_nat i = (of_nat (sz - 1) :: 32 word) \<longleftrightarrow> i = sz - 1"
      using that sz of_nat_host_inject [of i ?n 0] of_nat_host_inject [of i ?n "sz - 1"]
      by simp_all
    with g that show ?thesis
      by (subst isNetworkOrBroadcast_eq)
         (simp_all add: base [symmetric] broadcast_eq [OF b] sz [symmetric])
  qed
  have inn: "net_Contains (network p) (put_u32 (base + of_nat i))" if "i < sz" for i
    using that base_plus_host(2) [OF b(1), of i] b(1) sz by (simp add: net_Contains_def base [symmetric])
  show ?thesis
  proof
    assume h: "ip \<in> pool_hosts p"
    then have "get_u32 ip AND mask32 ?n = base"
      using b(1) by (simp add: pool_hosts_def net_Contains_def base [symmetric])
    from host_number [OF this] obtain i where i: "i < sz" "get_u32 ip = base + of_nat i"
      using sz by auto
    then have ip: "ip = put_u32 (base + of_nat i)"
      using h put_get_u32 [of ip] by (simp add: pool_hosts_def)
    with h ends [OF i(1)] have "i \<noteq> 0" "i \<noteq> sz - 1" "ip \<noteq> serverIP p"
      by (auto simp: pool_hosts_def)
    with i ip show "\<exists>i. 0 < i \<and> i < sz - 1 \<and> ip = put_u32 (base + of_nat i) \<and> ip \<noteq> serverIP p"
      by (intro exI [of _ i]) auto
  next
    assume "\<exists>i. 0 < i \<and> i < sz - 1 \<and> ip = put_u32 (base + of_nat i) \<and> ip \<noteq> serverIP p"
    then obtain i where "0 < i" "i < sz - 1" "ip = put_u32 (base + of_nat i)" "ip \<noteq> serverIP p"
      by blast
    with ends [of i] inn [of i] show "ip \<in> pool_hosts p"
      by (auto simp: pool_hosts_def)
  qed
qed

lemma scan_free_Some:
  "length (serverIP p) = 4 \<Longrightarrow> scan_free p base sz i = ip \<Longrightarrow> ip \<noteq> [] \<Longrightarrow>
     \<exists>j\<ge>i. j < sz - 1 \<and> ip = put_u32 (base + of_nat j) \<and> ip \<noteq> serverIP p
        \<and> ip_string ip \<notin> allocated p"
proof (induction p base sz i rule: scan_free.induct)
  case (1 p base sz i)
  then show ?case
    by (subst (asm) (3) scan_free.simps)
       (auto simp: Let_def split: if_splits dest: Suc_leD)
qed

lemma scan_free_Nil:
  "length (serverIP p) = 4 \<Longrightarrow> scan_free p base sz i = [] \<Longrightarrow> i \<le> j \<Longrightarrow> j < sz - 1 \<Longrightarrow>
     put_u32 (base + of_nat j) = serverIP p
     \<or> ip_string (put_u32 (base + of_nat j)) \<in> allocated p"
proof (induction p base sz i rule: scan_free.induct)
  case (1 p base sz i)
  show ?case
  proof (cases "i = j")
    case True
    with "1.prems" show ?thesis
      by (subst (asm) scan_free.simps) (auto simp: Let_def split: if_splits)
  next
    case False
    have "ip_Equal (put_u32 (base + of_nat i)) (serverIP p)
        \<or> ip_string (put_u32 (base + of_nat i)) \<in> allocated p"
      and "scan_free p base sz (i + 1) = []"
      using "1.prems" by (auto simp: scan_free.simps [of p base sz i] Let_def split: if_splits)
    with "1.prems" "1.IH" False show ?thesis
      by (metis Suc_eq_plus1 Suc_leI le_less_trans order_le_imp_less_or_eq)
  qed
qed

lemma nextFree_host:
  assumes "pool_inv p" "nextFree p \<noteq> []"
  shows "nextFree p \<in> pool_hosts p \<and> ip_string (nextFree p) \<notin> allocated p"
proof -
  from assms(1) have l: "length (net_ip (network p)) = 4" "length (serverIP p) = 4"
    by (simp_all add: pool_inv_def good_net_def)
  from assms(2) scan_free_Some [OF l(2) refl, of "get_u32 (net_ip (network p))"
      "2 ^ (32 - net_ones (network p))" 2] l(1)
  obtain j where "2 \<le> j" "j < 2 ^ (32 - net_ones (network p)) - 1"
      "nextFree p = put_u32 (get_u32 (net_ip (network p)) + of_nat j)"
      "nextFree p \<noteq> serverIP p" "ip_string (nextFree p) \<notin> allocated p"
    by (auto simp: nextFree_def Let_def)
  then show ?thesis
    by (subst host_iff [OF assms(1) refl refl]) (auto intro!: exI [of _ j])
qed

lemma Allocate_ok:
  assumes "pool_inv p" "Allocate r p = (Inr ip, p')"
  shows "ip \<in> pool_hosts p \<and> ip_string ip \<notin> allocated p
    \<and> p' = p\<lparr>allocated := insert (ip_string ip) (allocated p)\<rparr>"
proof (cases "To4 r \<noteq> [] \<and> \<not> ip_Equal (To4 r) IPv4zero")
  case True
  with length_To4 [of r] have "length (To4 r) = 4" by simp
  with True assms show ?thesis
    by (auto simp: Allocate_def Let_def pool_hosts_def pool_inv_def split: if_splits)
next
  case False
  with assms nextFree_host [OF assms(1)] show ?thesis
    by (auto simp: Allocate_def Let_def split: if_splits)
qed

lemma Allocate_fail: "Allocate r p = (Inl e, p') \<Longrightarrow> p' = p"
  by (auto simp: Allocate_def Let_def split: if_splits)

lemma finite_ips: "finite {ip :: IP. length ip = 4}"
  using finite_lists_length_eq [of "UNIV :: byte set" 4] by simp

interpretation pool: address_pool Allocate Release pool_held pool_hosts pool_inv
proof unfold_locales
  fix p r a p'
  assume p: "pool_inv p" and "Allocate r p = (Inr a, p')"
  from Allocate_ok [OF this] p
  show "a \<in> pool_hosts p \<and> a \<notin> pool_held p \<and> pool_held p' = insert a (pool_held p)
      \<and> pool_hosts p' = pool_hosts p \<and> pool_inv p'"
    by (auto simp: pool_held_def pool_inv_def pool_hosts_def)
next
  fix p a
  assume "pool_inv p" "a \<in> pool_hosts p"
  then show "pool_held (Release a p) = pool_held p - {a} \<and> pool_hosts (Release a p) = pool_hosts p
      \<and> pool_inv (Release a p)"
    by (auto simp: Release_def pool_held_def pool_hosts_def pool_inv_def)
next
  fix p
  assume "pool_inv p"
  then show "pool_held p \<subseteq> pool_hosts p"
    by (auto simp: pool_held_def pool_inv_def pool_hosts_def)
  show "finite (pool_hosts p)"
    by (rule finite_subset [OF _ finite_ips]) (auto simp: pool_hosts_def)
qed (rule Allocate_fail)

section \<open>Leases\<close>

text \<open>
  The pool together with the addresses its users hold: a request is served or refused, and a
  held address is released.
\<close>

type_synonym lease_state = "IPPool \<times> IP list"

inductive pool_step :: "lease_state \<Rightarrow> lease_state \<Rightarrow> bool" where
  served: "Allocate r p = (Inr ip, p') \<Longrightarrow> pool_step (p, L) (p', ip # L)"
| refused: "Allocate r p = (Inl e, p') \<Longrightarrow> pool_step (p, L) (p', L)"
| freed: "ip \<in> set L \<Longrightarrow> pool_step (p, L) (Release ip p, remove1 ip L)"

inductive_cases pool_stepE: "pool_step (p, L) s"

definition pool_start :: "string \<Rightarrow> lease_state \<Rightarrow> bool" where
  "pool_start cidr = (\<lambda>(p, L). NewIPPool cidr = Inr p \<and> L = [])"

interpretation leases: invariant_system
  "pool_start cidr" pool_step "\<lambda>(p, L). pool.lease_inv p L" for cidr
proof unfold_locales
  fix s
  assume "pool_start cidr s"
  then show "case s of (p, L) \<Rightarrow> pool.lease_inv p L"
    by (auto simp: pool_start_def pool.lease_inv_def pool_held_def dest!: NewIPPool_inv)
next
  fix s t
  assume inv: "case s of (p, L) \<Rightarrow> pool.lease_inv p L" and st: "pool_step s t"
  obtain p L where s: "s = (p, L)" by fastforce
  with inv have l: "pool.lease_inv p L" by simp
  from st [unfolded s] l show "case t of (p, L) \<Rightarrow> pool.lease_inv p L"
    by (cases rule: pool_stepE)
       (auto dest: pool.lease_alloc pool.lease_free Allocate_fail)
qed

section \<open>Properties\<close>

text \<open>
  C11. Whatever requests and releases a pool has served, no address is out twice, every address
  out is a host address of the subnet other than the server's and the two ends, the pool's map
  holds exactly the addresses that are out, and their number is bounded by the hosts.
\<close>

theorem leases_never_collide:
  assumes "reach (pool_start cidr) pool_step (p, L)"
  shows "distinct L \<and> set L \<subseteq> pool_hosts p \<and> serverIP p \<notin> set L
    \<and> allocated p = ip_string ` set L \<and> length L \<le> card (pool_hosts p)"
proof -
  from leases.reach_inv [OF assms] have l: "pool.lease_inv p L" by simp
  then have "allocated p \<subseteq> ip_string ` pool_hosts p" "set L = pool_held p" "distinct L"
    by (simp_all add: pool.lease_inv_def pool_inv_def)
  then have "allocated p = ip_string ` set L"
    by (auto simp: pool_held_def pool_hosts_def)
  with pool.lease_bounded [OF l] \<open>distinct L\<close> show ?thesis
    by (auto simp: pool_hosts_def)
qed

definition demo_pool :: IPPool where
  "demo_pool = \<lparr>network = \<lparr>net_ip = [10, 7, 0, 0], net_ones = 29\<rparr>, serverIP = [10, 7, 0, 1],
     allocated = {}\<rparr>"

lemma demo_pool_new: "NewIPPool ''10.7.0.1/29'' = Inr demo_pool"
  by code_simp

lemma demo_pool_alloc:
  "Allocate [] demo_pool = (Inr [10, 7, 0, 2], demo_pool\<lparr>allocated := {''10.7.0.2''}\<rparr>)"
  by code_simp

theorem leases_never_collide_witness:
  "distinct [[10, 7, 0, 2 :: byte]]
   \<and> set [[10, 7, 0, 2]] \<subseteq> pool_hosts (demo_pool\<lparr>allocated := {''10.7.0.2''}\<rparr>)"
proof -
  have "reach (pool_start ''10.7.0.1/29'') pool_step (demo_pool, [])"
    by (rule reach_init) (simp add: pool_start_def demo_pool_new)
  moreover have "pool_step (demo_pool, []) (demo_pool\<lparr>allocated := {''10.7.0.2''}\<rparr>, [[10, 7, 0, 2]])"
    by (rule pool_step.served) (rule demo_pool_alloc)
  ultimately have "reach (pool_start ''10.7.0.1/29'') pool_step
      (demo_pool\<lparr>allocated := {''10.7.0.2''}\<rparr>, [[10, 7, 0, 2]])"
    by (rule reach_step)
  from leases_never_collide [OF this] show ?thesis by simp
qed

text \<open>
  What a request gets. A specific address is granted exactly when it is a host of the pool
  that is not out. A request that leaves the choice to the pool is refused exactly when every
  host is out, host number 1 aside: the scan starts at number 2, and so the first host is given
  out only on request when the server's own address is another one.
\<close>

theorem allocation_complete:
  assumes "pool_inv p" and "length r = 4" and "r \<noteq> [0, 0, 0, 0]"
  shows "(fst (Allocate r p) = Inr r \<longleftrightarrow> r \<in> pool_hosts p - pool_held p)
    \<and> (fst (Allocate [] p) = Inl NoFreeIPs \<longleftrightarrow>
         pool_hosts p - {put_u32 (get_u32 (net_ip (network p)) + 1)} \<subseteq> pool_held p)"
proof
  have l: "length (serverIP p) = 4" "length (net_ip (network p)) = 4"
    using assms(1) by (simp_all add: pool_inv_def good_net_def)
  from assms l(1) show "fst (Allocate r p) = Inr r \<longleftrightarrow> r \<in> pool_hosts p - pool_held p"
    by (auto simp: Allocate_def Let_def pool_hosts_def pool_held_def)
  let ?base = "get_u32 (net_ip (network p))" and ?sz = "2 ^ (32 - net_ones (network p)) :: nat"
  have nf: "fst (Allocate [] p) = Inl NoFreeIPs \<longleftrightarrow> scan_free p ?base ?sz 2 = []"
    using l(2) by (auto simp: Allocate_def nextFree_def Let_def)
  have "pool_hosts p - {put_u32 (?base + 1)} \<subseteq> pool_held p" if f: "scan_free p ?base ?sz 2 = []"
  proof
    fix ip
    assume ip: "ip \<in> pool_hosts p - {put_u32 (?base + 1)}"
    with host_iff [OF assms(1) refl refl, of ip] obtain i where i: "0 < i" "i < ?sz - 1"
        "ip = put_u32 (?base + of_nat i)" "ip \<noteq> serverIP p"
      by auto
    with ip have "2 \<le> i"
      by (cases "i = 1") auto
    from scan_free_Nil [OF l(1) f this i(2)] i show "ip \<in> pool_held p"
      by (simp add: pool_held_def)
  qed
  moreover have "scan_free p ?base ?sz 2 = []"
    if sub: "pool_hosts p - {put_u32 (?base + 1)} \<subseteq> pool_held p"
  proof (rule ccontr)
    assume ne: "scan_free p ?base ?sz 2 \<noteq> []"
    from scan_free_Some [OF l(1) refl ne] obtain j where j: "2 \<le> j" "j < ?sz - 1"
        "scan_free p ?base ?sz 2 = put_u32 (?base + of_nat j)" "scan_free p ?base ?sz 2 \<noteq> serverIP p"
        "ip_string (scan_free p ?base ?sz 2) \<notin> allocated p"
      by blast
    then have "put_u32 (?base + of_nat j) \<in> pool_hosts p"
      by (subst host_iff [OF assms(1) refl refl]) (auto intro!: exI [of _ j])
    moreover have "of_nat j \<noteq> (of_nat 1 :: 32 word)"
      using j(1,2) of_nat_host_inject [of j "net_ones (network p)" 1] by simp
    ultimately have "put_u32 (?base + of_nat j) \<in> pool_held p"
      using sub by auto
    with j show False by (simp add: pool_held_def)
  qed
  ultimately show "fst (Allocate [] p) = Inl NoFreeIPs \<longleftrightarrow>
      pool_hosts p - {put_u32 (?base + 1)} \<subseteq> pool_held p"
    unfolding nf by blast
qed

theorem allocation_complete_witness:
  "fst (Allocate [10, 7, 0, 9] demo_pool) = Inr [10, 7, 0, 9]
     \<longleftrightarrow> [10, 7, 0, 9] \<in> pool_hosts demo_pool - pool_held demo_pool"
  using allocation_complete [of demo_pool "[10, 7, 0, 9]"] NewIPPool_inv [OF demo_pool_new] by simp

end
