(* ===== verification/Sessions.thy ===== *)
theory Sessions
  imports IPPool Frame
begin

text \<open>
  Component \<open>cmd/server/main.go\<close>, first part: the per-address connection limiter, client
  sessions and the session table with sticky addresses. Sessions are Go pointers: the table
  keeps the allocated sessions in a list and a session is the index of its object, so that the
  pointer comparisons of the code are comparisons of indices. Each operation runs under the
  table's mutex and is one step; the interleavings of the connection goroutines are the
  sequences of steps.
\<close>

section \<open>The connection limiter\<close>

definition minute :: int where "minute = 60 * 1000000000"

record connLimiter =
  attempts :: "string \<Rightarrow> int list"

text \<open>A missing key of the Go map reads as the empty slice.\<close>

definition newConnLimiter :: connLimiter where
  "newConnLimiter = \<lparr>attempts = (\<lambda>_. [])\<rparr>"

definition fresh_since :: "int \<Rightarrow> int list \<Rightarrow> int list" where
  "fresh_since cutoff ts = filter (\<lambda>t. cutoff < t) ts"

definition allow :: "int \<Rightarrow> string \<Rightarrow> connLimiter \<Rightarrow> bool \<times> connLimiter" where
  "allow now ip cl =
     (let cutoff = now - minute;
          kept = fresh_since cutoff (attempts cl ip) @ [now]
      in (length kept \<le> 5, cl\<lparr>attempts := (attempts cl)(ip := kept)\<rparr>))"

definition limiter_cleanup :: "int \<Rightarrow> connLimiter \<Rightarrow> connLimiter" where
  "limiter_cleanup now cl = cl\<lparr>attempts := (\<lambda>ip. fresh_since (now - minute) (attempts cl ip))\<rparr>"

datatype limiter_event = Attempt int string | Tick int

fun event_time :: "limiter_event \<Rightarrow> int" where
  "event_time (Attempt t ip) = t"
| "event_time (Tick t) = t"

text \<open>Running a history: the times at which connections from \<open>ip\<close> were let through.\<close>

fun limiter_run :: "string \<Rightarrow> connLimiter \<Rightarrow> limiter_event list \<Rightarrow> int list \<times> connLimiter" where
  "limiter_run ip cl [] = ([], cl)"
| "limiter_run ip cl (Attempt t a # es) =
     (let (ok, cl') = allow t a cl; (ts, cl'') = limiter_run ip cl' es
      in (if ok \<and> a = ip then t # ts else ts, cl''))"
| "limiter_run ip cl (Tick t # es) = limiter_run ip (limiter_cleanup t cl) es"

section \<open>Sessions\<close>

type_synonym ref = nat

record clientSession =
  cs_ip :: IP
  ipStr :: string
  token :: string
  cs_id :: "64 word"
  cs_stream :: nat
  writer :: "nat option"
  cipher :: "Cipher option"
  bytesOut :: int

record sessionTable =
  pool :: IPPool
  byIP :: "string \<rightharpoonup> ref"
  byToken :: "string \<rightharpoonup> ref"
  nextID :: "64 word"
  objs :: "clientSession list"

definition newSessionTable :: "IPPool \<Rightarrow> sessionTable" where
  "newSessionTable p =
     \<lparr>pool = p, byIP = Map.empty, byToken = Map.empty, nextID = 0, objs = []\<rparr>"

definition get_session :: "sessionTable \<Rightarrow> string \<Rightarrow> ref option" where
  "get_session t s = byIP t s"

definition setWriter :: "ref \<Rightarrow> nat \<Rightarrow> Cipher \<Rightarrow> sessionTable \<Rightarrow> sessionTable" where
  "setWriter r w c t = t\<lparr>objs := (objs t)[r := (objs t ! r)\<lparr>writer := Some w, cipher := Some c\<rparr>]\<rparr>"

definition cipherRef :: "ref \<Rightarrow> sessionTable \<Rightarrow> Cipher option" where
  "cipherRef r t = cipher (objs t ! r)"

text \<open>
  \<open>send\<close> writes the frame to the session's writer, if it has one; \<open>write w frame\<close> is the number
  of bytes the writer took and whether it failed.
\<close>

definition send ::
  "(nat \<Rightarrow> bytes \<Rightarrow> int \<times> bool) \<Rightarrow> ref \<Rightarrow> bytes \<Rightarrow> sessionTable \<Rightarrow> (nat \<times> bytes) option \<times> bool \<times> sessionTable" where
  "send write r frame t =
     (case writer (objs t ! r) of
        None \<Rightarrow> (None, True, t)
      | Some w \<Rightarrow>
          let (n, ok) = write w frame
          in (Some (w, frame), ok,
              t\<lparr>objs := (objs t)[r := (objs t ! r)\<lparr>bytesOut := bytesOut (objs t ! r) + n\<rparr>]\<rparr>))"

text \<open>Removing the evicted session from the maps that still point at it.\<close>

definition detach :: "ref \<Rightarrow> sessionTable \<Rightarrow> sessionTable" where
  "detach r t =
     (let cs = objs t ! r;
          t1 = (if byIP t (ipStr cs) = Some r then t\<lparr>byIP := (byIP t)(ipStr cs := None)\<rparr> else t)
      in if token cs \<noteq> [] \<and> byToken t1 (token cs) = Some r
         then t1\<lparr>byToken := (byToken t1)(token cs := None)\<rparr> else t1)"

text \<open>The address a connecting client gets, and the session it is taken from.\<close>

definition choose_ip :: "string \<Rightarrow> IP \<Rightarrow> sessionTable \<Rightarrow> (pool_error + (IP \<times> ref option)) \<times> sessionTable" where
  "choose_ip tokenStr preferred t =
     (let (assignedIP, evicted) =
        (case (if tokenStr \<noteq> [] then byToken t tokenStr else None) of
           Some old \<Rightarrow> (cs_ip (objs t ! old), Some old)
         | None \<Rightarrow> ([], None))
      in if assignedIP \<noteq> [] then (Inr (assignedIP, evicted), t)
         else case Allocate preferred (pool t) of
             (Inr ip, p') \<Rightarrow> (Inr (ip, evicted), t\<lparr>pool := p'\<rparr>)
           | (Inl e, p') \<Rightarrow>
               (case (if preferred \<noteq> [] \<and> \<not> ip_Equal preferred IPv4zero
                      then byIP t (ip_string preferred) else None) of
                  Some old \<Rightarrow>
                    (if cs_ip (objs t ! old) = [] then (Inl e, t\<lparr>pool := p'\<rparr>)
                     else (Inr (cs_ip (objs t ! old), Some old), t\<lparr>pool := p'\<rparr>))
                | None \<Rightarrow> (Inl e, t\<lparr>pool := p'\<rparr>)))"

text \<open>The new session object and its entries in the two maps.\<close>

definition register :: "string \<Rightarrow> IP \<Rightarrow> nat \<Rightarrow> sessionTable \<Rightarrow> ref \<times> sessionTable" where
  "register tokenStr assignedIP strm t =
     (let newid = nextID t + 1;
          cs = \<lparr>cs_ip = To4 assignedIP, ipStr = ip_string assignedIP, token = tokenStr,
                cs_id = newid, cs_stream = strm, writer = None, cipher = None, bytesOut = 0\<rparr>;
          r = length (objs t);
          t1 = t\<lparr>nextID := newid, objs := objs t @ [cs], byIP := (byIP t)(ipStr cs \<mapsto> r)\<rparr>
      in (r, if tokenStr \<noteq> [] then t1\<lparr>byToken := (byToken t1)(tokenStr \<mapsto> r)\<rparr> else t1))"

definition token_string :: "bytes \<Rightarrow> string" where
  "token_string tok = (if length tok > 0 then hex_string tok else [])"

definition assign ::
  "bytes \<Rightarrow> IP \<Rightarrow> nat \<Rightarrow> sessionTable \<Rightarrow> (pool_error + (ref \<times> ref option)) \<times> sessionTable" where
  "assign tok preferred strm t =
     (case choose_ip (token_string tok) preferred t of
        (Inl e, t1) \<Rightarrow> (Inl e, t1)
      | (Inr (assignedIP, evicted), t1) \<Rightarrow>
          let t2 = (case evicted of None \<Rightarrow> t1 | Some old \<Rightarrow> detach old t1);
              (r, t3) = register (token_string tok) assignedIP strm t2
          in (Inr (r, evicted), t3))"

definition remove_session :: "ref \<Rightarrow> sessionTable \<Rightarrow> sessionTable" where
  "remove_session r t =
     (let cs = objs t ! r;
          t1 = (if byIP t (ipStr cs) = Some r
                then t\<lparr>byIP := (byIP t)(ipStr cs := None), pool := Release (cs_ip cs) (pool t)\<rparr>
                else t)
      in if token cs \<noteq> [] \<and> byToken t1 (token cs) = Some r
         then t1\<lparr>byToken := (byToken t1)(token cs := None)\<rparr> else t1)"

section \<open>The limiter's bound\<close>

lemma fresh_since_fresh [simp]:
  "a \<le> b \<Longrightarrow> fresh_since b (fresh_since a ts) = fresh_since b ts"
  by (auto simp: fresh_since_def intro!: filter_cong)

lemma fresh_since_append [simp]:
  "fresh_since c (a @ b) = fresh_since c a @ fresh_since c b"
  by (simp add: fresh_since_def)

text \<open>
  \<open>A\<close> are the times let through so far: all of them that are recent are among the limiter's
  recorded attempts.
\<close>

definition tracks :: "int \<Rightarrow> int list \<Rightarrow> int list \<Rightarrow> bool" where
  "tracks now A ts \<longleftrightarrow> (\<forall>c\<ge>now - minute. length (fresh_since c A) \<le> length (fresh_since c ts))"

definition window_ok :: "int list \<Rightarrow> bool" where
  "window_ok A \<longleftrightarrow> (\<forall>t. length (filter (\<lambda>s. t - minute < s \<and> s \<le> t) A) \<le> 5)"

lemma window_ok_snoc:
  assumes "window_ok A" "\<forall>s\<in>set A. s \<le> now"
    and "length (fresh_since (now - minute) A) < 5"
  shows "window_ok (A @ [now])"
  unfolding window_ok_def
proof
  fix t
  let ?w = "\<lambda>s. t - minute < s \<and> s \<le> t"
  have old: "length (filter ?w A) \<le> 5" using assms(1) by (simp add: window_ok_def)
  show "length (filter ?w (A @ [now])) \<le> 5"
  proof (cases "?w now")
    case True
    have "filter ?w A = filter (\<lambda>s. t - minute < s) A"
      using True assms(2) by (intro filter_cong) auto
    moreover have "length (filter (\<lambda>s. t - minute < s) A) \<le> length (fresh_since (now - minute) A)"
      unfolding fresh_since_def using True
      by (induction A) auto
    ultimately show ?thesis using True assms(3) by simp
  next
    case False
    with old show ?thesis by auto
  qed
qed

lemma limiter_run_window:
  assumes "sorted (map event_time es)" "\<forall>e\<in>set es. now \<le> event_time e"
    and "window_ok A" "\<forall>s\<in>set A. s \<le> now" "tracks now A (attempts cl ip)"
  shows "window_ok (A @ fst (limiter_run ip cl es))"
  using assms
proof (induction es arbitrary: now A cl)
  case (Cons e es)
  define t where "t = event_time e"
  have t: "now \<le> t" "\<forall>e\<in>set es. t \<le> event_time e" "sorted (map event_time es)"
    using Cons.prems(1,2) by (auto simp: t_def)
  have le: "\<forall>s\<in>set A. s \<le> t" using Cons.prems(4) t(1) by auto
  have tr: "length (fresh_since c A) \<le> length (fresh_since c (attempts cl ip))" if "t - minute \<le> c" for c
    using Cons.prems(5) that t(1) by (simp add: tracks_def)
  show ?case
  proof (cases e)
    case (Tick u)
    with t_def have "u = t" by simp
    have "tracks t A (attempts (limiter_cleanup t cl) ip)"
      using tr by (simp add: tracks_def limiter_cleanup_def)
    from Cons.IH [OF t(3,2) Cons.prems(3) le this] Tick \<open>u = t\<close> show ?thesis by simp
  next
    case (Attempt u a)
    with t_def have u: "u = t" by simp
    obtain ok cl' where al: "allow t a cl = (ok, cl')" by fastforce
    obtain ts cl'' where run: "limiter_run ip cl' es = (ts, cl'')" by fastforce
    have cl': "attempts cl' ip = (if a = ip then fresh_since (t - minute) (attempts cl ip) @ [t]
        else attempts cl ip)"
      and ok: "ok \<longleftrightarrow> length (fresh_since (t - minute) (attempts cl a)) < 5"
      using al by (auto simp: allow_def Let_def)
    show ?thesis
    proof (cases "ok \<and> a = ip")
      case True
      have w: "window_ok (A @ [t])"
        using window_ok_snoc [OF Cons.prems(3) le] tr [of "t - minute"] ok True by simp
      have "tracks t (A @ [t]) (attempts cl' ip)"
        using tr True cl' by (simp add: tracks_def)
      from Cons.IH [OF t(3,2) w _ this] le True al run Attempt u show ?thesis by simp
    next
      case False
      have "tracks t A (attempts cl' ip)"
        using tr cl' by (simp add: tracks_def) (meson trans_le_add1)
      from Cons.IH [OF t(3,2) Cons.prems(3) le this] False al run Attempt u show ?thesis by auto
    qed
  qed
qed simp

section \<open>The table invariant\<close>

text \<open>
  Every map entry points at a session with that key; a session found by token is also the one
  found by its address and conversely; the addresses in the table are exactly those the pool
  has given out.
\<close>

definition ip_entry_ok :: "sessionTable \<Rightarrow> string \<Rightarrow> ref \<Rightarrow> bool" where
  "ip_entry_ok t s r \<longleftrightarrow> r < length (objs t) \<and> ipStr (objs t ! r) = s
     \<and> cs_ip (objs t ! r) \<in> pool_hosts (pool t) \<and> s = ip_string (cs_ip (objs t ! r))
     \<and> (token (objs t ! r) \<noteq> [] \<longrightarrow> byToken t (token (objs t ! r)) = Some r)"

definition token_entry_ok :: "sessionTable \<Rightarrow> string \<Rightarrow> ref \<Rightarrow> bool" where
  "token_entry_ok t k r \<longleftrightarrow> k \<noteq> [] \<and> token (objs t ! r) = k \<and> byIP t (ipStr (objs t ! r)) = Some r"

definition table_inv :: "sessionTable \<Rightarrow> bool" where
  "table_inv t \<longleftrightarrow> pool_inv (pool t) \<and> dom (byIP t) = allocated (pool t)
     \<and> (\<forall>s r. byIP t s = Some r \<longrightarrow> ip_entry_ok t s r)
     \<and> (\<forall>k r. byToken t k = Some r \<longrightarrow> token_entry_ok t k r)"

lemma table_invD:
  assumes "table_inv t"
  shows "pool_inv (pool t)" "dom (byIP t) = allocated (pool t)"
    "byIP t s = Some r \<Longrightarrow> ip_entry_ok t s r"
    "byToken t k = Some r \<Longrightarrow> token_entry_ok t k r"
  using assms by (simp_all add: table_inv_def)

lemma host_length: "ip \<in> pool_hosts p \<Longrightarrow> length ip = 4"
  by (simp add: pool_hosts_def)

text \<open>A session in the table is reached under its own address only.\<close>

lemma token_session:
  assumes "table_inv t" "byToken t k = Some r"
  shows "k \<noteq> [] \<and> token (objs t ! r) = k \<and> byIP t (ipStr (objs t ! r)) = Some r
    \<and> ip_entry_ok t (ipStr (objs t ! r)) r"
  using table_invD(4) [OF assms] table_invD(3) [OF assms(1)] by (auto simp: token_entry_ok_def)

text \<open>What a session's eviction leaves: the table without it, the address still out.\<close>

lemma detach_eq:
  assumes "table_inv t" "byIP t s = Some r"
  shows "detach r t = t\<lparr>byIP := (byIP t)(s := None),
            byToken := (if token (objs t ! r) = [] then byToken t
                        else (byToken t)(token (objs t ! r) := None))\<rparr>"
  using table_invD(3) [OF assms] assms(2) by (auto simp: detach_def Let_def ip_entry_ok_def)

lemma remove_eq:
  assumes "table_inv t" "byIP t (ipStr (objs t ! r)) = Some r"
  shows "remove_session r t = (detach r t)\<lparr>pool := Release (cs_ip (objs t ! r)) (pool t)\<rparr>"
  using assms(2) by (simp add: remove_session_def detach_def Let_def)

lemma remove_noop:
  assumes "r \<notin> ran (byIP t)" "r \<notin> ran (byToken t)"
  shows "remove_session r t = t" "detach r t = t"
  using assms by (auto simp: remove_session_def detach_def Let_def ran_def)

text \<open>Everything of the invariant except that the address \<open>s\<close> is out but has no session.\<close>

definition vacant :: "string \<Rightarrow> sessionTable \<Rightarrow> bool" where
  "vacant s t \<longleftrightarrow> pool_inv (pool t) \<and> s \<notin> dom (byIP t) \<and> insert s (dom (byIP t)) = allocated (pool t)
     \<and> (\<forall>s r. byIP t s = Some r \<longrightarrow> ip_entry_ok t s r)
     \<and> (\<forall>k r. byToken t k = Some r \<longrightarrow> token_entry_ok t k r)"

lemma register_inv:
  assumes "vacant (ip_string ip) t" "ip \<in> pool_hosts (pool t)" "k \<noteq> [] \<longrightarrow> byToken t k = None"
  shows "table_inv (snd (register k ip strm t))"
proof -
  have bound: "r < length (objs t)" if "byIP t s = Some r" for s r
    using assms(1) that by (auto simp: vacant_def ip_entry_ok_def)
  have tok: "r < length (objs t) \<and> k' \<noteq> []" if "byToken t k' = Some r" for k' r
    using assms(1) that bound by (fastforce simp: vacant_def token_entry_ok_def)
  have ne: "byIP t (ip_string ip) = None" using assms(1) by (auto simp: vacant_def)
  have dom: "dom (byIP (snd (register k ip strm t))) = allocated (pool (snd (register k ip strm t)))"
    "pool_inv (pool (snd (register k ip strm t)))"
    using assms(1) by (auto simp: register_def Let_def vacant_def)
  have "ip_entry_ok (snd (register k ip strm t)) s r"
    if "byIP (snd (register k ip strm t)) s = Some r" for s r
  proof (cases "s = ip_string ip")
    case True
    with that assms(2) host_length [OF assms(2)] show ?thesis
      by (auto simp: register_def Let_def ip_entry_ok_def split: if_splits)
  next
    case False
    with that have "byIP t s = Some r" by (simp add: register_def Let_def split: if_splits)
    moreover from this assms(1) have "ip_entry_ok t s r" by (simp add: vacant_def)
    ultimately show ?thesis using bound [of s r] assms(3)
      by (auto simp: register_def Let_def ip_entry_ok_def nth_append)
  qed
  moreover have "token_entry_ok (snd (register k ip strm t)) k' r"
    if "byToken (snd (register k ip strm t)) k' = Some r" for k' r
  proof (cases "k' = k \<and> k \<noteq> []")
    case True
    with that show ?thesis by (auto simp: register_def Let_def token_entry_ok_def)
  next
    case False
    with that have b: "byToken t k' = Some r" by (auto simp: register_def Let_def split: if_splits)
    moreover from this assms(1) have "token_entry_ok t k' r" by (simp add: vacant_def)
    ultimately show ?thesis using tok [OF b] ne
      by (auto simp: register_def Let_def token_entry_ok_def nth_append)
  qed
  ultimately show ?thesis
    using dom by (simp add: table_inv_def)
qed

text \<open>The three ways an address is chosen.\<close>

lemma choose_ip_cases:
  assumes inv: "table_inv t"
  obtains (refused) e where "choose_ip k pref t = (Inl e, t)"
    | (fresh) ip p' where "choose_ip k pref t = (Inr (ip, None), t\<lparr>pool := p'\<rparr>)"
        "Allocate pref (pool t) = (Inr ip, p')" "k \<noteq> [] \<longrightarrow> byToken t k = None"
    | (reclaimed) old where
        "choose_ip k pref t = (Inr (cs_ip (objs t ! old), Some old), t)"
        "byIP t (ipStr (objs t ! old)) = Some old"
        "k \<noteq> [] \<longrightarrow> byToken t k = None \<or> byToken t k = Some old"
proof -
  have ne: "cs_ip (objs t ! r) \<noteq> []" if "byIP t s = Some r" for s r
    using table_invD(3) [OF inv that] host_length by (fastforce simp: ip_entry_ok_def)
  have self: "byIP t (ipStr (objs t ! r)) = Some r" if "byIP t s = Some r" for s r
    using table_invD(3) [OF inv that] that by (simp add: ip_entry_ok_def)
  show thesis
  proof (cases "if k \<noteq> [] then byToken t k else None")
    case (Some old)
    then have b: "byToken t k = Some old" "k \<noteq> []" by (auto split: if_splits)
    from token_session [OF inv b(1)] have "byIP t (ipStr (objs t ! old)) = Some old" by simp
    with b ne [OF this] reclaimed [of old] show thesis by (simp add: choose_ip_def)
  next
    case None
    then have kn: "k \<noteq> [] \<longrightarrow> byToken t k = None" by auto
    obtain x p' where al: "Allocate pref (pool t) = (x, p')" by fastforce
    show thesis
    proof (cases x)
      case (Inr ip)
      with None al kn fresh [of ip p'] show thesis by (simp add: choose_ip_def)
    next
      case (Inl e)
      with al have p': "p' = pool t" using Allocate_fail by blast
      let ?o = "if pref \<noteq> [] \<and> \<not> ip_Equal pref IPv4zero then byIP t (ip_string pref) else None"
      show thesis
      proof (cases ?o)
        case None': None
        with None Inl al p' refused [of e] show thesis by (simp add: choose_ip_def)
      next
        case (Some old)
        then have "byIP t (ip_string pref) = Some old" by (auto split: if_splits)
        from ne [OF this] self [OF this] None Inl al p' Some kn reclaimed [of old] show thesis
          by (simp add: choose_ip_def)
      qed
    qed
  qed
qed

lemma vacant_fresh:
  assumes "table_inv t" "Allocate pref (pool t) = (Inr ip, p')"
  shows "vacant (ip_string ip) (t\<lparr>pool := p'\<rparr>) \<and> ip \<in> pool_hosts p'"
proof -
  from Allocate_ok [OF table_invD(1) [OF assms(1)] assms(2)]
  have a: "ip \<in> pool_hosts (pool t)" "ip_string ip \<notin> allocated (pool t)"
    "p' = (pool t)\<lparr>allocated := insert (ip_string ip) (allocated (pool t))\<rparr>" by auto
  moreover have "pool_inv p'"
    using pool.alloc_ok [OF table_invD(1) [OF assms(1)] assms(2)] by simp
  moreover have "ip_entry_ok (t\<lparr>pool := p'\<rparr>) = ip_entry_ok t"
    "token_entry_ok (t\<lparr>pool := p'\<rparr>) = token_entry_ok t"
    using a(3) by (simp_all add: fun_eq_iff ip_entry_ok_def token_entry_ok_def)
  ultimately show ?thesis
    using assms(1) by (auto simp: vacant_def table_inv_def)
qed

lemma vacant_detach:
  assumes inv: "table_inv t" and b: "byIP t s = Some r"
  shows "vacant s (detach r t)"
proof -
  let ?k = "token (objs t ! r)"
  define B where "B = (if ?k = [] then byToken t else (byToken t)(?k := None))"
  define t' where "t' = t\<lparr>byIP := (byIP t)(s := None), byToken := B\<rparr>"
  have d: "detach r t = t'" by (simp add: detach_eq [OF inv b] t'_def B_def)
  from table_invD(3) [OF inv b] have ok: "ip_entry_ok t s r" .
  have ips: "ip_entry_ok t' s' r'" if "byIP t' s' = Some r'" for s' r'
  proof -
    from that have b': "byIP t s' = Some r'" "s' \<noteq> s" by (auto simp: t'_def split: if_splits)
    from table_invD(3) [OF inv b'(1)] have ok': "ip_entry_ok t s' r'" .
    have "?k \<noteq> token (objs t ! r')" if "?k \<noteq> []"
    proof
      assume eq: "?k = token (objs t ! r')"
      from ok that have "byToken t ?k = Some r" unfolding ip_entry_ok_def by blast
      moreover from ok' that eq have "byToken t ?k = Some r'" unfolding ip_entry_ok_def by metis
      ultimately have "r = r'" by simp
      with ok ok' have "s = s'" unfolding ip_entry_ok_def by blast
      with b' show False by simp
    qed
    then have "?k \<noteq> [] \<longrightarrow> token (objs t ! r') \<noteq> ?k" by metis
    with ok' show ?thesis by (auto simp: ip_entry_ok_def t'_def B_def)
  qed
  have toks: "token_entry_ok t' k' r'" if "byToken t' k' = Some r'" for k' r'
  proof -
    from that have b': "byToken t k' = Some r'" and k: "?k \<noteq> [] \<longrightarrow> k' \<noteq> ?k"
      by (auto simp: t'_def B_def split: if_splits)
    from token_session [OF inv b'] k b have "ipStr (objs t ! r') \<noteq> s" by auto
    with token_session [OF inv b'] show ?thesis by (simp add: token_entry_ok_def t'_def)
  qed
  have "pool_inv (pool t')" "s \<notin> dom (byIP t')" "insert s (dom (byIP t')) = allocated (pool t')"
    using table_invD(1,2) [OF inv] b by (auto simp: t'_def)
  with ips toks show ?thesis unfolding d vacant_def by (intro conjI allI impI)
qed

text \<open>Releasing the vacant address restores the invariant.\<close>

lemma vacant_release:
  assumes "vacant (ip_string ip) t" "ip \<in> pool_hosts (pool t)"
  shows "table_inv (t\<lparr>pool := Release ip (pool t)\<rparr>)"
proof -
  from assms have p: "pool_inv (pool t)" by (simp add: vacant_def)
  from pool.rel_ok [OF this assms(2)] have r: "pool_inv (Release ip (pool t))"
    "pool_hosts (Release ip (pool t)) = pool_hosts (pool t)" by simp_all
  then have "ip_entry_ok (t\<lparr>pool := Release ip (pool t)\<rparr>) = ip_entry_ok t"
    "token_entry_ok (t\<lparr>pool := Release ip (pool t)\<rparr>) = token_entry_ok t"
    by (simp_all add: fun_eq_iff ip_entry_ok_def token_entry_ok_def)
  moreover have "dom (byIP t) = allocated (Release ip (pool t))"
    using assms host_length [OF assms(2)] by (auto simp: vacant_def Release_def)
  ultimately show ?thesis
    using r assms(1) by (simp add: table_inv_def vacant_def)
qed

lemma remove_inv:
  assumes inv: "table_inv t"
  shows "table_inv (remove_session r t)"
proof (cases "byIP t (ipStr (objs t ! r)) = Some r")
  case False
  have "\<not> (token (objs t ! r) \<noteq> [] \<and> byToken t (token (objs t ! r)) = Some r)"
    using token_session [OF inv] False by auto
  with False inv show ?thesis by (auto simp: remove_session_def Let_def)
next
  case True
  from table_invD(3) [OF inv True] have ok: "cs_ip (objs t ! r) \<in> pool_hosts (pool t)"
    "ipStr (objs t ! r) = ip_string (cs_ip (objs t ! r))"
    by (auto simp: ip_entry_ok_def)
  have "pool (detach r t) = pool t" by (simp add: detach_eq [OF inv True])
  with vacant_release [OF vacant_detach [OF inv True, unfolded ok(2)]] ok(1) show ?thesis
    by (simp add: remove_eq [OF inv True])
qed

text \<open>What \<open>assign\<close> does, on each of the three ways.\<close>

lemma assign_cases:
  assumes inv: "table_inv t"
  obtains (refused) e where "assign tok pref strm t = (Inl e, t)"
    | (fresh) ip p' where
        "assign tok pref strm t = (Inr (length (objs t), None),
           snd (register (token_string tok) ip strm (t\<lparr>pool := p'\<rparr>)))"
        "Allocate pref (pool t) = (Inr ip, p')"
        "token_string tok \<noteq> [] \<longrightarrow> byToken t (token_string tok) = None"
    | (reclaimed) old where
        "assign tok pref strm t = (Inr (length (objs t), Some old),
           snd (register (token_string tok) (cs_ip (objs t ! old)) strm (detach old t)))"
        "byIP t (ipStr (objs t ! old)) = Some old"
        "token_string tok \<noteq> [] \<longrightarrow>
           byToken t (token_string tok) = None \<or> byToken t (token_string tok) = Some old"
proof (cases rule: choose_ip_cases [OF inv, of "token_string tok" pref])
  case (1 e)
  with refused show thesis by (simp add: assign_def)
next
  case (2 ip p')
  with fresh [of ip p'] show thesis by (simp add: assign_def register_def Let_def)
next
  case (3 old)
  then have "objs (detach old t) = objs t"
    by (simp add: detach_eq [OF inv])
  with 3 reclaimed [of old] show thesis by (simp add: assign_def register_def Let_def)
qed

lemma assign_inv:
  assumes inv: "table_inv t"
  shows "table_inv (snd (assign tok pref strm t))"
proof (cases rule: assign_cases [OF inv, of tok pref strm])
  case (1 e)
  with inv show ?thesis by simp
next
  case (2 ip p')
  with vacant_fresh [OF inv 2(2)] register_inv [of ip "t\<lparr>pool := p'\<rparr>"] show ?thesis by simp
next
  case (3 old)
  let ?s = "ipStr (objs t ! old)"
  from table_invD(3) [OF inv 3(2)] have ok: "ip_entry_ok t ?s old" .
  then have s: "?s = ip_string (cs_ip (objs t ! old))" "cs_ip (objs t ! old) \<in> pool_hosts (pool t)"
    by (simp_all add: ip_entry_ok_def)
  have "token_string tok \<noteq> [] \<longrightarrow> byToken (detach old t) (token_string tok) = None"
    using 3(3) table_invD(4) [OF inv] unfolding detach_eq [OF inv 3(2)]
    by (auto simp: token_entry_ok_def)
  moreover have "pool (detach old t) = pool t" by (simp add: detach_eq [OF inv 3(2)])
  ultimately show ?thesis
    using 3(1) register_inv [OF vacant_detach [OF inv 3(2), unfolded s(1)]] s by simp
qed

text \<open>Changing the other fields of a session object keeps the invariant.\<close>

lemma objs_update_inv:
  assumes "table_inv t" "cs_ip cs = cs_ip (objs t ! r)" "ipStr cs = ipStr (objs t ! r)"
    "token cs = token (objs t ! r)"
  shows "table_inv (t\<lparr>objs := (objs t)[r := cs]\<rparr>)"
proof (cases "r < length (objs t)")
  case True
  with assms(2-4) have "ip_entry_ok (t\<lparr>objs := (objs t)[r := cs]\<rparr>) = ip_entry_ok t"
    "token_entry_ok (t\<lparr>objs := (objs t)[r := cs]\<rparr>) = token_entry_ok t"
    by (simp_all add: fun_eq_iff ip_entry_ok_def token_entry_ok_def True nth_list_update)
  with assms(1) show ?thesis by (simp add: table_inv_def)
next
  case False
  then have "t\<lparr>objs := (objs t)[r := cs]\<rparr> = t" by (cases t) (simp add: list_update_beyond)
  with assms(1) show ?thesis by (simp only:)
qed

lemma setWriter_inv: "table_inv t \<Longrightarrow> table_inv (setWriter r w c t)"
  by (simp add: setWriter_def objs_update_inv)

lemma send_inv: "table_inv t \<Longrightarrow> table_inv (snd (snd (send wr r f t)))"
  by (simp add: send_def objs_update_inv split: option.splits prod.splits)

section \<open>Reachable tables\<close>

text \<open>Every operation the connection goroutines and the dispatcher perform on the table.\<close>

inductive table_step :: "sessionTable \<Rightarrow> sessionTable \<Rightarrow> bool" where
  connect: "assign tok pref strm t = (res, t') \<Longrightarrow> table_step t t'"
| publish: "table_step t (setWriter r w c t)"
| deliver: "send wr r f t = (out, ok, t') \<Longrightarrow> table_step t t'"
| disconnect: "table_step t (remove_session r t)"

definition table_start :: "string \<Rightarrow> sessionTable \<Rightarrow> bool" where
  "table_start cidr t \<longleftrightarrow> (\<exists>p. NewIPPool cidr = Inr p \<and> t = newSessionTable p)"

interpretation tables: invariant_system "table_start cidr" table_step table_inv for cidr
proof unfold_locales
  show "table_start cidr t \<Longrightarrow> table_inv t" for t
    by (auto simp: table_start_def newSessionTable_def table_inv_def dest!: NewIPPool_inv)
  show "table_inv t \<Longrightarrow> table_step t u \<Longrightarrow> table_inv u" for t u
    by (erule table_step.cases)
       (metis assign_inv snd_conv, simp add: setWriter_inv, metis send_inv snd_conv,
        simp add: remove_inv)
qed

text \<open>A session that has left the maps never comes back.\<close>

definition dead :: "ref \<Rightarrow> sessionTable \<Rightarrow> bool" where
  "dead r t \<longleftrightarrow> r < length (objs t) \<and> r \<notin> ran (byIP t) \<and> r \<notin> ran (byToken t)"

lemma ran_upd_None: "ran (m(k := None)) \<subseteq> ran m"
  by (auto simp: ran_def)

lemma ran_upd_Some: "ran (m(k \<mapsto> v)) \<subseteq> insert v (ran m)"
  by (auto simp: ran_def)

lemma detach_maps:
  "ran (byIP (detach r t)) \<subseteq> ran (byIP t)" "ran (byToken (detach r t)) \<subseteq> ran (byToken t)"
  "objs (detach r t) = objs t"
  by (auto simp: detach_def Let_def dest: subsetD [OF ran_upd_None])

lemma remove_maps:
  "ran (byIP (remove_session r t)) \<subseteq> ran (byIP t)"
  "ran (byToken (remove_session r t)) \<subseteq> ran (byToken t)" "objs (remove_session r t) = objs t"
  by (auto simp: remove_session_def Let_def dest: subsetD [OF ran_upd_None])

lemma choose_ip_maps:
  "choose_ip k pref t = (res, t') \<Longrightarrow> byIP t' = byIP t \<and> byToken t' = byToken t \<and> objs t' = objs t"
  by (auto simp: choose_ip_def Let_def split: option.splits sum.splits prod.splits if_splits)

lemma register_maps:
  assumes "register k ip strm t = (r, t')"
  shows "ran (byIP t') \<subseteq> insert r (ran (byIP t)) \<and> ran (byToken t') \<subseteq> insert r (ran (byToken t))
    \<and> r = length (objs t) \<and> length (objs t') = Suc r"
  using assms ran_upd_Some [of "byIP t" "ip_string ip" r] ran_upd_Some [of "byToken t" k r]
  by (auto simp: register_def Let_def split: if_splits)

lemma dead_assign:
  assumes "dead r t" "assign tok pref strm t = (res, t')"
  shows "dead r t'"
proof -
  obtain x t1 where c: "choose_ip (token_string tok) pref t = (x, t1)" by fastforce
  note m = choose_ip_maps [OF c]
  show ?thesis
  proof (cases x)
    case (Inl e)
    with assms c m show ?thesis by (auto simp: assign_def dead_def)
  next
    case (Inr y)
    obtain ip ev where y: "y = (ip, ev)" by fastforce
    define t2 where "t2 = (case ev of None \<Rightarrow> t1 | Some old \<Rightarrow> detach old t1)"
    have m2: "ran (byIP t2) \<subseteq> ran (byIP t1)" "ran (byToken t2) \<subseteq> ran (byToken t1)" "objs t2 = objs t1"
      using detach_maps by (auto simp: t2_def split: option.splits)
    obtain r' t3 where g: "register (token_string tok) ip strm t2 = (r', t3)" by fastforce
    with c Inr y assms(2) have "t' = t3" by (simp add: assign_def t2_def [symmetric])
    with register_maps [OF g] m m2 assms(1) show ?thesis
      by (auto simp: dead_def)
  qed
qed

lemma dead_same_maps:
  "dead r t \<Longrightarrow> ran (byIP u) \<subseteq> ran (byIP t) \<Longrightarrow> ran (byToken u) \<subseteq> ran (byToken t) \<Longrightarrow>
     length (objs u) = length (objs t) \<Longrightarrow> dead r u"
  by (auto simp: dead_def)

lemma dead_step: "dead r t \<Longrightarrow> table_step t u \<Longrightarrow> dead r u"
proof (erule table_step.cases)
  fix wr r' f t0 out ok t'
  assume "dead r t" "t = t0" "u = t'" "send wr r' f t0 = (out, ok, t')"
  then show "dead r u"
    by (auto simp: send_def intro: dead_same_maps split: option.splits prod.splits)
next
  fix t0 r'
  assume "dead r t" "t = t0" "u = remove_session r' t0"
  then show "dead r u"
    using remove_maps [of r' t0] by (auto intro: dead_same_maps)
next
  fix t0 r' w c
  assume "dead r t" "t = t0" "u = setWriter r' w c t0"
  then show "dead r u" by (auto simp: setWriter_def intro: dead_same_maps)
qed (simp add: dead_assign)

lemma dead_forever: "table_step\<^sup>*\<^sup>* t u \<Longrightarrow> dead r t \<Longrightarrow> dead r u"
  by (induction rule: rtranclp_induct) (auto intro: dead_step)

lemma evicted_dead:
  assumes inv: "table_inv t" and a: "assign tok pref strm t = (Inr (r, Some old), t')"
  shows "dead old t'"
proof (cases rule: assign_cases [OF inv, of tok pref strm])
  case (3 o')
  with a have o: "o' = old" by simp
  let ?t2 = "detach old t"
  from table_invD(3) [OF inv 3(2)] o have ok: "old < length (objs t)" "byIP t (ipStr (objs t ! old)) = Some old"
    using 3(2) by (simp_all add: ip_entry_ok_def)
  have "old \<notin> ran (byIP ?t2)"
  proof
    assume "old \<in> ran (byIP ?t2)"
    then obtain s where "s \<noteq> ipStr (objs t ! old)" "byIP t s = Some old"
      unfolding detach_eq [OF inv ok(2)] by (auto simp: ran_def split: if_splits)
    with table_invD(3) [OF inv this(2)] show False by (simp add: ip_entry_ok_def)
  qed
  moreover have "old \<notin> ran (byToken ?t2)"
  proof
    assume "old \<in> ran (byToken ?t2)"
    then obtain k where "token (objs t ! old) = [] \<or> k \<noteq> token (objs t ! old)" "byToken t k = Some old"
      unfolding detach_eq [OF inv ok(2)] by (auto simp: ran_def split: if_splits)
    with token_session [OF inv this(2)] show False by auto
  qed
  ultimately have "dead old ?t2"
    using ok(1) by (simp add: dead_def detach_maps(3))
  moreover obtain r' t3 where g: "register (token_string tok) (cs_ip (objs t ! old)) strm ?t2 = (r', t3)"
    by fastforce
  moreover from 3(1) a g o have "t' = t3" by simp
  ultimately show ?thesis
    using register_maps [OF g] by (auto simp: dead_def)
qed (use a in auto)

section \<open>Properties\<close>

text \<open>
  C6. In every reachable session table the addresses with a session are exactly the addresses
  the pool has given out, no session is found under two addresses, each is found under the text
  of its own address, which is a host of the subnet, and the token map and the address map
  agree: a session with a token is found under both or under neither.
\<close>

theorem session_table_consistent:
  assumes "reach (table_start cidr) table_step t"
  shows "dom (byIP t) = allocated (pool t)
    \<and> (\<forall>s r. byIP t s = Some r \<longrightarrow> r < length (objs t) \<and> s = ip_string (cs_ip (objs t ! r))
          \<and> cs_ip (objs t ! r) \<in> pool_hosts (pool t))
    \<and> (\<forall>s s' r. byIP t s = Some r \<and> byIP t s' = Some r \<longrightarrow> s = s')
    \<and> (\<forall>r. token (objs t ! r) \<noteq> [] \<longrightarrow>
          (byToken t (token (objs t ! r)) = Some r \<longleftrightarrow> byIP t (ipStr (objs t ! r)) = Some r))"
proof -
  from tables.reach_inv [OF assms] have inv: "table_inv t" .
  have "r < length (objs t) \<and> s = ip_string (cs_ip (objs t ! r))
      \<and> cs_ip (objs t ! r) \<in> pool_hosts (pool t)" if "byIP t s = Some r" for s r
    using table_invD(3) [OF inv that] unfolding ip_entry_ok_def by blast
  moreover have "s = s'" if "byIP t s = Some r" "byIP t s' = Some r" for s s' r
    using table_invD(3) [OF inv that(1)] table_invD(3) [OF inv that(2)]
    unfolding ip_entry_ok_def by blast
  moreover have "byToken t (token (objs t ! r)) = Some r \<longleftrightarrow> byIP t (ipStr (objs t ! r)) = Some r"
    if "token (objs t ! r) \<noteq> []" for r
    using that token_session [OF inv] table_invD(3) [OF inv] unfolding ip_entry_ok_def by blast
  ultimately show ?thesis
    using table_invD(2) [OF inv] by blast
qed

definition demo_token :: bytes where "demo_token = [1, 2, 3, 4, 5, 6, 7, 8]"

definition demo_table :: sessionTable where
  "demo_table = snd (assign demo_token [] 7 (newSessionTable demo_pool))"

lemma demo_table_reach: "reach (table_start ''10.7.0.1/29'') table_step demo_table"
proof -
  have "reach (table_start ''10.7.0.1/29'') table_step (newSessionTable demo_pool)"
    by (rule reach_init) (simp add: table_start_def demo_pool_new)
  moreover have "table_step (newSessionTable demo_pool) demo_table"
    unfolding demo_table_def by (rule table_step.connect) (rule surjective_pairing)
  ultimately show ?thesis by (rule reach_step)
qed

lemma demo_table_entries:
  "byIP demo_table ''10.7.0.2'' = Some 0"
  "byToken demo_table (token_string demo_token) = Some 0"
  "token_string demo_token \<noteq> []"
  by code_simp+

theorem session_table_consistent_witness:
  "dom (byIP demo_table) = allocated (pool demo_table)
   \<and> ''10.7.0.2'' = ip_string (cs_ip (objs demo_table ! 0))"
  using session_table_consistent [OF demo_table_reach] demo_table_entries(1)
  by blast

lemma assign_evicts:
  assumes inv: "table_inv t" and "token_string tok \<noteq> []" "byToken t (token_string tok) = Some old"
  shows "assign tok pref strm t =
    (let (r, t') = register (token_string tok) (cs_ip (objs t ! old)) strm (detach old t) in (Inr (r, Some old), t'))"
    "objs (detach old t) = objs t" "pool (detach old t) = pool t"
    "length (cs_ip (objs t ! old)) = 4" "ipStr (objs t ! old) = ip_string (cs_ip (objs t ! old))"
proof -
  from token_session [OF inv assms(3)] have b: "byIP t (ipStr (objs t ! old)) = Some old"
    and ok: "ip_entry_ok t (ipStr (objs t ! old)) old" by simp_all
  let ?ip = "cs_ip (objs t ! old)"
  from ok show ip: "length ?ip = 4" "ipStr (objs t ! old) = ip_string ?ip"
    using host_length by (auto simp: ip_entry_ok_def)
  then have "?ip \<noteq> []" by auto
  with assms(2,3) have "choose_ip (token_string tok) pref t = (Inr (?ip, Some old), t)"
    by (simp add: choose_ip_def)
  then show "assign tok pref strm t =
      (let (r, t') = register (token_string tok) ?ip strm (detach old t) in (Inr (r, Some old), t'))"
    by (simp add: assign_def)
  show "objs (detach old t) = objs t" "pool (detach old t) = pool t"
    using detach_eq [OF inv b] by simp_all
qed

text \<open>
  C9. Sticky addresses. In every reachable table a client that presents the token of a live
  session gets that session's address again, whatever address it prefers and even when the
  pool is full; the old session is reported as evicted, the new one replaces it in both maps
  under the same address, and the pool is unchanged.
\<close>

theorem sticky_reconnect:
  assumes "reach (table_start cidr) table_step t"
    and "token_string tok \<noteq> []" and "byToken t (token_string tok) = Some old"
  shows "\<exists>r t'. assign tok pref strm t = (Inr (r, Some old), t')
    \<and> cs_ip (objs t' ! r) = cs_ip (objs t ! old) \<and> cs_stream (objs t' ! r) = strm
    \<and> byIP t' (ipStr (objs t ! old)) = Some r \<and> byToken t' (token_string tok) = Some r
    \<and> pool t' = pool t"
proof -
  note E = assign_evicts [OF tables.reach_inv [OF assms(1)] assms(2,3)]
  show ?thesis
    unfolding E(1) using E(2-5) assms(2) by (simp add: register_def Let_def nth_append)
qed

theorem sticky_reconnect_witness:
  "\<exists>r t'. assign demo_token [10, 7, 0, 5] 9 demo_table = (Inr (r, Some 0), t')
    \<and> cs_ip (objs t' ! r) = cs_ip (objs demo_table ! 0) \<and> cs_stream (objs t' ! r) = 9
    \<and> byIP t' (ipStr (objs demo_table ! 0)) = Some r \<and> byToken t' (token_string demo_token) = Some r
    \<and> pool t' = pool demo_table"
  by (rule sticky_reconnect [OF demo_table_reach demo_table_entries(3,2)])

text \<open>
  A late exit of an evicted session does nothing. Once a connect has evicted a session, then
  after any further operations of any goroutines its own \<open>remove\<close> leaves the table unchanged:
  it neither releases the address its successor uses nor drops the successor's entries.
\<close>

theorem stale_remove_is_noop:
  assumes "reach (table_start cidr) table_step t"
    and "assign tok pref strm t = (Inr (r, Some old), t')"
    and "table_step\<^sup>*\<^sup>* t' u"
  shows "remove_session old u = u"
proof -
  from evicted_dead [OF tables.reach_inv [OF assms(1)] assms(2)] dead_forever [OF assms(3)]
  have "dead old u" by simp
  then show ?thesis by (simp add: dead_def remove_noop)
qed

theorem stale_remove_is_noop_witness:
  "\<exists>t'. assign demo_token [] 9 demo_table = (Inr (1, Some 0), t') \<and> remove_session 0 t' = t'"
proof -
  have "fst (assign demo_token [] 9 demo_table) = Inr (1, Some 0)" by code_simp
  then obtain t' where a: "assign demo_token [] 9 demo_table = (Inr (1, Some 0), t')"
    by (metis prod.collapse)
  with stale_remove_is_noop [OF demo_table_reach a rtranclp.rtrancl_refl] show ?thesis by blast
qed

text \<open>
  Disconnecting undoes connecting. When a client was given a fresh address, removing its
  session restores the pool and both maps: no address is leaked and nothing of another client
  is touched.
\<close>

theorem connect_disconnect:
  assumes "reach (table_start cidr) table_step t"
    and "assign tok pref strm t = (Inr (r, None), t')"
  shows "allocated (pool (remove_session r t')) = allocated (pool t)
    \<and> byIP (remove_session r t') = byIP t \<and> byToken (remove_session r t') = byToken t"
proof -
  from tables.reach_inv [OF assms(1)] have inv: "table_inv t" .
  show ?thesis
  proof (cases rule: assign_cases [OF inv, of tok pref strm])
    case (2 ip p')
    from Allocate_ok [OF table_invD(1) [OF inv] 2(2)] have a: "ip \<in> pool_hosts (pool t)"
      "ip_string ip \<notin> allocated (pool t)"
      "p' = (pool t)\<lparr>allocated := insert (ip_string ip) (allocated (pool t))\<rparr>" by auto
    with table_invD(2) [OF inv] have "byIP t (ip_string ip) = None" by auto
    with 2 a host_length [OF a(1)] assms(2) show ?thesis
      by (auto simp: register_def remove_session_def Release_def Let_def fun_eq_iff)
  qed (use assms(2) in auto)
qed

theorem connect_disconnect_witness:
  "\<exists>t'. assign [9] [] 3 demo_table = (Inr (1, None), t')
     \<and> byIP (remove_session 1 t') = byIP demo_table"
proof -
  have "fst (assign [9] [] 3 demo_table) = Inr (1, None)" by code_simp
  then obtain t' where a: "assign [9] [] 3 demo_table = (Inr (1, None), t')"
    by (metis prod.collapse)
  with connect_disconnect [OF demo_table_reach a] show ?thesis by blast
qed

text \<open>
  C13. The rate limit. For every history of connection attempts and cleanup ticks in order of
  time, at most 5 connections of one remote address are let through in any window of one
  minute.
\<close>

theorem rate_limit:
  assumes "sorted (map event_time es)"
  shows "length (filter (\<lambda>s. t - minute < s \<and> s \<le> t) (fst (limiter_run ip newConnLimiter es))) \<le> 5"
proof -
  define now where "now = (case es of [] \<Rightarrow> 0 | e # _ \<Rightarrow> event_time e)"
  have "\<forall>e\<in>set es. now \<le> event_time e"
    using assms by (auto simp: now_def split: list.splits)
  then have "window_ok ([] @ fst (limiter_run ip newConnLimiter es))"
    by (intro limiter_run_window [OF assms])
       (simp_all add: window_ok_def tracks_def fresh_since_def)
  then show ?thesis by (simp add: window_ok_def)
qed

theorem rate_limit_witness:
  "length (filter (\<lambda>s. 6 - minute < s \<and> s \<le> 6)
     (fst (limiter_run ''a'' newConnLimiter (map (\<lambda>t. Attempt t ''a'') [1, 2, 3, 4, 5, 6])))) \<le> 5"
  by (rule rate_limit) simp

end
