(* ===== verification/Server.thy ===== *)
theory Server
  imports Handshake Sessions
begin

text \<open>
  Component \<open>cmd/server/main.go\<close>, second part: the handler of one client connection from the
  tunnel handshake to the disconnect, the dispatcher from the TUN device to the clients, and the
  NAT rules. A handler works on the bytes the client sends; what it does outside is a list of
  effects. Other goroutines act on the session table between its operations: the change they
  make while the handler is in its read loop is an argument. Log lines are not modelled.
\<close>

section \<open>The frame loop\<close>

datatype effect =
    TunWrite bytes
  | StreamWrite bytes
  | ClientWrite bytes
  | CloseStream nat

datatype verdict = Continue | Return

record counters =
  rxData :: int
  rxBytes :: int
  pings :: int

text \<open>
  One iteration after a successful \<open>Decode\<close>. \<open>wok n\<close> says whether writing the answer to the
  \<open>n\<close>-th ping succeeds; a failing TUN write is only logged.
\<close>

definition handle_frame ::
  "Cipher \<Rightarrow> PaddingConfig \<Rightarrow> IP \<Rightarrow> (int \<Rightarrow> bool) \<Rightarrow> byte \<times> bytes \<Rightarrow> counters \<Rightarrow> tape
     \<Rightarrow> effect list \<times> verdict \<times> counters \<times> tape" where
  "handle_frame c pad assignedIP wok = (\<lambda>(frameType, payload) st t.
     if frameType = FrameData then
       (if length payload < 20 then ([], Continue, st, t)
        else if \<not> ip_Equal (To4 (slice 12 16 payload)) assignedIP then ([], Continue, st, t)
        else ([TunWrite payload], Continue,
              st\<lparr>rxData := rxData st + 1, rxBytes := rxBytes st + int (length payload)\<rparr>, t))
     else if frameType = FramePing then
       (let st' = st\<lparr>pings := pings st + 1\<rparr>
        in case Encode FramePong payload c pad t of
             (Inr pong, t') \<Rightarrow>
               (if wok (pings st') then ([ClientWrite pong], Continue, st', t')
                else ([], Return, st', t'))
           | (Inl e, t') \<Rightarrow> ([], Continue, st', t'))
     else if frameType = FrameKeepalive \<or> frameType = FramePong then ([], Continue, st, t)
     else if frameType = FrameDecoy then ([], Continue, st, t)
     else if frameType = FrameClose then ([], Return, st, t)
     else ([], Continue, st, t))"

lemma Decode_shrinks: "Decode c r = Inr (m, rest) \<Longrightarrow> length rest < length r"
  by (cases m) (auto dest!: Decode_Inr)

function serve_loop ::
  "Cipher \<Rightarrow> PaddingConfig \<Rightarrow> IP \<Rightarrow> (int \<Rightarrow> bool) \<Rightarrow> bytes \<Rightarrow> counters \<Rightarrow> tape \<Rightarrow> effect list \<times> counters" where
  "serve_loop c pad assignedIP wok inp st t =
     (case Decode c inp of
        Inl e \<Rightarrow> ([], st)
      | Inr (m, rest) \<Rightarrow>
          (case handle_frame c pad assignedIP wok m st t of
             (eff, Return, st', t') \<Rightarrow> (eff, st')
           | (eff, Continue, st', t') \<Rightarrow>
               let (effs, st'') = serve_loop c pad assignedIP wok rest st' t'
               in (eff @ effs, st'')))"
  by pat_completeness auto
termination
  by (relation "measure (\<lambda>(c, pad, ip, wok, inp, st, t). length inp)") (auto dest: Decode_shrinks)

declare serve_loop.simps [simp del]

section \<open>The handler\<close>

text \<open>
  The request that opens a session: four bytes of preferred address and optionally eight bytes
  of token. Anything else ends the connection.
\<close>

definition assign_request :: "byte \<times> bytes \<Rightarrow> (IP \<times> bytes) option" where
  "assign_request = (\<lambda>(frameType, payload).
     if frameType \<noteq> FrameAssign \<or> length payload < 4 then None
     else Some (To4 (take 4 payload),
                if 12 \<le> length payload then slice 4 12 payload else []))"

definition assign_payload :: "IP \<Rightarrow> IPPool \<Rightarrow> bytes" where
  "assign_payload ip p = (copy_at 0 (To4 ip) (replicate 5 0))[4 := of_nat (PrefixLen p)]"

text \<open>
  What the code outside this component decides for one connection: whether the PostgreSQL
  handshake, the mux set-up and the accept of the stream succeed (the stream's bytes are then
  \<open>inp\<close>), which writes succeed, and what the other goroutines do to the table meanwhile.
\<close>

record client_env =
  pg_ok :: bool
  mux_ok :: bool
  accept_ok :: bool
  hello_write_ok :: bool
  assign_write_ok :: bool
  pong_write_ok :: "int \<Rightarrow> bool"
  obfs_id :: nat
  stream_id :: nat
  chacha_new :: "bytes \<Rightarrow> AEAD option"
  others :: "sessionTable \<Rightarrow> sessionTable"

text \<open>From the session's registration to the end of the connection.\<close>

definition serve_session ::
  "client_env \<Rightarrow> Config \<Rightarrow> Cipher \<Rightarrow> ref \<Rightarrow> ref option \<Rightarrow> bytes \<Rightarrow> tape \<Rightarrow> sessionTable
     \<Rightarrow> effect list \<times> sessionTable" where
  "serve_session env cfg c r evicted inp t table =
     (let closes = (case evicted of None \<Rightarrow> [] | Some old \<Rightarrow> [CloseStream (cs_stream (objs table ! old))]);
          assignedIP = cs_ip (objs table ! r)
      in case Encode FrameAssign (assign_payload assignedIP (pool table)) c (Padding cfg) t of
           (Inl e, t') \<Rightarrow> (closes, remove_session r table)
         | (Inr assignFrame, t') \<Rightarrow>
             if \<not> assign_write_ok env then (closes, remove_session r table)
             else
               let table1 = setWriter r (obfs_id env) c table;
                   (effs, st) = serve_loop c (Padding cfg) assignedIP (pong_write_ok env) inp
                                  \<lparr>rxData = 0, rxBytes = 0, pings = 0\<rparr> t'
               in (closes @ [StreamWrite assignFrame] @ effs,
                   remove_session r (others env table1)))"

text \<open>The handshake's output; closing the connection itself on return is left implicit.\<close>

definition hello_out :: "bytes \<Rightarrow> effect list" where
  "hello_out out = (if out = [] then [] else [StreamWrite out])"

definition handleClient ::
  "client_env \<Rightarrow> Crypto \<Rightarrow> bytes \<Rightarrow> Config \<Rightarrow> int \<Rightarrow> int \<Rightarrow> tape \<Rightarrow> tape \<Rightarrow> ReplayGuard \<Rightarrow> bytes \<Rightarrow> sessionTable
     \<Rightarrow> effect list \<times> ReplayGuard \<times> sessionTable" where
  "handleClient env cr psk cfg now now' ht t guard inp table =
     (if \<not> pg_ok env \<or> \<not> mux_ok env \<or> \<not> accept_ok env then ([], guard, table)
      else case ServerHandshake cr psk now now' ht (hello_write_ok env) guard inp of
        (out, guard', Inl e) \<Rightarrow> (hello_out out @ [CloseStream (stream_id env)], guard', table)
      | (out, guard', Inr (sessionKey, rest)) \<Rightarrow>
          (case NewCipher (chacha_new env) sessionKey of
             None \<Rightarrow> (hello_out out @ [CloseStream (stream_id env)], guard', table)
           | Some c \<Rightarrow>
               (case Decode c rest of
                  Inl e \<Rightarrow> (hello_out out, guard', table)
                | Inr (m, rest') \<Rightarrow>
                    (case assign_request m of
                       None \<Rightarrow> (hello_out out, guard', table)
                     | Some (preferredIP, tok) \<Rightarrow>
                         (case assign tok preferredIP (stream_id env) table of
                            (Inl e, table1) \<Rightarrow> (hello_out out, guard', table1)
                          | (Inr (r, evicted), table1) \<Rightarrow>
                              let (effs, table2) = serve_session env cfg c r evicted rest' t table1
                              in (hello_out out @ effs, guard', table2))))))"

section \<open>From the TUN device to the clients\<close>

definition tun_dispatch ::
  "PaddingConfig \<Rightarrow> (nat \<Rightarrow> bytes \<Rightarrow> int \<times> bool) \<Rightarrow> bytes \<Rightarrow> tape \<Rightarrow> sessionTable
     \<Rightarrow> (nat \<times> bytes) option \<times> tape \<times> sessionTable" where
  "tun_dispatch pad write pkt t table =
     (if length pkt < 20 then (None, t, table)
      else case get_session table (ip_string (slice 16 20 pkt)) of
        None \<Rightarrow> (None, t, table)
      | Some r \<Rightarrow>
          (case cipherRef r table of
             None \<Rightarrow> (None, t, table)
           | Some c \<Rightarrow>
               (case Encode FrameData pkt c pad t of
                  (Inl e, t') \<Rightarrow> (None, t', table)
                | (Inr frame, t') \<Rightarrow>
                    let (out, ok, table') = send write r frame table in (out, t', table'))))"

text \<open>The accept loop's decision on one connection.\<close>

definition accept_conn :: "int \<Rightarrow> string \<Rightarrow> connLimiter \<Rightarrow> bool \<times> connLimiter" where
  "accept_conn now remoteIP limiter = allow now remoteIP limiter"

section \<open>NAT rules\<close>

text \<open>A command is its argument list; \<open>ok\<close> says whether running it succeeds.\<close>

definition masquerade_rule :: "string \<Rightarrow> string list" where
  "masquerade_rule subnet = [''POSTROUTING'', ''-s'', subnet, ''!'', ''-d'', subnet, ''-j'', ''MASQUERADE'']"

definition clamp_rule :: "string list" where
  "clamp_rule = [''FORWARD'', ''-p'', ''tcp'', ''--tcp-flags'', ''SYN,RST'', ''SYN'',
                 ''-j'', ''TCPMSS'', ''--clamp-mss-to-pmtu'']"

definition setupNAT :: "(string list \<Rightarrow> bool) \<Rightarrow> string \<Rightarrow> string list list \<times> bool" where
  "setupNAT ok subnet =
     (let first = [''iptables'', ''-t'', ''nat'', ''-A''] @ masquerade_rule subnet in
      if \<not> ok first then ([first], False)
      else ([first,
             [''iptables'', ''-I'', ''FORWARD'', ''-i'', ''stun0'', ''-j'', ''ACCEPT''],
             [''iptables'', ''-I'', ''FORWARD'', ''-o'', ''stun0'', ''-j'', ''ACCEPT''],
             [''iptables'', ''-t'', ''mangle'', ''-A''] @ clamp_rule], True))"

definition cleanupNAT :: "string \<Rightarrow> string list list" where
  "cleanupNAT subnet =
     [[''iptables'', ''-t'', ''nat'', ''-D''] @ masquerade_rule subnet,
      [''iptables'', ''-D'', ''FORWARD'', ''-i'', ''stun0'', ''-j'', ''ACCEPT''],
      [''iptables'', ''-D'', ''FORWARD'', ''-o'', ''stun0'', ''-j'', ''ACCEPT''],
      [''iptables'', ''-t'', ''mangle'', ''-D''] @ clamp_rule]"

section \<open>The loop on decoded messages\<close>

text \<open>
  What the loop is meant to do, on the list of messages the client sent: up to the first close,
  forward the packets that carry the client's own source address and answer the pings.
\<close>

definition own_packet :: "IP \<Rightarrow> byte \<times> bytes \<Rightarrow> bool" where
  "own_packet ip = (\<lambda>(ft, p). ft = FrameData \<and> 20 \<le> length p \<and> slice 12 16 p = ip)"

definition until_close :: "(byte \<times> bytes) list \<Rightarrow> (byte \<times> bytes) list" where
  "until_close ms = takeWhile (\<lambda>(ft, p). ft \<noteq> FrameClose) ms"

definition tun_writes :: "effect list \<Rightarrow> bytes list" where
  "tun_writes es = concat (map (\<lambda>e. case e of TunWrite p \<Rightarrow> [p] | _ \<Rightarrow> []) es)"

definition client_writes :: "effect list \<Rightarrow> bytes list" where
  "client_writes es = concat (map (\<lambda>e. case e of ClientWrite p \<Rightarrow> [p] | _ \<Rightarrow> []) es)"

lemma writes_simps [simp]:
  "tun_writes [] = []" "client_writes [] = []"
  "tun_writes (a @ b) = tun_writes a @ tun_writes b"
  "client_writes (a @ b) = client_writes a @ client_writes b"
  "tun_writes (TunWrite p # es) = p # tun_writes es"
  "tun_writes (ClientWrite p # es) = tun_writes es"
  "client_writes (TunWrite p # es) = client_writes es"
  "client_writes (ClientWrite p # es) = p # client_writes es"
  by (simp_all add: tun_writes_def client_writes_def)

lemma length_slice [simp]: "hi \<le> length b \<Longrightarrow> length (slice lo hi b) = hi - lo"
  by (simp add: slice_def)

lemma Encode_decodable:
  assumes "aead_ok c" "check_padding pad = None" "pad_max pad \<le> 65535" "length p \<le> MaxPayloadSize"
  obtains f t' where "Encode ft p c pad t = (Inr f, t')" "\<And>rest. Decode c (f @ rest) = Inr ((ft, p), rest)"
proof -
  from Encode_eq [OF assms(2,4), of ft c t] obtain nonce padding t'
    where e: "Encode ft p c pad t = (Inr (frame_of c ft p nonce padding), t')"
      "length nonce = NonceSize" "pad_max pad = 0 \<longrightarrow> padding = []"
      "0 < pad_max pad \<longrightarrow> int (length padding) \<le> pad_max pad"
    by blast
  have "length padding \<le> 65535"
    using e(3,4) assms(2,3) by (cases "pad_max pad = 0") (auto simp: check_padding_None)
  with that [OF e(1)] Decode_frame_of [OF assms(1) e(2) assms(4)] show thesis by blast
qed

text \<open>The effect of one frame: at most one write, and only close ends the loop.\<close>

lemma handle_frame_spec:
  assumes "aead_ok c" "check_padding pad = None" "pad_max pad \<le> 65535"
    and "length ip = 4" "length p \<le> MaxPayloadSize"
    and h: "handle_frame c pad ip (\<lambda>_. True) (ft, p) st t = (eff, v, st', t')"
  shows "(v = Return \<longleftrightarrow> ft = FrameClose)
    \<and> tun_writes eff = (if own_packet ip (ft, p) then [p] else [])
    \<and> map (Decode c) (client_writes eff) = (if ft = FramePing then [Inr ((FramePong, p), [])] else [])"
proof (cases "ft = FramePing")
  case True
  obtain f t1 where "Encode FramePong p c pad t = (Inr f, t1)"
    "\<And>rest. Decode c (f @ rest) = Inr ((FramePong, p), rest)"
    using Encode_decodable [OF assms(1-3) assms(5)] by metis
  moreover from this(2) [of "[]"] have "Decode c f = Inr ((FramePong, p), [])" by simp
  ultimately show ?thesis
    using True h by (auto simp: handle_frame_def Let_def own_packet_def frame_types)
next
  case False
  with h assms(4) show ?thesis
    by (auto simp: handle_frame_def own_packet_def frame_types split: if_splits)
qed

lemma serve_loop_frames:
  assumes "aead_ok c" "check_padding pad = None" "pad_max pad \<le> 65535" "length ip = 4"
    and "list_all (good_frame c) fs"
  shows "let es = fst (serve_loop c pad ip (\<lambda>_. True)
                    (concat (map (\<lambda>(ft, p, nonce, padding). frame_of c ft p nonce padding) fs)) st t);
             ms = until_close (map (\<lambda>(ft, p, _). (ft, p)) fs)
    in tun_writes es = map snd (filter (own_packet ip) ms)
       \<and> map (Decode c) (client_writes es)
           = map (\<lambda>(_, p). Inr ((FramePong, p), [])) (filter (\<lambda>m. fst m = FramePing) ms)"
  using assms(5)
proof (induction fs arbitrary: st t)
  case Nil
  have "Decode c [] = Inl (ReadHeader EOF)"
    by (simp add: Decode_def read_full_def HeaderSize_def)
  then show ?case
    by (simp add: serve_loop.simps [of c pad ip _ "[]"] until_close_def)
next
  case (Cons f fs)
  obtain ft p nonce padding where f: "f = (ft, p, nonce, padding)" by (cases f) auto
  let ?rest = "concat (map (\<lambda>(ft, p, nonce, padding). frame_of c ft p nonce padding) fs)"
  have g: "good_frame c f" "length p \<le> MaxPayloadSize" using Cons.prems f by (auto simp: good_frame_def)
  have d: "Decode c (frame_of c ft p nonce padding @ ?rest) = Inr ((ft, p), ?rest)"
    using frames.dec_enc [OF g(1)] by (simp add: f)
  obtain eff v st' t' where h: "handle_frame c pad ip (\<lambda>_. True) (ft, p) st t = (eff, v, st', t')"
    by (metis prod_cases4)
  note spec = handle_frame_spec [OF assms(1-4) g(2) h]
  show ?case
  proof (cases v)
    case Return
    then have "ft = FrameClose" using spec by blast
    moreover have "serve_loop c pad ip (\<lambda>_. True) (frame_of c ft p nonce padding @ ?rest) st t = (eff, st')"
      by (subst serve_loop.simps) (simp add: d h Return)
    moreover have "\<not> own_packet ip (ft, p)" "ft \<noteq> FramePing"
      using \<open>ft = FrameClose\<close> by (simp_all add: own_packet_def frame_types)
    ultimately show ?thesis
      using spec f by (simp add: until_close_def)
  next
    case Continue
    then have "ft \<noteq> FrameClose" using spec by blast
    moreover have "fst (serve_loop c pad ip (\<lambda>_. True) (frame_of c ft p nonce padding @ ?rest) st t)
        = eff @ fst (serve_loop c pad ip (\<lambda>_. True) ?rest st' t')"
      by (subst serve_loop.simps) (simp add: d h Continue split: prod.splits)
    moreover from Cons.prems have "list_all (good_frame c) fs" by simp
    ultimately show ?thesis
      using spec f Cons.IH [of st' t'] by (simp add: until_close_def Let_def)
  qed
qed

lemma serve_loop_own:
  "length ip = 4 \<Longrightarrow> TunWrite p \<in> set (fst (serve_loop c pad ip wok inp st t)) \<Longrightarrow>
     20 \<le> length p \<and> slice 12 16 p = ip"
proof (induction c pad ip wok inp st t rule: serve_loop.induct)
  case (1 c pad ip wok inp st t)
  show ?case
  proof (cases "Decode c inp")
    case (Inl e)
    with "1.prems" show ?thesis by (simp add: serve_loop.simps [of c pad ip wok inp])
  next
    case (Inr mr)
    obtain m rest where mr: "mr = (m, rest)" by fastforce
    obtain eff v st' t' where h: "handle_frame c pad ip wok m st t = (eff, v, st', t')"
      by (metis prod_cases4)
    have eff: "TunWrite p \<in> set eff \<Longrightarrow> 20 \<le> length p \<and> slice 12 16 p = ip"
      using h "1.prems"(1)
      by (cases m) (auto simp: handle_frame_def Let_def split: if_splits sum.splits prod.splits)
    show ?thesis
    proof (cases v)
      case Return
      with Inr mr h eff "1.prems" show ?thesis by (simp add: serve_loop.simps [of c pad ip wok inp])
    next
      case Continue
      with Inr mr h "1.prems" have "TunWrite p \<in> set eff
          \<or> TunWrite p \<in> set (fst (serve_loop c pad ip wok rest st' t'))"
        by (auto simp: serve_loop.simps [of c pad ip wok inp] split: prod.splits)
      with eff "1.IH" [OF Inr mr [symmetric] h [symmetric] refl Continue refl] "1.prems"(1) show ?thesis by blast
    qed
  qed
qed

section \<open>Sessions of the handler\<close>

lemma remove_dead:
  assumes inv: "table_inv u" and "r < length (objs u)"
  shows "dead r (remove_session r u)"
proof (cases "byIP u (ipStr (objs u ! r)) = Some r")
  case True
  then have e: "byIP (remove_session r u) = (byIP u)(ipStr (objs u ! r) := None)"
    "byToken (remove_session r u) = (if token (objs u ! r) = [] then byToken u
       else (byToken u)(token (objs u ! r) := None))"
    unfolding remove_eq [OF inv True] detach_eq [OF inv True] by simp_all
  have "r \<notin> ran (byIP (remove_session r u))"
  proof
    assume "r \<in> ran (byIP (remove_session r u))"
    then obtain s where "s \<noteq> ipStr (objs u ! r)" "byIP u s = Some r"
      unfolding e by (auto simp: ran_def split: if_splits)
    with table_invD(3) [OF inv this(2)] show False by (simp add: ip_entry_ok_def)
  qed
  moreover have "r \<notin> ran (byToken (remove_session r u))"
  proof
    assume "r \<in> ran (byToken (remove_session r u))"
    then obtain k where "token (objs u ! r) = [] \<or> k \<noteq> token (objs u ! r)" "byToken u k = Some r"
      unfolding e by (auto simp: ran_def split: if_splits)
    with token_session [OF inv this(2)] show False by auto
  qed
  ultimately show ?thesis using assms(2) remove_maps(3) [of r u] by (simp add: dead_def)
next
  case False
  have "r \<notin> ran (byIP u)"
  proof
    assume "r \<in> ran (byIP u)"
    then obtain s where "byIP u s = Some r" by (auto simp: ran_def)
    with table_invD(3) [OF inv this] False show False by (simp add: ip_entry_ok_def)
  qed
  moreover have "r \<notin> ran (byToken u)"
    using token_session [OF inv] False by (auto simp: ran_def)
  ultimately have "dead r u" using assms(2) by (simp add: dead_def)
  then show ?thesis by (simp add: dead_def remove_noop)
qed

lemma objs_grow: "table_step t u \<Longrightarrow> length (objs t) \<le> length (objs u)"
proof (erule table_step.cases)
  fix tok pref strm t0 res t'
  assume "t = t0" "u = t'" "assign tok pref strm t0 = (res, t')"
  then show ?thesis
    using choose_ip_maps [of "token_string tok" pref t0] detach_maps(3)
    by (auto simp: assign_def register_def Let_def split: prod.splits sum.splits option.splits)
qed (auto simp: setWriter_def send_def remove_maps(3) split: option.splits prod.splits)

lemma objs_grow_steps: "table_step\<^sup>*\<^sup>* t u \<Longrightarrow> length (objs t) \<le> length (objs u)"
  by (induction rule: rtranclp_induct) (auto dest: objs_grow)

lemma inv_steps: "table_step\<^sup>*\<^sup>* t u \<Longrightarrow> table_inv t \<Longrightarrow> table_inv u"
  by (induction rule: rtranclp_induct) (auto intro: tables.inv_step)

text \<open>A session just assigned is in the table, under an address of four bytes.\<close>

lemma assigned_session:
  assumes inv: "table_inv t" and a: "assign tok pref strm t = (Inr (r, ev), t1)"
  shows "r < length (objs t1) \<and> length (cs_ip (objs t1 ! r)) = 4
    \<and> byIP t1 (ipStr (objs t1 ! r)) = Some r"
proof -
  have inv1: "table_inv t1" using assign_inv [OF inv, of tok pref strm] a by simp
  have "byIP t1 (ipStr (objs t1 ! r)) = Some r \<and> r < length (objs t1)"
    using a detach_maps(3) by (auto simp: assign_def register_def Let_def split: prod.splits sum.splits option.splits)
  with table_invD(3) [OF inv1] host_length show ?thesis by (auto simp: ip_entry_ok_def)
qed

section \<open>Properties\<close>

text \<open>
  C10. On a stream of well-formed frames the server's read loop does exactly what it should, for
  every random choice: up to the first close frame it writes to the TUN device, in order, the
  data payloads that have at least 20 bytes and carry the client's assigned source address, and
  it answers each ping, in order, with a frame that decodes to a pong with the same payload.
  Nothing else is written.
\<close>

theorem server_loop_refines_spec:
  assumes "aead_ok c" and "check_padding pad = None" and "pad_max pad \<le> 65535" and "length ip = 4"
    and "list_all (good_frame c) fs"
  shows "let es = fst (serve_loop c pad ip (\<lambda>_. True)
                    (concat (map (\<lambda>(ft, p, nonce, padding). frame_of c ft p nonce padding) fs)) st t);
             ms = until_close (map (\<lambda>(ft, p, _). (ft, p)) fs)
    in tun_writes es = map snd (filter (own_packet ip) ms)
       \<and> map (Decode c) (client_writes es)
           = map (\<lambda>(_, p). Inr ((FramePong, p), [])) (filter (\<lambda>m. fst m = FramePing) ms)"
  using assms by (rule serve_loop_frames)

definition demo_packet :: bytes where
  "demo_packet = replicate 12 0 @ [10, 7, 0, 2] @ [8, 8, 8, 8]"

theorem server_loop_refines_spec_witness:
  "let es = fst (serve_loop demo_aead \<lparr>pad_min = 0, pad_max = 0\<rparr> [10, 7, 0, 2] (\<lambda>_. True)
              (concat (map (\<lambda>(ft, p, nonce, padding). frame_of demo_aead ft p nonce padding)
                 [(FrameData, demo_packet, replicate 12 0, []), (FramePing, [5], replicate 12 0, [1])]))
              \<lparr>rxData = 0, rxBytes = 0, pings = 0\<rparr> (\<lambda>_. 0))
   in tun_writes es = [demo_packet] \<and> map (Decode demo_aead) (client_writes es) = [Inr ((FramePong, [5]), [])]"
  using server_loop_refines_spec [OF demo_aead_ok, of "\<lparr>pad_min = 0, pad_max = 0\<rparr>" "[10, 7, 0, 2]"
      "[(FrameData, demo_packet, replicate 12 0, []), (FramePing, [5], replicate 12 0, [1])]"
      "\<lparr>rxData = 0, rxBytes = 0, pings = 0\<rparr>" "\<lambda>_. 0"]
  by (simp add: check_padding_def good_frame_def demo_aead_ok NonceSize_def MaxPayloadSize_def
      demo_packet_def own_packet_def until_close_def frame_types slice_def)


text \<open>A connection for the witnesses: a hello, an address request and one packet.\<close>

definition demo_env :: client_env where
  "demo_env =
     \<lparr>pg_ok = True, mux_ok = True, accept_ok = True, hello_write_ok = True, assign_write_ok = True,
      pong_write_ok = (\<lambda>_. True), obfs_id = 1, stream_id = 2,
      chacha_new = (\<lambda>_. Some (cipher_aead demo_aead)), others = (\<lambda>u. u)\<rparr>"

definition demo_config :: Config where
  "demo_config =
     \<lparr>Server = [], Listen = [], SNI = [], TunName = [], TunCIDR = ''10.7.0.1/29'', DNS = [], PSK = [],
      Gateway = [], Padding = \<lparr>pad_min = 0, pad_max = 0\<rparr>, JitterMs = 0\<rparr>"

definition demo_input :: bytes where
  "demo_input = demo_hello @ frame_of demo_aead FrameAssign [10, 7, 0, 2] (replicate 12 0) []
     @ frame_of demo_aead FrameData demo_packet (replicate 12 0) []"

lemma demo_start_reach: "reach (table_start ''10.7.0.1/29'') table_step (newSessionTable demo_pool)"
  by (rule reach_init) (simp add: table_start_def demo_pool_new)

lemma demo_decode:
  "length p \<le> 24 \<Longrightarrow> Decode demo_aead (frame_of demo_aead ft p (replicate 12 0) [] @ rest) = Inr ((ft, p), rest)"
  by (rule Decode_frame_of [OF demo_aead_ok]) (simp_all add: NonceSize_def MaxPayloadSize_def)

lemma demo_serve:
  "tun_writes (fst (serve_loop demo_aead \<lparr>pad_min = 0, pad_max = 0\<rparr> [10, 7, 0, 2] (\<lambda>_. True)
     (frame_of demo_aead FrameData demo_packet (replicate 12 0) []) st t)) = [demo_packet]"
  using serve_loop_frames [OF demo_aead_ok, of "\<lparr>pad_min = 0, pad_max = 0\<rparr>" "[10, 7, 0, 2]"
      "[(FrameData, demo_packet, replicate 12 0, [])]" st t]
  by (simp add: check_padding_def good_frame_def demo_aead_ok NonceSize_def MaxPayloadSize_def
      demo_packet_def own_packet_def until_close_def frame_types slice_def Let_def)

lemma tun_writes_in: "p \<in> set (tun_writes es) \<Longrightarrow> TunWrite p \<in> set es"
  by (auto simp: tun_writes_def split: effect.splits)

lemma demo_run_forwards:
  "\<exists>effs guard' table'. handleClient demo_env demo_crypto [1] demo_config (100 * second) (100 * second)
     (\<lambda>_. 3) (\<lambda>_. 0) NewReplayGuard demo_input (newSessionTable demo_pool) = (effs, guard', table')
     \<and> TunWrite demo_packet \<in> set effs"
proof -
  let ?data = "frame_of demo_aead FrameData demo_packet (replicate 12 0) []"
  let ?req = "frame_of demo_aead FrameAssign [10, 7, 0, 2] (replicate 12 0) []"
  obtain out g where hs: "ServerHandshake demo_crypto [1] (100 * second) (100 * second) (\<lambda>_. 3) True
      NewReplayGuard demo_input = (out, g, Inr (replicate 32 1, ?req @ ?data))"
    using demo_accept_rest [of "?req @ ?data"] by (auto simp: demo_input_def)
  have "fst (assign [] [10, 7, 0, 2] 2 (newSessionTable demo_pool)) = Inr (0, None)" by code_simp
  then obtain t1 where a: "assign [] [10, 7, 0, 2] 2 (newSessionTable demo_pool) = (Inr (0, None), t1)"
    by (metis prod.collapse)
  have "cs_ip (objs (snd (assign [] [10, 7, 0, 2] 2 (newSessionTable demo_pool))) ! 0) = [10, 7, 0, 2]"
    by code_simp
  with a have ip: "cs_ip (objs t1 ! 0) = [10, 7, 0, 2]" by simp
  have "length (assign_payload [10, 7, 0, 2] (pool t1)) \<le> MaxPayloadSize"
    by (simp add: assign_payload_def copy_at_def MaxPayloadSize_def)
  then obtain f t' where e: "Encode FrameAssign (assign_payload [10, 7, 0, 2] (pool t1)) demo_aead
      \<lparr>pad_min = 0, pad_max = 0\<rparr> (\<lambda>_. 0) = (Inr f, t')"
    by (rule Encode_decodable [OF demo_aead_ok, rotated 2]) (auto simp: check_padding_def)
  have "TunWrite demo_packet \<in> set (fst (serve_loop demo_aead \<lparr>pad_min = 0, pad_max = 0\<rparr> [10, 7, 0, 2]
      (\<lambda>_. True) ?data \<lparr>rxData = 0, rxBytes = 0, pings = 0\<rparr> t'))"
    by (rule tun_writes_in) (simp add: demo_serve)
  then have "TunWrite demo_packet \<in> set (fst (serve_session demo_env demo_config demo_aead 0 None ?data (\<lambda>_. 0) t1))"
    by (auto simp: serve_session_def demo_env_def demo_config_def e ip split: prod.splits)
  moreover have "assign_request (FrameAssign, [10, 7, 0, 2]) = Some ([10, 7, 0, 2], [])"
    by (simp add: assign_request_def)
  moreover have "NewCipher (chacha_new demo_env) k = Some demo_aead" for k
    by (simp add: NewCipher_def demo_env_def demo_aead_def)
  moreover have "pg_ok demo_env" "mux_ok demo_env" "accept_ok demo_env" "hello_write_ok demo_env"
    "stream_id demo_env = 2"
    by (simp_all add: demo_env_def)
  ultimately show ?thesis
    using hs a demo_decode [of "[10, 7, 0, 2]" FrameAssign ?data]
    by (auto simp: handleClient_def split: prod.splits)
qed


text \<open>
  A session never outlives its connection. On every path out of the handler after the
  address was assigned (encoding or writing the reply fails, the client closes, the stream
  breaks, a pong cannot be written), and whatever steps other goroutines took meanwhile, the
  session is in neither map afterwards, and the pool's addresses are exactly those with a
  session.
\<close>

theorem session_always_removed:
  assumes "reach (table_start cidr) table_step table"
    and "assign tok pref strm table = (Inr (r, ev), table1)"
    and "table_step\<^sup>*\<^sup>* (setWriter r (obfs_id env) c table1) (others env (setWriter r (obfs_id env) c table1))"
    and "serve_session env cfg c r ev inp t table1 = (effs, table2)"
  shows "r \<notin> ran (byIP table2) \<and> r \<notin> ran (byToken table2) \<and> dom (byIP table2) = allocated (pool table2)"
proof -
  from tables.reach_inv [OF assms(1)] have inv: "table_inv table" .
  have inv1: "table_inv table1" using assign_inv [OF inv, of tok pref strm] assms(2) by simp
  note r1 = assigned_session [OF inv assms(2)]
  let ?w = "setWriter r (obfs_id env) c table1"
  have invw: "table_inv ?w" "r < length (objs ?w)"
    using setWriter_inv [OF inv1] r1 by (simp_all add: setWriter_def)
  have invo: "table_inv (others env ?w)" "r < length (objs (others env ?w))"
    using inv_steps [OF assms(3) invw(1)] objs_grow_steps [OF assms(3)] invw(2) by simp_all
  have "dead r table2 \<and> table_inv table2"
    using assms(4) remove_dead [OF inv1] remove_dead [OF invo] r1 remove_inv [OF inv1] remove_inv [OF invo(1)]
    by (auto simp: serve_session_def Let_def split: if_splits prod.splits sum.splits option.splits)
  then show ?thesis by (simp add: dead_def table_invD(2))
qed

theorem session_always_removed_witness:
  "\<exists>table1 effs table2. assign [] [] 2 (newSessionTable demo_pool) = (Inr (0, None), table1)
     \<and> serve_session demo_env demo_config demo_aead 0 None [] (\<lambda>_. 0) table1 = (effs, table2)
     \<and> 0 \<notin> ran (byIP table2)"
proof -
  have "fst (assign [] [] 2 (newSessionTable demo_pool)) = Inr (0, None)" by code_simp
  then obtain table1 where a: "assign [] [] 2 (newSessionTable demo_pool) = (Inr (0, None), table1)"
    by (metis prod.collapse)
  obtain effs table2 where s: "serve_session demo_env demo_config demo_aead 0 None [] (\<lambda>_. 0) table1
      = (effs, table2)" by fastforce
  from a s session_always_removed [OF demo_start_reach a _ s] show ?thesis
    by (simp add: demo_env_def)
qed

text \<open>
  Return traffic reaches its owner. When the dispatcher sends a packet read from the TUN
  device, it goes to the writer of the session whose assigned address is the packet's
  destination, encrypted with that session's cipher, and the client decodes exactly the packet.
\<close>

theorem dispatch_reaches_owner:
  assumes "reach (table_start cidr) table_step table"
    and "tun_dispatch pad write pkt t table = (Some (w, frame), t', table')"
    and "check_padding pad = None" and "pad_max pad \<le> 65535"
  shows "\<exists>r c. byIP table (ip_string (slice 16 20 pkt)) = Some r
    \<and> cs_ip (objs table ! r) = slice 16 20 pkt
    \<and> writer (objs table ! r) = Some w \<and> cipher (objs table ! r) = Some c
    \<and> (aead_ok c \<longrightarrow> Decode c frame = Inr ((FrameData, pkt), []))"
proof -
  from tables.reach_inv [OF assms(1)] have inv: "table_inv table" .
  from assms(2) obtain r c t1 where d: "20 \<le> length pkt" "byIP table (ip_string (slice 16 20 pkt)) = Some r"
      "cipher (objs table ! r) = Some c" "writer (objs table ! r) = Some w"
      "Encode FrameData pkt c pad t = (Inr frame, t1)"
    by (auto simp: tun_dispatch_def get_session_def cipherRef_def send_def Let_def
        split: if_splits option.splits prod.splits sum.splits)
  have "cs_ip (objs table ! r) = slice 16 20 pkt"
    using table_invD(3) [OF inv d(2)] d(1) host_length by (auto simp: ip_entry_ok_def)
  moreover have "length pkt \<le> MaxPayloadSize"
    using d(5) Encode_too_large [of pkt FrameData c pad t] by (cases "length pkt \<le> MaxPayloadSize") auto
  then have "Decode c frame = Inr ((FrameData, pkt), [])" if "aead_ok c"
    using Encode_decodable [OF that assms(3,4), of pkt FrameData t] d(5)
    by (metis append_Nil2 old.prod.inject sum.inject(2))
  ultimately show ?thesis using d by blast
qed

theorem dispatch_reaches_owner_witness:
  "\<exists>w frame t' table' r.
     tun_dispatch \<lparr>pad_min = 0, pad_max = 0\<rparr> (\<lambda>w f. (0, True)) (replicate 16 0 @ [10, 7, 0, 2]) (\<lambda>_. 0)
       (setWriter 0 5 demo_aead demo_table) = (Some (w, frame), t', table')
     \<and> writer (objs (setWriter 0 5 demo_aead demo_table) ! r) = Some w
     \<and> cs_ip (objs (setWriter 0 5 demo_aead demo_table) ! r) = [10, 7, 0, 2]"
proof -
  let ?t = "setWriter 0 5 demo_aead demo_table" and ?pkt = "replicate 16 0 @ [10, 7, 0, 2] :: bytes"
  have r: "reach (table_start ''10.7.0.1/29'') table_step ?t"
    by (rule reach_step [OF demo_table_reach]) (rule table_step.publish)
  have s: "slice 16 20 ?pkt = [10, 7, 0, 2]" "ip_string [10, 7, 0, 2] = ''10.7.0.2''"
    by (simp add: slice_def) code_simp
  have "0 < length (objs demo_table)"
    using table_invD(3) [OF tables.reach_inv [OF demo_table_reach] demo_table_entries(1)]
    by (simp add: ip_entry_ok_def)
  then have o: "byIP ?t ''10.7.0.2'' = Some 0" "cipher (objs ?t ! 0) = Some demo_aead"
      "writer (objs ?t ! 0) = Some 5"
    using demo_table_entries(1) by (simp_all add: setWriter_def)
  have "length ?pkt \<le> MaxPayloadSize" by (simp add: MaxPayloadSize_def)
  then obtain f t' where e: "Encode FrameData ?pkt demo_aead \<lparr>pad_min = 0, pad_max = 0\<rparr> (\<lambda>_. 0) = (Inr f, t')"
    by (rule Encode_decodable [OF demo_aead_ok, rotated 2]) (auto simp: check_padding_def)
  obtain table' where d: "tun_dispatch \<lparr>pad_min = 0, pad_max = 0\<rparr> (\<lambda>w f. (0, True)) ?pkt (\<lambda>_. 0) ?t
      = (Some (5, f), t', table')"
    unfolding tun_dispatch_def get_session_def cipherRef_def send_def s using o e by simp
  with dispatch_reaches_owner [OF r d] show ?thesis by (auto simp: check_padding_def s)
qed

end
