(* ===== verification/Gateway.thy ===== *)
theory Gateway
  imports Server Upstream Inet
begin

text \<open>
  Component \<open>cmd/gateway/main.go\<close>: the choice of the tunnels that routes use, the watcher that
  applies it, the assignment request, the packet path from the TUN device to the frames, the
  liveness probe, and the life of one member from session to session. Device, mux and clock are
  outside: what they deliver are arguments. Log lines are not modelled.
\<close>

section \<open>Route selection\<close>

definition activeIfaceNames :: "Pool \<Rightarrow> string list" where
  "activeIfaceNames p = List.map_filter m_iface (Active p)"

record routeSelector =
  standby :: bool
  primary :: string

definition active :: "Pool \<Rightarrow> routeSelector \<Rightarrow> string list \<times> routeSelector" where
  "active p s =
     (let healthy = activeIfaceNames p in
      if \<not> standby s then (healthy, s)
      else if primary s \<in> set healthy then ([primary s], s)
      else case healthy of
             [] \<Rightarrow> ([], s\<lparr>primary := ''''\<rparr>)
           | h # _ \<Rightarrow> ([h], s\<lparr>primary := h\<rparr>))"

text \<open>
  The watcher of pool events: an event starts or restarts the timer of three seconds, and its
  expiry applies the current selection. \<open>applied\<close> is the selection last passed to the routing
  manager and \<open>owed\<close> counts the notifications of goroutines between the change of a member's
  health and the event.
\<close>

record watcher =
  w_pool :: Pool
  w_sel :: routeSelector
  timer :: bool
  applied :: "string list"
  owed :: nat

inductive watch_step :: "watcher \<Rightarrow> watcher \<Rightarrow> bool" where
  health: "i < length (members (w_pool w)) \<Longrightarrow> set_health now v i (w_pool w) = (changed, p')
    \<Longrightarrow> watch_step w (w\<lparr>w_pool := p', owed := owed w + (if changed then 1 else 0)\<rparr>)"
| event: "0 < owed w \<Longrightarrow> watch_step w (w\<lparr>w_pool := notify (w_pool w), owed := owed w - 1\<rparr>)"
| provision: "i < length (members (w_pool w)) \<Longrightarrow> \<not> healthy (members (w_pool w) ! i)
    \<Longrightarrow> watch_step w (w\<lparr>w_pool := (w_pool w)\<lparr>members := (members (w_pool w))
          [i := SetIface iface ip (members (w_pool w) ! i)]\<rparr>\<rparr>)"
| receive: "0 < events (w_pool w)
    \<Longrightarrow> watch_step w (w\<lparr>w_pool := (w_pool w)\<lparr>events := events (w_pool w) - 1\<rparr>, timer := True\<rparr>)"
| expire: "timer w \<Longrightarrow> active (w_pool w) (w_sel w) = (names, sel')
    \<Longrightarrow> watch_step w (w\<lparr>timer := False, applied := names, w_sel := sel'\<rparr>)"

definition watch_start :: "watcher \<Rightarrow> bool" where
  "watch_start w \<longleftrightarrow> \<not> timer w \<and> owed w = 0 \<and> active (w_pool w) (w_sel w) = (applied w, w_sel w)"

section \<open>Address assignment\<close>

datatype assign_error =
    CreateCipher
  | EncodeRequest frame_error
  | WriteRequest
  | ReadResponse frame_error
  | UnexpectedResponse byte nat

definition assign_request_payload :: "IP \<Rightarrow> bytes \<Rightarrow> bytes" where
  "assign_request_payload preferred tok =
     (let pref = To4 preferred in (if pref = [] then To4 IPv4zero else pref) @ tok)"

text \<open>
  The request frame and the result: \<open>inp\<close> is what the stream delivers, until the deadline of
  fifteen seconds, and the rest of it is returned.
\<close>

definition requestIPAssignment ::
  "(bytes \<Rightarrow> AEAD option) \<Rightarrow> PaddingConfig \<Rightarrow> bool \<Rightarrow> bytes \<Rightarrow> tape \<Rightarrow> ConnManager \<Rightarrow> IP \<Rightarrow> bytes
     \<Rightarrow> bytes option \<times> (assign_error + (string \<times> bytes))" where
  "requestIPAssignment chacha pad write_ok inp t cm preferred tok =
     (case NewCipher chacha (snd (GetActiveStream cm)) of
        None \<Rightarrow> (None, Inl CreateCipher)
      | Some c \<Rightarrow>
          (case Encode FrameAssign (assign_request_payload preferred tok) c pad t of
             (Inl e, _) \<Rightarrow> (None, Inl (EncodeRequest e))
           | (Inr assignReq, _) \<Rightarrow>
               if \<not> write_ok then (None, Inl WriteRequest)
               else
                 (Some assignReq,
                  case Decode c inp of
                    Inl e \<Rightarrow> Inl (ReadResponse e)
                  | Inr ((frameType, payload), rest) \<Rightarrow>
                      if frameType \<noteq> FrameAssign \<or> length payload < 5
                      then Inl (UnexpectedResponse frameType (length payload))
                      else Inr (ip_string (To4 (take 4 payload)) @ ''/'' @ fmt_d (unat (payload ! 4)), rest))))"

section \<open>From the TUN device into the tunnel\<close>

definition fixIPv4Checksum :: "bytes \<Rightarrow> bytes" where
  "fixIPv4Checksum pkt =
     (let ihl = unat (pkt ! 0 AND 0x0f) * 4 in
      if ihl < 20 \<or> ihl > length pkt then pkt
      else
        let z = pkt[10 := 0, 11 := 0]; cs = checksum_of (sum16 (take ihl z))
        in z[10 := ucast (drop_bit 8 cs), 11 := ucast cs])"

definition IPv4bcast :: IP where "IPv4bcast = v4InV6Prefix @ [255, 255, 255, 255]"

text \<open>One packet of \<open>tunReader\<close>: \<open>None\<close> when it is skipped.\<close>

definition tun_packet :: "Member \<Rightarrow> bytes \<Rightarrow> bytes option" where
  "tun_packet m pkt =
     (if length pkt < 20 \<or> drop_bit 4 (pkt ! 0) \<noteq> 4 then None
      else
        let srcIP = slice 12 16 pkt; dstIP = slice 16 20 pkt in
        if ip_Equal dstIP IPv4bcast \<or> ip_Equal dstIP IPv4zero \<or> ip_Equal srcIP IPv4zero
           \<or> dstIP ! 0 = 224 then None
        else
          let tunIP4 = assignedIP m in
          if tunIP4 = [] then None
          else Some (fixIPv4Checksum (copy_at 12 (take 4 tunIP4) pkt)))"

definition packet_cap :: nat where "packet_cap = 256"

text \<open>The reader's loop body: the packet is queued unless the channel is full.\<close>

definition tunReader :: "Member \<Rightarrow> bytes \<Rightarrow> bytes list \<Rightarrow> bytes list" where
  "tunReader m pkt packetCh =
     (case tun_packet m pkt of
        None \<Rightarrow> packetCh
      | Some p \<Rightarrow> if length packetCh < packet_cap then packetCh @ [p] else packetCh)"

text \<open>
  The writer drains the channel: frames written, bytes counted, and the packets left. \<open>w\<close> says
  how many bytes of the next frame are written and whether that succeeds; \<open>Some True\<close> at the end
  means that a write failed.
\<close>

fun sessionWriter ::
  "Cipher \<Rightarrow> PaddingConfig \<Rightarrow> (bytes \<Rightarrow> int \<times> bool) \<Rightarrow> bytes list \<Rightarrow> tape \<Rightarrow> int
     \<Rightarrow> bytes list \<times> int \<times> bytes list \<times> bool" where
  "sessionWriter c pad w [] t tx = ([], tx, [], False)"
| "sessionWriter c pad w (pkt # packetCh) t tx =
     (case Encode FrameData pkt c pad t of
        (Inl e, t') \<Rightarrow> sessionWriter c pad w packetCh t' tx
      | (Inr frame, t') \<Rightarrow>
          let (n, ok) = w frame in
          if ok then let (fs, r) = sessionWriter c pad w packetCh t' (tx + n) in (frame # fs, r)
          else ([], tx + n, packetCh, True))"

section \<open>The liveness probe\<close>

definition probeInterval :: int where "probeInterval = 3 * second"
definition probeDeadMisses :: int where "probeDeadMisses = 4"

record rttProbe =
  probeRTTus :: int
  misses :: int
  sawPong :: bool

text \<open>Times are 64-bit nanoseconds; the subtraction wraps.\<close>

definition onPong :: "64 word \<Rightarrow> bytes \<Rightarrow> rttProbe \<Rightarrow> rttProbe" where
  "onPong now payload p =
     (let p1 = (if length payload \<ge> 8 then
                  let rtt = sint (now - get_u64 (take 8 payload))
                  in if rtt > 0 then p\<lparr>probeRTTus := rtt div 1000\<rparr> else p
                else p)
      in p1\<lparr>sawPong := True, misses := 0\<rparr>)"

datatype tick = Wedged | EncodeFailed | WriteFailed | Pinged bytes

definition probe_tick ::
  "Cipher \<Rightarrow> PaddingConfig \<Rightarrow> 64 word \<Rightarrow> bool \<Rightarrow> tape \<Rightarrow> Member \<times> rttProbe \<Rightarrow> tick \<times> tape \<times> Member \<times> rttProbe" where
  "probe_tick c pad now write_ok t = (\<lambda>(m, probe).
     let m' = SetRTTus (probeRTTus probe) m in
     if sawPong probe \<and> misses probe \<ge> probeDeadMisses then (Wedged, t, m', probe)
     else case Encode FramePing (put_u64 now) c pad t of
       (Inl e, t') \<Rightarrow> (EncodeFailed, t', m', probe)
     | (Inr ping, t') \<Rightarrow>
         if write_ok then (Pinged ping, t', m', probe\<lparr>misses := misses probe + 1\<rparr>)
         else (WriteFailed, t', m', probe))"

section \<open>From the tunnel to the TUN device\<close>

definition tunnelDataReadTimeout :: int where "tunnelDataReadTimeout = 60 * second"

text \<open>
  The reader's loop on what the stream delivers until a read fails: packets for the device, bytes
  received, the probe. \<open>clk n\<close> is the time when the \<open>n\<close>-th frame is handled.
\<close>

function tunnelToTun ::
  "Cipher \<Rightarrow> (nat \<Rightarrow> 64 word) \<Rightarrow> nat \<Rightarrow> bytes \<Rightarrow> rttProbe \<Rightarrow> int \<Rightarrow> bytes list \<times> rttProbe \<times> int" where
  "tunnelToTun c clk n inp probe rx =
     (case Decode c inp of
        Inl e \<Rightarrow> ([], probe, rx)
      | Inr ((frameType, payload), rest) \<Rightarrow>
          if frameType = FrameData then
            let (out, r) = tunnelToTun c clk (n + 1) rest probe (rx + int (length payload)) in (payload # out, r)
          else if frameType = FramePong then
            tunnelToTun c clk (n + 1) rest (onPong (clk n) payload probe) rx
          else if frameType = FrameClose then ([], probe, rx)
          else tunnelToTun c clk (n + 1) rest probe rx)"
  by pat_completeness auto
termination
  by (relation "measure (\<lambda>(c, clk, n, inp, probe, rx). length inp)") (auto dest: Decode_shrinks)

declare tunnelToTun.simps [simp del]

section \<open>The life of a member\<close>

text \<open>
  What the outside decides in one round of \<open>memberDataLoop\<close>: how long the session lasts (\<open>None\<close>:
  until the shutdown), how the reconnection attempts end, the assignment exchange, whether the
  device can be rebound, and whether the shutdown comes during the hold-down.
\<close>

record session_env =
  se_chacha :: "bytes \<Rightarrow> AEAD option"
  se_lasted :: "int option"
  se_rounds :: "(attempt \<times> bool) list"
  se_assign :: "ConnManager \<Rightarrow> IP \<Rightarrow> bytes \<Rightarrow> assign_error + string"
  se_rebind_ok :: bool
  se_shutdown :: bool
  se_now :: int

datatype loop_exit =
    CipherInit
  | ShutDown
  | StillReconnecting
  | ReconnectAborted
  | ReassignFailed
  | RebindFailed

record loop_state =
  ls_ip :: IP
  sessionNum :: nat
  flapCount :: nat

definition flapThreshold :: int where "flapThreshold = 20 * second"

definition holdoff :: "nat \<Rightarrow> int" where
  "holdoff n = (let h = int n * 5 * second in if h > 30 * second then 30 * second else h)"

definition upd_member :: "nat \<Rightarrow> (Member \<Rightarrow> Member) \<Rightarrow> Pool \<Rightarrow> Pool" where
  "upd_member i f p = p\<lparr>members := (members p)[i := f (members p ! i)]\<rparr>"

text \<open>The end of a round: the hold-down of a flapping member, then back into the pool.\<close>

definition rejoin ::
  "session_env \<Rightarrow> nat \<Rightarrow> int \<Rightarrow> IP \<Rightarrow> loop_state \<Rightarrow> Pool \<Rightarrow> (loop_exit + loop_state) \<times> int \<times> Pool" where
  "rejoin env i lasted ip ls p =
     (let flapping = lasted > 0 \<and> lasted < flapThreshold;
          n = (if flapping then flapCount ls + 1 else 0);
          wait = (if flapping then holdoff n else 0)
      in if flapping \<and> se_shutdown env then (Inl ShutDown, wait, p)
         else (Inr \<lparr>ls_ip = ip, sessionNum = sessionNum ls + 1, flapCount = n\<rparr>, wait,
               MarkHealthy (se_now env) i p))"

definition memberDataLoop ::
  "session_env \<Rightarrow> nat \<Rightarrow> loop_state \<Rightarrow> Pool \<Rightarrow> (loop_exit + loop_state) \<times> int \<times> Pool" where
  "memberDataLoop env i ls p =
     (case NewCipher (se_chacha env) (snd (GetActiveStream (CM (members p ! i)))) of
        None \<Rightarrow> (Inl CipherInit, 0, MarkUnhealthy (se_now env) i p)
      | Some c \<Rightarrow>
          (case se_lasted env of
             None \<Rightarrow> (Inl ShutDown, 0, p)
           | Some lasted \<Rightarrow>
               let p1 = MarkUnhealthy (se_now env) i (upd_member i (SetRTTus 0) p) in
               case Reconnect (se_rounds env) initialBackoff (CM (members p1 ! i)) of
                 None \<Rightarrow> (Inl StillReconnecting, 0, p1)
               | Some (Inl e, ws, cm') \<Rightarrow> (Inl ReconnectAborted, 0, upd_member i (\<lambda>m. m\<lparr>CM := cm'\<rparr>) p1)
               | Some (Inr _, ws, cm') \<Rightarrow>
                   let p2 = upd_member i (\<lambda>m. m\<lparr>CM := cm'\<rparr>) p1 in
                   case se_assign env cm' (ls_ip ls) (Token (members p2 ! i)) of
                     Inl e \<Rightarrow> (Inl ReassignFailed, 0, MarkUnhealthy (se_now env) i p2)
                   | Inr newCIDR \<Rightarrow>
                       let newIP = (case ParseCIDR newCIDR of Some (ip, _) \<Rightarrow> ip | None \<Rightarrow> []) in
                       if ip_Equal newIP (ls_ip ls) then rejoin env i lasted (ls_ip ls) ls p2
                       else if \<not> se_rebind_ok env then (Inl RebindFailed, 0, MarkUnhealthy (se_now env) i p2)
                       else rejoin env i lasted (To4 newIP) ls
                              (upd_member i (\<lambda>m. SetIface (the (m_iface m)) (To4 newIP) m) p2)))"

text \<open>
  A member that failed at the start: one round of \<open>reconnectOrphan\<close>. \<open>Inr None\<close> is another round
  after five seconds, \<open>Inr (Some ls)\<close> the start of the data loop.
\<close>

definition reconnectOrphan ::
  "session_env \<Rightarrow> bool \<Rightarrow> nat \<Rightarrow> Pool \<Rightarrow> (loop_exit + loop_state option) \<times> Pool" where
  "reconnectOrphan env create_ok i p =
     (if se_shutdown env then (Inl ShutDown, p)
      else case Reconnect (se_rounds env) initialBackoff (CM (members p ! i)) of
        None \<Rightarrow> (Inl StillReconnecting, p)
      | Some (Inl e, ws, cm') \<Rightarrow> (Inl ReconnectAborted, upd_member i (\<lambda>m. m\<lparr>CM := cm'\<rparr>) p)
      | Some (Inr _, ws, cm') \<Rightarrow>
          let p1 = upd_member i (\<lambda>m. m\<lparr>CM := cm'\<rparr>) p in
          case se_assign env cm' IPv4zero (Token (members p1 ! i)) of
            Inl e \<Rightarrow> (Inr None, p1)
          | Inr cidr \<Rightarrow>
              let ip = (case ParseCIDR cidr of Some (ip, _) \<Rightarrow> ip | None \<Rightarrow> []) in
              if \<not> create_ok then (Inr None, p1)
              else (Inr (Some \<lparr>ls_ip = ip, sessionNum = 1, flapCount = 0\<rparr>),
                    MarkHealthy (se_now env) i
                      (upd_member i (\<lambda>m. SetIface (IfName m) (To4 ip) m) p1)))"

text \<open>The members built at the start, and the provisioning of one that connected.\<close>

definition build_members :: "string \<Rightarrow> string list \<Rightarrow> (nat \<Rightarrow> bytes) \<Rightarrow> Member list" where
  "build_members baseTun servers tokens =
     map (\<lambda>i. \<lparr>Name = ''n'' @ fmt_d (i + 1), Addr = servers ! i,
               IfName = SuggestIfaceName baseTun i (length servers), CM = NewConnManager,
               Token = tokens i, healthy = False, lastDown = 0, m_iface = None, assignedIP = [],
               lastRTTus = 0\<rparr>)
       [0..<length servers]"

definition provision ::
  "int \<Rightarrow> (ConnManager \<Rightarrow> IP \<Rightarrow> bytes \<Rightarrow> assign_error + string) \<Rightarrow> (string \<Rightarrow> string \<Rightarrow> bool) \<Rightarrow> nat
     \<Rightarrow> Pool \<Rightarrow> bool \<times> Pool" where
  "provision now req create i p =
     (let m = members p ! i in
      case req (CM m) IPv4zero (Token m) of
        Inl e \<Rightarrow> (False, MarkUnhealthy now i p)
      | Inr cidr \<Rightarrow>
          let ip = (case ParseCIDR cidr of Some (ip, _) \<Rightarrow> ip | None \<Rightarrow> []) in
          if \<not> create (IfName m) cidr then (False, MarkUnhealthy now i p)
          else (True, upd_member i (SetIface (IfName m) (To4 ip)) p))"

section \<open>Routes follow the health of the pool\<close>

lemma active_idem: "active p s = (names, s') \<Longrightarrow> active p s' = (names, s')"
  by (auto simp: active_def Let_def split: if_splits list.splits)

lemma active_cong: "activeIfaceNames p = activeIfaceNames p' \<Longrightarrow> active p s = active p' s"
  by (simp add: active_def)

lemma notify_members [simp]: "members (notify p) = members p"
  by (simp add: notify_def)

lemma notify_events: "0 < events (notify p)"
  by (simp add: notify_def event_cap_def)

lemma notify_events_le: "events (notify p) \<le> events p + 1"
  by (simp add: notify_def)

lemma filter_update_unselected:
  "i < length xs \<Longrightarrow> \<not> P (xs ! i) \<Longrightarrow> \<not> P x \<Longrightarrow> filter P (xs[i := x]) = filter P xs"
  by (metis filter.simps(2) filter_append id_take_nth_drop upd_conv_take_nth_drop)

lemma set_health_unchanged: "set_health now v i p = (False, p') \<Longrightarrow> p' = p"
  by (auto simp: set_health_def setHealthy_def Let_def split: if_splits prod.splits)

text \<open>A selection that is out of date is still to be noticed.\<close>

definition pending :: "watcher \<Rightarrow> bool" where
  "pending w \<longleftrightarrow> 0 < owed w \<or> 0 < events (w_pool w) \<or> timer w"

definition watch_inv :: "watcher \<Rightarrow> bool" where
  "watch_inv w \<longleftrightarrow> pending w \<or> fst (active (w_pool w) (w_sel w)) = applied w"

lemma watch_inv_step:
  assumes "watch_inv w" "watch_step w w'"
  shows "watch_inv w'"
  using assms(2)
proof cases
  case (health i now v changed p')
  with assms(1) show ?thesis
    by (cases changed) (auto simp: watch_inv_def pending_def dest: set_health_unchanged)
next
  case event
  then show ?thesis by (simp add: watch_inv_def pending_def notify_events)
next
  case (provision i iface ip)
  let ?p = "w_pool w"
  have "activeIfaceNames (?p\<lparr>members := (members ?p)[i := SetIface iface ip (members ?p ! i)]\<rparr>)
      = activeIfaceNames ?p"
    using provision by (simp add: activeIfaceNames_def Active_def filter_update_unselected SetIface_def)
  from active_cong [OF this, of "w_sel w"] assms(1) provision show ?thesis
    by (simp add: watch_inv_def pending_def)
next
  case receive
  then show ?thesis by (simp add: watch_inv_def pending_def)
next
  case (expire names sel')
  then show ?thesis using active_idem [of "w_pool w" "w_sel w" names sel'] by (simp add: watch_inv_def)
qed

interpretation watchers: invariant_system watch_start watch_step watch_inv
  by unfold_locales (simp add: watch_start_def watch_inv_def, rule watch_inv_step)

text \<open>Pending work can be carried out, and is finite.\<close>

definition work :: "watcher \<Rightarrow> nat" where
  "work w = 3 * owed w + 2 * events (w_pool w) + (if timer w then 1 else 0)"

lemma work_step:
  "pending w \<Longrightarrow> \<exists>w'. watch_step w w' \<and> work w' < work w \<and> members (w_pool w') = members (w_pool w)"
proof -
  assume "pending w"
  then consider "0 < owed w" | "0 < events (w_pool w)" | "timer w" by (auto simp: pending_def)
  then show ?thesis
  proof cases
    case 1
    have "work (w\<lparr>w_pool := notify (w_pool w), owed := owed w - 1\<rparr>) < work w"
      using 1 notify_events_le [of "w_pool w"] by (simp add: work_def)
    with watch_step.event [OF 1] show ?thesis by fastforce
  next
    case 2
    from watch_step.receive [OF 2] 2 show ?thesis
      by (intro exI conjI) (assumption, simp_all add: work_def)
  next
    case 3
    obtain names sel' where a: "active (w_pool w) (w_sel w) = (names, sel')" by fastforce
    from watch_step.expire [OF 3 a] 3 show ?thesis
      by (intro exI conjI) (assumption, simp_all add: work_def)
  qed
qed

lemma settles:
  "\<exists>w'. watch_step\<^sup>*\<^sup>* w w' \<and> \<not> pending w' \<and> members (w_pool w') = members (w_pool w)"
proof (induction "work w" arbitrary: w rule: less_induct)
  case less
  show ?case
  proof (cases "pending w")
    case True
    from work_step [OF this] obtain w1
      where w1: "watch_step w w1" "work w1 < work w" "members (w_pool w1) = members (w_pool w)" by blast
    from less [OF w1(2)] w1 show ?thesis by (metis converse_rtranclp_into_rtranclp)
  qed auto
qed

lemma reach_rtranclp: "reach init step s \<Longrightarrow> step\<^sup>*\<^sup>* s t \<Longrightarrow> reach init step t"
  by (rotate_tac 1, induction rule: rtranclp_induct) (auto intro: reach_step)

text \<open>
  No change of health is lost. In every reachable state of the pool and its watcher, with any
  interleaving of health changes, dropped and coalesced events and timer restarts: when no event, no
  notification and no timer is outstanding, the routes are those of the current healthy members; and
  the outstanding work can always be completed, after which they are.
\<close>

theorem routes_follow_health:
  assumes "reach watch_start watch_step w"
  shows "(owed w = 0 \<and> events (w_pool w) = 0 \<and> \<not> timer w
            \<longrightarrow> applied w = fst (active (w_pool w) (w_sel w)))
    \<and> (\<exists>w'. watch_step\<^sup>*\<^sup>* w w' \<and> members (w_pool w') = members (w_pool w) \<and> \<not> pending w'
          \<and> applied w' = fst (active (w_pool w') (w_sel w')))"
proof
  show "owed w = 0 \<and> events (w_pool w) = 0 \<and> \<not> timer w
      \<longrightarrow> applied w = fst (active (w_pool w) (w_sel w))"
    using watchers.reach_inv [OF assms] by (auto simp: watch_inv_def pending_def)
  obtain w' where w': "watch_step\<^sup>*\<^sup>* w w'" "\<not> pending w'" "members (w_pool w') = members (w_pool w)"
    using settles by blast
  have "applied w' = fst (active (w_pool w') (w_sel w'))"
    using watchers.reach_inv [OF reach_rtranclp [OF assms w'(1)]] w'(2) by (simp add: watch_inv_def)
  with w' show "\<exists>w'. watch_step\<^sup>*\<^sup>* w w' \<and> members (w_pool w') = members (w_pool w) \<and> \<not> pending w'
      \<and> applied w' = fst (active (w_pool w') (w_sel w'))" by blast
qed

definition demo_member :: "string \<Rightarrow> Member" where
  "demo_member iface =
     \<lparr>Name = ''n1'', Addr = ''192.0.2.1:5432'', IfName = iface,
      CM = snd (reconnect (Established [7] False) NewConnManager), Token = replicate 8 1,
      healthy = True, lastDown = 0, m_iface = Some iface, assignedIP = [10, 7, 0, 2], lastRTTus = 0\<rparr>"

definition demo_watch :: watcher where
  "demo_watch = \<lparr>w_pool = NewPool [demo_member ''stun0'', demo_member ''stun1''],
      w_sel = \<lparr>standby = True, primary = ''stun0''\<rparr>, timer = False, applied = [''stun0''], owed = 0\<rparr>"

theorem routes_follow_health_witness:
  "\<exists>w'. watch_step\<^sup>*\<^sup>*
     (demo_watch\<lparr>w_pool := snd (set_health 9 False 0 (w_pool demo_watch)), owed := 1\<rparr>) w'
     \<and> applied w' = fst (active (w_pool w') (w_sel w'))
     \<and> activeIfaceNames (w_pool w') = [''stun1'']"
proof -
  let ?w = "demo_watch\<lparr>w_pool := snd (set_health 9 False 0 (w_pool demo_watch)), owed := 1\<rparr>"
  have init: "watch_start demo_watch"
    by (simp add: watch_start_def demo_watch_def active_def activeIfaceNames_def Active_def NewPool_def
        demo_member_def map_filter_simps)
  let ?p = "snd (set_health 9 False 0 (w_pool demo_watch))"
  have "fst (set_health 9 False 0 (w_pool demo_watch))"
    by (simp add: set_health_def setHealthy_def demo_watch_def NewPool_def demo_member_def)
  then have h: "set_health 9 False 0 (w_pool demo_watch) = (True, ?p)"
    by (cases "set_health 9 False 0 (w_pool demo_watch)") simp
  have "0 < length (members (w_pool demo_watch))" by (simp add: demo_watch_def NewPool_def)
  from watch_step.health [OF this h] have "watch_step demo_watch ?w" by (simp add: demo_watch_def)
  then have "reach watch_start watch_step ?w" using init by (blast intro: reach.intros)
  from routes_follow_health [OF this] obtain w'
    where w': "watch_step\<^sup>*\<^sup>* ?w w'" "members (w_pool w') = members (w_pool ?w)"
      "applied w' = fst (active (w_pool w') (w_sel w'))" by blast
  have "activeIfaceNames (w_pool w') = [''stun1'']"
    unfolding activeIfaceNames_def Active_def w'(2)
    by (simp add: set_health_def setHealthy_def demo_watch_def NewPool_def demo_member_def map_filter_simps)
  with w' show ?thesis by blast
qed

section \<open>The liveness probe\<close>

text \<open>What happens to a probe while every write succeeds: ticks and pongs.\<close>

datatype probe_event = Tick "64 word" | Pong "64 word" bytes

fun probe_run :: "Cipher \<Rightarrow> PaddingConfig \<Rightarrow> probe_event list \<Rightarrow> tape \<times> Member \<times> rttProbe \<Rightarrow> tape \<times> Member \<times> rttProbe" where
  "probe_run c pad [] s = s"
| "probe_run c pad (Tick now # es) (t, m, pr) =
     (let (_, s) = probe_tick c pad now True t (m, pr) in probe_run c pad es s)"
| "probe_run c pad (Pong now b # es) (t, m, pr) = probe_run c pad es (t, m, onPong now b pr)"

definition is_pong :: "probe_event \<Rightarrow> bool" where
  "is_pong e \<longleftrightarrow> (\<exists>now b. e = Pong now b)"

definition ticks_since :: "probe_event list \<Rightarrow> nat" where
  "ticks_since es = length (takeWhile (\<lambda>e. \<not> is_pong e) (rev es))"

lemma probe_run_append: "probe_run c pad (a @ b) s = probe_run c pad b (probe_run c pad a s)"
  by (induction c pad a s rule: probe_run.induct) (auto split: prod.splits)

lemma onPong_simps [simp]: "sawPong (onPong now b pr)" "misses (onPong now b pr) = 0"
  by (simp_all add: onPong_def Let_def)

lemma ping_encodes:
  assumes "check_padding pad = None"
  obtains f t' where "Encode ft (put_u64 now) c pad t = (Inr f, t')"
  using Encode_eq [OF assms, of "put_u64 now" ft c t] by (auto simp: MaxPayloadSize_def)

lemma probe_run_counts:
  assumes "check_padding pad = None"
  defines "start \<equiv> \<lparr>probeRTTus = 0, misses = 0, sawPong = False\<rparr>"
  shows "let pr = snd (snd (probe_run c pad es (t, m, start)))
         in (sawPong pr \<longleftrightarrow> (\<exists>e\<in>set es. is_pong e))
            \<and> misses pr = (if sawPong pr then min (int (ticks_since es)) probeDeadMisses else int (ticks_since es))"
proof (induction es rule: rev_induct)
  case Nil
  then show ?case by (simp add: start_def ticks_since_def)
next
  case (snoc e es)
  obtain t1 m1 pr where s: "probe_run c pad es (t, m, start) = (t1, m1, pr)" by (metis prod_cases3)
  show ?case
  proof (cases e)
    case (Pong now b)
    then show ?thesis by (simp add: probe_run_append s ticks_since_def is_pong_def probeDeadMisses_def)
  next
    case (Tick now)
    obtain f t' where "Encode FramePing (put_u64 now) c pad t1 = (Inr f, t')"
      using ping_encodes [OF assms(1)] by blast
    with Tick s snoc show ?thesis
      by (auto simp: probe_run_append probe_tick_def Let_def ticks_since_def is_pong_def probeDeadMisses_def)
  qed
qed

text \<open>
  A dead path is noticed, a live one and an old server are not mistaken for one. While writes
  succeed, the tick after any history of ticks and pongs tears the session down exactly when a pong
  has been seen in this session and at least four pings went out since the last one; otherwise it
  sends a ping.
\<close>

theorem probe_detects_dead_path:
  assumes "check_padding pad = None"
    and "probe_run c pad es (t0, m0, \<lparr>probeRTTus = 0, misses = 0, sawPong = False\<rparr>) = (t, m, pr)"
    and "probe_tick c pad now True t (m, pr) = (r, s)"
  shows "(r = Wedged \<longleftrightarrow> (\<exists>e\<in>set es. is_pong e) \<and> 4 \<le> ticks_since es) \<and> (r \<noteq> Wedged \<longrightarrow> (\<exists>f. r = Pinged f))"
proof -
  obtain f t' where "Encode FramePing (put_u64 now) c pad t = (Inr f, t')"
    using ping_encodes [OF assms(1)] by blast
  with assms(2,3) probe_run_counts [OF assms(1), of c es t0 m0] show ?thesis
    by (auto simp: probe_tick_def Let_def probeDeadMisses_def split: if_splits)
qed

theorem probe_detects_dead_path_witness:
  "let s = probe_run demo_aead \<lparr>pad_min = 0, pad_max = 0\<rparr> [Pong 5 [], Tick 6, Tick 7, Tick 8, Tick 9]
             (\<lambda>_. 0, demo_member ''stun0'', \<lparr>probeRTTus = 0, misses = 0, sawPong = False\<rparr>)
   in fst (probe_tick demo_aead \<lparr>pad_min = 0, pad_max = 0\<rparr> 10 True (fst s) (snd s)) = Wedged"
proof -
  let ?es = "[Pong 5 [], Tick 6, Tick 7, Tick 8, Tick 9]"
  obtain t m pr where s: "probe_run demo_aead \<lparr>pad_min = 0, pad_max = 0\<rparr> ?es
      (\<lambda>_. 0, demo_member ''stun0'', \<lparr>probeRTTus = 0, misses = 0, sawPong = False\<rparr>) = (t, m, pr)"
    by (metis prod_cases3)
  obtain r s' where r: "probe_tick demo_aead \<lparr>pad_min = 0, pad_max = 0\<rparr> 10 True t (m, pr) = (r, s')"
    using prod.exhaust by blast
  have "check_padding \<lparr>pad_min = 0, pad_max = 0\<rparr> = None" by (simp add: check_padding_def)
  from probe_detects_dead_path [OF this s r] have "r = Wedged"
    by (simp add: ticks_since_def is_pong_def)
  then show ?thesis unfolding s Let_def by (simp add: r)
qed

section \<open>Rounds of a member\<close>

lemma Mark_members [simp]:
  "members (MarkHealthy now i p) = (members p)[i := snd (setHealthy now True (members p ! i))]"
  "members (MarkUnhealthy now i p) = (members p)[i := snd (setHealthy now False (members p ! i))]"
  by (auto simp: MarkHealthy_def MarkUnhealthy_def set_health_def split: prod.splits)

lemma setHealthy_simps [simp]:
  "healthy (snd (setHealthy now v m)) = v" "assignedIP (snd (setHealthy now v m)) = assignedIP m"
  "CM (snd (setHealthy now v m)) = CM m" "Token (snd (setHealthy now v m)) = Token m"
  "m_iface (snd (setHealthy now v m)) = m_iface m"
  by (simp_all add: setHealthy_def)

lemma upd_member_members [simp]: "members (upd_member i f p) = (members p)[i := f (members p ! i)]"
  by (simp add: upd_member_def)

lemma SetRTTus_simps [simp]:
  "healthy (SetRTTus u m) = healthy m" "assignedIP (SetRTTus u m) = assignedIP m"
  "CM (SetRTTus u m) = CM m" "Token (SetRTTus u m) = Token m" "m_iface (SetRTTus u m) = m_iface m"
  by (simp_all add: SetRTTus_def)

lemma SetIface_simps [simp]:
  "healthy (SetIface f ip m) = healthy m" "assignedIP (SetIface f ip m) = ip" "CM (SetIface f ip m) = CM m"
  by (simp_all add: SetIface_def)

definition flapped :: "int \<Rightarrow> bool" where
  "flapped d \<longleftrightarrow> 0 < d \<and> d < 20 * second"

lemma holdoff_min: "holdoff n = min (5 * int n) 30 * second"
  by (auto simp: holdoff_def Let_def second_def min_def)

lemma rejoin_spec:
  assumes "rejoin env i d ip ls p = (r, wait, p')" "i < length (members p)" "\<not> healthy (members p ! i)"
  shows "(\<forall>j. j \<noteq> i \<longrightarrow> members p' ! j = members p ! j)
    \<and> (case r of Inl e \<Rightarrow> \<not> healthy (members p' ! i)
       | Inr ls' \<Rightarrow> healthy (members p' ! i) \<and> ls_ip ls' = ip
           \<and> assignedIP (members p' ! i) = assignedIP (members p ! i)
           \<and> sessionNum ls' = sessionNum ls + 1
           \<and> flapCount ls' = (if flapped d then flapCount ls + 1 else 0)
           \<and> wait = (if flapped d then min (5 * int (flapCount ls')) 30 * second else 0))"
  using assms by (auto simp: rejoin_def Let_def flapped_def flapThreshold_def holdoff_min split: if_splits)

text \<open>
  Members are independent, and a broken one stays out of the pool until it works again. A round of
  a member's loop that starts with a session and sees it end changes no other member. If it returns to
  the top of the loop, the member is in the active set again with the address its device uses, after a
  hold-down of five seconds per consecutive short session (at most thirty; none, and the count cleared,
  if the session lasted twenty seconds). If it leaves the loop, the member is out of the active set.
\<close>

theorem member_round:
  assumes "memberDataLoop env i ls p = (r, wait, p')" "i < length (members p)" "se_lasted env = Some d"
    and "assignedIP (members p ! i) = To4 (ls_ip ls)"
  shows "(\<forall>j. j \<noteq> i \<longrightarrow> members p' ! j = members p ! j)
    \<and> (case r of Inl e \<Rightarrow> \<not> healthy (members p' ! i)
       | Inr ls' \<Rightarrow> healthy (members p' ! i) \<and> assignedIP (members p' ! i) = To4 (ls_ip ls')
           \<and> sessionNum ls' = sessionNum ls + 1
           \<and> flapCount ls' = (if flapped d then flapCount ls + 1 else 0)
           \<and> wait = (if flapped d then min (5 * int (flapCount ls')) 30 * second else 0))"
proof -
  let ?p1 = "MarkUnhealthy (se_now env) i (upd_member i (SetRTTus 0) p)"
  show ?thesis
  proof (cases "NewCipher (se_chacha env) (snd (GetActiveStream (CM (members p ! i))))")
    case None
    with assms(1,2) show ?thesis by (auto simp: memberDataLoop_def)
  next
    case (Some c)
    show ?thesis
    proof (cases "Reconnect (se_rounds env) initialBackoff (CM (members ?p1 ! i))")
      case N: None
      with assms Some show ?thesis by (auto simp: memberDataLoop_def Let_def)
    next
      case R: (Some res)
      obtain o1 ws cm' where res: "res = (o1, ws, cm')" by (cases res) auto
      let ?p2 = "upd_member i (\<lambda>m. m\<lparr>CM := cm'\<rparr>) ?p1"
      show ?thesis
      proof (cases o1)
        case (Inl e)
        with assms Some R res show ?thesis by (auto simp: memberDataLoop_def Let_def)
      next
        case (Inr u)
        show ?thesis
        proof (cases "se_assign env cm' (ls_ip ls) (Token (members ?p2 ! i))")
          case I: (Inl e)
          with assms Some R res Inr show ?thesis by (auto simp: memberDataLoop_def Let_def)
        next
          case A: (Inr cidr)
          define newIP where "newIP = (case ParseCIDR cidr of Some (ip, _) \<Rightarrow> ip | None \<Rightarrow> [])"
          let ?p3 = "upd_member i (\<lambda>m. SetIface (the (m_iface m)) (To4 newIP) m) ?p2"
          have run: "memberDataLoop env i ls p =
              (if ip_Equal newIP (ls_ip ls) then rejoin env i d (ls_ip ls) ls ?p2
               else if \<not> se_rebind_ok env then (Inl RebindFailed, 0, MarkUnhealthy (se_now env) i ?p2)
               else rejoin env i d (To4 newIP) ls ?p3)"
            using assms(3) Some R res Inr A by (simp add: memberDataLoop_def Let_def newIP_def)
          show ?thesis
            using assms(1,2,4) rejoin_spec [of env i d "ls_ip ls" ls ?p2 r wait p']
              rejoin_spec [of env i d "To4 newIP" ls ?p3 r wait p']
            unfolding run by (auto split: if_splits sum.splits)
        qed
      qed
    qed
  qed
qed

definition demo_env :: session_env where
  "demo_env = \<lparr>se_chacha = (\<lambda>_. Some (cipher_aead demo_aead)), se_lasted = Some (7 * second),
     se_rounds = [(DialFails, False), (Established [9] False, False)],
     se_assign = (\<lambda>_ _ _. Inr ''10.7.0.9/24''), se_rebind_ok = True, se_shutdown = False, se_now = 0\<rparr>"

theorem member_round_witness:
  "case memberDataLoop demo_env 0 \<lparr>ls_ip = [10, 7, 0, 2], sessionNum = 3, flapCount = 1\<rparr>
          (NewPool [demo_member ''stun0'', demo_member ''stun1'']) of
     (r, wait, p') \<Rightarrow> wait = 10 * second \<and> members p' ! 1 = demo_member ''stun1'' \<and> healthy (members p' ! 0)"
proof -
  let ?p = "NewPool [demo_member ''stun0'', demo_member ''stun1'']"
    and ?ls = "\<lparr>ls_ip = [10, 7, 0, 2], sessionNum = 3, flapCount = 1\<rparr>"
  obtain r wait p' where m: "memberDataLoop demo_env 0 ?ls ?p = (r, wait, p')" by (metis prod_cases3)
  have "\<exists>ls'. fst (memberDataLoop demo_env 0 ?ls ?p) = Inr ls'"
    by (simp add: memberDataLoop_def demo_env_def NewCipher_def Let_def NewPool_def demo_member_def
        Reconnect.simps reconnect_def NewConnManager_def rejoin_def open_res_def)
  then obtain ls' where "r = Inr ls'" using m by auto
  moreover have "flapped (7 * second)" by (simp add: flapped_def second_def)
  ultimately show ?thesis
    using member_round [OF m, of "7 * second"]
    unfolding m by (simp add: demo_env_def NewPool_def demo_member_def)
qed

end
