(* ===== verification/Tunnel.thy ===== *)
theory Tunnel
  imports Gateway
begin

text \<open>
  The gateway and the server together: lemmas on the address exchange, on the packets the gateway
  rewrites and on both directions of the frame stream between the two programs.
\<close>

section \<open>Payloads of the address exchange\<close>

lemma assign_payload_eq:
  "length ip = 4 \<Longrightarrow> assign_payload ip p = ip @ [of_nat (PrefixLen p)]"
  by (auto simp: assign_payload_def copy_at_def numeral_eq_Suc length_Suc_conv)

lemma assign_request_payload:
  assumes "length tok = 8"
  shows "assign_request (FrameAssign, assign_request_payload preferred tok)
           = Some (if To4 preferred = [] then [0, 0, 0, 0] else To4 preferred, tok)"
proof -
  have "To4 IPv4zero = [0, 0, 0, 0]" by (simp add: To4_def IPv4zero_def v4InV6Prefix_def)
  moreover have "To4 preferred = [] \<or> length (To4 preferred) = 4" by (rule length_To4)
  ultimately show ?thesis
    using assms by (auto simp: assign_request_def assign_request_payload_def slice_def)
qed

section \<open>Rewritten packets\<close>

lemma split_at_10:
  assumes "12 \<le> length h"
  shows "h[10 := x, 11 := y] = take 10 h @ [x, y] @ drop 12 h"
  using assms by (intro nth_equalityI) (auto simp: nth_list_update nth_append less_Suc_eq)

lemma length_fixIPv4Checksum [simp]: "length (fixIPv4Checksum pkt) = length pkt"
  by (simp add: fixIPv4Checksum_def Let_def)

lemma fixIPv4Checksum_outside:
  "12 \<le> length pkt \<Longrightarrow> drop 12 (fixIPv4Checksum pkt) = drop 12 pkt"
  "10 \<le> length pkt \<Longrightarrow> take 10 (fixIPv4Checksum pkt) = take 10 pkt"
  by (simp_all add: fixIPv4Checksum_def Let_def drop_update_swap)

definition ihl :: "bytes \<Rightarrow> nat" where
  "ihl pkt = unat (pkt ! 0 AND 0x0f) * 4"

lemma fixIPv4Checksum_sums:
  assumes "20 \<le> ihl pkt" "ihl pkt \<le> length pkt" "pkt ! 0 \<noteq> 0"
  shows "checksum_of (sum16 (take (ihl pkt) (fixIPv4Checksum pkt))) = 0"
proof -
  define n where "n = ihl pkt"
  have n: "20 \<le> n" "n \<le> length pkt" "even n" using assms by (simp_all add: n_def ihl_def)
  have "unat (pkt ! 0 AND 0x0f) \<le> 15"
  proof -
    have "pkt ! 0 AND 0x0f \<le> 0x0f" by (rule word_and_le1)
    then show ?thesis by (simp add: word_le_nat_alt)
  qed
  then have n60: "n \<le> 60" by (simp add: n_def ihl_def)
  define a b where "a = take 10 pkt" and "b = drop 12 (take n pkt)"
  define z where "z = a @ [0, 0] @ b"
  have z: "take n (pkt[10 := 0, 11 := 0]) = z"
    using n by (subst split_at_10) (auto simp: z_def a_def b_def min_def drop_take take_Cons')
  let ?cs = "checksum_of (sum16 z)"
  have out: "take n (fixIPv4Checksum pkt) = a @ put_u16 ?cs @ b"
    using n assms(1,2) unfolding fixIPv4Checksum_def Let_def
    by (simp add: ihl_def [symmetric] n_def [symmetric] z z_def split_at_10 a_def b_def put_u16_def min_def drop_take take_Cons')
  have len: "length z \<le> 131074" "even (length a)" "length a = 10"
    using n n60 by (auto simp: z_def a_def b_def)
  have sz: "unat (sum16 z) = nsum16 z" by (rule unat_sum16 [OF len(1)])
  have nz: "nsum16 z = nsum16 a + nsum16 b" unfolding z_def by (subst nsum16_append) (use len in simp_all)
  have no: "nsum16 (a @ put_u16 ?cs @ b) = nsum16 z + unat ?cs"
    unfolding nz by (simp add: nsum16_append len(2) nsum16_put_u16)
  have "0 < nsum16 a"
  proof -
    obtain x y r where "pkt = x # y # r" using n by (cases pkt; cases "tl pkt") auto
    then have "a = x # y # take 8 r" by (simp add: a_def)
    moreover have "x \<noteq> 0" using assms(3) \<open>pkt = x # y # r\<close> by simp
    ultimately show ?thesis by (simp add: unat_gt_0)
  qed
  then have pos: "0 < nsum16 z" using nz by simp
  have "unat (sum16 (a @ put_u16 ?cs @ b)) = nsum16 z + unat ?cs"
    unfolding no [symmetric] by (rule unat_sum16) (use len in \<open>simp add: z_def\<close>)
  from checksum_verifies [OF sz pos this] show ?thesis
    unfolding n_def [symmetric] out by (rule fold16_ones)
qed

lemma tun_packet_spec:
  assumes "tun_packet m pkt = Some out" "length (assignedIP m) = 4"
  shows "length out = length pkt" "20 \<le> length out" "slice 12 16 out = assignedIP m"
    "drop 16 out = drop 16 pkt" "take 10 out = take 10 pkt"
    "20 \<le> ihl out \<Longrightarrow> ihl out \<le> length out \<Longrightarrow> checksum_of (sum16 (take (ihl out) out)) = 0"
proof -
  define w where "w = copy_at 12 (assignedIP m) pkt"
  have pkt: "20 \<le> length pkt" "drop_bit 4 (pkt ! 0) = 4" and out: "out = fixIPv4Checksum w"
    using assms by (auto simp: tun_packet_def Let_def w_def split: if_splits)
  have w: "w = take 12 pkt @ assignedIP m @ drop 16 pkt" "length w = length pkt"
    using pkt(1) assms(2) by (simp_all add: w_def copy_at_def)
  have d12: "drop 12 out = assignedIP m @ drop 16 pkt"
    using pkt(1) w by (simp add: out fixIPv4Checksum_outside)
  show "length out = length pkt" "20 \<le> length out" using pkt w by (simp_all add: out)
  show "slice 12 16 out = assignedIP m"
    unfolding slice_def drop_take using assms(2) by (simp add: d12)
  have "drop 4 (drop 12 out) = drop 16 pkt" unfolding d12 using assms(2) by simp
  then show "drop 16 out = drop 16 pkt" by simp
  have "take 10 out = take 10 w" using pkt w by (simp add: out fixIPv4Checksum_outside)
  then show t10: "take 10 out = take 10 pkt" using w(1) pkt(1) by (simp add: min_def)
  then have "out ! 0 = pkt ! 0" by (metis nth_take zero_less_numeral)
  moreover have "w ! 0 = pkt ! 0" using pkt by (simp add: w(1) nth_append)
  moreover have "pkt ! 0 \<noteq> 0" using pkt(2) by auto
  moreover have "ihl out = ihl w" using calculation(1,2) by (simp add: ihl_def)
  ultimately show "20 \<le> ihl out \<Longrightarrow> ihl out \<le> length out \<Longrightarrow> checksum_of (sum16 (take (ihl out) out)) = 0"
    using fixIPv4Checksum_sums [of w] by (simp add: out)
qed

text \<open>The queue between device and writer holds rewritten packets, at most its capacity.\<close>

definition tun_queue :: "Member \<Rightarrow> bytes list \<Rightarrow> bytes list" where
  "tun_queue m pkts = fold (tunReader m) pkts []"

lemma tun_queue_snoc: "tun_queue m (pkts @ [p]) = tunReader m p (tun_queue m pkts)"
  by (simp add: tun_queue_def)

lemma tun_queue_from:
  "set (tun_queue m pkts) \<subseteq> {out. \<exists>p\<in>set pkts. tun_packet m p = Some out}
   \<and> length (tun_queue m pkts) \<le> packet_cap"
proof (induction pkts rule: rev_induct)
  case Nil
  then show ?case by (simp add: tun_queue_def)
next
  case (snoc p pkts)
  then show ?case by (auto simp: tun_queue_snoc tunReader_def split: option.splits)
qed

section \<open>The frame stream\<close>

lemma sessionWriter_frames:
  assumes "aead_ok c" "check_padding pad = None" "pad_max pad \<le> 65535"
    and "list_all (\<lambda>p. length p \<le> MaxPayloadSize) pkts"
  shows "\<exists>fs. list_all (good_frame c) fs \<and> map (\<lambda>(ft, p, _). (ft, p)) fs = map (Pair FrameData) pkts
    \<and> sessionWriter c pad (\<lambda>f. (int (length f), True)) pkts t tx
        = (map (\<lambda>(ft, p, nonce, padding). frame_of c ft p nonce padding) fs,
           tx + int (length (concat (map (\<lambda>(ft, p, nonce, padding). frame_of c ft p nonce padding) fs))),
           [], False)"
  using assms(4)
proof (induction pkts arbitrary: t tx)
  case Nil
  then show ?case by (auto intro!: exI [of _ "[]"])
next
  case (Cons p pkts)
  then have p: "length p \<le> MaxPayloadSize" by simp
  from Encode_eq [OF assms(2) p, of FrameData c t] obtain nonce padding t'
    where e: "Encode FrameData p c pad t = (Inr (frame_of c FrameData p nonce padding), t')"
      "length nonce = NonceSize" "pad_max pad = 0 \<longrightarrow> padding = []"
      "0 < pad_max pad \<longrightarrow> int (length padding) \<le> pad_max pad"
    by blast
  have "length padding \<le> 65535"
    using e(3,4) assms(2,3) by (cases "pad_max pad = 0") (auto simp: check_padding_None)
  then have g: "good_frame c (FrameData, p, nonce, padding)"
    using assms(1) e(2) p by (simp add: good_frame_def)
  let ?f = "frame_of c FrameData p nonce padding"
  from Cons.IH [of t' "tx + int (length ?f)"] Cons.prems obtain fs
    where fs: "list_all (good_frame c) fs" "map (\<lambda>(ft, p, _). (ft, p)) fs = map (Pair FrameData) pkts"
      "sessionWriter c pad (\<lambda>f. (int (length f), True)) pkts t' (tx + int (length ?f))
        = (map (\<lambda>(ft, p, nonce, padding). frame_of c ft p nonce padding) fs,
           tx + int (length ?f) + int (length (concat (map (\<lambda>(ft, p, nonce, padding). frame_of c ft p nonce padding) fs))),
           [], False)"
    by auto
  show ?case
    by (rule exI [of _ "(FrameData, p, nonce, padding) # fs"]) (use g fs e(1) in simp)
qed

text \<open>What the gateway's reader should do with the messages the server sends.\<close>

definition data_of :: "(byte \<times> bytes) list \<Rightarrow> bytes list" where
  "data_of ms = map snd (filter (\<lambda>m. fst m = FrameData) (until_close ms))"

lemma tunnelToTun_frames:
  assumes "list_all (good_frame c) fs"
  shows "let (out, pr', rx') = tunnelToTun c clk n
                    (concat (map (\<lambda>(ft, p, nonce, padding). frame_of c ft p nonce padding) fs)) pr rx
    in out = data_of (map (\<lambda>(ft, p, _). (ft, p)) fs) \<and> rx' = rx + int (length (concat out))"
  using assms
proof (induction fs arbitrary: n pr rx)
  case Nil
  have "Decode c [] = Inl (ReadHeader EOF)"
    by (simp add: Decode_def read_full_def HeaderSize_def)
  then show ?case
    by (simp add: tunnelToTun.simps [of c clk n "[]"] data_of_def until_close_def)
next
  case (Cons f fs)
  obtain ft p nonce padding where f: "f = (ft, p, nonce, padding)" by (cases f) auto
  let ?rest = "concat (map (\<lambda>(ft, p, nonce, padding). frame_of c ft p nonce padding) fs)"
  have g: "good_frame c f" and gs: "list_all (good_frame c) fs" using Cons.prems by simp_all
  have d: "Decode c (frame_of c ft p nonce padding @ ?rest) = Inr ((ft, p), ?rest)"
    using frames.dec_enc [OF g] by (simp add: f)
  note IH = Cons.IH [OF gs]
  show ?case
    using IH [of "n + 1" pr "rx + int (length p)"] IH [of "n + 1" "onPong (clk n) p pr" rx]
      IH [of "n + 1" pr rx]
    by (simp add: f tunnelToTun.simps [of c clk n "frame_of c ft p nonce padding @ ?rest"] d
        data_of_def until_close_def frame_types split: prod.splits)
qed

end
