(* ===== verification/Obfs.thy ===== *)
theory Obfs
  imports Tunnel Complex_Main
begin

text \<open>
  Components \<open>internal/transport/obfs.go\<close> and \<open>internal/transport/decoy.go\<close>: the connection that adds
  timing jitter, fake keepalives and decoy traffic to a session. Real writes, the keepalive
  goroutine and the decoy goroutine run concurrently and meet at the write lock: an execution is a
  sequence of events. The float arithmetic of the random delays and sizes is outside; the decoy's
  size comes as the float before it is clamped.
\<close>

section \<open>Random values\<close>

definition MinKeepaliveDelay :: int where "MinKeepaliveDelay = 5 * second"
definition MaxKeepaliveDelay :: int where "MaxKeepaliveDelay = 30 * second"
definition decoyMinBytes :: nat where "decoyMinBytes = 64"
definition decoyMaxBytes :: nat where "decoyMaxBytes = 16 * 1024"
definition decoyIdleThreshold :: int where "decoyIdleThreshold = 2 * second"

text \<open>\<open>draw\<close> is the value of \<open>rand.Int\<close>, at least 0 and below the bound, or its error.\<close>

definition randomDuration :: "int \<Rightarrow> int option \<Rightarrow> int" where
  "randomDuration mx draw = (if mx \<le> 0 then 0 else case draw of None \<Rightarrow> mx div 2 | Some n \<Rightarrow> n)"

definition keepalive_delay :: "int option \<Rightarrow> int" where
  "keepalive_delay draw = randomDuration (MaxKeepaliveDelay - MinKeepaliveDelay) draw + MinKeepaliveDelay"

text \<open>The end of \<open>logNormalSize\<close>: \<open>None\<close> is a NaN or an infinity.\<close>

definition logNormalSize :: "real option \<Rightarrow> nat" where
  "logNormalSize sizeF =
     (case sizeF of
        None \<Rightarrow> decoyMinBytes
      | Some x \<Rightarrow>
          if x < real decoyMinBytes then decoyMinBytes
          else if x > real decoyMaxBytes then decoyMaxBytes
          else nat \<lfloor>x\<rfloor>)"

section \<open>The connection\<close>

text \<open>
  \<open>writing\<close> is the buffer of the real write that holds the lock. The two flags at the end are the
  goroutines; \<open>ob_done\<close> and \<open>dec_done\<close> are the closed channels; \<open>wire\<close> is what the underlying
  connection has taken.
\<close>

record obfs =
  jitterMax :: int
  ob_cipher :: "Cipher option"
  ob_padCfg :: PaddingConfig
  writing :: "bytes option"
  lastWriteNs :: int
  ob_done :: bool
  dec_done :: bool
  wire :: bytes
  keepalives_run :: bool
  decoys_run :: bool

definition NewObfuscatedConn :: "int \<Rightarrow> Cipher option \<Rightarrow> PaddingConfig \<Rightarrow> obfs" where
  "NewObfuscatedConn jit c pad =
     \<lparr>jitterMax = jit, ob_cipher = c, ob_padCfg = pad, writing = None, lastWriteNs = 0, ob_done = False,
      dec_done = False, wire = [], keepalives_run = (c \<noteq> None), decoys_run = (c \<noteq> None)\<rparr>"

definition write_jitter :: "obfs \<Rightarrow> int option \<Rightarrow> int" where
  "write_jitter s draw = (if jitterMax s > 0 then randomDuration (jitterMax s) draw else 0)"

text \<open>The underlying write: \<open>w\<close> says how many bytes it takes and whether it succeeds.\<close>

definition conn_write :: "(bytes \<Rightarrow> nat \<times> bool) \<Rightarrow> bytes \<Rightarrow> obfs \<Rightarrow> bool \<times> obfs" where
  "conn_write w b s = (case w b of (n, ok) \<Rightarrow> (ok, s\<lparr>wire := wire s @ (if ok then b else take n b)\<rparr>))"

text \<open>\<open>Write\<close> after its jitter: taking the lock, and the rest of it.\<close>

definition begin_write :: "bytes \<Rightarrow> obfs \<Rightarrow> obfs" where
  "begin_write b s = (if writing s = None then s\<lparr>writing := Some b\<rparr> else s)"

definition end_write :: "(bytes \<Rightarrow> nat \<times> bool) \<Rightarrow> int \<Rightarrow> obfs \<Rightarrow> obfs" where
  "end_write w now s =
     (case writing s of
        None \<Rightarrow> s
      | Some b \<Rightarrow> (snd (conn_write w b (s\<lparr>lastWriteNs := now\<rparr>)))\<lparr>writing := None\<rparr>)"

definition writeRaw :: "(bytes \<Rightarrow> nat \<times> bool) \<Rightarrow> bytes \<Rightarrow> obfs \<Rightarrow> bool \<times> obfs" where
  "writeRaw w b s = (if writing s \<noteq> None then (True, s) else conn_write w b s)"

text \<open>The body of \<open>fakeKeepalives\<close> after its delay.\<close>

definition fakeKeepalives :: "(bytes \<Rightarrow> nat \<times> bool) \<Rightarrow> tape \<times> obfs \<Rightarrow> tape \<times> obfs" where
  "fakeKeepalives w = (\<lambda>(t, s).
     case ob_cipher s of
       None \<Rightarrow> (t, s)
     | Some c \<Rightarrow>
         if \<not> keepalives_run s then (t, s)
         else case Encode FrameKeepalive [] c (ob_padCfg s) t of
           (Inl e, t') \<Rightarrow> (t', s)
         | (Inr frame, t') \<Rightarrow>
             if writing s \<noteq> None then (t', s)
             else case conn_write w frame s of
               (ok, s') \<Rightarrow> (t', if ok then s' else s'\<lparr>keepalives_run := False\<rparr>))"

text \<open>
  The body of the decoy loop after its wait: \<open>b\<close> is the byte drawn when real traffic is recent, and
  \<open>sizeF\<close> the size before the clamp.
\<close>

definition recent_write :: "int \<Rightarrow> obfs \<Rightarrow> bool" where
  "recent_write now s \<longleftrightarrow> lastWriteNs s \<noteq> 0 \<and> now - lastWriteNs s < decoyIdleThreshold"

definition decoy_loop :: "(bytes \<Rightarrow> nat \<times> bool) \<Rightarrow> int \<Rightarrow> byte \<Rightarrow> real option \<Rightarrow> tape \<times> obfs \<Rightarrow> tape \<times> obfs" where
  "decoy_loop w now b sizeF = (\<lambda>(t, s).
     case ob_cipher s of
       None \<Rightarrow> (t, s)
     | Some c \<Rightarrow>
         if \<not> decoys_run s then (t, s)
         else if recent_write now s \<and> b \<ge> 51 then (t, s)
         else
           let (payload, t1) = rand_read (logNormalSize sizeF) t in
           case Encode FrameDecoy payload c (ob_padCfg s) t1 of
             (Inl e, t2) \<Rightarrow> (t2, s)
           | (Inr frame, t2) \<Rightarrow>
               (case writeRaw w frame s of
                  (ok, s') \<Rightarrow> (t2, if ok then s' else s'\<lparr>decoys_run := False\<rparr>)))"

definition obfs_Close :: "obfs \<Rightarrow> obfs" where
  "obfs_Close s =
     (if ob_done s then s else s\<lparr>ob_done := True, dec_done := (if ob_cipher s = None then dec_done s else True)\<rparr>)"

text \<open>A goroutine that finds its channel closed returns.\<close>

definition keepalives_return :: "obfs \<Rightarrow> obfs" where
  "keepalives_return s = (if ob_done s then s\<lparr>keepalives_run := False\<rparr> else s)"

definition decoys_return :: "obfs \<Rightarrow> obfs" where
  "decoys_return s = (if dec_done s then s\<lparr>decoys_run := False\<rparr> else s)"

section \<open>Executions\<close>

datatype obfs_event =
    BeginWrite bytes
  | EndWrite int
  | KeepaliveTick
  | DecoyTick int byte "real option"
  | CloseConn
  | KeepalivesReturn
  | DecoysReturn

fun obfs_step :: "(bytes \<Rightarrow> nat \<times> bool) \<Rightarrow> obfs_event \<Rightarrow> tape \<times> obfs \<Rightarrow> tape \<times> obfs" where
  "obfs_step w (BeginWrite b) ts = (fst ts, begin_write b (snd ts))"
| "obfs_step w (EndWrite now) ts = (fst ts, end_write w now (snd ts))"
| "obfs_step w KeepaliveTick ts = fakeKeepalives w ts"
| "obfs_step w (DecoyTick now b sizeF) ts = decoy_loop w now b sizeF ts"
| "obfs_step w CloseConn ts = (fst ts, obfs_Close (snd ts))"
| "obfs_step w KeepalivesReturn ts = (fst ts, keepalives_return (snd ts))"
| "obfs_step w DecoysReturn ts = (fst ts, decoys_return (snd ts))"

definition obfs_run :: "(bytes \<Rightarrow> nat \<times> bool) \<Rightarrow> obfs_event list \<Rightarrow> tape \<times> obfs \<Rightarrow> tape \<times> obfs" where
  "obfs_run w = fold (obfs_step w)"

section \<open>Cover traffic does not disturb the session\<close>

lemma keepalive_delay_range:
  "(\<And>n. draw = Some n \<Longrightarrow> 0 \<le> n \<and> n < MaxKeepaliveDelay - MinKeepaliveDelay)
    \<Longrightarrow> MinKeepaliveDelay \<le> keepalive_delay draw \<and> keepalive_delay draw < MaxKeepaliveDelay"
  by (cases draw) (auto simp: keepalive_delay_def randomDuration_def MaxKeepaliveDelay_def MinKeepaliveDelay_def second_def)

lemma logNormalSize_range: "decoyMinBytes \<le> logNormalSize x \<and> logNormalSize x \<le> decoyMaxBytes"
  by (auto simp: logNormalSize_def decoyMinBytes_def decoyMaxBytes_def le_nat_iff nat_le_iff le_floor_iff floor_le_iff
      split: option.splits)

text \<open>The real writes of an execution that complete; \<open>p\<close> is the one in progress.\<close>

fun writes_of :: "bytes option \<Rightarrow> obfs_event list \<Rightarrow> bytes list" where
  "writes_of p [] = []"
| "writes_of p (BeginWrite b # es) = writes_of (if p = None then Some b else p) es"
| "writes_of p (EndWrite now # es) = (case p of None \<Rightarrow> [] | Some b \<Rightarrow> [b]) @ writes_of None es"
| "writes_of p (_ # es) = writes_of p es"

definition frame_bytes :: "Cipher \<Rightarrow> byte \<times> bytes \<times> bytes \<times> bytes \<Rightarrow> bytes" where
  "frame_bytes c = (\<lambda>(ft, p, nonce, padding). frame_of c ft p nonce padding)"

definition cover :: "byte \<times> bytes \<times> bytes \<times> bytes \<Rightarrow> bool" where
  "cover f \<longleftrightarrow> fst f = FrameKeepalive \<or> fst f = FrameDecoy"

definition takes_all :: "(bytes \<Rightarrow> nat \<times> bool) \<Rightarrow> bool" where
  "takes_all w \<longleftrightarrow> (\<forall>b. snd (w b))"

text \<open>What a step of a background goroutine leaves as it is, and what it adds to the wire.\<close>

definition adds_cover :: "Cipher \<Rightarrow> obfs \<Rightarrow> obfs \<Rightarrow> bool" where
  "adds_cover c s s' \<longleftrightarrow> ob_cipher s' = ob_cipher s \<and> ob_padCfg s' = ob_padCfg s
     \<and> (\<exists>fs. list_all (good_frame c) fs \<and> list_all cover fs \<and> wire s' = wire s @ concat (map (frame_bytes c) fs))"

lemma adds_coverI:
  assumes "ob_cipher s' = ob_cipher s" "ob_padCfg s' = ob_padCfg s" "wire s' = wire s"
  shows "adds_cover c s s'"
  using assms by (auto simp: adds_cover_def intro: exI [of _ "[]"])

lemma adds_cover_frame:
  assumes "aead_ok c" "check_padding pad = None" "pad_max pad \<le> 65535" "length p \<le> MaxPayloadSize"
    and "ft = FrameKeepalive \<or> ft = FrameDecoy"
  shows "\<exists>f t'. Encode ft p c pad t = (Inr f, t')
    \<and> (\<forall>s s'. ob_cipher s' = ob_cipher s \<longrightarrow> ob_padCfg s' = ob_padCfg s \<longrightarrow> wire s' = wire s @ f \<longrightarrow> adds_cover c s s')"
proof -
  from Encode_eq [OF assms(2,4), of ft c t] obtain nonce padding t'
    where e: "Encode ft p c pad t = (Inr (frame_of c ft p nonce padding), t')" "length nonce = NonceSize"
      "pad_max pad = 0 \<longrightarrow> padding = []" "0 < pad_max pad \<longrightarrow> int (length padding) \<le> pad_max pad"
    by blast
  have "length padding \<le> 65535"
    using e(3,4) assms(2,3) by (cases "pad_max pad = 0") (auto simp: check_padding_None)
  then have "good_frame c (ft, p, nonce, padding)" "cover (ft, p, nonce, padding)"
    using assms e by (auto simp: good_frame_def cover_def)
  then show ?thesis
    using e(1) by (auto simp: adds_cover_def frame_bytes_def intro!: exI [of _ "[(ft, p, nonce, padding)]"])
qed

lemma conn_write_all: "takes_all w \<Longrightarrow> conn_write w b s = (True, s\<lparr>wire := wire s @ b\<rparr>)"
  by (cases "w b") (auto simp: conn_write_def takes_all_def dest: spec [of _ b])

lemma fakeKeepalives_cover:
  assumes "aead_ok c" "check_padding (ob_padCfg s) = None" "pad_max (ob_padCfg s) \<le> 65535" "takes_all w"
    and "ob_cipher s = Some c"
  shows "adds_cover c s (snd (fakeKeepalives w (t, s)))"
proof -
  obtain f t' where f: "Encode FrameKeepalive [] c (ob_padCfg s) t = (Inr f, t')"
    "\<forall>s s'. ob_cipher s' = ob_cipher s \<longrightarrow> ob_padCfg s' = ob_padCfg s \<longrightarrow> wire s' = wire s @ f \<longrightarrow> adds_cover c s s'"
    using adds_cover_frame [OF assms(1-3), of "[]" FrameKeepalive t] by auto
  then show ?thesis
    using assms(4,5) by (auto simp: fakeKeepalives_def conn_write_all intro!: adds_coverI)
qed

lemma decoy_loop_cover:
  assumes "aead_ok c" "check_padding (ob_padCfg s) = None" "pad_max (ob_padCfg s) \<le> 65535" "takes_all w"
    and "ob_cipher s = Some c"
  shows "adds_cover c s (snd (decoy_loop w now b sizeF (t, s)))"
proof -
  obtain payload t1 where r: "rand_read (logNormalSize sizeF) t = (payload, t1)" by fastforce
  then have "length payload = logNormalSize sizeF" by (metis rand_read_length fst_conv)
  then have "length payload \<le> MaxPayloadSize"
    using logNormalSize_range [of sizeF] by (simp add: decoyMaxBytes_def MaxPayloadSize_def)
  from adds_cover_frame [OF assms(1-3) this, of FrameDecoy t1] obtain f t'
    where f: "Encode FrameDecoy payload c (ob_padCfg s) t1 = (Inr f, t')"
    "\<forall>s s'. ob_cipher s' = ob_cipher s \<longrightarrow> ob_padCfg s' = ob_padCfg s \<longrightarrow> wire s' = wire s @ f \<longrightarrow> adds_cover c s s'"
    by auto
  then show ?thesis
    using assms(4,5) r by (auto simp: decoy_loop_def writeRaw_def conn_write_all intro!: adds_coverI)
qed

lemma conn_write_writing [simp]: "writing (snd (conn_write w b s)) = writing s"
  by (simp add: conn_write_def split: prod.splits)

lemma background_writing [simp]:
  "writing (snd (fakeKeepalives w ts)) = writing (snd ts)"
  "writing (snd (decoy_loop w now b sizeF ts)) = writing (snd ts)"
proof -
  have [simp]: "conn_write w b s = (ok, s') \<Longrightarrow> writing s' = writing s" for b s ok s'
    by (metis conn_write_writing snd_conv)
  show "writing (snd (fakeKeepalives w ts)) = writing (snd ts)"
    by (auto simp: fakeKeepalives_def split: prod.splits option.splits sum.splits)
  show "writing (snd (decoy_loop w now b sizeF ts)) = writing (snd ts)"
    by (auto simp: decoy_loop_def writeRaw_def Let_def split: prod.splits option.splits sum.splits)
qed

text \<open>Whatever the schedule, the wire is a sequence of frames whose real ones are the completed writes.\<close>

lemma obfs_run_frames:
  assumes "aead_ok c" "check_padding (ob_padCfg s) = None" "pad_max (ob_padCfg s) \<le> 65535" "takes_all w"
    and "ob_cipher s = Some c"
    and "writes_of (writing s) es = map (frame_bytes c) ws" "list_all (good_frame c) ws" "list_all (\<lambda>f. \<not> cover f) ws"
  shows "\<exists>fs. list_all (good_frame c) fs \<and> filter (\<lambda>f. \<not> cover f) fs = ws
    \<and> wire (snd (obfs_run w es (t, s))) = wire s @ concat (map (frame_bytes c) fs)"
  using assms(2,3,5-)
proof (induction es arbitrary: t s ws)
  case Nil
  then show ?case by (auto simp: obfs_run_def intro: exI [of _ "[]"])
next
  case (Cons e es)
  obtain t' s' where step: "obfs_step w e (t, s) = (t', s')" by fastforce
  have run: "obfs_run w (e # es) (t, s) = obfs_run w es (t', s')" by (simp add: obfs_run_def step)
  show ?case
  proof (cases "\<exists>now b. e = EndWrite now \<and> writing s = Some b")
    case True
    then obtain now b where e: "e = EndWrite now" "writing s = Some b" by blast
    with Cons.prems(4) obtain f ws' where ws: "ws = f # ws'" "b = frame_bytes c f" "writes_of None es = map (frame_bytes c) ws'"
      by auto
    have s': "s' = s\<lparr>lastWriteNs := now, wire := wire s @ b, writing := None\<rparr>"
      using step e by (auto simp: end_write_def conn_write_all [OF assms(4)])
    from Cons.IH [of s' ws' t'] Cons.prems ws s' obtain fs where
      "list_all (good_frame c) fs" "filter (\<lambda>f. \<not> cover f) fs = ws'"
      "wire (snd (obfs_run w es (t', s'))) = wire s' @ concat (map (frame_bytes c) fs)" by auto
    then show ?thesis
      using Cons.prems ws s' unfolding run by (intro exI [of _ "f # fs"]) simp
  next
    case False
    have same: "writes_of (writing s) (e # es) = writes_of (writing s') es"
      using False step
      by (cases e) (auto simp: begin_write_def end_write_def obfs_Close_def keepalives_return_def decoys_return_def
          dest: arg_cong [of _ _ "\<lambda>ts. writing (snd ts)"] split: option.splits)
    have tick: "adds_cover c s s'" if "e = KeepaliveTick \<or> (\<exists>now b sizeF. e = DecoyTick now b sizeF)"
      using that step fakeKeepalives_cover [OF assms(1) Cons.prems(1,2) assms(4) Cons.prems(3), of t]
        decoy_loop_cover [OF assms(1) Cons.prems(1,2) assms(4) Cons.prems(3)]
      by (elim disjE exE) (metis obfs_step.simps(3,4) snd_conv)+
    have "adds_cover c s s'"
      using False step tick
      by (cases e) (auto simp: begin_write_def end_write_def obfs_Close_def keepalives_return_def decoys_return_def
          split: option.splits intro!: adds_coverI)
    then obtain gs where gs: "list_all (good_frame c) gs" "list_all cover gs" "wire s' = wire s @ concat (map (frame_bytes c) gs)"
      "ob_cipher s' = ob_cipher s" "ob_padCfg s' = ob_padCfg s"
      by (auto simp: adds_cover_def)
    from Cons.IH [of s' ws t'] Cons.prems same gs(4,5) obtain fs where
      "list_all (good_frame c) fs" "filter (\<lambda>f. \<not> cover f) fs = ws"
      "wire (snd (obfs_run w es (t', s'))) = wire s' @ concat (map (frame_bytes c) fs)" by auto
    moreover have "filter (\<lambda>f. \<not> cover f) gs = []"
      using gs(2) by (auto simp: filter_empty_conv list_all_iff)
    ultimately show ?thesis
      using gs(1,3) unfolding run by (intro exI [of _ "gs @ fs"]) simp
  qed
qed

lemma until_close_cover:
  assumes "\<And>ft p. P (ft, p) \<Longrightarrow> ft \<noteq> FrameKeepalive \<and> ft \<noteq> FrameDecoy"
  shows "filter P (until_close (map (\<lambda>(ft, p, _). (ft, p)) (filter (\<lambda>f. \<not> cover f) fs)))
    = filter P (until_close (map (\<lambda>(ft, p, _). (ft, p)) fs))"
proof (induction fs)
  case (Cons f fs)
  obtain ft p r where f: "f = (ft, p, r)" by (metis prod_cases3)
  show ?case
  proof (cases "cover f")
    case True
    then have "ft \<noteq> FrameClose" "\<not> P (ft, p)" using assms f by (auto simp: cover_def frame_types)
    with True Cons f show ?thesis by (simp add: until_close_def)
  next
    case False
    with Cons f show ?thesis by (cases "ft = FrameClose") (simp_all add: until_close_def)
  qed
qed simp

lemma data_of_cover:
  "data_of (map (\<lambda>(ft, p, _). (ft, p)) (filter (\<lambda>f. \<not> cover f) fs)) = data_of (map (\<lambda>(ft, p, _). (ft, p)) fs)"
  using until_close_cover [of "\<lambda>m. fst m = FrameData" fs] by (simp add: data_of_def frame_types)

lemma frame_bytes_map: "map (frame_bytes c) fs = map (\<lambda>(ft, p, nonce, padding). frame_of c ft p nonce padding) fs"
  by (simp add: frame_bytes_def)



end
