(* ===== verification/Client.thy ===== *)
theory Client
  imports Dns Obfs RouterLinux "HOL-Library.Sublist"
begin

text \<open>
  Component \<open>cmd/client/main.go\<close>: the command line, the address request, the packet paths and the
  tunnel loop of the Linux client with its exits. What the mux, the device and the dialler deliver
  are arguments. A call of \<open>fatal\<close> ends the process at once, so deferred calls run only when
  \<open>runConnect\<close> returns. Log lines are not modelled.
\<close>

section \<open>The command line\<close>

text \<open>
  What \<open>main\<close> ends up doing. \<open>found\<close> is the result of \<open>findConfig\<close> and \<open>wizard\<close> the path that the
  wizard returns.
\<close>

datatype client_action =
    Usage
  | ShowVersion
  | UnknownCommand string
  | MissingValue string
  | UnknownFlag string
  | SetupWizard
  | RunConnect string
  | DoNothing

fun parse_args :: "string list \<Rightarrow> string \<Rightarrow> client_action + string" where
  "parse_args [] cfgPath = Inr cfgPath"
| "parse_args (a # args) cfgPath =
     (if a = ''-c'' \<or> a = ''--config'' then
        (case args of [] \<Rightarrow> Inl (MissingValue a) | v # rest \<Rightarrow> parse_args rest v)
      else if \<not> prefix ''-'' a then parse_args args a
      else Inl (UnknownFlag a))"

definition client_main :: "string \<Rightarrow> string \<Rightarrow> string list \<Rightarrow> client_action" where
  "client_main found wizard args =
     (if args = [] \<or> hd args \<in> {''-h'', ''--help'', ''help''} then Usage
      else if hd args \<in> {''-v'', ''--version'', ''version''} then ShowVersion
      else
        let known = hd args \<in> {''connect'', ''up'', ''setup''} in
        if \<not> known \<and> hd args \<notin> {''-c'', ''--config''} then UnknownCommand (hd args)
        else
          let cmd = (if known then hd args else ''connect'');
              rest = (if known then tl args else args)
          in if cmd = ''setup'' then SetupWizard
             else case parse_args rest [] of
               Inl a \<Rightarrow> a
             | Inr path \<Rightarrow>
                 let path1 = (if path = [] then found else path);
                     path2 = (if path1 = [] then wizard else path1)
                 in if cmd = ''connect'' then RunConnect path2 else DoNothing)"

definition tunName :: "Config \<Rightarrow> string" where
  "tunName cfg = (if TunName cfg \<noteq> [] then TunName cfg else ''stun0'')"

text \<open>
  The host of the DoH endpoint, or its first address; \<open>hostname\<close> is \<open>url.Parse\<close> with \<open>Hostname\<close>, and
  \<open>lookup\<close> is \<open>net.LookupHost\<close>.
\<close>

definition parseHost :: "(string \<Rightarrow> string option) \<Rightarrow> (string \<Rightarrow> string list option) \<Rightarrow> string \<Rightarrow> string" where
  "parseHost hostname lookup endpoint =
     (case hostname endpoint of
        None \<Rightarrow> []
      | Some host \<Rightarrow>
          if ParseIP host \<noteq> [] then host
          else (case lookup host of Some (ip # ips) \<Rightarrow> ip | _ \<Rightarrow> []))"

definition serverHost :: "Config \<Rightarrow> string" where
  "serverHost cfg = (case SplitHostPort (Server cfg) of Some (h, p) \<Rightarrow> h | None \<Rightarrow> Server cfg)"

section \<open>Address assignment\<close>

definition client_preferred :: "Config \<Rightarrow> IP" where
  "client_preferred cfg =
     (if TunCIDR cfg \<noteq> [] then
        (case ParseCIDR (TunCIDR cfg) of Some (ip, _) \<Rightarrow> To4 ip | None \<Rightarrow> To4 IPv4zero)
      else To4 IPv4zero)"

definition client_requestIPAssignment ::
  "(bytes \<Rightarrow> AEAD option) \<Rightarrow> bool \<Rightarrow> bytes \<Rightarrow> tape \<Rightarrow> ConnManager \<Rightarrow> Config
     \<Rightarrow> bytes option \<times> (assign_error + (string \<times> bytes))" where
  "client_requestIPAssignment chacha write_ok inp t cm cfg =
     (case NewCipher chacha (snd (GetActiveStream cm)) of
        None \<Rightarrow> (None, Inl CreateCipher)
      | Some c \<Rightarrow>
          (case Encode FrameAssign (client_preferred cfg) c (Padding cfg) t of
             (Inl e, _) \<Rightarrow> (None, Inl (EncodeRequest e))
           | (Inr assignReq, _) \<Rightarrow>
               if \<not> write_ok then (None, Inl WriteRequest)
               else
                 (Some assignReq,
                  case Decode c inp of
                    Inl e \<Rightarrow> Inl (ReadResponse e)
                  | Inr ((frameType, payload), rest) \<Rightarrow>
                      if frameType \<noteq> FrameAssign \<or> length payload < 5
                      then Inl (UnexpectedResponse frameType (length payload))
                      else Inr (ip_string (To4 (take 4 payload)) @ ''/'' @ fmt_d (unat (payload ! 4)), rest))))"

section \<open>Packets\<close>

definition readBufSize :: nat where "readBufSize = nat DefaultMTU + 100"

text \<open>\<open>ReadPacket\<close> returns a fresh copy of what fits into the buffer.\<close>

definition ReadPacket :: "string + bytes \<Rightarrow> string + bytes" where
  "ReadPacket dev = (case dev of Inl e \<Rightarrow> Inl e | Inr pkt \<Rightarrow> Inr (take readBufSize pkt))"

text \<open>
  One packet of \<open>clientTunReader\<close>: the channel and the queries handed to resolver goroutines.
\<close>

definition client_read :: "bool \<Rightarrow> bytes \<Rightarrow> bytes list \<times> (bytes \<times> bytes) list \<Rightarrow> bytes list \<times> (bytes \<times> bytes) list" where
  "client_read resolver pkt = (\<lambda>(packetCh, queries).
     if resolver \<and> fst (IsDNSPacket pkt) then (packetCh, queries @ [(pkt, snd (IsDNSPacket pkt))])
     else (if length packetCh < packet_cap then packetCh @ [pkt] else packetCh, queries))"

text \<open>
  The reader's loop on what the device delivers, until a read fails; with each packet comes whether
  the shutdown is noticed when it is to be queued.
\<close>

fun clientTunReader ::
  "bool \<Rightarrow> ((string + bytes) \<times> bool) list \<Rightarrow> bytes list \<times> (bytes \<times> bytes) list
     \<Rightarrow> bytes list \<times> (bytes \<times> bytes) list" where
  "clientTunReader resolver [] s = s"
| "clientTunReader resolver ((dev, shut) # devs) s =
     (case ReadPacket dev of
        Inl e \<Rightarrow> s
      | Inr pkt \<Rightarrow>
          if shut \<and> \<not> (resolver \<and> fst (IsDNSPacket pkt)) then s
          else clientTunReader resolver devs (client_read resolver pkt s))"

text \<open>
  The writer of a session: frames passed to the connection, the packets left in the channel, and
  whether it stopped at a failed write.
\<close>

fun clientSessionWriter ::
  "Cipher \<Rightarrow> PaddingConfig \<Rightarrow> (bytes \<Rightarrow> bool) \<Rightarrow> bytes list \<Rightarrow> tape \<Rightarrow> bytes list \<times> bytes list \<times> bool" where
  "clientSessionWriter c pad w [] t = ([], [], False)"
| "clientSessionWriter c pad w (pkt # packetCh) t =
     (case Encode FrameData pkt c pad t of
        (Inl e, t') \<Rightarrow> clientSessionWriter c pad w packetCh t'
      | (Inr frame, t') \<Rightarrow>
          if w frame then (case clientSessionWriter c pad w packetCh t' of (fs, r) \<Rightarrow> (frame # fs, r))
          else ([], packetCh, True))"

definition serverDataReadTimeout :: int where "serverDataReadTimeout = 60 * second"

text \<open>The loop on what the stream delivers until a read fails or times out: packets for the device.\<close>

function serverToTun :: "Cipher \<Rightarrow> bytes \<Rightarrow> bytes list" where
  "serverToTun c inp =
     (case Decode c inp of
        Inl e \<Rightarrow> []
      | Inr ((frameType, payload), rest) \<Rightarrow>
          if frameType = FrameData then payload # serverToTun c rest
          else if frameType = FrameClose then []
          else serverToTun c rest)"
  by pat_completeness auto
termination
  by (relation "measure (\<lambda>(c, inp). length inp)") (auto dest: Decode_shrinks)

declare serverToTun.simps [simp del]

section \<open>The tunnel loop\<close>

datatype client_fail =
    NoConnection
  | NoAssignment assign_error
  | NoTun router_error
  | NoRoutes router_error
  | NoCipher
  | NoReconnect conn_error
  | NoReassignment assign_error
  | OtherAddress string

datatype client_exit = FatalExit client_fail | Returned

text \<open>
  One round: \<open>None\<close> for a session that lasts until a signal, otherwise the session is lost and the
  attempts of the reconnection and the assignment exchange follow.
\<close>

record client_round =
  cr_lost :: bool
  cr_rounds :: "(attempt \<times> bool) list"
  cr_assign :: "ConnManager \<Rightarrow> Config \<Rightarrow> assign_error + string"

text \<open>\<open>None\<close> is a client that is still running when the rounds are used up.\<close>

fun client_loop ::
  "(bytes \<Rightarrow> AEAD option) \<Rightarrow> Config \<Rightarrow> IP \<Rightarrow> client_round list \<Rightarrow> ConnManager \<Rightarrow> (client_exit \<times> ConnManager) option" where
  "client_loop chacha cfg assigned [] cm = None"
| "client_loop chacha cfg assigned (r # rs) cm =
     (case NewCipher chacha (snd (GetActiveStream cm)) of
        None \<Rightarrow> Some (FatalExit NoCipher, cm)
      | Some c \<Rightarrow>
          if \<not> cr_lost r then Some (Returned, cm)
          else case Reconnect (cr_rounds r) initialBackoff cm of
            None \<Rightarrow> None
          | Some (Inl e, ws, cm') \<Rightarrow> Some (FatalExit (NoReconnect e), cm')
          | Some (Inr u, ws, cm') \<Rightarrow>
              (case cr_assign r cm' cfg of
                 Inl e \<Rightarrow> Some (FatalExit (NoReassignment e), cm')
               | Inr newCIDR \<Rightarrow>
                   let newIP = (case ParseCIDR newCIDR of Some (ip, _) \<Rightarrow> ip | None \<Rightarrow> []) in
                   if ip_Equal newIP assigned then client_loop chacha cfg assigned rs cm'
                   else Some (FatalExit (OtherAddress newCIDR), cm')))"

text \<open>
  \<open>runConnect\<close> on a kernel: the manager after the first connection (or its failure), the first
  assignment, device, routes, loop, and the deferred calls when it returns. The result is how it
  ends and the kernel state then; a device that is left open goes with the process.
\<close>

definition runConnect ::
  "'k netlink \<Rightarrow> (bytes \<Rightarrow> AEAD option) \<Rightarrow> (string \<Rightarrow> string) \<Rightarrow> Config \<Rightarrow> ConnManager option
     \<Rightarrow> (ConnManager \<Rightarrow> Config \<Rightarrow> assign_error + string) \<Rightarrow> client_round list \<Rightarrow> 'k \<Rightarrow> (client_exit \<times> 'k) option" where
  "runConnect nl chacha host_of cfg first req rounds k =
     (let k0 = CleanupStaleRoutes (serverHost cfg) k in
      case first of
        None \<Rightarrow> Some (FatalExit NoConnection, k0)
      | Some cm \<Rightarrow>
          (case req cm cfg of
             Inl e \<Rightarrow> Some (FatalExit (NoAssignment e), k0)
           | Inr cidr \<Rightarrow>
               (case CreateTUN nl (tunName cfg) cidr DefaultMTU k0 of
                  (Inl e, k1) \<Rightarrow> Some (FatalExit (NoTun e), k1)
                | (Inr dev, k1) \<Rightarrow>
                    let bypassIPs = (if DNS cfg \<noteq> [] \<and> host_of (DNS cfg) \<noteq> [] then [host_of (DNS cfg)] else [])
                    in case SetupRoutes nl (serverHost cfg) dev cidr (Gateway cfg) bypassIPs k1 of
                      (Inl e, k2) \<Rightarrow> Some (FatalExit (NoRoutes e), k2)
                    | (Inr (cleanupRoutes, gwInfo), k2) \<Rightarrow>
                        let assigned = (case ParseCIDR cidr of Some (ip, _) \<Rightarrow> ip | None \<Rightarrow> [])
                        in case client_loop chacha cfg assigned rounds cm of
                             None \<Rightarrow> None
                           | Some (FatalExit f, cm') \<Rightarrow> Some (FatalExit f, k2)
                           | Some (Returned, cm') \<Rightarrow>
                               Some (Returned, nl_close_tun nl dev (run_cleanup nl cleanupRoutes k2)))))"

text \<open>The start of \<open>runConnect\<close>: what \<open>config.Load\<close> returned, and the key.\<close>

datatype client_loaded = StartConfig load_error | StartPSK | Started Config

definition client_load :: "load_error + Config \<Rightarrow> client_loaded" where
  "client_load loaded =
     (case loaded of
        Inl e \<Rightarrow> StartConfig e
      | Inr cfg \<Rightarrow> if PSKBytes cfg = None then StartPSK else Started cfg)"

section \<open>The client's loops and the gateway's\<close>

text \<open>The client's reader and writer do what the gateway's do, without counting.\<close>

lemma serverToTun_gateway: "serverToTun c inp = fst (tunnelToTun c clk n inp pr rx)"
proof (induction "length inp" arbitrary: inp n pr rx rule: less_induct)
  case less
  show ?case
  proof (cases "Decode c inp")
    case (Inl e)
    then show ?thesis by (simp add: serverToTun.simps [of c inp] tunnelToTun.simps [of c clk n inp])
  next
    case (Inr m)
    obtain ft p rest where m: "m = ((ft, p), rest)" by (metis prod_cases3 surj_pair)
    note IH = less [OF Decode_shrinks [OF Inr [unfolded m]]]
    show ?thesis
      using IH [of "n + 1" pr "rx + int (length p)"] IH [of "n + 1" "onPong (clk n) p pr" rx] IH [of "n + 1" pr rx]
      by (simp add: serverToTun.simps [of c inp] tunnelToTun.simps [of c clk n inp] Inr m frame_types split: prod.splits)
  qed
qed

lemma clientSessionWriter_gateway:
  "clientSessionWriter c pad w ch t =
     (case sessionWriter c pad (\<lambda>f. (n f, w f)) ch t tx of (fs, tx', left, failed) \<Rightarrow> (fs, left, failed))"
proof (induction ch arbitrary: t tx)
  case (Cons p ch)
  obtain r t1 where e: "Encode FrameData p c pad t = (r, t1)" by fastforce
  show ?case
  proof (cases r)
    case (Inl x)
    with e Cons [of t1 tx] show ?thesis by simp
  next
    case (Inr f)
    with e Cons [of t1 "tx + n f"] show ?thesis by (auto split: prod.splits)
  qed
qed simp

section \<open>No DNS in the tunnel\<close>

lemma client_read_all:
  "fst (clientTunReader resolver (map (\<lambda>p. (Inr p, False)) pkts) (q, qs))
     = take packet_cap q @ take (packet_cap - length q)
         (filter (\<lambda>p. \<not> (resolver \<and> fst (IsDNSPacket p))) (map (take readBufSize) pkts))"
  if "length q \<le> packet_cap"
  using that
proof (induction pkts arbitrary: q qs)
  case (Cons p pkts)
  let ?p = "take readBufSize p"
  show ?case
  proof (cases "resolver \<and> fst (IsDNSPacket ?p)")
    case True
    with Cons show ?thesis by (auto simp: ReadPacket_def client_read_def)
  next
    case False
    show ?thesis
    proof (cases "length q < packet_cap")
      case True
      with False Cons.IH [of "q @ [?p]" qs] show ?thesis
        by (auto simp: ReadPacket_def client_read_def Suc_diff_Suc [symmetric])
    next
      case full: False
      with Cons.prems have "length q = packet_cap" by simp
      with False full Cons.IH [of q qs] show ?thesis
        by (auto simp: ReadPacket_def client_read_def)
    qed
  qed
qed simp

lemma client_read_queries:
  "snd (clientTunReader resolver (map (\<lambda>p. (Inr p, False)) pkts) (q, qs))
     = qs @ map (\<lambda>p. (p, snd (IsDNSPacket p)))
         (filter (\<lambda>p. resolver \<and> fst (IsDNSPacket p)) (map (take readBufSize) pkts))"
  by (induction pkts arbitrary: q qs) (auto simp: ReadPacket_def client_read_def)

text \<open>
  The client's traffic at the server, without DNS. When a resolver is configured, every IPv4 packet
  for UDP port 53 read from the device goes to the resolver and none into the tunnel; the first 256
  others wait for the writer, and once written the server puts exactly those of them on its device
  that carry the client's own source address, unchanged and in order.
\<close>

theorem client_traffic:
  assumes "aead_ok c" "check_padding pad = None" "pad_max pad \<le> 65535"
    and "check_padding pad' = None" "pad_max pad' \<le> 65535" "length ip = 4"
    and "clientTunReader resolver (map (\<lambda>p. (Inr p, False)) pkts) ([], []) = (q, queries)"
    and "clientSessionWriter c pad (\<lambda>_. True) q t = (fs, left, failed)"
  defines "dns \<equiv> \<lambda>p. resolver \<and> fst (IsDNSPacket p)"
  shows "queries = map (\<lambda>p. (p, snd (IsDNSPacket p))) (filter dns (map (take readBufSize) pkts))
    \<and> q = take packet_cap (filter (\<lambda>p. \<not> dns p) (map (take readBufSize) pkts))
    \<and> tun_writes (fst (serve_loop c pad' ip (\<lambda>_. True) (concat fs) st t'))
        = filter (\<lambda>p. 20 \<le> length p \<and> slice 12 16 p = ip) q"
proof -
  have q: "queries = map (\<lambda>p. (p, snd (IsDNSPacket p))) (filter dns (map (take readBufSize) pkts))"
    "q = take packet_cap (filter (\<lambda>p. \<not> dns p) (map (take readBufSize) pkts))"
    using client_read_queries [of resolver pkts "[]" "[]"] client_read_all [of "[]" resolver pkts "[]"] assms(7)
    by (simp_all add: dns_def)
  have "\<forall>p\<in>set q. length p \<le> readBufSize"
    unfolding q(2) by (auto dest!: in_set_takeD)
  then have lens: "list_all (\<lambda>p. length p \<le> MaxPayloadSize) q"
    by (auto simp: list_all_iff readBufSize_def DefaultMTU_def MaxPayloadSize_def)
  from sessionWriter_frames [OF assms(1-3) lens, of t 0] assms(8) obtain gs
    where gs: "list_all (good_frame c) gs" "map (\<lambda>(ft, p, _). (ft, p)) gs = map (Pair FrameData) q"
      "fs = map (\<lambda>(ft, p, nonce, padding). frame_of c ft p nonce padding) gs"
    unfolding clientSessionWriter_gateway [of c pad _ q t "\<lambda>f. int (length f)" 0] by auto
  have "until_close (map (Pair FrameData) q) = map (Pair FrameData) q"
    by (simp add: until_close_def takeWhile_eq_all_conv frame_types)
  moreover have "map snd (filter (own_packet ip) (map (Pair FrameData) q)) = filter (\<lambda>p. 20 \<le> length p \<and> slice 12 16 p = ip) q"
    by (induction q) (auto simp: own_packet_def)
  ultimately have "tun_writes (fst (serve_loop c pad' ip (\<lambda>_. True) (concat fs) st t'))
      = filter (\<lambda>p. 20 \<le> length p \<and> slice 12 16 p = ip) q"
    using serve_loop_frames [OF assms(1,4,5,6) gs(1), of st t'] by (simp add: gs(2,3) Let_def)
  with q show ?thesis by blast
qed

definition demo_dns_packet :: bytes where
  "demo_dns_packet = [0x45, 0, 0, 30, 0, 0, 0, 0, 64, 17, 0, 0, 10, 7, 0, 2, 8, 8, 8, 8, 0x10, 0, 0, 53, 0, 10, 0, 0, 1, 2]"

definition demo_client_packet :: bytes where
  "demo_client_packet = [0x45, 0, 0, 20, 0, 0, 0, 0, 64, 6, 0, 0, 10, 7, 0, 2, 8, 8, 8, 8]"

theorem client_traffic_witness:
  "\<exists>q queries fs r. clientTunReader True (map (\<lambda>p. (Inr p, False)) [demo_dns_packet, demo_client_packet]) ([], []) = (q, queries)
     \<and> clientSessionWriter demo_aead \<lparr>pad_min = 0, pad_max = 0\<rparr> (\<lambda>_. True) q (\<lambda>_. 0) = (fs, r)
     \<and> map snd queries = [[1, 2]]
     \<and> tun_writes (fst (serve_loop demo_aead \<lparr>pad_min = 0, pad_max = 0\<rparr> [10, 7, 0, 2] (\<lambda>_. True) (concat fs)
          \<lparr>rxData = 0, rxBytes = 0, pings = 0\<rparr> (\<lambda>_. 0))) = [demo_client_packet]"
proof -
  let ?pad = "\<lparr>pad_min = 0, pad_max = 0\<rparr>" and ?pkts = "[demo_dns_packet, demo_client_packet]"
  have pad: "check_padding ?pad = None" "pad_max ?pad \<le> 65535" by (simp_all add: check_padding_def)
  have ip: "length [10, 7, 0, 2 :: byte] = 4" by simp
  obtain q queries where q: "clientTunReader True (map (\<lambda>p. (Inr p, False)) ?pkts) ([], []) = (q, queries)"
    by fastforce
  obtain fs left failed where fs: "clientSessionWriter demo_aead ?pad (\<lambda>_. True) q (\<lambda>_. 0) = (fs, left, failed)"
    by (metis prod_cases3)
  have d: "map (take readBufSize) ?pkts = ?pkts" "IsDNSPacket demo_dns_packet = (True, [1, 2])"
    "\<not> fst (IsDNSPacket demo_client_packet)"
    by code_simp+
  have s: "slice 12 16 demo_client_packet = [10, 7, 0, 2]" "20 \<le> length demo_client_packet"
    by code_simp+
  from client_traffic [OF demo_aead_ok pad pad ip q fs, of "\<lparr>rxData = 0, rxBytes = 0, pings = 0\<rparr>" "\<lambda>_. 0"] q fs
  show ?thesis
    unfolding d(1) by (simp add: d s packet_cap_def)
qed

section \<open>How a client ends\<close>

lemma runConnect_cases:
  assumes "runConnect nl chacha host_of cfg first req rounds k = Some (e, k')"
    and "e \<in> {Returned, FatalExit NoCipher} \<or> (\<exists>x. e = FatalExit (NoReconnect x))
      \<or> (\<exists>x. e = FatalExit (NoReassignment x)) \<or> (\<exists>x. e = FatalExit (OtherAddress x))"
  obtains cm cm' cidr dev k1 k2 ips c info assigned where "first = Some cm" "req cm cfg = Inr cidr"
    "CreateTUN nl (tunName cfg) cidr DefaultMTU k = (Inr dev, k1)"
    "SetupRoutes nl (serverHost cfg) dev cidr (Gateway cfg) ips k1 = (Inr (c, info), k2)"
    "client_loop chacha cfg assigned rounds cm = Some (e, cm')"
    "k' = (if e = Returned then nl_close_tun nl dev (run_cleanup nl c k2) else k2)"
proof -
  from assms obtain cm cidr where 1: "first = Some cm" "req cm cfg = Inr cidr"
    by (auto simp: runConnect_def Let_def split: option.splits sum.splits)
  obtain x k1 where 2: "CreateTUN nl (tunName cfg) cidr DefaultMTU k = (x, k1)" by fastforce
  with assms 1 obtain dev where dev: "x = Inr dev"
    by (cases x) (auto simp: runConnect_def CleanupStaleRoutes_def Let_def)
  define ips where "ips = (if DNS cfg \<noteq> [] \<and> host_of (DNS cfg) \<noteq> [] then [host_of (DNS cfg)] else [])"
  define assigned where "assigned = (case ParseCIDR cidr of Some (ip, _) \<Rightarrow> ip | None \<Rightarrow> [])"
  obtain y k2 where 3: "SetupRoutes nl (serverHost cfg) dev cidr (Gateway cfg) ips k1 = (y, k2)" by fastforce
  have run: "runConnect nl chacha host_of cfg first req rounds k =
      (case y of
         Inl e \<Rightarrow> Some (FatalExit (NoRoutes e), k2)
       | Inr (cu, gw) \<Rightarrow>
           (case client_loop chacha cfg assigned rounds cm of
              None \<Rightarrow> None
            | Some (FatalExit f, cm') \<Rightarrow> Some (FatalExit f, k2)
            | Some (Returned, cm') \<Rightarrow> Some (Returned, nl_close_tun nl dev (run_cleanup nl cu k2))))"
    using 1 2 3 dev by (cases y) (simp_all add: runConnect_def CleanupStaleRoutes_def Let_def ips_def assigned_def)
  from assms run obtain c info where y: "y = Inr (c, info)" by (cases y) auto
  with assms(1) run obtain q where q: "client_loop chacha cfg assigned rounds cm = Some q"
    by (cases "client_loop chacha cfg assigned rounds cm") auto
  obtain e' cm' where q': "q = (e', cm')" by fastforce
  have "e' = e" "k' = (if e = Returned then nl_close_tun nl dev (run_cleanup nl c k2) else k2)"
    using assms(1) run y q q' by (cases e'; auto)+
  then show thesis using that 1 2 3 dev y q q' by blast
qed



definition demo_client :: Config where
  "demo_client = demo_config\<lparr>Server := ''1.2.3.4:5432'', TunName := [], TunCIDR := [], DNS := [], Gateway := []\<rparr>"

definition demo_round :: "bool \<Rightarrow> client_round" where
  "demo_round lost = \<lparr>cr_lost = lost, cr_rounds = [(Established [] False, False)], cr_assign = (\<lambda>_ _. Inr ''10.7.0.3/24'')\<rparr>"

definition demo_run :: "bool \<Rightarrow> (client_exit \<times> nlroute list) option" where
  "demo_run lost = runConnect demo_nl (\<lambda>_. Some (cipher_aead demo_aead)) (\<lambda>_. []) demo_client (Some NewConnManager)
     (\<lambda>_ _. Inr ''10.7.0.2/24'') [demo_round lost] [default_route [192, 168, 0, 1] 2]"


section \<open>The address after a reconnection\<close>

text \<open>The exchange without the rest of the stream.\<close>

definition client_exchange ::
  "(bytes \<Rightarrow> AEAD option) \<Rightarrow> bytes \<Rightarrow> tape \<Rightarrow> ConnManager \<Rightarrow> Config \<Rightarrow> assign_error + string" where
  "client_exchange chacha inp t cm cfg =
     (case snd (client_requestIPAssignment chacha True inp t cm cfg) of Inl e \<Rightarrow> Inl e | Inr (s, _) \<Rightarrow> Inr s)"

lemma client_preferred_length: "client_preferred cfg = [] \<or> length (client_preferred cfg) = 4"
  using length_To4 by (auto simp: client_preferred_def split: option.splits)

lemma client_exchange_reply:
  assumes "NewCipher chacha (snd (GetActiveStream cm)) = Some c" "aead_ok c"
    and "check_padding (Padding cfg) = None" "pad_max (Padding cfg) \<le> 65535"
    and "check_padding pad' = None" "pad_max pad' \<le> 65535" "length ip = 4" "PrefixLen p \<le> 32"
    and "Encode FrameAssign (assign_payload ip p) c pad' t' = (Inr reply, t'')"
  shows "client_exchange chacha (reply @ rest) t cm cfg = Inr (ip_string ip @ ''/'' @ fmt_d (PrefixLen p))"
proof -
  have "length (client_preferred cfg) \<le> MaxPayloadSize"
    using client_preferred_length [of cfg] by (auto simp: MaxPayloadSize_def)
  then obtain req t1 where req: "Encode FrameAssign (client_preferred cfg) c (Padding cfg) t = (Inr req, t1)"
    using Encode_decodable [OF assms(2-4)] by metis
  have "length (assign_payload ip p) \<le> MaxPayloadSize"
    using assms(7) by (simp add: assign_payload_eq MaxPayloadSize_def)
  from Encode_decodable [OF assms(2,5,6) this] assms(9)
  have "Decode c (reply @ rest) = Inr ((FrameAssign, assign_payload ip p), rest)"
    by (metis Pair_inject sum.inject(2))
  moreover have "unat (of_nat (PrefixLen p) :: byte) = PrefixLen p" using assms(8) by (simp add: unat_of_nat)
  ultimately show ?thesis
    using assms(1,7) by (simp add: client_exchange_def client_requestIPAssignment_def req assign_payload_eq nth_append)
qed

text \<open>A request for no particular address without a token gets an address that nobody has.\<close>

lemma assign_fresh_address:
  assumes inv: "table_inv t" and "assign [] [0, 0, 0, 0] strm t = (Inr (r, ev), t')"
  shows "length (cs_ip (objs t' ! r)) = 4 \<and> ip_string (cs_ip (objs t' ! r)) \<notin> dom (byIP t)"
proof -
  have z: "ip_Equal [0, 0, 0, 0] IPv4zero" by simp
  have k: "token_string [] = []" by (simp add: token_string_def)
  obtain x p' where al: "Allocate [0, 0, 0, 0] (pool t) = (x, p')" by fastforce
  have "\<exists>ip. x = Inr ip"
    using assms(2) al z by (cases x) (auto simp: assign_def choose_ip_def k)
  then obtain ip where ip: "x = Inr ip" by blast
  from Allocate_ok [OF table_invD(1) [OF inv] al [unfolded ip]]
  have a: "length ip = 4" "ip_string ip \<notin> allocated (pool t)" by (auto simp: pool_hosts_def)
  have "cs_ip (objs t' ! r) = ip"
    using assms(2) al ip a(1) by (auto simp: assign_def choose_ip_def k register_def Let_def nth_append)
  with a table_invD(2) [OF inv] show ?thesis by simp
qed

text \<open>
  A client without a configured address does not survive a reconnection while the server still has
  its old session. The client asks for no particular address and sends no token, whatever address it
  had before; the server cannot recognise it and gives it an address that is not in use, so not the
  old one; the client sees that the address differs and ends by \<open>fatal\<close>.
\<close>

theorem reconnect_without_address_fails:
  assumes "table_inv tbl" "ip_string A \<in> dom (byIP tbl)" "length A = 4" "TunCIDR cfg = []"
    and "assign_request (FrameAssign, client_preferred cfg) = Some (pref, tok)"
    and "assign tok pref strm tbl = (Inr (r, ev), tbl')"
    and "Encode FrameAssign (assign_payload (cs_ip (objs tbl' ! r)) (pool tbl')) c pad' t' = (Inr reply, t'')"
    and "NewCipher chacha (snd (GetActiveStream cm)) \<noteq> None"
    and "Reconnect (cr_rounds rd) initialBackoff cm = Some (Inr u, ws, cm')"
    and "NewCipher chacha (snd (GetActiveStream cm')) = Some c" "aead_ok c"
    and "check_padding (Padding cfg) = None" "pad_max (Padding cfg) \<le> 65535"
    and "check_padding pad' = None" "pad_max pad' \<le> 65535"
    and "cr_lost rd" "cr_assign rd = client_exchange chacha (reply @ rest) t"
  shows "\<exists>newCIDR. client_loop chacha cfg (v4InV6Prefix @ A) (rd # rds) cm
      = Some (FatalExit (OtherAddress newCIDR), cm')"
proof -
  let ?ip = "cs_ip (objs tbl' ! r)"
  have req: "pref = [0, 0, 0, 0]" "tok = []"
    using assms(4,5) by (auto simp: client_preferred_def assign_request_def IPv4zero_def To4_mapped slice_def)
  note fresh = assign_fresh_address [OF assms(1) assms(6) [unfolded req]]
  have "table_inv tbl'" using assign_inv [OF assms(1), of tok pref strm] assms(6) by simp
  then have pre: "PrefixLen (pool tbl') \<le> 32"
    using table_invD(1) by (auto simp: pool_inv_def PrefixLen_def good_net_def)
  from client_exchange_reply [OF assms(10-15) fresh [THEN conjunct1] pre assms(7)] assms(17)
  have x: "cr_assign rd cm' cfg = Inr (ip_string ?ip @ ''/'' @ fmt_d (PrefixLen (pool tbl')))" by simp
  obtain net where p: "ParseCIDR (ip_string ?ip @ ''/'' @ fmt_d (PrefixLen (pool tbl'))) = Some (v4InV6Prefix @ ?ip, net)"
    using ParseCIDR_print [OF fresh [THEN conjunct1] pre] by blast
  have "?ip \<noteq> A" using fresh assms(2) by auto
  then have "\<not> ip_Equal (v4InV6Prefix @ ?ip) (v4InV6Prefix @ A)"
    using fresh assms(3) by (simp add: ip_Equal_def)
  with assms(8,9,16) x p show ?thesis by (auto simp: Let_def)
qed


text \<open>The server after the first connection of a client without token and address.\<close>

definition demo_first :: sessionTable where
  "demo_first = snd (assign [] [0, 0, 0, 0] 7 (newSessionTable demo_pool))"

lemma demo_first_inv: "table_inv demo_first"
proof -
  have "reach (table_start ''10.7.0.1/29'') table_step (newSessionTable demo_pool)"
    by (rule reach_init) (simp add: table_start_def demo_pool_new)
  from tables.reach_inv [OF this] show ?thesis
    unfolding demo_first_def by (rule assign_inv)
qed

theorem reconnect_without_address_fails_witness:
  "\<exists>rd cm' newCIDR. client_loop (\<lambda>_. Some (cipher_aead demo_aead)) demo_client (v4InV6Prefix @ [10, 7, 0, 2]) [rd] NewConnManager
      = Some (FatalExit (OtherAddress newCIDR), cm') \<and> cr_lost rd"
proof -
  let ?pad = "\<lparr>pad_min = 0, pad_max = 0\<rparr>" and ?chacha = "\<lambda>_. Some (cipher_aead demo_aead)"
  have pad: "check_padding ?pad = None" "pad_max ?pad \<le> 65535" by (simp_all add: check_padding_def)
  have old: "ip_string [10, 7, 0, 2] \<in> dom (byIP demo_first)"
  proof -
    have "byIP demo_first (ip_string [10, 7, 0, 2]) \<noteq> None" by code_simp
    then show ?thesis by (simp add: domIff)
  qed
  have cfg: "TunCIDR demo_client = []" "Padding demo_client = ?pad" by (simp_all add: demo_client_def demo_config_def)
  have req: "assign_request (FrameAssign, client_preferred demo_client) = Some ([0, 0, 0, 0], [])" by code_simp
  obtain r ev tbl' where a: "assign [] [0, 0, 0, 0] 9 demo_first = (Inr (r, ev), tbl')"
  proof -
    have "case fst (assign [] [0, 0, 0, 0] 9 demo_first) of Inr _ \<Rightarrow> True | Inl _ \<Rightarrow> False" by code_simp
    then show thesis using that by (cases "assign [] [0, 0, 0, 0] 9 demo_first") (auto split: sum.splits)
  qed
  have "length (cs_ip (objs tbl' ! r)) = 4"
    using assign_fresh_address [OF demo_first_inv a] by simp
  then have "length (assign_payload (cs_ip (objs tbl' ! r)) (pool tbl')) \<le> MaxPayloadSize"
    by (simp add: assign_payload_eq MaxPayloadSize_def)
  then obtain reply t'' where e: "Encode FrameAssign (assign_payload (cs_ip (objs tbl' ! r)) (pool tbl')) demo_aead ?pad (\<lambda>_. 0) = (Inr reply, t'')"
    using Encode_decodable [OF demo_aead_ok pad] by metis
  let ?rd = "\<lparr>cr_lost = True, cr_rounds = [(Established [] False, False)], cr_assign = client_exchange ?chacha (reply @ []) (\<lambda>_. 0)\<rparr>"
  have c: "NewCipher ?chacha k = Some demo_aead" for k by (simp add: NewCipher_def demo_aead_def)
  obtain u ws cm' where rc: "Reconnect (cr_rounds ?rd) initialBackoff NewConnManager = Some (Inr u, ws, cm')"
    by (simp add: Reconnect.simps NewConnManager_def reconnect_def Let_def)
  from reconnect_without_address_fails [OF demo_first_inv old _ cfg(1) req a e _ rc c demo_aead_ok, where rest = "[]" and t = "\<lambda>_. 0" and rds = "[]"]
  have "\<exists>newCIDR. client_loop ?chacha demo_client (v4InV6Prefix @ [10, 7, 0, 2]) [?rd] NewConnManager
      = Some (FatalExit (OtherAddress newCIDR), cm')"
    by (simp add: c cfg pad del: client_loop.simps)
  then show ?thesis by (metis (no_types, lifting) client_round.select_convs(1))
qed

end
