(* ===== verification/Tray.thy ===== *)
theory Tray
  imports Client
begin

text \<open>
  Component \<open>cmd/tray/tunnel.go\<close> with the event loop and the shutdown of \<open>cmd/tray/main.go\<close>: the
  tunnel controller of the tray application, as a transition system of the user interface goroutine,
  the goroutine of a tunnel and the channel of states between them; and the packet paths of its
  tunnel; and the texts of the menu by state. Icons are not modelled.
\<close>

section \<open>The controller\<close>

datatype State = Disconnected | Connecting | Connected | Disconnecting

instantiation State :: enum
begin

definition "enum_State = [Disconnected, Connecting, Connected, Disconnecting]"
definition "enum_all_State P \<longleftrightarrow> P Disconnected \<and> P Connecting \<and> P Connected \<and> P Disconnecting"
definition "enum_ex_State P \<longleftrightarrow> P Disconnected \<or> P Connecting \<or> P Connected \<or> P Disconnecting"

instance
proof
  have split: "s \<in> set enum_class.enum" for s :: State
    by (cases s) (simp_all add: enum_State_def)
  then show "UNIV = (set enum_class.enum :: State set)" by auto
  show "distinct (enum_class.enum :: State list)" by (simp add: enum_State_def)
  show "enum_class.enum_all P \<longleftrightarrow> Ball UNIV P" "enum_class.enum_ex P \<longleftrightarrow> Bex UNIV P" for P :: "State \<Rightarrow> bool"
    by (auto simp: enum_all_State_def enum_ex_State_def) (metis State.exhaust)+
qed

end

definition State_String :: "State \<Rightarrow> string" where
  "State_String s =
     (case s of Disconnected \<Rightarrow> ''Disconnected'' | Connecting \<Rightarrow> ''Connecting...''
      | Connected \<Rightarrow> ''Connected'' | Disconnecting \<Rightarrow> ''Disconnecting...'')"

lemma State_String_inj: "\<forall>s t. State_String s = State_String t \<longrightarrow> s = t"
  by code_simp

text \<open>
  Where the goroutine of a tunnel (\<open>run\<close>) is: connecting, checking for a stop, creating the device,
  setting up the routes, announcing, in a session, after a lost session, reconnecting, about to run
  its deferred clean-up. \<open>RIdle\<close> is no goroutine.
\<close>

datatype run_phase =
  RIdle | RDial | RStopCheck | RCreateTun | RRoutes | RAnnounce | RSession | RLost | RReconnect | RLeave

text \<open>
  The goroutine of the user interface: in its loop, about to call \<open>Disconnect\<close>, in the blocking send
  of a state (the flags say that this belongs to a shutdown), waiting for the end of the tunnel in a
  shutdown, or done.
\<close>

datatype ui_phase = UIdle | UCall bool | USend State bool | UAwait | UQuit

text \<open>
  \<open>unsent\<close> are the non-blocking sends of \<open>setState\<close> that have not taken place yet; closing a closed
  channel panics. The last three fields are the connection, the device and the routes of the tunnel.
\<close>

record TunnelController =
  tstate :: State
  lastErr :: bool
  stopClosed :: bool
  panicked :: bool
  stateCh :: "State list"
  unsent :: "State list"
  runs :: run_phase
  ui :: ui_phase
  cmOpen :: bool
  tunOpen :: bool
  routesUp :: bool

definition NewTunnelController :: TunnelController where
  "NewTunnelController =
     \<lparr>tstate = Disconnected, lastErr = False, stopClosed = False, panicked = False, stateCh = [], unsent = [],
      runs = RIdle, ui = UIdle, cmOpen = False, tunOpen = False, routesUp = False\<rparr>"

definition stateCap :: nat where "stateCap = 8"

definition setState :: "State \<Rightarrow> TunnelController \<Rightarrow> TunnelController" where
  "setState s tc = tc\<lparr>tstate := s, unsent := unsent tc @ [s]\<rparr>"

text \<open>\<open>Connect\<close> and \<open>Disconnect\<close> up to their blocking send, and the rest of them.\<close>

definition tray_Connect :: "TunnelController \<Rightarrow> TunnelController" where
  "tray_Connect tc =
     (if tstate tc \<noteq> Disconnected then tc
      else tc\<lparr>tstate := Connecting, lastErr := False, stopClosed := False, ui := USend Connecting False\<rparr>)"

definition ui_after :: "bool \<Rightarrow> ui_phase" where
  "ui_after shut = (if shut then UAwait else UIdle)"

definition tray_Disconnect :: "bool \<Rightarrow> TunnelController \<Rightarrow> TunnelController" where
  "tray_Disconnect shut tc =
     (if tstate tc \<noteq> Connected \<and> tstate tc \<noteq> Connecting then tc\<lparr>ui := ui_after shut\<rparr>
      else tc\<lparr>tstate := Disconnecting, ui := USend Disconnecting shut\<rparr>)"

definition ui_sent :: "State \<Rightarrow> bool \<Rightarrow> TunnelController \<Rightarrow> TunnelController" where
  "ui_sent s shut tc =
     (let tc1 = tc\<lparr>stateCh := stateCh tc @ [s]\<rparr> in
      if s = Connecting then tc1\<lparr>runs := RDial, ui := UIdle\<rparr>
      else tc1\<lparr>panicked := panicked tc1 \<or> stopClosed tc1, stopClosed := True, ui := ui_after shut\<rparr>)"

text \<open>
  The toggle of the menu, and a signal or the quit entry. Only this goroutine leaves the state
  \<open>Disconnected\<close>, so reading the state and \<open>Connect\<close> are one step, while the tunnel may end between
  reading the state and \<open>Disconnect\<close>.
\<close>

definition toggle :: "TunnelController \<Rightarrow> TunnelController" where
  "toggle tc =
     (case tstate tc of
        Disconnected \<Rightarrow> tray_Connect tc
      | Connected \<Rightarrow> tc\<lparr>ui := UCall False\<rparr>
      | _ \<Rightarrow> tc)"

definition gracefulShutdown :: "TunnelController \<Rightarrow> TunnelController" where
  "gracefulShutdown tc =
     (if tstate tc = Connected \<or> tstate tc = Connecting then tc\<lparr>ui := UCall True\<rparr>
      else tc\<lparr>ui := UQuit\<rparr>)"

text \<open>The end of \<open>run\<close>: on an error before the routes are up, and the deferred function.\<close>

definition give_up :: "bool \<Rightarrow> TunnelController \<Rightarrow> TunnelController" where
  "give_up err tc =
     setState Disconnected (tc\<lparr>lastErr := lastErr tc \<or> err, tunOpen := False, cmOpen := False, runs := RIdle\<rparr>)"

definition leave :: "TunnelController \<Rightarrow> TunnelController" where
  "leave tc = setState Disconnected (tc\<lparr>routesUp := False, tunOpen := False, cmOpen := False, runs := RIdle\<rparr>)"

datatype tray_event =
    Toggle | Quit | UIDisconnect | UISend | UIReceive | Notify State
  | BadKey | DialFails | DialOk | StopSeen | NoStop | TunFails | TunOk | RoutesFail | RoutesOk | Announce
  | CipherFails | SessionLost | SessionStopped | LostStopped | LostGoOn | ReconnectOk | ReconnectErr | Leave

text \<open>
  One step. \<open>Reconnect\<close> returns an error only when the manager is closed, which the controller does
  nowhere but at the end of \<open>run\<close>.
\<close>

inductive tray_step :: "TunnelController \<Rightarrow> tray_event \<Rightarrow> TunnelController \<Rightarrow> bool" where
  "ui tc = UIdle \<Longrightarrow> tray_step tc Toggle (toggle tc)"
| "ui tc = UIdle \<Longrightarrow> tray_step tc Quit (gracefulShutdown tc)"
| "ui tc = UCall shut \<Longrightarrow> tray_step tc UIDisconnect (tray_Disconnect shut tc)"
| "ui tc = USend s shut \<Longrightarrow> length (stateCh tc) < stateCap \<Longrightarrow> tray_step tc UISend (ui_sent s shut tc)"
| "ui tc = UIdle \<Longrightarrow> stateCh tc = s # r \<Longrightarrow> tray_step tc UIReceive (tc\<lparr>stateCh := r\<rparr>)"
| "ui tc = UAwait \<Longrightarrow> stateCh tc = s # r
    \<Longrightarrow> tray_step tc UIReceive (tc\<lparr>stateCh := r, ui := (if s = Disconnected then UQuit else UAwait)\<rparr>)"
| "s \<in> set (unsent tc)
    \<Longrightarrow> tray_step tc (Notify s) (tc\<lparr>unsent := remove1 s (unsent tc), stateCh := (if length (stateCh tc) < stateCap then stateCh tc @ [s] else stateCh tc)\<rparr>)"
| "runs tc = RDial \<Longrightarrow> tray_step tc BadKey (give_up True tc)"
| "runs tc = RDial \<Longrightarrow> tray_step tc DialFails (give_up True tc)"
| "runs tc = RDial \<Longrightarrow> tray_step tc DialOk (tc\<lparr>cmOpen := True, runs := RStopCheck\<rparr>)"
| "runs tc = RStopCheck \<Longrightarrow> stopClosed tc \<Longrightarrow> tray_step tc StopSeen (give_up False tc)"
| "runs tc = RStopCheck \<Longrightarrow> \<not> stopClosed tc \<Longrightarrow> tray_step tc NoStop (tc\<lparr>runs := RCreateTun\<rparr>)"
| "runs tc = RCreateTun \<Longrightarrow> tray_step tc TunFails (give_up True tc)"
| "runs tc = RCreateTun \<Longrightarrow> tray_step tc TunOk (tc\<lparr>tunOpen := True, runs := RRoutes\<rparr>)"
| "runs tc = RRoutes \<Longrightarrow> tray_step tc RoutesFail (give_up True tc)"
| "runs tc = RRoutes \<Longrightarrow> tray_step tc RoutesOk (tc\<lparr>routesUp := True, runs := RAnnounce\<rparr>)"
| "runs tc = RAnnounce \<Longrightarrow> tray_step tc Announce (setState Connected (tc\<lparr>runs := RSession\<rparr>))"
| "runs tc = RSession \<Longrightarrow> tray_step tc CipherFails (tc\<lparr>runs := RLeave\<rparr>)"
| "runs tc = RSession \<Longrightarrow> tray_step tc SessionLost (tc\<lparr>runs := RLost\<rparr>)"
| "runs tc = RSession \<Longrightarrow> stopClosed tc \<Longrightarrow> tray_step tc SessionStopped (tc\<lparr>runs := RLeave\<rparr>)"
| "runs tc = RLost \<Longrightarrow> stopClosed tc \<Longrightarrow> tray_step tc LostStopped (tc\<lparr>runs := RLeave\<rparr>)"
| "runs tc = RLost \<Longrightarrow> \<not> stopClosed tc \<Longrightarrow> tray_step tc LostGoOn (tc\<lparr>runs := RReconnect\<rparr>)"
| "runs tc = RReconnect \<Longrightarrow> tray_step tc ReconnectOk (tc\<lparr>runs := RSession\<rparr>)"
| "runs tc = RReconnect \<Longrightarrow> \<not> cmOpen tc \<Longrightarrow> tray_step tc ReconnectErr (tc\<lparr>lastErr := True, runs := RLeave\<rparr>)"
| "runs tc = RLeave \<Longrightarrow> tray_step tc Leave (leave tc)"

text \<open>The same steps as a function, to run examples.\<close>

fun tray_exec :: "TunnelController \<Rightarrow> tray_event \<Rightarrow> TunnelController option" where
  "tray_exec tc Toggle = (if ui tc = UIdle then Some (toggle tc) else None)"
| "tray_exec tc Quit = (if ui tc = UIdle then Some (gracefulShutdown tc) else None)"
| "tray_exec tc UIDisconnect = (case ui tc of UCall shut \<Rightarrow> Some (tray_Disconnect shut tc) | _ \<Rightarrow> None)"
| "tray_exec tc UISend =
     (case ui tc of
        USend s shut \<Rightarrow> if length (stateCh tc) < stateCap then Some (ui_sent s shut tc) else None
      | _ \<Rightarrow> None)"
| "tray_exec tc UIReceive =
     (case stateCh tc of
        [] \<Rightarrow> None
      | s # r \<Rightarrow>
          if ui tc = UIdle then Some (tc\<lparr>stateCh := r\<rparr>)
          else if ui tc = UAwait
          then Some (tc\<lparr>stateCh := r, ui := (if s = Disconnected then UQuit else UAwait)\<rparr>) else None)"
| "tray_exec tc (Notify s) =
     (if s \<in> set (unsent tc)
      then Some (tc\<lparr>unsent := remove1 s (unsent tc),
                   stateCh := (if length (stateCh tc) < stateCap then stateCh tc @ [s] else stateCh tc)\<rparr>)
      else None)"
| "tray_exec tc BadKey = (if runs tc = RDial then Some (give_up True tc) else None)"
| "tray_exec tc DialFails = (if runs tc = RDial then Some (give_up True tc) else None)"
| "tray_exec tc DialOk = (if runs tc = RDial then Some (tc\<lparr>cmOpen := True, runs := RStopCheck\<rparr>) else None)"
| "tray_exec tc StopSeen = (if runs tc = RStopCheck \<and> stopClosed tc then Some (give_up False tc) else None)"
| "tray_exec tc NoStop = (if runs tc = RStopCheck \<and> \<not> stopClosed tc then Some (tc\<lparr>runs := RCreateTun\<rparr>) else None)"
| "tray_exec tc TunFails = (if runs tc = RCreateTun then Some (give_up True tc) else None)"
| "tray_exec tc TunOk = (if runs tc = RCreateTun then Some (tc\<lparr>tunOpen := True, runs := RRoutes\<rparr>) else None)"
| "tray_exec tc RoutesFail = (if runs tc = RRoutes then Some (give_up True tc) else None)"
| "tray_exec tc RoutesOk = (if runs tc = RRoutes then Some (tc\<lparr>routesUp := True, runs := RAnnounce\<rparr>) else None)"
| "tray_exec tc Announce = (if runs tc = RAnnounce then Some (setState Connected (tc\<lparr>runs := RSession\<rparr>)) else None)"
| "tray_exec tc CipherFails = (if runs tc = RSession then Some (tc\<lparr>runs := RLeave\<rparr>) else None)"
| "tray_exec tc SessionLost = (if runs tc = RSession then Some (tc\<lparr>runs := RLost\<rparr>) else None)"
| "tray_exec tc SessionStopped = (if runs tc = RSession \<and> stopClosed tc then Some (tc\<lparr>runs := RLeave\<rparr>) else None)"
| "tray_exec tc LostStopped = (if runs tc = RLost \<and> stopClosed tc then Some (tc\<lparr>runs := RLeave\<rparr>) else None)"
| "tray_exec tc LostGoOn = (if runs tc = RLost \<and> \<not> stopClosed tc then Some (tc\<lparr>runs := RReconnect\<rparr>) else None)"
| "tray_exec tc ReconnectOk = (if runs tc = RReconnect then Some (tc\<lparr>runs := RSession\<rparr>) else None)"
| "tray_exec tc ReconnectErr =
     (if runs tc = RReconnect \<and> \<not> cmOpen tc then Some (tc\<lparr>lastErr := True, runs := RLeave\<rparr>) else None)"
| "tray_exec tc Leave = (if runs tc = RLeave then Some (leave tc) else None)"

inductive_simps tray_step_simps:
  "tray_step tc Toggle tc'" "tray_step tc Quit tc'" "tray_step tc UIDisconnect tc'" "tray_step tc UISend tc'"
  "tray_step tc UIReceive tc'" "tray_step tc (Notify s) tc'" "tray_step tc BadKey tc'" "tray_step tc DialFails tc'"
  "tray_step tc DialOk tc'" "tray_step tc StopSeen tc'" "tray_step tc NoStop tc'" "tray_step tc TunFails tc'"
  "tray_step tc TunOk tc'" "tray_step tc RoutesFail tc'" "tray_step tc RoutesOk tc'" "tray_step tc Announce tc'"
  "tray_step tc CipherFails tc'" "tray_step tc SessionLost tc'" "tray_step tc SessionStopped tc'"
  "tray_step tc LostStopped tc'" "tray_step tc LostGoOn tc'" "tray_step tc ReconnectOk tc'"
  "tray_step tc ReconnectErr tc'" "tray_step tc Leave tc'"

lemma tray_step_exec: "tray_step tc e tc' \<longleftrightarrow> tray_exec tc e = Some tc'"
  by (cases e) (auto simp: tray_step_simps split: ui_phase.splits list.splits)

inductive tray_path :: "TunnelController \<Rightarrow> tray_event list \<Rightarrow> TunnelController \<Rightarrow> bool" where
  path_nil: "tray_path tc [] tc"
| path_cons: "tray_step tc e tc1 \<Longrightarrow> tray_path tc1 es tc2 \<Longrightarrow> tray_path tc (e # es) tc2"

definition tray_next :: "TunnelController \<Rightarrow> TunnelController \<Rightarrow> bool" where
  "tray_next tc tc' \<longleftrightarrow> (\<exists>e. tray_step tc e tc')"

lemma tray_nextI: "tray_step tc e tc' \<Longrightarrow> tray_next tc tc'"
  by (auto simp: tray_next_def)

lemmas tray_defs = ui_after_def setState_def tray_Connect_def tray_Disconnect_def ui_sent_def toggle_def
  gracefulShutdown_def give_up_def leave_def

inductive_simps tray_path_simps: "tray_path tc (e # es) tc'" "tray_path tc [] tc'"

fun tray_run :: "TunnelController \<Rightarrow> tray_event list \<Rightarrow> TunnelController option" where
  "tray_run tc [] = Some tc"
| "tray_run tc (e # es) = (case tray_exec tc e of None \<Rightarrow> None | Some tc1 \<Rightarrow> tray_run tc1 es)"

lemma tray_path_run: "tray_path tc es tc' \<longleftrightarrow> tray_run tc es = Some tc'"
  by (induction es arbitrary: tc) (auto simp: tray_path_simps tray_step_exec split: option.splits)

section \<open>One tunnel at a time, nothing left open\<close>

definition starting :: "run_phase \<Rightarrow> bool" where
  "starting p \<longleftrightarrow> p \<in> {RDial, RStopCheck, RCreateTun, RRoutes, RAnnounce}"

text \<open>What a tunnel has open in each phase.\<close>

definition has_cm :: "run_phase \<Rightarrow> bool" where
  "has_cm p \<longleftrightarrow> p \<notin> {RIdle, RDial}"

definition has_tun :: "run_phase \<Rightarrow> bool" where
  "has_tun p \<longleftrightarrow> p \<notin> {RIdle, RDial, RStopCheck, RCreateTun}"

definition has_routes :: "run_phase \<Rightarrow> bool" where
  "has_routes p \<longleftrightarrow> p \<notin> {RIdle, RDial, RStopCheck, RCreateTun, RRoutes}"

lemma phase_simps [simp]:
  "\<not> starting RIdle" "starting RDial" "starting RStopCheck" "starting RCreateTun" "starting RRoutes"
  "starting RAnnounce" "\<not> starting RSession" "\<not> starting RLost" "\<not> starting RReconnect" "\<not> starting RLeave"
  "\<not> has_cm RIdle" "\<not> has_cm RDial" "has_cm RStopCheck" "has_cm RCreateTun" "has_cm RRoutes"
  "has_cm RAnnounce" "has_cm RSession" "has_cm RLost" "has_cm RReconnect" "has_cm RLeave"
  "\<not> has_tun RIdle" "\<not> has_tun RDial" "\<not> has_tun RStopCheck" "\<not> has_tun RCreateTun" "has_tun RRoutes"
  "has_tun RAnnounce" "has_tun RSession" "has_tun RLost" "has_tun RReconnect" "has_tun RLeave"
  "\<not> has_routes RIdle" "\<not> has_routes RDial" "\<not> has_routes RStopCheck" "\<not> has_routes RCreateTun"
  "\<not> has_routes RRoutes" "has_routes RAnnounce" "has_routes RSession" "has_routes RLost" "has_routes RReconnect"
  "has_routes RLeave"
  by (simp_all add: starting_def has_cm_def has_tun_def has_routes_def)

definition resources_ok :: "TunnelController \<Rightarrow> bool" where
  "resources_ok tc \<longleftrightarrow> cmOpen tc = has_cm (runs tc) \<and> tunOpen tc = has_tun (runs tc) \<and> routesUp tc = has_routes (runs tc)"

text \<open>What the goroutine of the user interface may rely on, wherever it is.\<close>

definition ui_ok :: "TunnelController \<Rightarrow> bool" where
  "ui_ok tc =
     (case ui tc of
        UIdle \<Rightarrow>
          (stopClosed tc \<or> tstate tc = Disconnecting \<longrightarrow>
             \<not> starting (runs tc) \<and> (tstate tc = Disconnecting \<or> tstate tc = Disconnected))
          \<and> (tstate tc = Connecting \<longrightarrow> starting (runs tc))
      | UCall shut \<Rightarrow>
          \<not> stopClosed tc \<and> tstate tc \<noteq> Disconnecting
          \<and> (tstate tc = Connecting \<longrightarrow> shut \<and> starting (runs tc)) \<and> (\<not> shut \<longrightarrow> \<not> starting (runs tc))
      | USend s shut \<Rightarrow>
          \<not> stopClosed tc
          \<and> (if s = Connecting then runs tc = RIdle \<and> tstate tc = Connecting
             else s = Disconnecting
               \<and> (\<not> shut \<longrightarrow> \<not> starting (runs tc) \<and> (tstate tc = Disconnecting \<or> tstate tc = Disconnected)))
      | _ \<Rightarrow> True)"

definition tray_inv :: "TunnelController \<Rightarrow> bool" where
  "tray_inv tc \<longleftrightarrow> \<not> panicked tc \<and> resources_ok tc \<and> ui_ok tc
     \<and> (tstate tc = Disconnected \<longrightarrow> runs tc = RIdle)
     \<and> (tstate tc = Connected \<longrightarrow> runs tc \<noteq> RIdle \<and> \<not> starting (runs tc))"

lemma tray_inv_start: "tray_inv NewTunnelController"
  by (simp add: tray_inv_def NewTunnelController_def resources_ok_def ui_ok_def)

lemma tray_inv_step:
  assumes "tray_inv tc" "tray_step tc e tc'"
  shows "tray_inv tc'"
  using assms(2,1)
  by cases (simp_all add: tray_inv_def resources_ok_def ui_ok_def tray_defs Let_def
      split: State.splits if_splits ui_phase.splits, (metis State.distinct)+)

interpretation tray: invariant_system "\<lambda>tc. tc = NewTunnelController" tray_next tray_inv
  by unfold_locales (auto simp: tray_next_def tray_inv_start intro: tray_inv_step)

lemma tray_path_reach:
  "tray_path tc es tc' \<Longrightarrow> reach (\<lambda>tc. tc = NewTunnelController) tray_next tc
     \<Longrightarrow> reach (\<lambda>tc. tc = NewTunnelController) tray_next tc'"
  by (induction rule: tray_path.induct) (auto intro: reach_step tray_nextI)

lemma tray_path_inv: "tray_path NewTunnelController es tc \<Longrightarrow> tray_inv tc"
  by (rule tray.reach_inv, erule tray_path_reach) (rule reach_init, rule refl)

lemma tray_run_append:
  "tray_run tc (es @ es') = (case tray_run tc es of None \<Rightarrow> None | Some tc1 \<Rightarrow> tray_run tc1 es')"
  by (induction es arbitrary: tc) (auto split: option.splits)

lemma tray_inv_open:
  assumes "tray_inv tc"
  shows "\<not> panicked tc"
    and "tstate tc = Disconnected \<longrightarrow> runs tc = RIdle \<and> \<not> cmOpen tc \<and> \<not> tunOpen tc \<and> \<not> routesUp tc"
    and "tstate tc = Connected \<longrightarrow> cmOpen tc \<and> tunOpen tc \<and> routesUp tc"
proof -
  have "tstate tc = Connected \<Longrightarrow> has_cm (runs tc) \<and> has_tun (runs tc) \<and> has_routes (runs tc)"
    using assms by (cases "runs tc") (simp_all add: tray_inv_def)
  with assms show "tstate tc = Connected \<longrightarrow> cmOpen tc \<and> tunOpen tc \<and> routesUp tc"
    by (auto simp: tray_inv_def resources_ok_def)
qed (use assms in \<open>auto simp: tray_inv_def resources_ok_def\<close>)

text \<open>
  One tunnel at a time, and nothing left open. After any sequence of clicks, signals, failures and
  interleavings of the two goroutines, the stop channel has not been closed twice (which would panic);
  when the tray shows that it is disconnected no tunnel goroutine runs, and the connection, the device
  and the routes are gone; when it is connected all three are there. \<open>Connect\<close> is reached only in the
  first case.
\<close>

theorem tray_one_tunnel:
  assumes "tray_path NewTunnelController es tc"
  shows "\<not> panicked tc
    \<and> (tstate tc = Disconnected \<longrightarrow> runs tc = RIdle \<and> \<not> cmOpen tc \<and> \<not> tunOpen tc \<and> \<not> routesUp tc)
    \<and> (tstate tc = Connected \<longrightarrow> cmOpen tc \<and> tunOpen tc \<and> routesUp tc)
    \<and> (tray_step tc UISend tc' \<and> runs tc' = RDial \<and> runs tc \<noteq> RDial \<longrightarrow> runs tc = RIdle)"
proof -
  have inv: "tray_inv tc" using assms by (rule tray_path_inv)
  have "runs tc = RIdle" if "tray_step tc UISend tc'" "runs tc' = RDial" "runs tc \<noteq> RDial"
    using that inv by cases (auto simp: ui_sent_def Let_def tray_inv_def ui_ok_def split: if_splits)
  with tray_inv_open [OF inv] show ?thesis by blast
qed

definition demo_connect :: "tray_event list" where
  "demo_connect = [Toggle, UISend, UIReceive, DialOk, NoStop, TunOk, RoutesOk, Announce, Notify Connected, UIReceive]"

theorem tray_one_tunnel_witness:
  "\<exists>tc tc'. tray_run NewTunnelController demo_connect = Some tc \<and> tstate tc = Connected \<and> routesUp tc
     \<and> tray_run tc [SessionLost, Toggle, UIDisconnect, UISend, LostStopped, Leave] = Some tc'
     \<and> tstate tc' = Disconnected \<and> \<not> panicked tc' \<and> \<not> routesUp tc'"
proof -
  let ?off = "demo_connect @ [SessionLost, Toggle, UIDisconnect, UISend, LostStopped, Leave]"
  have "map_option tstate (tray_run NewTunnelController demo_connect) = Some Connected" by code_simp
  then obtain tc where on: "tray_run NewTunnelController demo_connect = Some tc" "tstate tc = Connected" by auto
  have "map_option tstate (tray_run NewTunnelController ?off) = Some Disconnected" by code_simp
  then obtain tc' where off: "tray_run NewTunnelController ?off = Some tc'" "tstate tc' = Disconnected" by auto
  have "tray_run NewTunnelController (demo_connect @ es) = tray_run tc es" for es
    using on(1) by (simp add: tray_run_append)
  with off(1) have "tray_run tc [SessionLost, Toggle, UIDisconnect, UISend, LostStopped, Leave] = Some tc'" by metis
  with on off tray_one_tunnel [of demo_connect tc] tray_one_tunnel [of ?off tc'] show ?thesis
    unfolding tray_path_run by blast
qed

section \<open>Shutdowns that do not clean up\<close>

text \<open>A shutdown that waits while the tunnel reconnects.\<close>

definition waits_for_server :: "TunnelController \<Rightarrow> bool" where
  "waits_for_server tc \<longleftrightarrow> ui tc = UAwait \<and> runs tc = RReconnect \<and> cmOpen tc \<and> routesUp tc
     \<and> Disconnected \<notin> set (stateCh tc) \<and> Disconnected \<notin> set (unsent tc)"

lemma waits_for_server_step:
  assumes "waits_for_server tc" "tray_step tc e tc'" "e \<noteq> ReconnectOk"
  shows "waits_for_server tc'"
  using assms(2,1,3) by cases (auto simp: waits_for_server_def tray_defs dest: notin_set_remove1)

lemma waits_for_server_path:
  "tray_path tc es tc' \<Longrightarrow> waits_for_server tc \<Longrightarrow> ReconnectOk \<notin> set es \<Longrightarrow> waits_for_server tc'"
  by (induction rule: tray_path.induct) (auto dest: waits_for_server_step)

text \<open>
  Quitting while the tunnel reconnects hangs. Once a signal or the quit entry has come while the
  tunnel reconnects, the program waits until the server is reachable again: whatever else happens, as
  long as the reconnection does not succeed no step ends the wait, and the routes stay in place. The
  connection manager, whose \<open>Close\<close> would end the reconnection, is closed only after it.
\<close>

theorem tray_quit_hangs:
  assumes "tray_path NewTunnelController es tc" "ui tc = UAwait" "runs tc = RReconnect"
    and "Disconnected \<notin> set (stateCh tc)" "Disconnected \<notin> set (unsent tc)"
    and "tray_path tc es' tc'" "ReconnectOk \<notin> set es'"
  shows "ui tc' = UAwait \<and> runs tc' = RReconnect \<and> cmOpen tc' \<and> routesUp tc'"
proof -
  from tray_path_inv [OF assms(1)] assms(2-5) have "waits_for_server tc"
    by (simp add: waits_for_server_def tray_inv_def resources_ok_def)
  from waits_for_server_path [OF assms(6) this assms(7)] show ?thesis
    by (simp add: waits_for_server_def)
qed

definition demo_hang :: "tray_event list" where
  "demo_hang = demo_connect @ [SessionLost, LostGoOn, Quit, UIDisconnect, UISend]"

theorem tray_quit_hangs_witness:
  "\<exists>tc. tray_run NewTunnelController (demo_hang @ [UIReceive]) = Some tc
     \<and> ui tc = UAwait \<and> runs tc = RReconnect \<and> routesUp tc \<and> stateCh tc = []"
proof -
  have "map_option (\<lambda>tc. (ui tc, runs tc, stateCh tc, unsent tc)) (tray_run NewTunnelController demo_hang)
      = Some (UAwait, RReconnect, [Disconnecting], [])" by code_simp
  then obtain tc where tc: "tray_path NewTunnelController demo_hang tc" "ui tc = UAwait" "runs tc = RReconnect"
    "stateCh tc = [Disconnecting]" "unsent tc = []" by (auto simp: tray_path_run)
  let ?tc' = "tc\<lparr>stateCh := []\<rparr>"
  have "tray_path tc [UIReceive] ?tc'" using tc(2,4) by (simp add: tray_path_run)
  from tray_quit_hangs [OF tc(1-3) _ _ this] tc(4,5) have "ui ?tc' = UAwait \<and> runs ?tc' = RReconnect \<and> routesUp ?tc'"
    by simp
  moreover have "tray_run NewTunnelController (demo_hang @ [UIReceive]) = Some ?tc'"
    using tc by (simp add: tray_run_append tray_path_run)
  ultimately show ?thesis by auto
qed

text \<open>Quitting while a disconnection is going on ends the program with the routes in place.\<close>

lemma quit_while_disconnecting:
  "\<exists>tc. tray_path NewTunnelController (demo_connect @ [Toggle, UIDisconnect, UISend, Quit]) tc
     \<and> ui tc = UQuit \<and> routesUp tc"
proof -
  have "map_option (\<lambda>tc. ui tc = UQuit \<and> routesUp tc)
      (tray_run NewTunnelController (demo_connect @ [Toggle, UIDisconnect, UISend, Quit])) = Some True" by code_simp
  then show ?thesis by (auto simp: tray_path_run)
qed

section \<open>The menu\<close>

record menu =
  mStatus :: string
  mToggle :: string
  toggleOn :: bool
  icon :: bool

definition on_state :: "State \<Rightarrow> string option \<Rightarrow> menu \<Rightarrow> menu" where
  "on_state s lastError m =
     (case s of
        Disconnected \<Rightarrow>
          \<lparr>mStatus = (case lastError of None \<Rightarrow> ''Disconnected'' | Some e \<Rightarrow> ''Error: '' @ e),
           mToggle = ''Connect'', toggleOn = True, icon = False\<rparr>
      | Connecting \<Rightarrow> \<lparr>mStatus = ''Connecting...'', mToggle = ''Disconnect'', toggleOn = True, icon = False\<rparr>
      | Connected \<Rightarrow> \<lparr>mStatus = ''Connected'', mToggle = ''Disconnect'', toggleOn = True, icon = True\<rparr>
      | Disconnecting \<Rightarrow> m\<lparr>mStatus := ''Disconnecting...'', toggleOn := False, icon := False\<rparr>)"

text \<open>While connecting, the menu offers to disconnect but a click does nothing.\<close>

lemma cancel_ignored:
  "tstate tc = Connecting \<Longrightarrow> tray_step tc Toggle tc' \<Longrightarrow> tc' = tc"
  "mToggle (on_state Connecting err m) = ''Disconnect'' \<and> toggleOn (on_state Connecting err m)"
  by (auto simp: tray_step_simps toggle_def on_state_def)

text \<open>The time connected, in nanoseconds, as it is shown; it is not negative.\<close>

definition formatDuration :: "int \<Rightarrow> string" where
  "formatDuration d =
     (let h = d div (3600 * second); m = d div (60 * second) mod 60; s = d div second mod 60 in
      if h > 0 then fmt_d (nat h) @ ''h '' @ fmt_d (nat m) @ ''m '' @ fmt_d (nat s) @ ''s''
      else if m > 0 then fmt_d (nat m) @ ''m '' @ fmt_d (nat s) @ ''s''
      else fmt_d (nat s) @ ''s'')"

section \<open>The packets of a tunnel\<close>

text \<open>
  The loops of \<open>run\<close> are those of the client, line by line, with the stop channel as the shutdown; DNS
  queries are answered without counting errors.
\<close>

definition trayTunReader ::
  "bool \<Rightarrow> ((string + bytes) \<times> bool) list \<Rightarrow> bytes list \<times> (bytes \<times> bytes) list
     \<Rightarrow> bytes list \<times> (bytes \<times> bytes) list" where
  "trayTunReader = clientTunReader"

definition traySessionWriter ::
  "Cipher \<Rightarrow> PaddingConfig \<Rightarrow> (bytes \<Rightarrow> bool) \<Rightarrow> bytes list \<Rightarrow> tape \<Rightarrow> bytes list \<times> bytes list \<times> bool" where
  "traySessionWriter = clientSessionWriter"

definition tray_serverToTun :: "Cipher \<Rightarrow> bytes \<Rightarrow> bytes list" where
  "tray_serverToTun = serverToTun"

definition tray_handleDNS ::
  "(bytes \<Rightarrow> dns_error + bytes) \<Rightarrow> int \<Rightarrow> int \<Rightarrow> bytes \<Rightarrow> bytes \<Rightarrow> (bytes \<rightharpoonup> cacheEntry)
     \<Rightarrow> (bytes option \<times> (bytes \<rightharpoonup> cacheEntry)) option" where
  "tray_handleDNS doh now now' pkt dnsQuery cache =
     (case ExtractDNSInfo pkt of
        None \<Rightarrow> None
      | Some (srcIP, dstIP, srcPort, dstPort) \<Rightarrow>
          (case Resolve doh now now' dnsQuery cache of
             (Inl e, cache') \<Rightarrow> Some (None, cache')
           | (Inr resp, cache') \<Rightarrow> Some (Some (BuildDNSResponse resp dstIP srcIP dstPort srcPort), cache')))"

text \<open>What is written to the stream itself when the tunnel is stopped.\<close>

definition closeFrame :: "Cipher \<Rightarrow> PaddingConfig \<Rightarrow> tape \<Rightarrow> bytes" where
  "closeFrame c pad t = (case fst (Encode FrameClose [] c pad t) of Inl e \<Rightarrow> [] | Inr f \<Rightarrow> f)"

lemma client_read_len:
  "\<forall>p\<in>set q. length p \<le> readBufSize
    \<Longrightarrow> \<forall>p\<in>set (fst (clientTunReader resolver devs (q, qs))). length p \<le> readBufSize"
proof (induction devs arbitrary: q qs)
  case (Cons d devs)
  obtain dev shut where d: "d = (dev, shut)" by fastforce
  show ?case
  proof (cases dev)
    case (Inl e)
    with Cons.prems d show ?thesis by (simp add: ReadPacket_def)
  next
    case (Inr p)
    obtain q' qs' where r: "client_read resolver (take readBufSize p) (q, qs) = (q', qs')" by fastforce
    then have "\<forall>p\<in>set q'. length p \<le> readBufSize"
      using Cons.prems by (auto simp: client_read_def split: if_splits)
    with Cons d Inr r show ?thesis by (simp add: ReadPacket_def)
  qed
qed simp

text \<open>No frame the tray sends first asks for an address.\<close>

lemma closeFrame_decode:
  assumes "aead_ok c" "check_padding pad = None" "pad_max pad \<le> 65535"
  shows "Decode c (closeFrame c pad t) = Inr ((FrameClose, []), [])"
proof -
  obtain f t' where "Encode FrameClose [] c pad t = (Inr f, t')" "\<And>r. Decode c (f @ r) = Inr ((FrameClose, []), r)"
    using Encode_decodable [OF assms, of "[]" FrameClose t] by auto
  from this(1) this(2) [of "[]"] show ?thesis by (simp add: closeFrame_def)
qed

lemma tray_first_frame:
  assumes "aead_ok c" "check_padding pad = None" "pad_max pad \<le> 65535" "takes_all w"
    and "traySessionWriter c pad (\<lambda>_. True) (fst (trayTunReader resolver devs ([], []))) t = (fs, left, failed)"
    and "writes_of None es = take k fs" "bye = [] \<or> bye = closeFrame c pad tb"
    and "Decode c (wire (snd (obfs_run w es (t', NewObfuscatedConn jit (Some c) pad))) @ bye) = Inr (m, rest)"
  shows "fst m \<noteq> FrameAssign"
proof -
  let ?s = "NewObfuscatedConn jit (Some c) pad" and ?q = "fst (trayTunReader resolver devs ([], []))"
  have s: "ob_padCfg ?s = pad" "ob_cipher ?s = Some c" "writing ?s = None" "wire ?s = []"
    by (simp_all add: NewObfuscatedConn_def)
  have "\<forall>p\<in>set ?q. length p \<le> readBufSize"
    unfolding trayTunReader_def by (rule client_read_len) simp
  then have lens: "list_all (\<lambda>p. length p \<le> MaxPayloadSize) ?q"
    by (auto simp: list_all_iff readBufSize_def DefaultMTU_def MaxPayloadSize_def)
  from sessionWriter_frames [OF assms(1-3) lens, of t 0] assms(5) obtain gs
    where gs: "list_all (good_frame c) gs" "map (\<lambda>(ft, p, _). (ft, p)) gs = map (Pair FrameData) ?q"
      "fs = map (frame_bytes c) gs"
    unfolding traySessionWriter_def clientSessionWriter_gateway [of c pad _ ?q t "\<lambda>f. int (length f)" 0]
    by (auto simp: frame_bytes_map)
  have data: "fst g = FrameData" if "g \<in> set gs" for g
  proof -
    have "(\<lambda>(ft, p, _). (ft, p)) g \<in> set (map (\<lambda>(ft, p, _). (ft, p)) gs)" using that by simp
    then show ?thesis unfolding gs(2) by (auto split: prod.splits)
  qed
  have "list_all (good_frame c) (take k gs)" "list_all (\<lambda>f. \<not> cover f) (take k gs)"
    using gs(1) data by (force simp: list_all_iff cover_def frame_types dest!: in_set_takeD)+
  then obtain hs where hs: "list_all (good_frame c) hs" "filter (\<lambda>f. \<not> cover f) hs = take k gs"
    "wire (snd (obfs_run w es (t', ?s))) = concat (map (frame_bytes c) hs)"
    using obfs_run_frames [OF assms(1), of ?s w es "take k gs" t'] assms(2-4,6) gs(3) by (auto simp: s take_map)
  show ?thesis
  proof (cases hs)
    case Nil
    with hs(3) assms(7,8) closeFrame_decode [OF assms(1-3), of tb] show ?thesis
      by (auto simp: Decode_def read_full_def HeaderSize_def frame_types)
  next
    case (Cons h hs')
    obtain ft p nonce padding where h: "h = (ft, p, nonce, padding)" by (metis prod_cases4)
    have "Decode c (frame_of c ft p nonce padding @ r) = Inr ((ft, p), r)" for r
      using hs(1) Cons h by (auto simp: good_frame_def intro!: Decode_frame_of)
    with hs(3) assms(8) Cons h have "m = (ft, p)" by (auto simp: frame_bytes_def)
    moreover have "ft = FrameKeepalive \<or> ft = FrameDecoy \<or> ft = FrameData"
    proof (cases "cover h")
      case False
      then have "h \<in> set (take k gs)" unfolding hs(2) [symmetric] Cons by simp
      with data h show ?thesis by (auto dest: in_set_takeD)
    qed (auto simp: cover_def h)
    ultimately show ?thesis by (auto simp: frame_types)
  qed
qed

text \<open>
  C38. The tray gets no tunnel. It never asks for an address, and the server takes nothing else as the
  first frame: whatever packets the host sends, whatever the schedule of cover traffic and whether or
  not the tray ends with its close frame, the server's handler drops the connection after the
  handshake, leaves the session table as it was and passes no packet on.
\<close>

theorem tray_gets_no_tunnel:
  assumes "aead_ok c" "check_padding pad = None" "pad_max pad \<le> 65535" "takes_all w"
    and "traySessionWriter c pad (\<lambda>_. True) (fst (trayTunReader resolver devs ([], []))) t = (fs, left, failed)"
    and "writes_of None es = take k fs" "bye = [] \<or> bye = closeFrame c pad tb"
    and "ServerHandshake cr psk now now' ht (hello_write_ok env) guard inp
      = (out, guard', Inr (key, wire (snd (obfs_run w es (t', NewObfuscatedConn jit (Some c) pad))) @ bye))"
    and "NewCipher (chacha_new env) key = Some c" "pg_ok env" "mux_ok env" "accept_ok env"
  shows "handleClient env cr psk cfg now now' ht ts guard inp table = (hello_out out, guard', table)"
proof -
  have "assign_request m = None" if "Decode c (wire (snd (obfs_run w es (t', NewObfuscatedConn jit (Some c) pad))) @ bye) = Inr (m, rest)"
    for m rest
    using tray_first_frame [OF assms(1-7) that] by (simp add: assign_request_def split: prod.splits) auto
  then show ?thesis
    using assms(8-) by (auto simp: handleClient_def split: sum.splits prod.splits)
qed

theorem tray_gets_no_tunnel_witness:
  "\<exists>out inp. handleClient Server.demo_env demo_crypto [1] demo_config (100 * second) (100 * second) (\<lambda>_. 3) (\<lambda>_. 0)
       NewReplayGuard inp (newSessionTable demo_pool)
     = (hello_out out, NewReplayGuard\<lparr>seen := [replicate 32 1 \<mapsto> 100 * second]\<rparr>, newSessionTable demo_pool)
     \<and> length demo_hello < length inp"
proof -
  let ?pad = "\<lparr>pad_min = 0, pad_max = 0\<rparr>" and ?w = "\<lambda>b. (length b, True)" and ?devs = "[(Inr demo_packet, False)]"
  have pad: "check_padding ?pad = None" "pad_max ?pad \<le> 65535" by (simp_all add: check_padding_def)
  have w: "takes_all ?w" by (simp add: takes_all_def)
  obtain fs left failed where fs: "traySessionWriter demo_aead ?pad (\<lambda>_. True) (fst (trayTunReader False ?devs ([], []))) (\<lambda>_. 0)
      = (fs, left, failed)" by (metis prod_cases3)
  let ?es = "[KeepaliveTick, DecoyTick 0 0 (Some 100)]" and ?bye = "closeFrame demo_aead ?pad (\<lambda>_. 0)"
  let ?sent = "wire (snd (obfs_run ?w ?es (\<lambda>_. 0, NewObfuscatedConn 0 (Some demo_aead) ?pad)))"
  have es: "writes_of None ?es = take 0 fs" by simp
  obtain out where hs: "ServerHandshake demo_crypto [1] (100 * second) (100 * second) (\<lambda>_. 3) (hello_write_ok Server.demo_env)
      NewReplayGuard (demo_hello @ ?sent @ ?bye)
     = (out, NewReplayGuard\<lparr>seen := [replicate 32 1 \<mapsto> 100 * second]\<rparr>, Inr (replicate 32 1, ?sent @ ?bye))"
    using demo_accept_rest [of "?sent @ ?bye"] by (auto simp: Server.demo_env_def)
  have env: "NewCipher (chacha_new Server.demo_env) (replicate 32 1) = Some demo_aead" "pg_ok Server.demo_env" "mux_ok Server.demo_env"
    "accept_ok Server.demo_env"
    by (simp_all add: NewCipher_def Server.demo_env_def demo_aead_def)
  from tray_gets_no_tunnel [OF demo_aead_ok pad w fs es disjI2 [OF refl] hs env] have
    "handleClient Server.demo_env demo_crypto [1] demo_config (100 * second) (100 * second) (\<lambda>_. 3) (\<lambda>_. 0)
       NewReplayGuard (demo_hello @ ?sent @ ?bye) (newSessionTable demo_pool)
     = (hello_out out, NewReplayGuard\<lparr>seen := [replicate 32 1 \<mapsto> 100 * second]\<rparr>, newSessionTable demo_pool)" .
  moreover have "?bye \<noteq> []"
    using closeFrame_decode [OF demo_aead_ok pad, of "\<lambda>_. 0"] by (auto simp: Decode_def read_full_def HeaderSize_def)
  ultimately show ?thesis by (metis (no_types, lifting) append_is_Nil_conv length_append length_greater_0_conv less_add_same_cancel1)
qed

end
