(* ===== verification/Certs.thy ===== *)
theory Certs
  imports Handshake
begin

text \<open>
  Component \<open>internal/transport/pgproto/tls.go\<close>: the certificate of the disguise, its storage and the
  deterministic reader. Key generation and signing (\<open>crypto/rsa\<close>, \<open>crypto/ecdsa\<close>, \<open>crypto/x509\<close>), PEM
  and SHA-256 are operations of a record; the disk is an arbitrary state with its operations.
\<close>

section \<open>The deterministic reader\<close>

record detReader =
  dr_seed :: bytes
  dr_buf :: bytes

text \<open>The loop of \<open>Read\<close>; with a hash that returns nothing it would not end.\<close>

partial_function (option) dr_fill :: "(bytes \<Rightarrow> bytes) \<Rightarrow> nat \<Rightarrow> detReader \<Rightarrow> detReader option" where
  "dr_fill sha n r =
     (if length (dr_buf r) < n
      then dr_fill sha n \<lparr>dr_seed = sha (dr_seed r), dr_buf = dr_buf r @ sha (dr_seed r)\<rparr>
      else Some r)"

declare dr_fill.simps [code]

definition dr_Read :: "(bytes \<Rightarrow> bytes) \<Rightarrow> nat \<Rightarrow> detReader \<Rightarrow> (bytes \<times> detReader) option" where
  "dr_Read sha n r =
     (case dr_fill sha n r of
        None \<Rightarrow> None
      | Some r1 \<Rightarrow> Some (take n (dr_buf r1), r1\<lparr>dr_buf := drop n (dr_buf r1)\<rparr>))"

fun dr_reads :: "(bytes \<Rightarrow> bytes) \<Rightarrow> nat list \<Rightarrow> detReader \<Rightarrow> bytes list option" where
  "dr_reads sha [] r = Some []"
| "dr_reads sha (n # ns) r =
     (case dr_Read sha n r of
        None \<Rightarrow> None
      | Some (b, r1) \<Rightarrow> (case dr_reads sha ns r1 of None \<Rightarrow> None | Some bs \<Rightarrow> Some (b # bs)))"

section \<open>The certificates\<close>

record CertTemplate =
  SerialNumber :: nat
  NotBefore :: int
  NotAfter :: int
  KeyUsage :: nat
  BasicConstraintsValid :: bool
  CommonName :: string

definition KeyUsageDigitalSignature :: nat where "KeyUsageDigitalSignature = 1"
definition KeyUsageKeyEncipherment :: nat where "KeyUsageKeyEncipherment = 4"

text \<open>Two random bytes decide the validity: days from now to the end, and days since the start.\<close>

definition validDays :: "bytes \<Rightarrow> int" where
  "validDays rb = 365 + int (unat (get_u16 rb)) mod 730"

definition ageDays :: "bytes \<Rightarrow> int" where
  "ageDays rb = 1 + int (unat (rb ! 0)) mod 180"

definition cert_template :: "nat \<Rightarrow> int \<Rightarrow> bytes \<Rightarrow> CertTemplate" where
  "cert_template serial now rb =
     \<lparr>SerialNumber = serial,
      NotBefore = now - ageDays rb * (24 * 3600 * second),
      NotAfter = now + validDays rb * (24 * 3600 * second),
      KeyUsage = KeyUsageDigitalSignature + KeyUsageKeyEncipherment,
      BasicConstraintsValid = True,
      CommonName = ''PostgreSQL''\<rparr>"

text \<open>
  The libraries: each operation may fail and may draw from the random source; those that are given the
  deterministic reader may draw too, since \<open>crypto/ecdsa\<close> documents that neither its keys nor its
  signatures are determined by the bytes of the reader. \<open>filepath.Join\<close> is on a cleaned directory.
\<close>

record 'k certlib =
  cl_rsa :: "tape \<Rightarrow> 'k option \<times> tape"
  cl_serial :: "tape \<Rightarrow> nat option \<times> tape"
  cl_ecdsa :: "detReader \<Rightarrow> tape \<Rightarrow> 'k option \<times> tape"
  cl_sign :: "CertTemplate \<Rightarrow> 'k \<Rightarrow> tape \<Rightarrow> bytes option \<times> tape"
  cl_sign_det :: "detReader \<Rightarrow> CertTemplate \<Rightarrow> 'k \<Rightarrow> tape \<Rightarrow> bytes option \<times> tape"
  cl_sha256 :: "bytes \<Rightarrow> bytes"
  cl_cert_pem :: "bytes \<Rightarrow> bytes"
  cl_key_pem :: "'k \<Rightarrow> bytes"
  cl_pair :: "bytes \<Rightarrow> bytes \<Rightarrow> (bytes \<times> 'k) option"

type_synonym 'k certificate = "bytes \<times> 'k"

definition GenerateSelfSignedCert :: "'k certlib \<Rightarrow> int \<Rightarrow> tape \<Rightarrow> 'k certificate option \<times> tape" where
  "GenerateSelfSignedCert L now t =
     (case cl_rsa L t of
        (None, t1) \<Rightarrow> (None, t1)
      | (Some priv, t1) \<Rightarrow>
          (case cl_serial L t1 of
             (None, t2) \<Rightarrow> (None, t2)
           | (Some serial, t2) \<Rightarrow>
               let (rb, t3) = rand_read 2 t2 in
               (case cl_sign L (cert_template serial now rb) priv t3 of
                  (None, t4) \<Rightarrow> (None, t4)
                | (Some der, t4) \<Rightarrow> (Some (der, priv), t4))))"

definition DeterministicCert :: "'k certlib \<Rightarrow> int \<Rightarrow> bytes \<Rightarrow> tape \<Rightarrow> 'k certificate option \<times> tape" where
  "DeterministicCert L now psk t =
     (let seed = cl_sha256 L (bytes_of ''ftybucks-tls-cert-v1'' @ psk);
          r = \<lparr>dr_seed = seed, dr_buf = []\<rparr>
      in case cl_ecdsa L r t of
           (None, t1) \<Rightarrow> GenerateSelfSignedCert L now t1
         | (Some priv, t1) \<Rightarrow>
             let serial = undigits 256 (map unat (take 16 seed));
                 (rb, t2) = rand_read 2 t1
             in case cl_sign_det L r (cert_template serial now rb) priv t2 of
                  (None, t3) \<Rightarrow> GenerateSelfSignedCert L now t3
                | (Some der, t3) \<Rightarrow> (Some (der, priv), t3))"

section \<open>Storage\<close>

text \<open>The files by path. Creating the directory and each write may fail.\<close>

record certdisk =
  files :: "string \<rightharpoonup> bytes"
  can_mkdir :: "string \<Rightarrow> bool"
  can_write :: "string \<Rightarrow> bool"

definition write_file :: "string \<Rightarrow> bytes \<Rightarrow> certdisk \<Rightarrow> certdisk" where
  "write_file p b d = (if can_write d p then d\<lparr>files := (files d)(p \<mapsto> b)\<rparr> else d)"

definition certDir :: string where "certDir = ''/etc/ftybucks''"

definition LoadX509KeyPair :: "'k certlib \<Rightarrow> string \<Rightarrow> string \<Rightarrow> certdisk \<Rightarrow> 'k certificate option" where
  "LoadX509KeyPair L certPath keyPath d =
     (case (files d certPath, files d keyPath) of
        (Some c, Some k) \<Rightarrow> cl_pair L c k
      | _ \<Rightarrow> None)"

definition LoadOrGenerateCert ::
  "'k certlib \<Rightarrow> int \<Rightarrow> string \<Rightarrow> certdisk \<Rightarrow> tape \<Rightarrow> 'k certificate option \<times> certdisk \<times> tape" where
  "LoadOrGenerateCert L now dir d t =
     (let dir = (if dir = [] then certDir else dir);
          certPath = dir @ ''/server.crt''; keyPath = dir @ ''/server.key''
      in case LoadX509KeyPair L certPath keyPath d of
           Some cert \<Rightarrow> (Some cert, d, t)
         | None \<Rightarrow>
             (case GenerateSelfSignedCert L now t of
                (None, t1) \<Rightarrow> (None, d, t1)
              | (Some (der, priv), t1) \<Rightarrow>
                  (Some (der, priv),
                   if can_mkdir d dir
                   then write_file keyPath (cl_key_pem L priv) (write_file certPath (cl_cert_pem L der) d)
                   else d,
                   t1)))"

text \<open>
  The TLS settings of the server, in the numbers of the protocol: version 1.3 only (0x0304) and the
  groups X25519, P-256, P-384 and P-521.
\<close>

record tlsConfig =
  MinVersion :: nat
  MaxVersion :: nat
  CurvePreferences :: "nat list"

definition serverTLSConfig :: tlsConfig where
  "serverTLSConfig =
     \<lparr>MinVersion = 0x0304, MaxVersion = 0x0304,
      CurvePreferences = [29, 23, 24, 25]\<rparr>"

text \<open>The hello of the client, \<open>libpqClientHello\<close> of \<open>handshake.go\<close>.\<close>

datatype tls_extension =
    ExtendedMasterSecret | SupportedCurves "nat list" | SupportedPoints "nat list" | SessionTicket
  | GenericExtension nat | SignatureAlgorithms "nat list" | SupportedVersions "nat list"
  | KeyShares "nat list" | PSKKeyExchangeModes "nat list" | RenegotiationInfo

record ClientHelloSpec =
  TLSVersMax :: nat
  TLSVersMin :: nat
  CipherSuites :: "nat list"
  Extensions :: "tls_extension list"

definition libpqClientHello :: ClientHelloSpec where
  "libpqClientHello =
     \<lparr>TLSVersMax = 0x0304, TLSVersMin = 0x0303,
      CipherSuites = [0x1302, 0x1303, 0x1301, 0xC02C, 0xC030, 0xCCA9, 0xCCA8, 0xC02B, 0xC02F, 0xC023, 0xC027],
      Extensions =
        [ExtendedMasterSecret, SupportedCurves [29, 23, 24], SupportedPoints [0], SessionTicket,
         GenericExtension 22,
         SignatureAlgorithms [0x0403, 0x0503, 0x0603, 0x0809, 0x080A, 0x0804, 0x0805, 0x0806, 0x0401, 0x0501, 0x0601],
         SupportedVersions [0x0304, 0x0303], KeyShares [29], PSKKeyExchangeModes [1], RenegotiationInfo]\<rparr>"

text \<open>
  The server can answer this hello at once: its only version is offered, the client sent a key share
  of the group the server likes best, a suite of version 1.3 is offered, and the algorithm
  \<open>rsa_pss_rsae_sha256\<close>, with which an RSA key signs in version 1.3. The comments of the code call
  0x0809 and 0x080a ed25519 and ed448, whose numbers are 0x0807 and 0x0808; these are not offered.
\<close>

lemma hello_fits_server:
  "MinVersion serverTLSConfig = MaxVersion serverTLSConfig"
  "\<exists>vs. SupportedVersions vs \<in> set (Extensions libpqClientHello) \<and> MaxVersion serverTLSConfig \<in> set vs"
  "\<exists>gs. KeyShares gs \<in> set (Extensions libpqClientHello) \<and> hd (CurvePreferences serverTLSConfig) \<in> set gs"
  "\<exists>n \<in> {0x1301, 0x1302, 0x1303}. n \<in> set (CipherSuites libpqClientHello)"
  "\<exists>ss. SignatureAlgorithms ss \<in> set (Extensions libpqClientHello) \<and> 0x0804 \<in> set ss"
  by (simp_all add: libpqClientHello_def serverTLSConfig_def)

lemma hello_lacks_ed25519:
  "SignatureAlgorithms ss \<in> set (Extensions libpqClientHello) \<Longrightarrow> 0x0807 \<notin> set ss \<and> 0x0808 \<notin> set ss"
  by (auto simp: libpqClientHello_def)

section \<open>One stream\<close>

text \<open>The reference: \<open>k\<close> hashes from the seed on, one after the other.\<close>

definition hash_chain :: "(bytes \<Rightarrow> bytes) \<Rightarrow> bytes \<Rightarrow> nat \<Rightarrow> bytes" where
  "hash_chain sha seed k = concat (map (\<lambda>i. (sha ^^ Suc i) seed) [0..<k])"

definition long_hash :: "(bytes \<Rightarrow> bytes) \<Rightarrow> bool" where
  "long_hash sha \<longleftrightarrow> (\<forall>x. length (sha x) = 32)"

lemma hash_chain_Suc: "hash_chain sha seed (Suc k) = hash_chain sha seed k @ (sha ^^ Suc k) seed"
  by (simp add: hash_chain_def)

lemma hash_chain_add:
  "hash_chain sha seed (j + k) = hash_chain sha seed j @ hash_chain sha ((sha ^^ j) seed) k"
proof (induction k)
  case (Suc k)
  have "(sha ^^ Suc (j + k)) seed = (sha ^^ Suc k) ((sha ^^ j) seed)"
    by (metis add.commute add_Suc funpow_add comp_apply)
  with Suc show ?case by (simp add: hash_chain_Suc del: funpow.simps)
qed (simp add: hash_chain_def)

lemma length_hash_chain: "long_hash sha \<Longrightarrow> length (hash_chain sha seed k) = 32 * k"
  by (induction k) (simp_all add: hash_chain_Suc hash_chain_def long_hash_def)

text \<open>The state of a reader after \<open>m\<close> bytes of the stream: \<open>j\<close> hashes taken, their rest in the buffer.\<close>

definition dr_at :: "(bytes \<Rightarrow> bytes) \<Rightarrow> bytes \<Rightarrow> nat \<Rightarrow> detReader \<Rightarrow> bool" where
  "dr_at sha seed m r \<longleftrightarrow> (\<exists>j. dr_seed r = (sha ^^ j) seed \<and> m \<le> 32 * j \<and> dr_buf r = drop m (hash_chain sha seed j))"

lemma dr_fill_at:
  assumes "long_hash sha" "dr_at sha seed m r"
  shows "\<exists>r1. dr_fill sha n r = Some r1 \<and> dr_at sha seed m r1 \<and> n \<le> length (dr_buf r1)"
  using assms(2)
proof (induction "n - length (dr_buf r)" arbitrary: r rule: less_induct)
  case less
  show ?case
  proof (cases "length (dr_buf r) < n")
    case False
    with less.prems show ?thesis by (subst dr_fill.simps) simp
  next
    case True
    let ?r = "\<lparr>dr_seed = sha (dr_seed r), dr_buf = dr_buf r @ sha (dr_seed r)\<rparr>"
    from less.prems obtain j where j: "dr_seed r = (sha ^^ j) seed" "m \<le> 32 * j" "dr_buf r = drop m (hash_chain sha seed j)"
      by (auto simp: dr_at_def)
    then have "dr_at sha seed m ?r"
      using length_hash_chain [OF assms(1), of seed j]
      by (auto simp: dr_at_def hash_chain_Suc intro!: exI [of _ "Suc j"])
    moreover have "n - length (dr_buf ?r) < n - length (dr_buf r)"
      using True assms(1) by (simp add: long_hash_def)
    ultimately show ?thesis using less.hyps [of ?r] True by (subst dr_fill.simps) simp
  qed
qed

lemma dr_Read_at:
  assumes "long_hash sha" "dr_at sha seed m r"
  shows "\<exists>b r1 k. dr_Read sha n r = Some (b, r1) \<and> dr_at sha seed (m + n) r1 \<and> length b = n
    \<and> m + n \<le> 32 * k \<and> b = take n (drop m (hash_chain sha seed k))"
proof -
  from dr_fill_at [OF assms, of n] obtain r1 j where r1: "dr_fill sha n r = Some r1" "n \<le> length (dr_buf r1)"
    "dr_seed r1 = (sha ^^ j) seed" "m \<le> 32 * j" "dr_buf r1 = drop m (hash_chain sha seed j)"
    by (auto simp: dr_at_def)
  moreover have "m + n \<le> 32 * j" using r1 length_hash_chain [OF assms(1), of seed j] by simp
  ultimately show ?thesis
    by (auto simp: dr_Read_def dr_at_def add.commute intro!: exI [of _ j])
qed

lemma hash_chain_take: "long_hash sha \<Longrightarrow> n \<le> 32 * j \<Longrightarrow> j \<le> k \<Longrightarrow> take n (hash_chain sha seed k) = take n (hash_chain sha seed j)"
  using hash_chain_add [of sha seed j "k - j"] length_hash_chain [of sha seed j] by simp

lemma hash_chain_take_any:
  "long_hash sha \<Longrightarrow> n \<le> 32 * j \<Longrightarrow> n \<le> 32 * k \<Longrightarrow> take n (hash_chain sha seed k) = take n (hash_chain sha seed j)"
  by (cases "j \<le> k") (simp_all add: hash_chain_take [of sha n j k] hash_chain_take [of sha n k j])

lemma dr_reads_at:
  assumes "long_hash sha" "dr_at sha seed m r" "m + sum_list ns \<le> 32 * k"
  shows "\<exists>bs. dr_reads sha ns r = Some bs \<and> map length bs = ns
    \<and> concat bs = take (sum_list ns) (drop m (hash_chain sha seed k))"
  using assms(2,3)
proof (induction ns arbitrary: m r)
  case (Cons n ns)
  from dr_Read_at [OF assms(1) Cons.prems(1), of n] obtain b r1 j where b: "dr_Read sha n r = Some (b, r1)"
    "dr_at sha seed (m + n) r1" "length b = n" "m + n \<le> 32 * j" "b = take n (drop m (hash_chain sha seed j))" by blast
  from Cons.IH [OF b(2)] Cons.prems(2) obtain bs where bs: "dr_reads sha ns r1 = Some bs" "map length bs = ns"
    "concat bs = take (sum_list ns) (drop (m + n) (hash_chain sha seed k))" by auto
  have "b = take n (drop m (hash_chain sha seed k))"
    using hash_chain_take_any [OF assms(1) b(4), of k seed] b(5) Cons.prems(2) by (simp add: take_drop add.commute)
  with b(1,3) bs show ?case by (simp add: take_add add.commute)
qed simp

text \<open>
  The deterministic reader is one stream. With a hash of 32 bytes every read ends and returns
  exactly as many bytes as asked for, and however the requests are cut, the bytes returned one after
  the other are the beginning of one fixed stream, the chain of hashes of the seed: no byte is lost,
  repeated or dependent on the sizes of the requests.
\<close>

theorem reads_are_one_stream:
  assumes "long_hash sha" "sum_list ns \<le> 32 * k"
  shows "\<exists>bs. dr_reads sha ns \<lparr>dr_seed = seed, dr_buf = []\<rparr> = Some bs \<and> map length bs = ns
    \<and> concat bs = take (sum_list ns) (hash_chain sha seed k)"
proof -
  have "dr_at sha seed 0 \<lparr>dr_seed = seed, dr_buf = []\<rparr>"
    by (auto simp: dr_at_def hash_chain_def intro!: exI [of _ 0])
  from dr_reads_at [OF assms(1) this, of ns k] assms(2) show ?thesis by simp
qed

definition demo_hash :: "bytes \<Rightarrow> bytes" where
  "demo_hash s = replicate 32 (case s of [] \<Rightarrow> 1 | b # _ \<Rightarrow> b + 1)"

theorem reads_are_one_stream_witness:
  "\<exists>bs. dr_reads demo_hash [30, 3, 0, 40] \<lparr>dr_seed = [5], dr_buf = []\<rparr> = Some bs
     \<and> concat bs = replicate 32 6 @ replicate 32 7 @ replicate 9 8"
proof -
  have "long_hash demo_hash" by (simp add: long_hash_def demo_hash_def)
  from reads_are_one_stream [OF this, of "[30, 3, 0, 40]" 3 "[5]"] obtain bs
    where "dr_reads demo_hash [30, 3, 0, 40] \<lparr>dr_seed = [5], dr_buf = []\<rparr> = Some bs"
      "concat bs = take 73 (hash_chain demo_hash [5] 3)" by auto
  moreover have "take 73 (hash_chain demo_hash [5] 3) = replicate 32 6 @ replicate 32 7 @ replicate 9 8" by code_simp
  ultimately show ?thesis by auto
qed

section \<open>A stable certificate\<close>

lemma validity_range:
  "365 \<le> validDays rb \<and> validDays rb < 365 + 730" "1 \<le> ageDays rb \<and> ageDays rb \<le> 180"
proof -
  have "0 \<le> int (unat (get_u16 rb)) mod 730" "int (unat (get_u16 rb)) mod 730 < 730"
    "0 \<le> int (unat (rb ! 0)) mod 180" "int (unat (rb ! 0)) mod 180 < 180" by simp_all
  then show "365 \<le> validDays rb \<and> validDays rb < 365 + 730" "1 \<le> ageDays rb \<and> ageDays rb \<le> 180"
    unfolding validDays_def ageDays_def by simp_all
qed

text \<open>
  A certificate of the deterministic kind depends on the random source even where the key and the
  signature do not: its dates are random.
\<close>

lemma deterministic_cert_varies:
  assumes "\<And>r t. cl_ecdsa L r t = (Some (kg r), t)" "\<And>r T k t. cl_sign_det L r T k t = (Some (sg r T k), t)"
    and "\<And>r k. inj (\<lambda>T. sg r T k)"
  shows "fst (DeterministicCert L now psk (\<lambda>_. 0)) \<noteq> fst (DeterministicCert L now psk (\<lambda>_. 1))"
proof -
  have "get_u16 [0, 0] = 0" "get_u16 [1, 1] = 257" by code_simp+
  then have "validDays [0, 0] \<noteq> validDays [1, 1]" by (simp add: validDays_def)
  then have "cert_template n now [0, 0] \<noteq> cert_template n now [1, 1]" for n by (simp add: cert_template_def second_def)
  then have "sg r (cert_template n now [0, 0]) k \<noteq> sg r (cert_template n now [1, 1]) k" for r n k
    using assms(3) [of r k] by (metis (mono_tags, lifting) injD)
  moreover have "rand_read 2 (\<lambda>_. 0) = ([0, 0], \<lambda>_. 0)" "rand_read 2 (\<lambda>_. 1) = ([1, 1], \<lambda>_. 1)"
    by (simp_all add: rand_read_def numeral_2_eq_2)
  ultimately show ?thesis
    using assms(1,2) by (simp add: DeterministicCert_def Let_def)
qed

text \<open>
  The certificate survives a restart. When the server had to generate its certificate and could
  create the directory and write both files, every later start finds exactly this certificate and
  key and writes nothing; what it needs of the libraries is that a written pair is read back.
\<close>

theorem certificate_survives_restart:
  assumes "LoadOrGenerateCert L now dir d t = (Some cert, d', t')"
    and "\<And>p. can_mkdir d p \<and> can_write d p"
    and "\<And>der k. cl_pair L (cl_cert_pem L der) (cl_key_pem L k) = Some (der, k)"
  shows "LoadOrGenerateCert L now2 dir d' t2 = (Some cert, d', t2)"
proof -
  define D where "D = (if dir = [] then certDir else dir)"
  show ?thesis
  proof (cases "LoadX509KeyPair L (D @ ''/server.crt'') (D @ ''/server.key'') d")
    case (Some c)
    with assms(1) have "d' = d" "cert = c" by (simp_all add: LoadOrGenerateCert_def D_def Let_def)
    with Some show ?thesis by (simp add: LoadOrGenerateCert_def D_def Let_def)
  next
    case None
    with assms(1,2) obtain der priv where "cert = (der, priv)"
      "d' = write_file (D @ ''/server.key'') (cl_key_pem L priv) (write_file (D @ ''/server.crt'') (cl_cert_pem L der) d)"
      by (auto simp: LoadOrGenerateCert_def D_def Let_def split: prod.splits option.splits)
    with assms(2,3) show ?thesis
      by (simp add: LoadOrGenerateCert_def LoadX509KeyPair_def write_file_def D_def [symmetric] Let_def)
  qed
qed

definition demo_certlib :: "byte certlib" where
  "demo_certlib =
     \<lparr>cl_rsa = (\<lambda>t. (Some (t 0), \<lambda>i. t (i + 1))), cl_serial = (\<lambda>t. (Some 7, t)), cl_ecdsa = (\<lambda>_ t. (None, t)),
      cl_sign = (\<lambda>_ k t. (Some [k, 9], t)), cl_sign_det = (\<lambda>_ _ _ t. (None, t)), cl_sha256 = demo_hash,
      cl_cert_pem = (\<lambda>c. c), cl_key_pem = (\<lambda>k. [k]), cl_pair = (\<lambda>c k. Some (c, hd k))\<rparr>"

theorem certificate_survives_restart_witness:
  "\<exists>d'. LoadOrGenerateCert demo_certlib 0 [] \<lparr>files = (\<lambda>_. None), can_mkdir = (\<lambda>_. True), can_write = (\<lambda>_. True)\<rparr> (\<lambda>_. 3)
       = (Some ([3, 9], 3), d', \<lambda>_. 3)
     \<and> LoadOrGenerateCert demo_certlib 5 [] d' (\<lambda>_. 4) = (Some ([3, 9], 3), d', \<lambda>_. 4)
     \<and> files d' ''/etc/ftybucks/server.key'' = Some [3]"
proof -
  let ?d = "\<lparr>files = (\<lambda>_. None), can_mkdir = (\<lambda>_. True), can_write = (\<lambda>_. True)\<rparr>"
  let ?d' = "write_file ''/etc/ftybucks/server.key'' [3] (write_file ''/etc/ftybucks/server.crt'' [3, 9] ?d)"
  have one: "LoadOrGenerateCert demo_certlib 0 [] ?d (\<lambda>_. 3) = (Some ([3, 9], 3), ?d', \<lambda>_. 3)"
    by (simp add: LoadOrGenerateCert_def LoadX509KeyPair_def GenerateSelfSignedCert_def demo_certlib_def certDir_def
        rand_read_def Let_def)
  have "LoadOrGenerateCert demo_certlib 5 [] ?d' (\<lambda>_. 4) = (Some ([3, 9], 3), ?d', \<lambda>_. 4)"
    by (rule certificate_survives_restart [OF one]) (simp_all add: demo_certlib_def)
  with one show ?thesis by (auto simp: write_file_def)
qed

end
