(* ===== verification/Transport.thy ===== *)
theory Transport
  imports Client PgHandshake
begin

text \<open>
  Components \<open>internal/transport/tls.go\<close> and \<open>internal/transport/multiplex.go\<close>: dialling, the listener
  and the parameters of the multiplexer. TCP and the PostgreSQL handshake are arguments; what is left
  is which connections are closed, which socket options are set, and the limits.
\<close>

definition tcpBufferSize :: nat where "tcpBufferSize = 16 * 1024 * 1024"

text \<open>What is done to a connection, in order.\<close>

datatype conn_op = SetReadBuffer nat | SetWriteBuffer nat | SetNoDelay | CloseConnection

definition tuneTCPConn :: "bool \<Rightarrow> conn_op list" where
  "tuneTCPConn tcp = (if tcp then [SetReadBuffer tcpBufferSize, SetWriteBuffer tcpBufferSize] else [])"

datatype 'e dial_error = TcpDial | PgHandshakeFailed 'e

text \<open>\<open>dialed\<close> says whether there is a connection and whether it is TCP; \<open>hs\<close> is the handshake on it.\<close>

definition DialServer :: "bool option \<Rightarrow> 'e + 'c \<Rightarrow> ('e dial_error + 'c) \<times> conn_op list" where
  "DialServer dialed hs =
     (case dialed of
        None \<Rightarrow> (Inl TcpDial, [])
      | Some tcp \<Rightarrow>
          (case hs of
             Inl e \<Rightarrow> (Inl (PgHandshakeFailed e), tuneTCPConn tcp @ [CloseConnection])
           | Inr c \<Rightarrow> (Inr c, tuneTCPConn tcp)))"

definition listener_Accept :: "bool option \<Rightarrow> conn_op list option" where
  "listener_Accept accepted =
     map_option (\<lambda>tcp. (if tcp then [SetNoDelay] else []) @ tuneTCPConn tcp) accepted"

record muxParams =
  mux_Version :: nat
  MaxFrameSize :: nat
  MaxStreamBuffer :: nat
  MaxReceiveBuffer :: nat
  KeepAliveInterval :: int
  KeepAliveTimeout :: int

definition muxConfig :: muxParams where
  "muxConfig =
     \<lparr>mux_Version = 2, MaxFrameSize = 65535, MaxStreamBuffer = push_bit 20 16, MaxReceiveBuffer = push_bit 20 64,
      KeepAliveInterval = 7 * second, KeepAliveTimeout = 30 * second\<rparr>"

text \<open>What smux demands of its parameters, and the order of the time limits of a session.\<close>

definition mux_valid :: "muxParams \<Rightarrow> bool" where
  "mux_valid c \<longleftrightarrow> mux_Version c \<in> {1, 2} \<and> 0 < KeepAliveInterval c \<and> KeepAliveInterval c \<le> KeepAliveTimeout c
     \<and> 0 < MaxFrameSize c \<and> MaxFrameSize c \<le> 65535 \<and> 0 < MaxReceiveBuffer c
     \<and> 0 < MaxStreamBuffer c \<and> MaxStreamBuffer c \<le> MaxReceiveBuffer c"

lemma muxConfig_valid: "mux_valid muxConfig"
  by (simp add: mux_valid_def muxConfig_def second_def push_bit_eq_mult)

lemma session_limits:
  "MaxKeepaliveDelay \<le> KeepAliveTimeout muxConfig" "KeepAliveTimeout muxConfig < serverDataReadTimeout"
  "probeInterval * probeDeadMisses < KeepAliveTimeout muxConfig"
  by (simp_all add: muxConfig_def second_def MaxKeepaliveDelay_def serverDataReadTimeout_def probeInterval_def probeDeadMisses_def)

text \<open>A failed dial leaves no connection open.\<close>

lemma DialServer_closes:
  "fst (DialServer dialed hs) = Inl e \<Longrightarrow> dialed \<noteq> None \<Longrightarrow> last (snd (DialServer dialed hs)) = CloseConnection"
  "fst (DialServer dialed hs) = Inr c \<Longrightarrow> CloseConnection \<notin> set (snd (DialServer dialed hs))"
  by (auto simp: DialServer_def tuneTCPConn_def split: option.splits sum.splits)

end
