(* ===== verification/ServerMain.thy ===== *)
theory ServerMain
  imports Server RouterLinux "HOL-Library.Multiset"
begin

text \<open>
  Component \<open>main\<close> of \<open>cmd/server/main.go\<close>: the start of the server, its failures, the NAT rules on the
  host and what is taken back at the end. The device operations are those of \<open>RouterLinux\<close>; running
  a command, writing \<open>ip_forward\<close> and the listener are operations of a record on the same state. A
  call of \<open>log.Fatalf\<close> ends the process without its deferred calls.
\<close>

section \<open>The program\<close>

datatype server_exit =
  ConfigFails load_error | BadPSK | PoolFails pool_error | TunFails router_error | CertFails | ListenFails | Stopped

text \<open>
  \<open>sh_serve\<close> is what the goroutines of the server and of its clients do to the host until a signal
  arrives; they are modelled in \<open>Server\<close> and \<open>Sessions\<close>. The flag \<open>sh_cert\<close> says whether
  \<open>LoadOrGenerateCert\<close> returns a certificate.
\<close>

record 'k server_host =
  sh_nl :: "'k netlink"
  sh_exec :: "string list \<Rightarrow> 'k \<Rightarrow> bool \<times> 'k"
  sh_forward :: "'k \<Rightarrow> bool \<times> 'k"
  sh_cert :: bool
  sh_listen :: "string \<Rightarrow> 'k \<Rightarrow> bool \<times> 'k"
  sh_close_listen :: "'k \<Rightarrow> 'k"
  sh_serve :: "'k \<Rightarrow> 'k"

definition serverTunMTU :: int where "serverTunMTU = 1420"

definition exec_all :: "'k server_host \<Rightarrow> string list list \<Rightarrow> 'k \<Rightarrow> 'k" where
  "exec_all H cmds k = fold (\<lambda>c k. snd (sh_exec H c k)) cmds k"

text \<open>\<open>setupNAT\<close> stops after its first command when that fails; the results of the others are ignored.\<close>

definition run_setupNAT :: "'k server_host \<Rightarrow> string \<Rightarrow> 'k \<Rightarrow> bool \<times> 'k" where
  "run_setupNAT H subnet k =
     (let cmds = fst (setupNAT (\<lambda>_. True) subnet) in
      case sh_exec H (hd cmds) k of
        (False, k1) \<Rightarrow> (False, k1)
      | (True, k1) \<Rightarrow> (True, exec_all H (tl cmds) k1))"

definition run_cleanupNAT :: "'k server_host \<Rightarrow> string \<Rightarrow> 'k \<Rightarrow> 'k" where
  "run_cleanupNAT H subnet k = exec_all H (cleanupNAT subnet) k"

definition tun_subnet :: "string \<Rightarrow> string" where
  "tun_subnet cidr = (case ParseCIDR cidr of Some (_, net) \<Rightarrow> net_string net | None \<Rightarrow> cidr)"

text \<open>From the device on.\<close>

definition server_up :: "'k server_host \<Rightarrow> Config \<Rightarrow> string \<Rightarrow> 'k \<Rightarrow> server_exit \<times> 'k" where
  "server_up H cfg dev k =
     (let subnet = tun_subnet (TunCIDR cfg);
          k1 = snd (sh_forward H k);
          k2 = snd (run_setupNAT H subnet k1)
      in if \<not> sh_cert H then (CertFails, k2)
         else case sh_listen H (Listen cfg) k2 of
           (False, k3) \<Rightarrow> (ListenFails, k3)
         | (True, k3) \<Rightarrow>
             let k4 = sh_serve H k3 in
             (Stopped, nl_close_tun (sh_nl H) dev (run_cleanupNAT H subnet (sh_close_listen H k4))))"

definition server_main :: "'k server_host \<Rightarrow> load_error + Config \<Rightarrow> 'k \<Rightarrow> server_exit \<times> 'k" where
  "server_main H loaded k =
     (case loaded of
        Inl e \<Rightarrow> (ConfigFails e, k)
      | Inr cfg \<Rightarrow>
          if PSKBytes cfg = None then (BadPSK, k)
          else case NewIPPool (TunCIDR cfg) of
            Inl e \<Rightarrow> (PoolFails e, k)
          | Inr p \<Rightarrow>
              (case CreateTUN (sh_nl H) ''stun0'' (TunCIDR cfg) serverTunMTU k of
                 (Inl e, k1) \<Rightarrow> (TunFails e, k1)
               | (Inr dev, k1) \<Rightarrow> server_up H cfg dev k1))"

section \<open>Rules of the host\<close>

text \<open>
  The documented behaviour of \<open>iptables\<close> on the rules of a chain of a table: \<open>-A\<close> appends, \<open>-I\<close>
  puts in front, \<open>-D\<close> removes the first equal rule; without \<open>-t\<close> the table is \<open>filter\<close>. The server's
  other operations on the host do not change rules.
\<close>

type_synonym ruleset = "string \<Rightarrow> string \<Rightarrow> string list list"

definition set_chain :: "string \<Rightarrow> string \<Rightarrow> string list list \<Rightarrow> ruleset \<Rightarrow> ruleset" where
  "set_chain t c xs R = R(t := (R t)(c := xs))"

definition iptables_ok :: "'k server_host \<Rightarrow> ('k \<Rightarrow> ruleset) \<Rightarrow> bool" where
  "iptables_ok H rules \<longleftrightarrow>
     (\<forall>t c r k. sh_exec H (''iptables'' # ''-t'' # t # ''-A'' # c # r) k
         = (True, snd (sh_exec H (''iptables'' # ''-t'' # t # ''-A'' # c # r) k))
       \<and> rules (snd (sh_exec H (''iptables'' # ''-t'' # t # ''-A'' # c # r) k)) = set_chain t c (rules k t c @ [r]) (rules k))
     \<and> (\<forall>c r k. rules (snd (sh_exec H (''iptables'' # ''-I'' # c # r) k))
          = set_chain ''filter'' c (r # rules k ''filter'' c) (rules k))
     \<and> (\<forall>t c r k. rules (snd (sh_exec H (''iptables'' # ''-t'' # t # ''-D'' # c # r) k))
          = set_chain t c (remove1 r (rules k t c)) (rules k))
     \<and> (\<forall>c r k. rules (snd (sh_exec H (''iptables'' # ''-D'' # c # r) k))
          = set_chain ''filter'' c (remove1 r (rules k ''filter'' c)) (rules k))"

definition rules_only_by_exec :: "'k server_host \<Rightarrow> ('k \<Rightarrow> ruleset) \<Rightarrow> bool" where
  "rules_only_by_exec H rules \<longleftrightarrow>
     (\<forall>k. rules (snd (sh_forward H k)) = rules k \<and> rules (sh_serve H k) = rules k \<and> rules (sh_close_listen H k) = rules k)
     \<and> (\<forall>a k. rules (snd (sh_listen H a k)) = rules k)
     \<and> (\<forall>d k. rules (nl_close_tun (sh_nl H) d k) = rules k)
     \<and> (\<forall>d c m k. rules (snd (CreateTUN (sh_nl H) d c m k)) = rules k)"

lemma iptables_laws:
  assumes "iptables_ok H rules"
  shows "fst (sh_exec H (''iptables'' # ''-t'' # t # ''-A'' # c # r) k)"
    "rules (snd (sh_exec H (''iptables'' # ''-t'' # t # ''-A'' # c # r) k)) = set_chain t c (rules k t c @ [r]) (rules k)"
    "rules (snd (sh_exec H (''iptables'' # ''-I'' # c # r) k)) = set_chain ''filter'' c (r # rules k ''filter'' c) (rules k)"
    "rules (snd (sh_exec H (''iptables'' # ''-t'' # t # ''-D'' # c # r) k)) = set_chain t c (remove1 r (rules k t c)) (rules k)"
    "rules (snd (sh_exec H (''iptables'' # ''-D'' # c # r) k)) = set_chain ''filter'' c (remove1 r (rules k ''filter'' c)) (rules k)"
  using assms by (auto simp: iptables_ok_def) (metis fst_conv)

text \<open>The rules with the server's four added.\<close>

definition nat_rules :: "string \<Rightarrow> ruleset \<Rightarrow> ruleset" where
  "nat_rules subnet R =
     set_chain ''mangle'' ''FORWARD'' (R ''mangle'' ''FORWARD'' @ [tl clamp_rule])
       (set_chain ''filter'' ''FORWARD''
          ([''-o'', ''stun0'', ''-j'', ''ACCEPT''] # [''-i'', ''stun0'', ''-j'', ''ACCEPT''] # R ''filter'' ''FORWARD'')
          (set_chain ''nat'' ''POSTROUTING'' (R ''nat'' ''POSTROUTING'' @ [tl (masquerade_rule subnet)]) R))"

lemma run_setupNAT_rules:
  assumes "iptables_ok H rules"
  shows "fst (run_setupNAT H subnet k) \<and> rules (snd (run_setupNAT H subnet k)) = nat_rules subnet (rules k)"
proof -
  let ?first = "''iptables'' # ''-t'' # ''nat'' # ''-A'' # masquerade_rule subnet"
  obtain b k1 where e: "sh_exec H ?first k = (b, k1)" by fastforce
  with iptables_laws(1,2) [OF assms, of "''nat''" "''POSTROUTING''" "tl (masquerade_rule subnet)" k]
  have "b" "rules k1 = set_chain ''nat'' ''POSTROUTING'' (rules k ''nat'' ''POSTROUTING'' @ [tl (masquerade_rule subnet)]) (rules k)"
    by (simp_all add: masquerade_rule_def)
  with e show ?thesis
    by (simp add: run_setupNAT_def setupNAT_def exec_all_def iptables_laws [OF assms] nat_rules_def clamp_rule_def set_chain_def)
qed

lemma run_cleanupNAT_rules:
  assumes "iptables_ok H rules"
  shows "rules (run_cleanupNAT H subnet k) ''nat'' ''POSTROUTING'' = remove1 (tl (masquerade_rule subnet)) (rules k ''nat'' ''POSTROUTING'')"
    "rules (run_cleanupNAT H subnet k) ''filter'' ''FORWARD''
      = remove1 [''-o'', ''stun0'', ''-j'', ''ACCEPT''] (remove1 [''-i'', ''stun0'', ''-j'', ''ACCEPT''] (rules k ''filter'' ''FORWARD''))"
    "rules (run_cleanupNAT H subnet k) ''mangle'' ''FORWARD'' = remove1 (tl clamp_rule) (rules k ''mangle'' ''FORWARD'')"
    "(t, c) \<notin> {(''nat'', ''POSTROUTING''), (''filter'', ''FORWARD''), (''mangle'', ''FORWARD'')}
      \<Longrightarrow> rules (run_cleanupNAT H subnet k) t c = rules k t c"
  by (auto simp: run_cleanupNAT_def cleanupNAT_def exec_all_def iptables_laws [OF assms] masquerade_rule_def clamp_rule_def set_chain_def)

lemma cleanup_after_setup:
  assumes "iptables_ok H rules" "rules k1 = nat_rules subnet R"
  shows "mset (rules (run_cleanupNAT H subnet k1) t c) = mset (R t c)"
    and "tl (masquerade_rule subnet) \<notin> set (R ''nat'' ''POSTROUTING'') \<Longrightarrow> tl clamp_rule \<notin> set (R ''mangle'' ''FORWARD'')
      \<Longrightarrow> rules (run_cleanupNAT H subnet k1) = R"
proof -
  note C = run_cleanupNAT_rules [OF assms(1), where subnet = subnet and k = k1, unfolded assms(2)]
  let ?special = "{(''nat'', ''POSTROUTING''), (''filter'', ''FORWARD''), (''mangle'', ''FORWARD'')}"
  have other: "(t, c) \<notin> ?special \<Longrightarrow> rules (run_cleanupNAT H subnet k1) t c = R t c" for t c
    using C(4) [of t c] by (auto simp: nat_rules_def set_chain_def)
  have mangle: "nat_rules subnet R ''mangle'' ''FORWARD'' = R ''mangle'' ''FORWARD'' @ [tl clamp_rule]"
    and nat: "nat_rules subnet R ''nat'' ''POSTROUTING'' = R ''nat'' ''POSTROUTING'' @ [tl (masquerade_rule subnet)]"
    and filt: "nat_rules subnet R ''filter'' ''FORWARD''
      = [''-o'', ''stun0'', ''-j'', ''ACCEPT''] # [''-i'', ''stun0'', ''-j'', ''ACCEPT''] # R ''filter'' ''FORWARD''"
    by (simp_all add: nat_rules_def set_chain_def)
  have fwd: "rules (run_cleanupNAT H subnet k1) ''filter'' ''FORWARD'' = R ''filter'' ''FORWARD''"
    by (simp add: C(2) filt)
  show "mset (rules (run_cleanupNAT H subnet k1) t c) = mset (R t c)"
  proof (cases "(t, c) \<in> ?special")
    case True
    then show ?thesis by (auto simp: C(1,3) fwd mangle nat)
  qed (simp add: other)
  assume fresh: "tl (masquerade_rule subnet) \<notin> set (R ''nat'' ''POSTROUTING'')" "tl clamp_rule \<notin> set (R ''mangle'' ''FORWARD'')"
  have "rules (run_cleanupNAT H subnet k1) t c = R t c" for t c
  proof (cases "(t, c) \<in> ?special")
    case True
    then show ?thesis using fresh by (auto simp: C(1,3) fwd mangle nat remove1_append)
  qed (simp add: other)
  then show "rules (run_cleanupNAT H subnet k1) = R" by blast
qed

lemma CreateTUN_quiet:
  assumes "rules_only_by_exec H rules" "CreateTUN (sh_nl H) d c m k = (x, k1)"
  shows "rules k1 = rules k"
proof -
  have "rules (snd (CreateTUN (sh_nl H) d c m k)) = rules k" using assms(1) by (simp add: rules_only_by_exec_def)
  then show ?thesis by (simp add: assms(2))
qed

lemma server_up_rules:
  assumes "iptables_ok H rules" "rules_only_by_exec H rules" "server_up H cfg dev k = (e, k')"
  shows "e \<in> {CertFails, ListenFails, Stopped}"
    and "e \<noteq> Stopped \<Longrightarrow> rules k' = nat_rules (tun_subnet (TunCIDR cfg)) (rules k)"
    and "e = Stopped \<Longrightarrow> \<exists>k1. rules k1 = nat_rules (tun_subnet (TunCIDR cfg)) (rules k)
      \<and> rules k' = rules (run_cleanupNAT H (tun_subnet (TunCIDR cfg)) k1)"
proof -
  let ?s = "tun_subnet (TunCIDR cfg)" and ?k2 = "snd (run_setupNAT H (tun_subnet (TunCIDR cfg)) (snd (sh_forward H k)))"
  have quiet: "rules (snd (sh_forward H k)) = rules k" "rules (sh_serve H k) = rules k" "rules (sh_close_listen H k) = rules k"
    "rules (snd (sh_listen H a k)) = rules k" "rules (nl_close_tun (sh_nl H) d k) = rules k" for a d k
    using assms(2) by (simp_all add: rules_only_by_exec_def)
  have k2: "rules ?k2 = nat_rules ?s (rules k)"
    using run_setupNAT_rules [OF assms(1)] quiet(1) by simp
  obtain ok k3 where l: "sh_listen H (Listen cfg) ?k2 = (ok, k3)" by fastforce
  then have k3: "rules k3 = rules ?k2" using quiet(4) [of "Listen cfg" ?k2] by simp
  show "e \<in> {CertFails, ListenFails, Stopped}"
    "e \<noteq> Stopped \<Longrightarrow> rules k' = nat_rules ?s (rules k)"
    using assms(3) l k2 k3 by (auto simp: server_up_def Let_def split: if_splits bool.splits)
  show "\<exists>k1. rules k1 = nat_rules ?s (rules k) \<and> rules k' = rules (run_cleanupNAT H ?s k1)" if "e = Stopped"
  proof -
    from assms(3) l that have "k' = nl_close_tun (sh_nl H) dev (run_cleanupNAT H ?s (sh_close_listen H (sh_serve H k3)))"
      by (auto simp: server_up_def Let_def split: if_splits bool.splits)
    moreover have "rules (sh_close_listen H (sh_serve H k3)) = nat_rules ?s (rules k)"
      using k2 k3 quiet(2,3) by simp
    ultimately show ?thesis using quiet(5) by metis
  qed
qed

lemma server_main_cases:
  assumes "server_main H (Inr cfg) k = (e, k')"
  obtains "e \<notin> {CertFails, ListenFails, Stopped}" "k' = k"
    | k1 x where "CreateTUN (sh_nl H) ''stun0'' (TunCIDR cfg) serverTunMTU k = (Inl x, k1)" "e = TunFails x" "k' = k1"
    | dev k1 where "CreateTUN (sh_nl H) ''stun0'' (TunCIDR cfg) serverTunMTU k = (Inr dev, k1)" "server_up H cfg dev k1 = (e, k')"
  using assms by (auto simp: server_main_def split: if_splits sum.splits prod.splits)


text \<open>A concrete host for the witness: the rules themselves.\<close>

definition demo_exec :: "string list \<Rightarrow> ruleset \<Rightarrow> bool \<times> ruleset" where
  "demo_exec c R = (True,
     if c ! 1 = ''-t'' \<and> c ! 3 = ''-A'' then set_chain (c ! 2) (c ! 4) (R (c ! 2) (c ! 4) @ [drop 5 c]) R
     else if c ! 1 = ''-t'' \<and> c ! 3 = ''-D'' then set_chain (c ! 2) (c ! 4) (remove1 (drop 5 c) (R (c ! 2) (c ! 4))) R
     else if c ! 1 = ''-I'' then set_chain ''filter'' (c ! 2) (drop 3 c # R ''filter'' (c ! 2)) R
     else if c ! 1 = ''-D'' then set_chain ''filter'' (c ! 2) (remove1 (drop 3 c) (R ''filter'' (c ! 2))) R
     else R)"

definition demo_host_nl :: "ruleset netlink" where
  "demo_host_nl =
     \<lparr>nl_list = (\<lambda>_. Inr []), nl_name = (\<lambda>_ _. None), nl_index = (\<lambda>_ _. Some 7), nl_add = (\<lambda>_ k. (None, k)),
      nl_del = (\<lambda>_ k. (None, k)), nl_replace = (\<lambda>_ k. (None, k)), nl_new_tun = (\<lambda>d k. (Inr d, k)),
      nl_close_tun = (\<lambda>_ k. k), nl_set_mtu = (\<lambda>_ _ k. (None, k)), nl_set_up = (\<lambda>_ k. (None, k)),
      nl_addr_list = (\<lambda>_ _. Inr []), nl_addr_add = (\<lambda>_ _ k. (None, k)), nl_addr_del = (\<lambda>_ _ k. (None, k))\<rparr>"

definition demo_server_host :: "bool \<Rightarrow> ruleset server_host" where
  "demo_server_host listens =
     \<lparr>sh_nl = demo_host_nl, sh_exec = demo_exec, sh_forward = (\<lambda>k. (True, k)), sh_cert = True,
      sh_listen = (\<lambda>_ k. (listens, k)), sh_close_listen = (\<lambda>k. k), sh_serve = (\<lambda>k. k)\<rparr>"

lemma demo_server_host_ok:
  "iptables_ok (demo_server_host b) (\<lambda>R. R)" "rules_only_by_exec (demo_server_host b) (\<lambda>R. R)"
  by (simp_all add: iptables_ok_def rules_only_by_exec_def demo_server_host_def demo_exec_def demo_host_nl_def
      CreateTUN_def configure_tun_def Let_def split: option.splits)


end
