(* ===== verification/ServerSystem.thy ===== *)
theory ServerSystem
  imports Server
begin

text \<open>
  The whole server of \<open>cmd/server/main.go\<close> while it runs: any number of handlers (\<open>handleClient\<close>), the
  dispatcher from the TUN device and their shared session table and replay guard. A handler is in
  one of the phases between its calls that touch shared state; every step of the system is a step of
  one handler or of the dispatcher, in any order. Stream and connection number \<open>i\<close> belong to the
  \<open>i\<close>-th accepted connection. Which bytes arrive, which writes succeed and all random values are arbitrary.
\<close>

section \<open>The system\<close>

record sys_env =
  se_crypto :: Crypto
  se_psk :: bytes
  se_chacha :: "bytes \<Rightarrow> AEAD option"
  se_pad :: PaddingConfig

text \<open>
  The phases of a handler: before the address request was read, about to call \<open>assign\<close>, about to close
  the stream of the session it evicted, about to answer, in its read loop, with a frame read, about
  to run its deferred calls, and returned.
\<close>

datatype conn_phase =
    Greeting
  | Asking Cipher bytes IP bytes
  | Evicting Cipher ref ref bytes
  | Replying Cipher ref bytes
  | Serving Cipher ref bytes
  | Handling Cipher ref bytes "byte \<times> bytes"
  | Leaving ref
  | Gone

text \<open>
  \<open>shut\<close> are the streams that were closed by the server. \<open>to_tun\<close> and \<open>to_client\<close> record the packets written
  to the device, with the connection they came from, and those sent, with the connection they went to.
  \<open>disp\<close> is the packet the dispatcher holds with the session it looked up.
\<close>

record server_sys =
  sv_guard :: ReplayGuard
  sv_table :: sessionTable
  conns :: "conn_phase list"
  shut :: "nat set"
  to_tun :: "(nat \<times> bytes) list"
  to_client :: "(nat \<times> bytes) list"
  disp :: "(bytes \<times> ref) option"

text \<open>From the tunnel handshake to the address request.\<close>

definition greet ::
  "sys_env \<Rightarrow> int \<Rightarrow> int \<Rightarrow> tape \<Rightarrow> bool \<Rightarrow> bytes \<Rightarrow> ReplayGuard \<Rightarrow> conn_phase \<times> ReplayGuard" where
  "greet E now now' ht wok inp g =
     (case ServerHandshake (se_crypto E) (se_psk E) now now' ht wok g inp of
        (out, g', Inl e) \<Rightarrow> (Gone, g')
      | (out, g', Inr (key, rest)) \<Rightarrow>
          (case NewCipher (se_chacha E) key of
             None \<Rightarrow> (Gone, g')
           | Some c \<Rightarrow>
               (case Decode c rest of
                  Inl e \<Rightarrow> (Gone, g')
                | Inr (m, rest') \<Rightarrow>
                    (case assign_request m of
                       None \<Rightarrow> (Gone, g')
                     | Some (preferredIP, tok) \<Rightarrow> (Asking c tok preferredIP rest', g')))))"

definition ask :: "nat \<Rightarrow> Cipher \<Rightarrow> bytes \<Rightarrow> IP \<Rightarrow> bytes \<Rightarrow> sessionTable \<Rightarrow> conn_phase \<times> sessionTable" where
  "ask i c tok preferredIP rest t =
     (case assign tok preferredIP i t of
        (Inl e, t1) \<Rightarrow> (Gone, t1)
      | (Inr (r, None), t1) \<Rightarrow> (Replying c r rest, t1)
      | (Inr (r, Some old), t1) \<Rightarrow> (Evicting c r old rest, t1))"

text \<open>The answer; \<open>ok\<close> says whether writing it succeeds.\<close>

definition answer ::
  "PaddingConfig \<Rightarrow> tape \<Rightarrow> bool \<Rightarrow> nat \<Rightarrow> Cipher \<Rightarrow> ref \<Rightarrow> bytes \<Rightarrow> sessionTable \<Rightarrow> conn_phase \<times> sessionTable" where
  "answer pad t ok i c r rest table =
     (case Encode FrameAssign (assign_payload (cs_ip (objs table ! r)) (pool table)) c pad t of
        (Inl e, t') \<Rightarrow> (Gone, remove_session r table)
      | (Inr frame, t') \<Rightarrow>
          if ok then (Serving c r rest, setWriter r i c table) else (Gone, remove_session r table))"

text \<open>The second half of the dispatcher, after the look-up.\<close>

definition deliver ::
  "PaddingConfig \<Rightarrow> (nat \<Rightarrow> bytes \<Rightarrow> int \<times> bool) \<Rightarrow> bytes \<Rightarrow> ref \<Rightarrow> tape \<Rightarrow> sessionTable
     \<Rightarrow> (nat \<times> bytes) option \<times> tape \<times> sessionTable" where
  "deliver pad write pkt r t table =
     (case cipherRef r table of
        None \<Rightarrow> (None, t, table)
      | Some c \<Rightarrow>
          (case Encode FrameData pkt c pad t of
             (Inl e, t') \<Rightarrow> (None, t', table)
           | (Inr frame, t') \<Rightarrow>
               let (out, ok, table') = send write r frame table in (out, t', table')))"

lemma tun_dispatch_split:
  "tun_dispatch pad write pkt t table =
     (if length pkt < 20 then (None, t, table)
      else case get_session table (ip_string (slice 16 20 pkt)) of
        None \<Rightarrow> (None, t, table)
      | Some r \<Rightarrow> deliver pad write pkt r t table)"
  by (simp add: tun_dispatch_def deliver_def split: option.split)

abbreviation at_phase :: "server_sys \<Rightarrow> nat \<Rightarrow> conn_phase \<Rightarrow> bool" where
  "at_phase s i ph \<equiv> i < length (conns s) \<and> conns s ! i = ph"

inductive sys_step :: "sys_env \<Rightarrow> server_sys \<Rightarrow> server_sys \<Rightarrow> bool" for E where
  accept: "sys_step E s (s\<lparr>conns := conns s @ [Greeting]\<rparr>)"
| rejected: "at_phase s i Greeting \<Longrightarrow> sys_step E s (s\<lparr>conns := (conns s)[i := Gone]\<rparr>)"
| greeted: "at_phase s i Greeting \<Longrightarrow> greet E now now' ht wok inp (sv_guard s) = (ph, g)
    \<Longrightarrow> sys_step E s (s\<lparr>sv_guard := g, conns := (conns s)[i := ph]\<rparr>)"
| forget: "sys_step E s (s\<lparr>sv_guard := cleanup now (sv_guard s)\<rparr>)"
| asked: "at_phase s i (Asking c tok pref rest) \<Longrightarrow> ask i c tok pref rest (sv_table s) = (ph, t)
    \<Longrightarrow> sys_step E s (s\<lparr>sv_table := t, conns := (conns s)[i := ph]\<rparr>)"
| evict: "at_phase s i (Evicting c r old rest)
    \<Longrightarrow> sys_step E s (s\<lparr>shut := insert (cs_stream (objs (sv_table s) ! old)) (shut s),
                         conns := (conns s)[i := Replying c r rest]\<rparr>)"
| answered: "at_phase s i (Replying c r rest) \<Longrightarrow> answer (se_pad E) tp ok i c r rest (sv_table s) = (ph, t)
    \<Longrightarrow> sys_step E s (s\<lparr>sv_table := t, conns := (conns s)[i := ph]\<rparr>)"
| received: "at_phase s i (Serving c r inp) \<Longrightarrow> Decode c inp = Inr (m, rest)
    \<Longrightarrow> sys_step E s (s\<lparr>conns := (conns s)[i := Handling c r rest m]\<rparr>)"
| ended: "at_phase s i (Serving c r inp) \<Longrightarrow> sys_step E s (s\<lparr>conns := (conns s)[i := Leaving r]\<rparr>)"
| handled: "at_phase s i (Handling c r rest m)
    \<Longrightarrow> handle_frame c (se_pad E) (cs_ip (objs (sv_table s) ! r)) wok m st tp = (eff, v, st', tp')
    \<Longrightarrow> sys_step E s (s\<lparr>to_tun := to_tun s @ map (Pair i) (tun_writes eff),
                         conns := (conns s)[i := (if v = Return then Leaving r else Serving c r rest)]\<rparr>)"
| left: "at_phase s i (Leaving r)
    \<Longrightarrow> sys_step E s (s\<lparr>sv_table := remove_session r (sv_table s), shut := insert i (shut s),
                         conns := (conns s)[i := Gone]\<rparr>)"
| look_up: "disp s = None \<Longrightarrow> 20 \<le> length pkt
    \<Longrightarrow> get_session (sv_table s) (ip_string (slice 16 20 pkt)) = Some r
    \<Longrightarrow> sys_step E s (s\<lparr>disp := Some (pkt, r)\<rparr>)"
| delivered: "disp s = Some (pkt, r) \<Longrightarrow> deliver (se_pad E) write pkt r tp (sv_table s) = (out, tp', t)
    \<Longrightarrow> sys_step E s (s\<lparr>disp := None, sv_table := t,
                         to_client := to_client s @ (case out of None \<Rightarrow> [] | Some (w, frame) \<Rightarrow> [(w, pkt)])\<rparr>)"

definition sys_start :: "string \<Rightarrow> server_sys \<Rightarrow> bool" where
  "sys_start cidr s \<longleftrightarrow>
     (\<exists>t. table_start cidr t \<and>
        s = \<lparr>sv_guard = NewReplayGuard, sv_table = t, conns = [], shut = {}, to_tun = [], to_client = [], disp = None\<rparr>)"

section \<open>What the table operations keep\<close>

text \<open>Sessions keep their address and stream for ever.\<close>

definition keeps :: "sessionTable \<Rightarrow> sessionTable \<Rightarrow> bool" where
  "keeps t u \<longleftrightarrow> length (objs t) \<le> length (objs u)
     \<and> (\<forall>r<length (objs t). cs_ip (objs u ! r) = cs_ip (objs t ! r) \<and> cs_stream (objs u ! r) = cs_stream (objs t ! r))"

lemma nth_update_field: "g (f (xs ! i)) = g (xs ! i) \<Longrightarrow> g (xs[i := f (xs ! i)] ! j) = g (xs ! j)"
  by (cases "i < length xs") (auto simp: nth_list_update list_update_beyond)

lemma ran_drop:
  assumes "m k = Some v" "\<And>k'. m k' = Some v \<Longrightarrow> k' = k"
  shows "ran (m(k := None)) = ran m - {v}"
proof (rule set_eqI)
  fix x
  have "(\<exists>a. (m(k := None)) a = Some x) \<longleftrightarrow> (\<exists>a. m a = Some x \<and> a \<noteq> k)" by auto
  also have "\<dots> \<longleftrightarrow> (\<exists>a. m a = Some x) \<and> x \<noteq> v" using assms by (metis option.inject)
  finally show "x \<in> ran (m(k := None)) \<longleftrightarrow> x \<in> ran m - {v}" by (simp add: ran_def)
qed

lemma keeps_refl [simp]: "keeps t t"
  by (simp add: keeps_def)

lemma keeps_remove [simp]: "keeps t (remove_session r t)"
  by (simp add: keeps_def remove_maps)

lemma keeps_setWriter [simp]: "keeps t (setWriter r w c t)"
  using nth_update_field [where g = cs_ip and f = "\<lambda>x. x\<lparr>writer := Some w, cipher := Some c\<rparr>" and xs = "objs t" and i = r]
    nth_update_field [where g = cs_stream and f = "\<lambda>x. x\<lparr>writer := Some w, cipher := Some c\<rparr>" and xs = "objs t" and i = r]
  by (simp add: keeps_def setWriter_def)

lemma keeps_send [simp]: "keeps t (snd (snd (send write r f t)))"
proof (cases "writer (objs t ! r)")
  case (Some w)
  obtain n ok where "write w f = (n, ok)" by fastforce
  with Some show ?thesis
    using nth_update_field [where g = cs_ip and f = "\<lambda>x. x\<lparr>bytesOut := bytesOut x + n\<rparr>" and xs = "objs t" and i = r]
      nth_update_field [where g = cs_stream and f = "\<lambda>x. x\<lparr>bytesOut := bytesOut x + n\<rparr>" and xs = "objs t" and i = r]
    by (simp add: keeps_def send_def)
qed (simp add: send_def)

lemma deliver_table:
  assumes "deliver pad write pkt r tp t = (out, tp', u)"
  shows "u = t \<and> out = None \<or> (\<exists>f. u = snd (snd (send write r f t)) \<and> out = fst (send write r f t))"
  using assms unfolding deliver_def
  by (auto split: option.splits sum.splits prod.splits) (metis fst_conv snd_conv)+

lemma ran_byIP_remove:
  assumes inv: "table_inv t" and "r < length (objs t)"
  shows "ran (byIP (remove_session r t)) = ran (byIP t) - {r}"
proof (cases "byIP t (ipStr (objs t ! r)) = Some r")
  case True
  then have "byIP (remove_session r t) = (byIP t)(ipStr (objs t ! r) := None)"
    by (simp add: remove_session_def Let_def)
  moreover have "s = ipStr (objs t ! r)" if "byIP t s = Some r" for s
    using table_invD(3) [OF inv that] by (simp add: ip_entry_ok_def)
  ultimately show ?thesis using ran_drop [of "byIP t", OF True] by simp
next
  case False
  then have "byIP (remove_session r t) = byIP t" by (simp add: remove_session_def Let_def)
  moreover have "r \<notin> ran (byIP t)"
    using table_invD(3) [OF inv] False by (fastforce simp: ran_def ip_entry_ok_def)
  ultimately show ?thesis by simp
qed

lemma register_facts:
  assumes "length ip = 4" "byIP t (ip_string ip) = None" "register k ip i t = (r, u)"
  shows "\<exists>cs. objs u = objs t @ [cs] \<and> cs_stream cs = i \<and> writer cs = None \<and> length (cs_ip cs) = 4"
    "ran (byIP u) = insert r (ran (byIP t))"
proof -
  let ?cs = "\<lparr>cs_ip = To4 ip, ipStr = ip_string ip, token = k, cs_id = nextID t + 1, cs_stream = i,
    writer = None, cipher = None, bytesOut = 0\<rparr>"
  from assms(3) have "objs u = objs t @ [?cs]" "byIP u = (byIP t)(ip_string ip \<mapsto> r)"
    by (auto simp: register_def Let_def split: if_splits)
  moreover have "length (To4 ip) = 4" using assms(1) by (simp add: To4_def)
  ultimately show "\<exists>cs. objs u = objs t @ [cs] \<and> cs_stream cs = i \<and> writer cs = None \<and> length (cs_ip cs) = 4"
    "ran (byIP u) = insert r (ran (byIP t))" using assms(2) by simp_all
qed

lemma assign_facts:
  assumes inv: "table_inv t" and a: "assign tok pref i t = (Inr (r, ev), u)"
  shows "r = length (objs t) \<and> (\<exists>cs. objs u = objs t @ [cs] \<and> cs_stream cs = i \<and> writer cs = None \<and> length (cs_ip cs) = 4)
    \<and> ran (byIP u) = insert r (ran (byIP t) - set_option ev)"
proof (cases rule: assign_cases [OF inv, of tok pref i])
  case (1 e)
  with a show ?thesis by simp
next
  case (2 ip p')
  from Allocate_ok [OF table_invD(1) [OF inv] 2(2)] have ip: "ip_string ip \<notin> allocated (pool t)" "length ip = 4"
    using host_length by auto
  then have "byIP t (ip_string ip) = None" using table_invD(2) [OF inv] by auto
  moreover obtain r' u' where g: "register (token_string tok) ip i (t\<lparr>pool := p'\<rparr>) = (r', u')" by fastforce
  moreover from a [unfolded 2(1)] g have "r = length (objs t)" "ev = None" "u = u'" by auto
  ultimately show ?thesis using register_facts [OF ip(2) _ g] register_maps [OF g] by simp
next
  case (3 old)
  let ?s = "ip_string (cs_ip (objs t ! old))" and ?d = "detach old t"
  from table_invD(3) [OF inv 3(2)] have o: "ipStr (objs t ! old) = ?s" "length (cs_ip (objs t ! old)) = 4"
    using host_length by (auto simp: ip_entry_ok_def)
  have b: "byIP ?d = (byIP t)(?s := None)" using detach_eq [OF inv 3(2)] o(1) by simp
  have 1: "byIP t ?s = Some old" using 3(2) o(1) by simp
  have 2: "s = ?s" if "byIP t s = Some old" for s
    using table_invD(3) [OF inv that] unfolding ip_entry_ok_def by blast
  have "ran (byIP ?d) = ran (byIP t) - {old}"
    unfolding b by (rule ran_drop [of "byIP t" ?s old, OF 1 2])
  moreover obtain r' u' where g: "register (token_string tok) (cs_ip (objs t ! old)) i ?d = (r', u')" by fastforce
  moreover from a [unfolded 3(1)] g have "r = length (objs t)" "ev = Some old" "u = u'" by auto
  moreover have "byIP ?d ?s = None" by (simp add: b)
  ultimately show ?thesis using register_facts [OF o(2) _ g] register_maps [OF g] by (simp add: detach_maps(3))
qed

lemma assign_refused:
  "table_inv t \<Longrightarrow> assign tok pref i t = (Inl e, u) \<Longrightarrow> u = t"
  by (erule assign_cases [where tok = tok and pref = pref and strm = i]) auto

section \<open>The invariant\<close>

text \<open>The session a handler has to remove in the end.\<close>

fun owns :: "conn_phase \<Rightarrow> ref option" where
  "owns (Evicting c r old rest) = Some r"
| "owns (Replying c r rest) = Some r"
| "owns (Serving c r rest) = Some r"
| "owns (Handling c r rest m) = Some r"
| "owns (Leaving r) = Some r"
| "owns _ = None"

definition pending :: "conn_phase list \<Rightarrow> ref \<Rightarrow> bool" where
  "pending cs old \<longleftrightarrow> (\<exists>j<length cs. \<exists>c r rest. cs ! j = Evicting c r old rest)"

text \<open>
  Handlers and table: a handler's session bears its number, each session belongs to a handler that will
  remove it or has, and a session that is no longer in the table belongs to a handler that has
  returned, or whose stream was closed or is about to be.
\<close>

definition session_ok :: "conn_phase list \<Rightarrow> nat set \<Rightarrow> sessionTable \<Rightarrow> ref \<Rightarrow> bool" where
  "session_ok cs sh t r \<longleftrightarrow>
     (let i = cs_stream (objs t ! r) in
        i < length cs
        \<and> (owns (cs ! i) = Some r \<or> cs ! i = Gone \<and> r \<notin> ran (byIP t))
        \<and> (r \<in> ran (byIP t) \<or> cs ! i = Gone \<or> i \<in> sh \<or> pending cs r))"

definition handlers_ok :: "conn_phase list \<Rightarrow> nat set \<Rightarrow> sessionTable \<Rightarrow> bool" where
  "handlers_ok cs sh t \<longleftrightarrow> table_inv t
     \<and> (\<forall>i<length cs. \<forall>r. owns (cs ! i) = Some r \<longrightarrow> r < length (objs t) \<and> cs_stream (objs t ! r) = i)
     \<and> (\<forall>r<length (objs t). session_ok cs sh t r)"

lemma handlers_okD:
  assumes "handlers_ok cs sh t"
  shows "table_inv t"
    "i < length cs \<Longrightarrow> owns (cs ! i) = Some r \<Longrightarrow> r < length (objs t) \<and> cs_stream (objs t ! r) = i"
    "r < length (objs t) \<Longrightarrow> session_ok cs sh t r"
  using assms by (simp_all add: handlers_ok_def)

text \<open>Addresses and writers of the sessions, and what was recorded.\<close>

definition wired :: "sessionTable \<Rightarrow> bool" where
  "wired t \<longleftrightarrow>
     (\<forall>r<length (objs t). length (cs_ip (objs t ! r)) = 4 \<and> (\<forall>w. writer (objs t ! r) = Some w \<longrightarrow> w = cs_stream (objs t ! r)))"

definition session_with :: "sessionTable \<Rightarrow> nat \<Rightarrow> IP \<Rightarrow> bool" where
  "session_with t i ip \<longleftrightarrow> (\<exists>r<length (objs t). cs_stream (objs t ! r) = i \<and> cs_ip (objs t ! r) = ip)"

definition traced :: "server_sys \<Rightarrow> bool" where
  "traced s \<longleftrightarrow>
     (\<forall>(i, p) \<in> set (to_tun s). 20 \<le> length p \<and> session_with (sv_table s) i (slice 12 16 p))
     \<and> (\<forall>(w, p) \<in> set (to_client s). session_with (sv_table s) w (slice 16 20 p))
     \<and> (\<forall>p r. disp s = Some (p, r) \<longrightarrow> r < length (objs (sv_table s)) \<and> cs_ip (objs (sv_table s) ! r) = slice 16 20 p)"

definition sys_inv :: "server_sys \<Rightarrow> bool" where
  "sys_inv s \<longleftrightarrow> handlers_ok (conns s) (shut s) (sv_table s) \<and> wired (sv_table s) \<and> traced s"

lemma session_with_keeps: "keeps t u \<Longrightarrow> session_with t i ip \<Longrightarrow> session_with u i ip"
  unfolding keeps_def session_with_def by (meson less_le_trans)

lemma traced_keeps:
  assumes "traced s" "keeps (sv_table s) u"
  shows "traced (s\<lparr>sv_table := u, shut := sh, conns := cs\<rparr>)"
  using assms session_with_keeps [OF assms(2)] unfolding traced_def keeps_def by fastforce

text \<open>A handler that changes its phase and nothing else, except that it may have closed a stream.\<close>

lemma pending_update:
  assumes "pending cs old" "\<And>c r rest. cs ! i \<noteq> Evicting c r old rest"
  shows "pending (cs[i := ph]) old"
  using assms unfolding pending_def by (metis length_list_update nth_list_update_neq)

lemma handlers_phase:
  assumes h: "handlers_ok cs sh t" and i: "i < length cs" "cs ! i \<noteq> Gone" "owns ph = owns (cs ! i)" and sh: "sh \<subseteq> sh'"
    and ev: "\<And>c r old rest. cs ! i = Evicting c r old rest \<Longrightarrow> cs_stream (objs t ! old) \<in> sh'"
  shows "handlers_ok (cs[i := ph]) sh' t"
  unfolding handlers_ok_def
proof (intro conjI allI impI)
  show "table_inv t" using handlers_okD(1) [OF h] .
  show "r < length (objs t)" "cs_stream (objs t ! r) = j" if "j < length (cs[i := ph])" "owns (cs[i := ph] ! j) = Some r" for j r
    using handlers_okD(2) [OF h, of j r] that i by (cases "j = i"; simp)+
next
  fix r assume "r < length (objs t)"
  from handlers_okD(3) [OF h this] have s: "session_ok cs sh t r" .
  let ?j = "cs_stream (objs t ! r)"
  have p: "pending (cs[i := ph]) r \<or> ?j \<in> sh'" if "pending cs r"
    using that pending_update [OF that, of i ph] ev by blast
  from s i sh p show "session_ok (cs[i := ph]) sh' t r"
    unfolding session_ok_def Let_def by (cases "?j = i") auto
qed

text \<open>A handler that removes its session and returns.\<close>

lemma handlers_remove:
  assumes h: "handlers_ok cs sh t" and i: "i < length cs" "owns (cs ! i) = Some r" and sh: "sh \<subseteq> sh'"
    and ev: "\<And>c r old rest. cs ! i \<noteq> Evicting c r old rest"
  shows "handlers_ok (cs[i := Gone]) sh' (remove_session r t)"
  unfolding handlers_ok_def
proof (intro conjI allI impI)
  note r = handlers_okD(2) [OF h i]
  note ran = ran_byIP_remove [OF handlers_okD(1) [OF h], of r] and objs = remove_maps(3) [of r t]
  show "table_inv (remove_session r t)" using remove_inv [OF handlers_okD(1) [OF h]] .
  show "q < length (objs (remove_session r t))" "cs_stream (objs (remove_session r t) ! q) = j"
    if "j < length (cs[i := Gone])" "owns (cs[i := Gone] ! j) = Some q" for j q
    using handlers_okD(2) [OF h, of j q] that objs i by (cases "j = i"; simp)+
  fix q assume "q < length (objs (remove_session r t))"
  then have s: "session_ok cs sh t q" using handlers_okD(3) [OF h] objs by simp
  let ?j = "cs_stream (objs t ! q)"
  have p: "pending (cs[i := Gone]) q" if "pending cs q"
    using pending_update [OF that, of i Gone] ev by blast
  from s i sh p r show "session_ok (cs[i := Gone]) sh' (remove_session r t) q"
    unfolding session_ok_def Let_def objs by (cases "?j = i") (auto simp: ran)
qed

text \<open>Operations on the table that leave its maps alone.\<close>

lemma handlers_table:
  assumes "handlers_ok cs sh t" "keeps t u" "length (objs u) = length (objs t)" "byIP u = byIP t" "table_inv u"
  shows "handlers_ok cs sh u"
  using assms unfolding handlers_ok_def session_ok_def keeps_def Let_def by auto

text \<open>A handler that gets a session.\<close>

lemma handlers_assign:
  assumes h: "handlers_ok cs sh t" and i: "i < length cs" "owns (cs ! i) = None" "cs ! i \<noteq> Gone"
    and a: "assign tok pref i t = (Inr (r, ev), u)"
    and ph: "owns ph = Some r" "\<And>old. ev = Some old \<Longrightarrow> \<exists>c rest. ph = Evicting c r old rest"
  shows "handlers_ok (cs[i := ph]) sh u" "keeps t u" "wired t \<Longrightarrow> wired u"
proof -
  note inv = handlers_okD(1) [OF h]
  from assign_facts [OF inv a] obtain o' where f: "r = length (objs t)" "objs u = objs t @ [o']"
    "cs_stream o' = i" "writer o' = None" "length (cs_ip o') = 4" "ran (byIP u) = insert r (ran (byIP t) - set_option ev)" by blast
  have none: "cs_stream (objs t ! q) \<noteq> i" if "q < length (objs t)" for q
    using handlers_okD(3) [OF h that] i by (auto simp: session_ok_def Let_def)
  show "keeps t u" using f(2) by (simp add: keeps_def nth_append)
  show "wired t \<Longrightarrow> wired u"
    using f(2-5) by (auto simp: wired_def nth_append less_Suc_eq)
  show "handlers_ok (cs[i := ph]) sh u"
    unfolding handlers_ok_def
  proof (intro conjI allI impI)
    show "table_inv u" using assign_inv [OF inv, of tok pref i] a by simp
    show "q < length (objs u)" "cs_stream (objs u ! q) = j"
      if "j < length (cs[i := ph])" "owns (cs[i := ph] ! j) = Some q" for j q
      using handlers_okD(2) [OF h, of j q] that i ph(1) f(1-3) by (cases "j = i"; auto simp: nth_append)+
    fix q assume q: "q < length (objs u)"
    show "session_ok (cs[i := ph]) sh u q"
    proof (cases "q = r")
      case True
      then show ?thesis using f i ph(1) by (simp add: session_ok_def nth_append)
    next
      case False
      with q f(1,2) have qt: "q < length (objs t)" "objs u ! q = objs t ! q" by (simp_all add: nth_append)
      note s = handlers_okD(3) [OF h qt(1)] and n = none [OF qt(1)]
      have p: "pending (cs[i := ph]) q" if "pending cs q"
        using pending_update [OF that, of i ph] i(2) by fastforce
      have e: "pending (cs[i := ph]) q" if "ev = Some q"
        using ph(2) [OF that] i(1) unfolding pending_def by (metis length_list_update nth_list_update_eq)
      from s n p e False show ?thesis
        unfolding session_ok_def Let_def qt(2) f(6) by (auto simp: option.set_sel set_eq_iff)
    qed
  qed
qed

lemma wired_keeps:
  "wired t \<Longrightarrow> keeps t u \<Longrightarrow> length (objs u) = length (objs t)
   \<Longrightarrow> (\<And>r w. r < length (objs t) \<Longrightarrow> writer (objs u ! r) = Some w \<Longrightarrow> writer (objs t ! r) = Some w \<or> w = cs_stream (objs t ! r))
   \<Longrightarrow> wired u"
  unfolding wired_def keeps_def by metis

lemma send_keeps:
  assumes "u = snd (snd (send write r f t))"
  shows "keeps t u" "length (objs u) = length (objs t)" "byIP u = byIP t" "writer (objs u ! q) = writer (objs t ! q)"
proof -
  show "keeps t u" using assms by simp
  show "length (objs u) = length (objs t)" "byIP u = byIP t"
    using assms by (auto simp: send_def split: option.splits prod.splits)
  show "writer (objs u ! q) = writer (objs t ! q)"
    using nth_update_field [where g = writer and xs = "objs t" and i = r and j = q] assms
    by (auto simp: send_def split: option.splits prod.splits)
qed

lemma deliver_keeps:
  assumes "deliver pad write pkt r tp t = (out, tp', u)" "table_inv t" "wired t"
  shows "keeps t u" "length (objs u) = length (objs t)" "byIP u = byIP t" "table_inv u" "wired u"
    "out = Some (w, frame) \<Longrightarrow> writer (objs t ! r) = Some w"
proof -
  from deliver_table [OF assms(1)] consider "u = t" "out = None"
    | f where "u = snd (snd (send write r f t))" "out = fst (send write r f t)" by blast
  then have "keeps t u \<and> length (objs u) = length (objs t) \<and> byIP u = byIP t \<and> table_inv u \<and> wired u
      \<and> (\<forall>w frame. out = Some (w, frame) \<longrightarrow> writer (objs t ! r) = Some w)"
  proof cases
    case 1
    with assms show ?thesis by simp
  next
    case (2 f)
    note k = send_keeps [OF 2(1)]
    have "wired u" by (rule wired_keeps [OF assms(3) k(1,2)]) (simp add: k(4))
    moreover have "writer (objs t ! r) = Some w" if "out = Some (w, frame)" for w frame
      using that by (auto simp: 2(2) send_def split: option.splits prod.splits)
    ultimately show ?thesis using send_inv [OF assms(2)] 2(1) k by blast
  qed
  then show "keeps t u" "length (objs u) = length (objs t)" "byIP u = byIP t" "table_inv u" "wired u"
    "out = Some (w, frame) \<Longrightarrow> writer (objs t ! r) = Some w" by blast+
qed

lemma wired_remove: "wired t \<Longrightarrow> wired (remove_session r t)"
  by (simp add: wired_def remove_maps(3))

lemma wired_setWriter:
  assumes "wired t" "cs_stream (objs t ! r) = i"
  shows "wired (setWriter r i c t)"
proof (rule wired_keeps [OF assms(1)])
  show "writer (objs t ! q) = Some w \<or> w = cs_stream (objs t ! q)"
    if "q < length (objs t)" "writer (objs (setWriter r i c t) ! q) = Some w" for q w
    using that assms(2) by (cases "q = r") (simp_all add: setWriter_def)
qed (simp_all add: setWriter_def keeps_setWriter [unfolded setWriter_def])

lemma setWriter_maps: "length (objs (setWriter r w c t)) = length (objs t)" "byIP (setWriter r w c t) = byIP t"
  by (simp_all add: setWriter_def)

lemma greet_phase: "greet E now now' ht wok inp g = (ph, g') \<Longrightarrow> owns ph = None"
  by (auto simp: greet_def split: sum.splits option.splits prod.splits)

lemma handle_frame_own:
  assumes "length ip = 4" "handle_frame c pad ip wok m st t = (eff, v, st', t')" "p \<in> set (tun_writes eff)"
  shows "20 \<le> length p \<and> slice 12 16 p = ip"
  using assms
  by (cases m) (auto simp: handle_frame_def Let_def split: if_splits sum.splits prod.splits)

text \<open>Two kinds of step: one that only moves a handler, and one that also changes the table.\<close>

lemma inv_phase:
  assumes "sys_inv s" "i < length (conns s)" "conns s ! i \<noteq> Gone" "owns ph = owns (conns s ! i)" "shut s \<subseteq> sh"
    and "\<And>c r old rest. conns s ! i = Evicting c r old rest \<Longrightarrow> cs_stream (objs (sv_table s) ! old) \<in> sh"
  shows "sys_inv (s\<lparr>shut := sh, conns := (conns s)[i := ph]\<rparr>)"
  using assms(1) handlers_phase [OF _ assms(2-6)] by (simp add: sys_inv_def traced_def)

lemma inv_guard: "sys_inv s \<Longrightarrow> sys_inv (s\<lparr>sv_guard := g\<rparr>)"
  by (simp add: sys_inv_def traced_def)

lemma inv_table:
  assumes "sys_inv s" "handlers_ok cs sh t" "wired t" "keeps (sv_table s) t"
  shows "sys_inv (s\<lparr>sv_table := t, shut := sh, conns := cs\<rparr>)"
  using assms traced_keeps [of s t cs sh] by (simp add: sys_inv_def)

lemma table_deps: "sys_inv s \<Longrightarrow> handlers_ok (conns s) (shut s) (sv_table s) \<and> wired (sv_table s) \<and> table_inv (sv_table s)"
  unfolding sys_inv_def using handlers_okD(1) by blast

lemma inv_asked:
  assumes s: "sys_inv s" and i: "at_phase s i (Asking c tok pref rest)" and a: "ask i c tok pref rest (sv_table s) = (ph, t)"
  shows "sys_inv (s\<lparr>sv_table := t, conns := (conns s)[i := ph]\<rparr>)"
proof -
  note d = table_deps [OF s]
  obtain res u where as: "assign tok pref i (sv_table s) = (res, u)" by fastforce
  show ?thesis
  proof (cases res)
    case (Inl e)
    with a as d have "ph = Gone" "t = sv_table s" by (auto simp: ask_def assign_refused)
    with inv_phase [OF s, of i Gone "shut s"] i show ?thesis by simp
  next
    case (Inr re)
    obtain r ev where re: "re = (r, ev)" by fastforce
    with a as Inr have t: "t = u" "owns ph = Some r" "\<And>old. ev = Some old \<Longrightarrow> \<exists>c rest. ph = Evicting c r old rest"
      by (auto simp: ask_def split: option.splits)
    have h: "handlers_ok ((conns s)[i := ph]) (shut s) u" "keeps (sv_table s) u" "wired (sv_table s) \<Longrightarrow> wired u"
      using handlers_assign [OF conjunct1 [OF d], of i tok pref r ev u ph] i as Inr re t(2,3) by auto
    with inv_table [OF s h(1)] d t(1) show ?thesis by simp
  qed
qed

lemma inv_remove:
  assumes s: "sys_inv s" and i: "i < length (conns s)" "owns (conns s ! i) = Some r" and sh: "shut s \<subseteq> sh"
    and ev: "\<And>c r old rest. conns s ! i \<noteq> Evicting c r old rest"
  shows "sys_inv (s\<lparr>sv_table := remove_session r (sv_table s), shut := sh, conns := (conns s)[i := Gone]\<rparr>)"
proof -
  note d = table_deps [OF s]
  from d have "handlers_ok ((conns s)[i := Gone]) sh (remove_session r (sv_table s))"
    by (intro handlers_remove [OF _ i sh ev]) simp
  with d show ?thesis by (intro inv_table [OF s]) (simp_all add: wired_remove)
qed

lemma inv_answered:
  assumes s: "sys_inv s" and i: "at_phase s i (Replying c r rest)"
    and a: "answer pad tp ok i c r rest (sv_table s) = (ph, t)"
  shows "sys_inv (s\<lparr>sv_table := t, conns := (conns s)[i := ph]\<rparr>)"
proof -
  note d = table_deps [OF s]
  from a consider "ph = Gone" "t = remove_session r (sv_table s)"
    | "ph = Serving c r rest" "t = setWriter r i c (sv_table s)"
    by (auto simp: answer_def split: sum.splits prod.splits if_splits)
  then show ?thesis
  proof cases
    case 1
    with inv_remove [OF s, of i r "shut s"] i show ?thesis by simp
  next
    case 2
    have r: "r < length (objs (sv_table s)) \<and> cs_stream (objs (sv_table s) ! r) = i"
      using handlers_okD(2) [OF conjunct1 [OF d], of i r] i by auto
    have "handlers_ok ((conns s)[i := ph]) (shut s) (sv_table s)"
      by (rule handlers_phase) (use d i 2 in auto)
    then have "handlers_ok ((conns s)[i := ph]) (shut s) t"
      by (rule handlers_table) (use d 2 in \<open>simp_all add: setWriter_maps setWriter_inv\<close>)
    from inv_table [OF s this] d 2 r show ?thesis by (simp add: wired_setWriter)
  qed
qed

lemma inv_handled:
  assumes s: "sys_inv s" and i: "at_phase s i (Handling c r rest m)"
    and h: "handle_frame c pad (cs_ip (objs (sv_table s) ! r)) wok m st tp = (eff, v, st', tp')"
    and ph: "owns ph = Some r"
  shows "sys_inv (s\<lparr>to_tun := to_tun s @ map (Pair i) (tun_writes eff), conns := (conns s)[i := ph]\<rparr>)"
proof -
  note d = table_deps [OF s]
  have r: "r < length (objs (sv_table s)) \<and> cs_stream (objs (sv_table s) ! r) = i"
    using handlers_okD(2) [OF conjunct1 [OF d], of i r] i by auto
  with d have ip: "length (cs_ip (objs (sv_table s) ! r)) = 4" by (simp add: wired_def)
  have "20 \<le> length p \<and> session_with (sv_table s) i (slice 12 16 p)" if "p \<in> set (tun_writes eff)" for p
    using handle_frame_own [OF ip h that] r unfolding session_with_def by auto
  moreover have "sys_inv (s\<lparr>conns := (conns s)[i := ph]\<rparr>)"
    using inv_phase [OF s, of i ph "shut s"] i ph by simp
  ultimately show ?thesis by (auto simp: sys_inv_def traced_def)
qed

lemma inv_looked_up:
  assumes s: "sys_inv s" and "20 \<le> length pkt" "get_session (sv_table s) (ip_string (slice 16 20 pkt)) = Some r"
  shows "sys_inv (s\<lparr>disp := Some (pkt, r)\<rparr>)"
proof -
  from table_invD(3) [of "sv_table s"] table_deps [OF s] assms(3)
  have "ip_entry_ok (sv_table s) (ip_string (slice 16 20 pkt)) r" by (simp add: get_session_def)
  moreover from this have "length (cs_ip (objs (sv_table s) ! r)) = 4" using host_length by (auto simp: ip_entry_ok_def)
  ultimately have "r < length (objs (sv_table s)) \<and> cs_ip (objs (sv_table s) ! r) = slice 16 20 pkt"
    using assms(2) by (auto simp: ip_entry_ok_def)
  with s show ?thesis by (simp add: sys_inv_def traced_def)
qed

lemma inv_delivered:
  assumes s: "sys_inv s" and p: "disp s = Some (pkt, r)" and d: "deliver pad write pkt r tp (sv_table s) = (out, tp', t)"
  shows "sys_inv (s\<lparr>disp := None, sv_table := t,
                    to_client := to_client s @ (case out of None \<Rightarrow> [] | Some (w, frame) \<Rightarrow> [(w, pkt)])\<rparr>)"
proof -
  note dep = table_deps [OF s]
  then have w: "wired (sv_table s)" "table_inv (sv_table s)" by simp_all
  note k = deliver_keeps [OF d w(2,1)]
  from s p have r: "r < length (objs (sv_table s))" "cs_ip (objs (sv_table s) ! r) = slice 16 20 pkt"
    by (auto simp: sys_inv_def traced_def)
  have h: "handlers_ok (conns s) (shut s) t" by (rule handlers_table [OF conjunct1 [OF dep] k(1-4)])
  have "sys_inv (s\<lparr>sv_table := t\<rparr>)" using inv_table [OF s h k(5) k(1)] by simp
  moreover have "session_with t q (slice 16 20 pkt)" if "out = Some (q, frame)" for q frame
  proof -
    from k(6) [OF that] w(1) r have "q = cs_stream (objs (sv_table s) ! r)" by (simp add: wired_def)
    with r show ?thesis by (intro session_with_keeps [OF k(1)]) (auto simp: session_with_def)
  qed
  ultimately show ?thesis by (auto simp: sys_inv_def traced_def split: option.splits)
qed

lemma inv_accept: "sys_inv s \<Longrightarrow> sys_inv (s\<lparr>conns := conns s @ [Greeting]\<rparr>)"
proof -
  assume s: "sys_inv s"
  have "session_ok (conns s @ [Greeting]) (shut s) (sv_table s) r" if "session_ok (conns s) (shut s) (sv_table s) r" for r
    using that unfolding session_ok_def pending_def Let_def
    by (auto simp: nth_append)
  with s show ?thesis
    by (auto simp: sys_inv_def handlers_ok_def traced_def nth_append less_Suc_eq)
qed

lemma sys_inv_step: "sys_step E s s' \<Longrightarrow> sys_inv s \<Longrightarrow> sys_inv s'"
proof (induction rule: sys_step.induct)
  case (rejected s i)
  then show ?case using inv_phase [of s i Gone "shut s"] by simp
next
  case (greeted s i now now' ht wok inp ph g)
  then show ?case using inv_phase [OF inv_guard [OF greeted(3), of g], of i ph "shut s"] greet_phase [OF greeted(2)] by simp
next
  case (evict s i c r old rest)
  then show ?case
    using inv_phase [of s i "Replying c r rest" "insert (cs_stream (objs (sv_table s) ! old)) (shut s)"] by auto
next
  case (received s i c r inp m rest)
  then show ?case using inv_phase [of s i "Handling c r rest m" "shut s"] by simp
next
  case (ended s i c r inp)
  then show ?case using inv_phase [of s i "Leaving r" "shut s"] by simp
next
  case (handled s i c r rest m wok st tp eff v st' tp')
  show ?case by (rule inv_handled [OF handled(3,1,2)]) simp
next
  case (left s i r)
  then show ?case using inv_remove [of s i r "insert i (shut s)"] by auto
qed (auto intro: inv_guard inv_accept inv_asked inv_answered inv_looked_up inv_delivered)

interpretation system: invariant_system "sys_start cidr" "sys_step E" sys_inv for cidr E
proof unfold_locales
  show "sys_start cidr s \<Longrightarrow> sys_inv s" for s
    using tables.inv_init
    by (fastforce simp: sys_start_def sys_inv_def handlers_ok_def wired_def traced_def table_start_def newSessionTable_def)
qed (rule sys_inv_step)

section \<open>Draining\<close>

text \<open>How many steps a handler needs at most until it has returned, when no more frames arrive.\<close>

fun rank :: "conn_phase \<Rightarrow> nat" where
  "rank Greeting = 1"
| "rank (Asking c tok pref rest) = 6"
| "rank (Evicting c r old rest) = 5"
| "rank (Replying c r rest) = 4"
| "rank (Handling c r rest m) = 3"
| "rank (Serving c r rest) = 2"
| "rank (Leaving r) = 1"
| "rank Gone = 0"

definition all_gone :: "server_sys \<Rightarrow> bool" where
  "all_gone s \<longleftrightarrow> list_all (\<lambda>ph. ph = Gone) (conns s)"

lemma rank_0 [simp]: "rank ph = 0 \<longleftrightarrow> ph = Gone"
  by (cases ph) simp_all

lemma handler_exits:
  assumes "i < length (conns s)" "conns s ! i \<noteq> Gone"
  shows "\<exists>s' ph. sys_step E s s' \<and> conns s' = (conns s)[i := ph] \<and> rank ph < rank (conns s ! i)"
proof (cases "conns s ! i")
  case Greeting
  with assms sys_step.rejected [where s = s and i = i and E = E] show ?thesis by fastforce
next
  case (Asking c tok pref rest)
  obtain ph t where a: "ask i c tok pref rest (sv_table s) = (ph, t)" by fastforce
  moreover from this have "rank ph < 6" by (auto simp: ask_def split: prod.splits sum.splits option.splits)
  ultimately show ?thesis using sys_step.asked [where s = s and i = i and E = E] assms Asking by fastforce
next
  case (Evicting c r old rest)
  with assms sys_step.evict [where s = s and i = i and E = E] show ?thesis by fastforce
next
  case (Replying c r rest)
  obtain ph t where a: "answer (se_pad E) (\<lambda>_. 0) True i c r rest (sv_table s) = (ph, t)" by fastforce
  moreover from this have "rank ph < 4" by (auto simp: answer_def split: prod.splits sum.splits)
  ultimately show ?thesis using sys_step.answered [where s = s and i = i and E = E] assms Replying by fastforce
next
  case (Serving c r inp)
  with assms sys_step.ended [where s = s and i = i and E = E] show ?thesis by fastforce
next
  case (Handling c r rest m)
  obtain eff v st' tp' where h: "handle_frame c (se_pad E) (cs_ip (objs (sv_table s) ! r)) (\<lambda>_. True) m
      \<lparr>rxData = 0, rxBytes = 0, pings = 0\<rparr> (\<lambda>_. 0) = (eff, v, st', tp')" by (metis prod_cases4)
  from sys_step.handled [OF _ h, where i = i and rest = rest] assms Handling show ?thesis by fastforce
next
  case (Leaving r)
  with assms sys_step.left [where s = s and i = i and E = E] show ?thesis by fastforce
qed (use assms in simp)

lemma sum_list_decreases: "i < length xs \<Longrightarrow> f y < f (xs ! i) \<Longrightarrow> sum_list (map f (xs[i := y])) < (sum_list (map f xs) :: nat)"
proof (induction xs arbitrary: i)
  case (Cons x xs)
  then show ?case by (cases i) auto
qed simp

lemma drains: "\<exists>s'. (sys_step E)\<^sup>*\<^sup>* s s' \<and> all_gone s'"
proof (induction "sum_list (map rank (conns s))" arbitrary: s rule: less_induct)
  case less
  show ?case
  proof (cases "all_gone s")
    case False
    then obtain i where i: "i < length (conns s)" "conns s ! i \<noteq> Gone" by (auto simp: all_gone_def list_all_length)
    from handler_exits [OF this, of E] obtain s1 ph where s1: "sys_step E s s1" "conns s1 = (conns s)[i := ph]"
      "rank ph < rank (conns s ! i)" by blast
    from less [of s1] sum_list_decreases [of i "conns s" rank ph] i s1 obtain s' where "(sys_step E)\<^sup>*\<^sup>* s1 s'" "all_gone s'"
      by auto
    with s1(1) show ?thesis by (meson converse_rtranclp_into_rtranclp)
  qed blast
qed

lemma gone_nothing_left:
  assumes "sys_inv s" "all_gone s"
  shows "byIP (sv_table s) = Map.empty \<and> byToken (sv_table s) = Map.empty \<and> allocated (pool (sv_table s)) = {}"
proof -
  from assms(1) have h: "handlers_ok (conns s) (shut s) (sv_table s)" by (simp add: sys_inv_def)
  note inv = handlers_okD(1) [OF h]
  have "r \<notin> ran (byIP (sv_table s))" for r
  proof
    assume r: "r \<in> ran (byIP (sv_table s))"
    then have "r < length (objs (sv_table s))" using table_invD(3) [OF inv] by (auto simp: ran_def ip_entry_ok_def)
    from handlers_okD(3) [OF h this] assms(2) r show False
      by (auto simp: session_ok_def all_gone_def list_all_length Let_def)
  qed
  then have ip: "byIP (sv_table s) = Map.empty" by (auto simp: ran_def fun_eq_iff) (metis not_None_eq)
  moreover have "byToken (sv_table s) k = None" for k
    using token_session [OF inv, of k] ip by (cases "byToken (sv_table s) k") auto
  ultimately show ?thesis using table_invD(2) [OF inv] by (auto simp: fun_eq_iff)
qed

section \<open>Properties\<close>

text \<open>
  C8. Nothing is left when the clients are gone. However the handlers, the dispatcher and the clean-up of
  the replay guard were interleaved, every reachable state of the server can proceed to one in
  which all handlers have returned, and in every reachable state in which they have, the session
  table is empty and the pool has all its addresses back.
\<close>

theorem server_drains:
  assumes "reach (sys_start cidr) (sys_step E) s"
  shows "(\<exists>s'. (sys_step E)\<^sup>*\<^sup>* s s' \<and> all_gone s')
    \<and> (\<forall>s'. (sys_step E)\<^sup>*\<^sup>* s s' \<and> all_gone s' \<longrightarrow>
          byIP (sv_table s') = Map.empty \<and> byToken (sv_table s') = Map.empty \<and> allocated (pool (sv_table s')) = {})"
proof -
  have "sys_inv s'" if "(sys_step E)\<^sup>*\<^sup>* s s'" for s'
    using that system.reach_inv [OF assms] by (induction rule: rtranclp_induct) (auto intro: sys_inv_step)
  with drains [of E s] gone_nothing_left show ?thesis by blast
qed


section \<open>Two clients with one token\<close>

definition demo_sys :: sys_env where
  "demo_sys = \<lparr>se_crypto = demo_crypto, se_psk = [1], se_chacha = (\<lambda>_. Some (cipher_aead demo_aead)),
     se_pad = \<lparr>pad_min = 0, pad_max = 0\<rparr>\<rparr>"

text \<open>A hello with the salt \<open>x, x, \<dots>\<close> and the request for 10.7.0.2 with the token 1, \<open>\<dots>\<close>, 8.\<close>

definition demo_greeting :: "byte \<Rightarrow> bytes" where
  "demo_greeting x =
     hello_frame (put_u16 104) (replicate 32 x) (put_u64 (of_int 130)) (replicate 32 2)
       (computeHMAC demo_crypto [1] (replicate 32 x @ put_u64 (of_int 130) @ replicate 32 2))
     @ frame_of demo_aead FrameAssign ([10, 7, 0, 2] @ demo_token) (replicate 12 0) []"

lemma demo_greet:
  assumes "seen g (replicate 32 x) = None"
  shows "greet demo_sys (100 * second) (100 * second) (\<lambda>i. 3) True (demo_greeting x) g
     = (Asking demo_aead demo_token [10, 7, 0, 2] [], g\<lparr>seen := (seen g)(replicate 32 x \<mapsto> 100 * second)\<rparr>)"
proof -
  let ?mac = "computeHMAC demo_crypto [1] (replicate 32 x @ put_u64 (of_int 130) @ replicate 32 2)"
  let ?req = "frame_of demo_aead FrameAssign ([10, 7, 0, 2] @ demo_token) (replicate 12 0) []"
  have l: "hello_lens (put_u16 104) (replicate 32 x) (put_u64 (of_int 130)) (replicate 32 2) ?mac"
    by (simp add: hello_lens_def computeHMAC_def demo_crypto_def)
  have "timestamp_skew (100 * second) (put_u64 (of_int 130)) = 30"
    by (subst skew_distance) (simp_all add: unix_def second_def)
  moreover have "\<exists>out. server_reply demo_crypto [1] (\<lambda>i. 3) (replicate 32 x) (replicate 32 2) = Inr (out, Some (replicate 32 1))"
    by (simp add: server_reply_def rand_read_def demo_crypto_def DeriveKey_def KeySize_def)
  ultimately obtain out where hs: "ServerHandshake demo_crypto [1] (100 * second) (100 * second) (\<lambda>i. 3) True g (demo_greeting x)
      = (out, g\<lparr>seen := (seen g)(replicate 32 x \<mapsto> 100 * second)\<rparr>, Inr (replicate 32 1, ?req))"
    using ServerHandshake_hello [OF l, of demo_crypto "[1]" "100 * second" "100 * second" "\<lambda>i. 3" g ?req] assms
    by (auto simp: demo_greeting_def)
  have "Decode demo_aead (?req @ []) = Inr ((FrameAssign, [10, 7, 0, 2] @ demo_token), [])"
    by (rule demo_decode) (simp add: demo_token_def)
  moreover have "assign_request (FrameAssign, [10, 7, 0, 2] @ demo_token) = Some ([10, 7, 0, 2], demo_token)" by code_simp
  moreover have "NewCipher (se_chacha demo_sys) k = Some demo_aead" for k
    by (simp add: NewCipher_def demo_sys_def demo_aead_def)
  ultimately show ?thesis using hs by (simp add: greet_def demo_sys_def)
qed

lemma demo_two_clients:
  "\<exists>s r. reach (sys_start ''10.7.0.1/29'') (sys_step demo_sys) s
     \<and> conns s = [Serving demo_aead 0 [], Evicting demo_aead r 0 []]
     \<and> cs_ip (objs (sv_table s) ! 0) = cs_ip (objs (sv_table s) ! r)"
proof -
  let ?T = "newSessionTable demo_pool" and ?g = NewReplayGuard
  let ?g1 = "?g\<lparr>seen := (seen ?g)(replicate 32 1 \<mapsto> 100 * second)\<rparr>"
  let ?g2 = "?g1\<lparr>seen := (seen ?g1)(replicate 32 2 \<mapsto> 100 * second)\<rparr>"
  let ?a = "assign demo_token [10, 7, 0, 2] 0 ?T" and ?R = "reach (sys_start ''10.7.0.1/29'') (sys_step demo_sys)"
  let ?s = "\<lambda>g t cs. \<lparr>sv_guard = g, sv_table = t, conns = cs, shut = {}, to_tun = [], to_client = [], disp = None\<rparr>"
  have "fst ?a = Inr (0, None)" "byToken (snd ?a) (token_string demo_token) = Some 0" "length (objs (snd ?a)) = 1" by code_simp+
  then obtain t1 where t1: "?a = (Inr (0, None), t1)" "byToken t1 (token_string demo_token) = Some 0" "length (objs t1) = 1"
    by (metis prod.collapse)
  let ?w = "setWriter 0 0 demo_aead t1"
  have "reach (table_start ''10.7.0.1/29'') table_step t1" using demo_start_reach table_step.connect [OF t1(1)] by (rule reach_step)
  then have w: "reach (table_start ''10.7.0.1/29'') table_step ?w" by (rule reach_step) (rule table_step.publish)
  have "byToken ?w (token_string demo_token) = Some 0" using t1(2) by (simp add: setWriter_def)
  note E = assign_evicts [OF tables.reach_inv [OF w] demo_table_entries(3) this]
  obtain r t2 where reg: "register (token_string demo_token) (cs_ip (objs ?w ! 0)) 1 (detach 0 ?w) = (r, t2)" by fastforce
  with E have t2: "assign demo_token [10, 7, 0, 2] 1 ?w = (Inr (r, Some 0), t2)" "cs_ip (objs t2 ! r) = cs_ip (objs ?w ! 0)"
    by (simp, auto simp: register_def Let_def nth_append split: if_splits)
  from assign_facts [OF tables.reach_inv [OF w] t2(1)] obtain o' where "objs t2 = objs ?w @ [o']" by blast
  moreover have "length (objs ?w) = 1" using t1(3) by (simp add: setWriter_maps)
  ultimately have old: "objs t2 ! 0 = objs ?w ! 0" by (simp only: nth_append) simp
  have "length (assign_payload (cs_ip (objs t1 ! 0)) (pool t1)) \<le> MaxPayloadSize"
    by (simp add: assign_payload_def copy_at_def MaxPayloadSize_def)
  then obtain f t' where "Encode FrameAssign (assign_payload (cs_ip (objs t1 ! 0)) (pool t1)) demo_aead
      \<lparr>pad_min = 0, pad_max = 0\<rparr> (\<lambda>_. 0) = (Inr f, t')"
    by (rule Encode_decodable [OF demo_aead_ok, rotated 2]) (auto simp: check_padding_def)
  then have an: "answer (se_pad demo_sys) (\<lambda>_. 0) True 0 demo_aead 0 [] t1 = (Serving demo_aead 0 [], ?w)"
    by (simp add: answer_def demo_sys_def)
  have g: "seen ?g (replicate 32 1) = None" "seen ?g1 (replicate 32 2) = None" by (simp_all add: NewReplayGuard_def)
  have "?R (?s ?g ?T [])" using demo_pool_new by (intro reach_init) (auto simp: sys_start_def table_start_def)
  from reach_step [OF this sys_step.accept] have "?R (?s ?g ?T [Greeting])" by simp
  from reach_step [OF this sys_step.greeted [OF _ demo_greet [where x = 1], where i = 0]] g(1)
  have "?R (?s ?g1 ?T [Asking demo_aead demo_token [10, 7, 0, 2] []])" by simp
  from reach_step [OF this sys_step.asked [where i = 0]] t1(1) have "?R (?s ?g1 t1 [Replying demo_aead 0 []])"
    by (simp add: ask_def)
  from reach_step [OF this sys_step.answered [where i = 0 and tp = "\<lambda>_. 0" and ok = True]] an have "?R (?s ?g1 ?w [Serving demo_aead 0 []])" by simp
  from reach_step [OF this sys_step.accept] have "?R (?s ?g1 ?w [Serving demo_aead 0 [], Greeting])" by simp
  from reach_step [OF this sys_step.greeted [OF _ demo_greet [where x = 2], where i = 1]] g(2)
  have "?R (?s ?g2 ?w [Serving demo_aead 0 [], Asking demo_aead demo_token [10, 7, 0, 2] []])" by simp
  from reach_step [OF this sys_step.asked [where i = 1]] t2(1)
  have "?R (?s ?g2 t2 [Serving demo_aead 0 [], Evicting demo_aead r 0 []])" by (simp add: ask_def)
  with t2(2) old show ?thesis by (intro exI [of _ "?s ?g2 t2 [Serving demo_aead 0 [], Evicting demo_aead r 0 []]"] exI [of _ r]) simp
qed


theorem server_drains_witness:
  "\<exists>s s' r. conns s = [Serving demo_aead 0 [], Evicting demo_aead r 0 []]
     \<and> (sys_step demo_sys)\<^sup>*\<^sup>* s s' \<and> all_gone s' \<and> allocated (pool (sv_table s')) = {}"
proof -
  obtain s r where s: "reach (sys_start ''10.7.0.1/29'') (sys_step demo_sys) s"
    "conns s = [Serving demo_aead 0 [], Evicting demo_aead r 0 []]" using demo_two_clients by blast
  from server_drains [OF s(1)] s(2) show ?thesis by blast
qed

end
