(* ===== verification/Geoip.thy ===== *)
theory Geoip
  imports RoutingRules
begin

text \<open>
  Component \<open>internal/geoip/geoip.go\<close> with \<open>periodicGeoIPUpdate\<close> of \<open>cmd/gateway/main.go\<close>: the country
  database, its download and replacement, and the update of the direct networks. The MMDB library is
  a record of operations on handles; the outcomes of the HTTP request, of gzip and of the disk in one
  download are another record. Log lines are not modelled.
\<close>

section \<open>The database\<close>

text \<open>
  What \<open>maxminddb\<close> does: opening the contents of a file, looking up the country of an address, and
  walking the networks (\<open>None\<close> is an entry that fails to decode; the flag is the error at the end).
\<close>

record 'r mmdb =
  mm_open :: "bytes \<Rightarrow> 'r option"
  mm_lookup :: "'r \<Rightarrow> IP \<Rightarrow> string option"
  mm_networks :: "'r \<Rightarrow> (IPNet \<times> string) option list \<times> bool"

record 'r DB =
  reader :: "'r option"
  dbPath :: string
  countryCode :: string
  db_subnets :: "IPNet list"
  closed_readers :: "'r list"

datatype geo_error =
  OpenMmdb | DownloadGeo | BadStatus nat | GzipReader | MkdirGeo | CreateFile | WriteMmdb | RenameGeo
| OpenAndDownload geo_error geo_error | IterateNetworks

text \<open>The month of the download; \<open>%02d\<close> pads to two digits.\<close>

definition downloadURL :: "nat \<Rightarrow> nat \<Rightarrow> string" where
  "downloadURL year month =
     ''https://download.db-ip.com/free/dbip-country-lite-'' @ fmt_d year @ ''-''
       @ (if month < 10 then ''0'' else '''') @ fmt_d month @ ''.mmdb.gz''"

text \<open>\<open>strings.ToUpper\<close> on ASCII.\<close>

definition ToUpper :: "string \<Rightarrow> string" where
  "ToUpper = map (\<lambda>c. let n = (of_char c :: nat) in if 97 \<le> n \<and> n \<le> 122 then char_of (n - 32) else c)"

type_synonym disk_files = "string \<rightharpoonup> bytes"

definition db_open :: "'r mmdb \<Rightarrow> disk_files \<Rightarrow> 'r DB \<Rightarrow> geo_error option \<times> 'r DB" where
  "db_open M fs db =
     (case (case fs (dbPath db) of None \<Rightarrow> None | Some b \<Rightarrow> mm_open M b) of
        None \<Rightarrow> (Some OpenMmdb, db)
      | Some r \<Rightarrow>
          (None, db\<lparr>reader := Some r,
                    closed_readers := closed_readers db @ (case reader db of None \<Rightarrow> [] | Some old \<Rightarrow> [old])\<rparr>))"

text \<open>The lookup of a database that was opened; without a reader it would be a nil dereference.\<close>

definition IsCountry :: "'r mmdb \<Rightarrow> 'r DB \<Rightarrow> IP \<Rightarrow> bool option" where
  "IsCountry M db ip =
     (case reader db of
        None \<Rightarrow> None
      | Some r \<Rightarrow> Some (case mm_lookup M r ip of None \<Rightarrow> False | Some cty \<Rightarrow> cty = countryCode db))"

text \<open>One entry of the walk, and the walk.\<close>

fun keep_subnet :: "string \<Rightarrow> IPNet list \<Rightarrow> (IPNet \<times> string) option \<Rightarrow> IPNet list" where
  "keep_subnet cc acc None = acc"
| "keep_subnet cc acc (Some (subnet, cty)) =
     (if cty \<noteq> cc then acc
      else if To4 (net_ip subnet) = [] then acc
      else acc @ [subnet])"

definition ExtractSubnets :: "'r mmdb \<Rightarrow> 'r DB \<Rightarrow> (geo_error + IPNet list) option \<times> 'r DB" where
  "ExtractSubnets M db =
     (case reader db of
        None \<Rightarrow> (None, db)
      | Some r \<Rightarrow>
          let (entries, failed) = mm_networks M r;
              subnets = foldl (keep_subnet (countryCode db)) [] entries
          in if failed then (Some (Inl IterateNetworks), db)
             else (Some (Inr subnets), db\<lparr>db_subnets := subnets\<rparr>))"

definition Subnets :: "'r DB \<Rightarrow> IPNet list" where "Subnets db = db_subnets db"

definition db_Close :: "'r DB \<Rightarrow> 'r DB" where
  "db_Close db = db\<lparr>closed_readers := closed_readers db @ (case reader db of None \<Rightarrow> [] | Some r \<Rightarrow> [r])\<rparr>"

section \<open>Downloading\<close>

text \<open>
  The outcomes of one download: the response with its status, what gzip yields (nothing for a bad
  header, otherwise data and whether the stream ended well), the disk operations, how many bytes the
  disk takes, and whether removing the temporary file works.
\<close>

record download_env =
  de_response :: "(nat \<times> bytes) option"
  de_gunzip :: "bytes \<Rightarrow> (bytes \<times> bool) option"
  de_mkdir :: bool
  de_create :: bool
  de_space :: nat
  de_rename :: bool
  de_remove :: bool

definition remove_file :: "download_env \<Rightarrow> string \<Rightarrow> disk_files \<Rightarrow> disk_files" where
  "remove_file E p fs = (if de_remove E then fs(p := None) else fs)"

definition Download :: "download_env \<Rightarrow> 'r DB \<Rightarrow> disk_files \<Rightarrow> geo_error option \<times> disk_files" where
  "Download E db fs =
     (case de_response E of
        None \<Rightarrow> (Some DownloadGeo, fs)
      | Some (status, body) \<Rightarrow>
          if status \<noteq> 200 then (Some (BadStatus status), fs)
          else case de_gunzip E body of
            None \<Rightarrow> (Some GzipReader, fs)
          | Some (data, ended) \<Rightarrow>
              if \<not> de_mkdir E then (Some MkdirGeo, fs)
              else
                let tmpPath = dbPath db @ ''.tmp'' in
                if \<not> de_create E then (Some CreateFile, fs)
                else
                  let fs1 = fs(tmpPath \<mapsto> take (de_space E) data) in
                  if \<not> ended \<or> de_space E < length data then (Some WriteMmdb, remove_file E tmpPath fs1)
                  else if \<not> de_rename E then (Some RenameGeo, remove_file E tmpPath fs1)
                  else (None, fs1(dbPath db \<mapsto> data, tmpPath := None)))"

definition Update :: "'r mmdb \<Rightarrow> download_env \<Rightarrow> 'r DB \<Rightarrow> disk_files \<Rightarrow> geo_error option \<times> 'r DB \<times> disk_files" where
  "Update M E db fs =
     (case Download E db fs of
        (Some e, fs1) \<Rightarrow> (Some e, db, fs1)
      | (None, fs1) \<Rightarrow> (case db_open M fs1 db of (r, db1) \<Rightarrow> (r, db1, fs1)))"

definition new_db :: "string \<Rightarrow> string \<Rightarrow> 'r DB" where
  "new_db path cc = \<lparr>reader = None, dbPath = path, countryCode = ToUpper cc, db_subnets = [], closed_readers = []\<rparr>"

definition geoip_New ::
  "'r mmdb \<Rightarrow> download_env \<Rightarrow> string \<Rightarrow> string \<Rightarrow> disk_files \<Rightarrow> (geo_error + 'r DB) \<times> disk_files" where
  "geoip_New M E path cc fs =
     (case db_open M fs (new_db path cc) of
        (None, db) \<Rightarrow> (Inr db, fs)
      | (Some err, db) \<Rightarrow>
          (case Download E db fs of
             (Some dlErr, fs1) \<Rightarrow> (Inl (OpenAndDownload err dlErr), fs1)
           | (None, fs1) \<Rightarrow>
               (case db_open M fs1 db of
                  (Some e, _) \<Rightarrow> (Inl e, fs1)
                | (None, db1) \<Rightarrow> (Inr db1, fs1))))"

text \<open>One tick of \<open>periodicGeoIPUpdate\<close>: database, files and kernel afterwards.\<close>

definition geo_tick ::
  "'r mmdb \<Rightarrow> download_env \<Rightarrow> 'k tools \<Rightarrow> 'r DB \<times> disk_files \<times> 'k \<Rightarrow> 'r DB \<times> disk_files \<times> 'k" where
  "geo_tick M E T = (\<lambda>(db, fs, k).
     case Update M E db fs of
       (Some e, db1, fs1) \<Rightarrow> (db1, fs1, k)
     | (None, db1, fs1) \<Rightarrow>
         (case ExtractSubnets M db1 of
            (Some (Inr subnets), db2) \<Rightarrow> (db2, fs1, snd (UpdateDirectIPs T subnets k))
          | (_, db2) \<Rightarrow> (db2, fs1, k)))"

definition periodicGeoIPUpdate ::
  "'r mmdb \<Rightarrow> 'k tools \<Rightarrow> download_env list \<Rightarrow> 'r DB \<times> disk_files \<times> 'k \<Rightarrow> 'r DB \<times> disk_files \<times> 'k" where
  "periodicGeoIPUpdate M T Es s = fold (\<lambda>E. geo_tick M E T) Es s"

section \<open>The country's networks\<close>

text \<open>The networks of a handle that count: IPv4, of the country.\<close>

definition country_nets :: "'r mmdb \<Rightarrow> string \<Rightarrow> 'r \<Rightarrow> IPNet list" where
  "country_nets M cc r =
     [n. Some (n, cty) \<leftarrow> fst (mm_networks M r), cty = cc \<and> To4 (net_ip n) \<noteq> []]"

lemma foldl_keep_subnet:
  "foldl (keep_subnet cc) acc entries = acc @ [n. Some (n, cty) \<leftarrow> entries, cty = cc \<and> To4 (net_ip n) \<noteq> []]"
proof (induction entries arbitrary: acc)
  case (Cons e entries)
  then show ?case by (cases e) auto
qed simp

lemma ExtractSubnets_eq:
  "reader db = Some r \<Longrightarrow> \<not> snd (mm_networks M r)
     \<Longrightarrow> ExtractSubnets M db = (Some (Inr (country_nets M (countryCode db) r)), db\<lparr>db_subnets := country_nets M (countryCode db) r\<rparr>)"
  by (cases "mm_networks M r") (simp add: ExtractSubnets_def country_nets_def foldl_keep_subnet Let_def)

lemma ExtractSubnets_failed:
  "reader db = Some r \<Longrightarrow> snd (mm_networks M r) \<Longrightarrow> ExtractSubnets M db = (Some (Inl IterateNetworks), db)"
  by (cases "mm_networks M r") (simp add: ExtractSubnets_def Let_def)

lemma Download_cases:
  assumes "Download E db fs = (res, fs')"
  shows "(\<forall>p. p \<noteq> dbPath db \<longrightarrow> p \<noteq> dbPath db @ ''.tmp'' \<longrightarrow> fs' p = fs p)"
    and "res \<noteq> None \<Longrightarrow> fs' (dbPath db) = fs (dbPath db)"
    and "res = None \<Longrightarrow> \<exists>body data. de_response E = Some (200, body) \<and> de_gunzip E body = Some (data, True)
      \<and> length data \<le> de_space E \<and> fs' (dbPath db) = Some data \<and> fs' (dbPath db @ ''.tmp'') = None"
  using assms by (auto simp: Download_def remove_file_def Let_def split: option.splits if_splits prod.splits)

lemma db_open_cases:
  assumes "db_open M fs db = (res, db')"
  shows "res \<noteq> None \<Longrightarrow> db' = db"
    and "res = None \<Longrightarrow> \<exists>b r. fs (dbPath db) = Some b \<and> mm_open M b = Some r \<and> reader db' = Some r
      \<and> dbPath db' = dbPath db \<and> countryCode db' = countryCode db \<and> db_subnets db' = db_subnets db
      \<and> closed_readers db' = closed_readers db @ (case reader db of None \<Rightarrow> [] | Some old \<Rightarrow> [old])"
  using assms by (auto simp: db_open_def split: option.splits)

section \<open>Replacing the database\<close>


lemma geo_tick_sets:
  assumes "ipset_ok T sets" "sets k IPSetDirect = Some old"
    and "geo_tick M E T (db, fs, k) = (db', fs', k')"
  shows "if fst (Update M E db fs) = None \<and> \<not> snd (mm_networks M (the (reader db')))
    then sets k' = (sets k)(IPSetDirect \<mapsto> net_string ` set (country_nets M (countryCode db) (the (reader db'))),
          IPSetDirect @ ''-tmp'' := None)
      \<and> Subnets db' = country_nets M (countryCode db) (the (reader db'))
    else k' = k"
proof -
  obtain res db1 fs1 where u: "Update M E db fs = (res, db1, fs1)" by (metis prod_cases3)
  show ?thesis
  proof (cases res)
    case (Some e)
    with assms(3) u show ?thesis by (simp add: geo_tick_def)
  next
    case None
    with u obtain fs2 where o: "db_open M fs2 db = (None, db1)"
      by (auto simp: Update_def split: prod.splits option.splits)
    from db_open_cases(2) [OF o] obtain r where r: "reader db1 = Some r" "countryCode db1 = countryCode db" by auto
    show ?thesis
    proof (cases "snd (mm_networks M r)")
      case True
      with assms(3) u None r ExtractSubnets_failed [OF r(1) True] show ?thesis by (auto simp: geo_tick_def)
    next
      case False
      let ?nets = "country_nets M (countryCode db) r"
      from direct_set_replaced [OF assms(1,2), of ?nets] obtain k1 where
        k1: "UpdateDirectIPs T ?nets k = (None, k1)"
        "sets k1 = (sets k)(IPSetDirect \<mapsto> net_string ` set ?nets, IPSetDirect @ ''-tmp'' := None)" by auto
      with assms(3) u None r ExtractSubnets_eq [OF r(1) False] show ?thesis
        by (auto simp: geo_tick_def Subnets_def False)
    qed
  qed
qed

text \<open>
  A tick of the periodic update installs exactly the country's networks. Under the documented
  behaviour of \<open>ipset\<close>, when the download, the opening and the walk succeed the direct set afterwards
  holds exactly the IPv4 networks that the new database gives to the configured country, entries that
  fail to decode skipped, and these are what \<open>Subnets\<close> returns; when any of them fails no rule of
  the kernel is touched.
\<close>

theorem geo_tick_installs:
  assumes "ipset_ok T sets" "sets k IPSetDirect = Some old"
    and "geo_tick M E T (db, fs, k) = (db', fs', k')"
  shows "if fst (Update M E db fs) = None \<and> \<not> snd (mm_networks M (the (reader db')))
    then sets k' IPSetDirect = Some (net_string ` set (country_nets M (countryCode db) (the (reader db'))))
      \<and> Subnets db' = country_nets M (countryCode db) (the (reader db'))
    else k' = k"
proof -
  have "IPSetDirect \<noteq> IPSetDirect @ ''-tmp''" by simp
  with geo_tick_sets [OF assms] show ?thesis by (auto split: if_splits)
qed

definition demo_mmdb :: "bytes mmdb" where
  "demo_mmdb =
     \<lparr>mm_open = (\<lambda>b. if b = [] then None else Some b), mm_lookup = (\<lambda>_ _. Some ''RU''),
      mm_networks = (\<lambda>r. ([Some (\<lparr>net_ip = [10, 9, 0, 0], net_ones = 16\<rparr>, ''RU''), None,
                           Some (\<lparr>net_ip = replicate 16 1, net_ones = 64\<rparr>, ''RU''),
                           Some (\<lparr>net_ip = [10, 8, 0, 0], net_ones = 16\<rparr>, ''DE'')], False))\<rparr>"

definition demo_download :: "bool \<Rightarrow> download_env" where
  "demo_download ended =
     \<lparr>de_response = Some (200, [1]), de_gunzip = (\<lambda>b. Some ([7, 7], ended)), de_mkdir = True, de_create = True,
      de_space = 5, de_rename = True, de_remove = True\<rparr>"

definition demo_db :: "bytes DB" where
  "demo_db = \<lparr>reader = Some [1], dbPath = ''geo.mmdb'', countryCode = ToUpper ''ru'', db_subnets = [], closed_readers = []\<rparr>"


theorem geo_tick_installs_witness:
  "\<exists>db' fs' k'. geo_tick demo_mmdb (demo_download True) demo_ipset (demo_db, \<lambda>_. None, [IPSetDirect \<mapsto> {''192.0.2.0/24''}])
       = (db', fs', k') \<and> k' IPSetDirect = Some {''10.9.0.0/16''}"
proof -
  let ?k = "[IPSetDirect \<mapsto> {''192.0.2.0/24''}] :: string \<rightharpoonup> string set"
  obtain db' fs' k' where t: "geo_tick demo_mmdb (demo_download True) demo_ipset (demo_db, \<lambda>_. None, ?k) = (db', fs', k')"
    by (metis prod_cases3)
  have "ToUpper ''ru'' = ''RU''" by code_simp
  then have cc: "countryCode demo_db = ''RU''" by (simp add: demo_db_def)
  have nets: "country_nets demo_mmdb ''RU'' r = [\<lparr>net_ip = [10, 9, 0, 0], net_ones = 16\<rparr>]" for r
    by (simp add: country_nets_def demo_mmdb_def To4_def v4InV6Prefix_def numeral_eq_Suc)
  have ok: "fst (Update demo_mmdb (demo_download True) demo_db (\<lambda>_. None)) = None"
    by (auto simp: Update_def Download_def demo_download_def db_open_def demo_mmdb_def Let_def)
  have "\<not> snd (mm_networks demo_mmdb (the (reader db')))" by (simp add: demo_mmdb_def)
  with geo_tick_installs [OF demo_ipset_ok _ t] ok cc nets
  have "k' IPSetDirect = Some (net_string ` {\<lparr>net_ip = [10, 9, 0, 0], net_ones = 16\<rparr>})" by simp
  moreover have "net_string \<lparr>net_ip = [10, 9, 0, 0], net_ones = 16\<rparr> = ''10.9.0.0/16''" by code_simp
  ultimately show ?thesis using t by auto
qed

end
