(* ===== verification/GatewayMain.thy ===== *)
theory GatewayMain
  imports Gateway Wireguard Geoip RouterLinux
begin

text \<open>
  Component \<open>main\<close> of \<open>cmd/gateway/main.go\<close>: the command line, the two peer commands and the start of
  the gateway with every failure and the deferred calls. The kernel, WireGuard, the devices and the
  country database are the operations of their components on one state; what a connection attempt, the
  random source and an address request yield are arguments. A call of \<open>fatal\<close> ends the process
  without the deferred calls. Log lines, the profiler and the debug signal are not modelled.
\<close>

section \<open>The command line\<close>

datatype gw_action = RunGateway string | DoAddPeer string string | DoRemovePeer string string | GwUsage
  | GwMissingValue string | GwUnknownFlag string

fun gateway_args :: "string \<Rightarrow> string list \<Rightarrow> gw_action" where
  "gateway_args cfgPath [] = RunGateway cfgPath"
| "gateway_args cfgPath (a # args) =
     (if a = ''-config'' \<or> a = ''-c'' \<or> a = ''--config'' then
        (case args of [] \<Rightarrow> GwMissingValue a | v # rest \<Rightarrow> gateway_args v rest)
      else if a = ''-add-peer'' \<or> a = ''--add-peer'' then
        (case args of [] \<Rightarrow> GwMissingValue a | nm # _ \<Rightarrow> DoAddPeer cfgPath nm)
      else if a = ''-remove-peer'' \<or> a = ''--remove-peer'' then
        (case args of [] \<Rightarrow> GwMissingValue a | nm # _ \<Rightarrow> DoRemovePeer cfgPath nm)
      else if a = ''-h'' \<or> a = ''--help'' \<or> a = ''help'' then GwUsage
      else if \<not> prefix ''-'' a then gateway_args a args
      else GwUnknownFlag a)"

definition gateway_main :: "string list \<Rightarrow> gw_action" where
  "gateway_main args = gateway_args ''/etc/gateway/gateway.yaml'' args"

section \<open>The peer commands\<close>

datatype peer_exit = PeerConfig load_error | PeerInit wg_error | PeerLoad wg_error | PeerFailed wg_error | PeerDone string

text \<open>\<open>addPeer\<close>: the error of \<open>LoadPeers\<close> is ignored. \<open>None\<close> is an allocation that does not end.\<close>

definition addPeer :: "'k host \<Rightarrow> load_error + GatewayConfig \<Rightarrow> string \<Rightarrow> 'k \<Rightarrow> (peer_exit \<times> 'k) option" where
  "addPeer H loaded nm k =
     (case loaded of
        Inl e \<Rightarrow> Some (PeerConfig e, k)
      | Inr gc \<Rightarrow>
          (case InitKeys H (NewWgManager (WireGuard gc), k) of
             (Some e, m1, k1) \<Rightarrow> Some (PeerInit e, k1)
           | (None, m1, k1) \<Rightarrow>
               (case AddPeer H nm (snd (LoadPeers H (m1, k1))) of
                  None \<Rightarrow> None
                | Some (Inl e, m2, k2) \<Rightarrow> Some (PeerFailed e, k2)
                | Some (Inr clientCfg, m2, k2) \<Rightarrow> Some (PeerDone clientCfg, k2))))"

definition removePeer :: "'k host \<Rightarrow> load_error + GatewayConfig \<Rightarrow> string \<Rightarrow> 'k \<Rightarrow> peer_exit \<times> 'k" where
  "removePeer H loaded nm k =
     (case loaded of
        Inl e \<Rightarrow> (PeerConfig e, k)
      | Inr gc \<Rightarrow>
          (case LoadPeers H (NewWgManager (WireGuard gc), k) of
             (Some e, m1, k1) \<Rightarrow> (PeerLoad e, k1)
           | (None, m1, k1) \<Rightarrow>
               (case RemovePeer H nm (m1, k1) of
                  (Some e, m2, k2) \<Rightarrow> (PeerFailed e, k2)
                | (None, m2, k2) \<Rightarrow> (PeerDone [], k2))))"

section \<open>The start of the gateway\<close>

definition gatewayTunMTU :: int where "gatewayTunMTU = 1420"

text \<open>
  A member that connected gets an address and a device, or is marked unhealthy: the number of
  provisioned members, the pool and the kernel.
\<close>

definition provision_member ::
  "int \<Rightarrow> (ConnManager \<Rightarrow> IP \<Rightarrow> bytes \<Rightarrow> assign_error + string) \<Rightarrow> 'k netlink \<Rightarrow> nat
     \<Rightarrow> nat \<times> Pool \<times> 'k \<Rightarrow> nat \<times> Pool \<times> 'k" where
  "provision_member now req nl i = (\<lambda>(n, p, k).
     let m = members p ! i in
     case req (CM m) IPv4zero (Token m) of
       Inl e \<Rightarrow> (n, MarkUnhealthy now i p, k)
     | Inr cidr \<Rightarrow>
         (case CreateTUN nl (IfName m) cidr gatewayTunMTU k of
            (Inl e, k1) \<Rightarrow> (n, MarkUnhealthy now i p, k1)
          | (Inr dev, k1) \<Rightarrow>
              let ip = (case ParseCIDR cidr of Some (ip, _) \<Rightarrow> ip | None \<Rightarrow> []) in
              (n + 1, upd_member i (SetIface (IfName m) (To4 ip)) p, k1)))"

definition provision_all ::
  "int \<Rightarrow> (ConnManager \<Rightarrow> IP \<Rightarrow> bytes \<Rightarrow> assign_error + string) \<Rightarrow> 'k netlink \<Rightarrow> Pool \<Rightarrow> 'k \<Rightarrow> nat \<times> Pool \<times> 'k" where
  "provision_all now req nl p k =
     fold (provision_member now req nl) (filter (\<lambda>i. healthy (members p ! i)) [0..<length (members p)]) (0, p, k)"

datatype gw_exit =
    GConfig load_error | GBadPSK | GNoServers | GGeoip geo_error | GExtract | GWireguard wg_error | GToken
  | GPoolConnect nat | GNoTun | GRouting route_error | GStopped

text \<open>The libraries on one state, and what the world outside does during one run.\<close>

record ('k, 'r) gw_host =
  gh_tools :: "'k tools"
  gh_wg :: "'k host"
  gh_nl :: "'k netlink"
  gh_mmdb :: "'r mmdb"

record 'k gw_world =
  gi_now :: int
  gi_download :: download_env
  gi_files :: disk_files
  gi_tokens :: "nat \<Rightarrow> bytes option"
  gi_outcome :: "nat \<Rightarrow> attempt"
  gi_order :: "nat list"
  gi_req :: "ConnManager \<Rightarrow> IP \<Rightarrow> bytes \<Rightarrow> assign_error + string"
  gi_serve :: "watcher \<times> Manager \<times> 'k \<Rightarrow> watcher \<times> Manager \<times> 'k"

definition close_ifaces :: "'k netlink \<Rightarrow> Pool \<Rightarrow> 'k \<Rightarrow> 'k" where
  "close_ifaces nl p k = fold (\<lambda>m k. case m_iface m of Some d \<Rightarrow> nl_close_tun nl d k | None \<Rightarrow> k) (members p) k"

text \<open>
  The state at the start of the goroutines: the first selection is applied before them. A failure of
  \<open>Apply\<close> is only logged.
\<close>

definition start_watcher :: "bool \<Rightarrow> Pool \<Rightarrow> watcher" where
  "start_watcher stdby p =
     (let (names, sel) = active p \<lparr>standby = stdby, primary = ''''\<rparr> in
      \<lparr>w_pool = p, w_sel = sel, timer = False, applied = names, owed = 0\<rparr>)"

definition new_routing :: "GatewayConfig \<Rightarrow> Pool \<Rightarrow> Manager" where
  "new_routing gc p =
     NewManager (if IsTransitMode gc then '''' else WireGuardInterface gc) (map IfName (members p))
       (if IsTransitMode gc then '''' else Subnet (WireGuard gc)) (ResolveServerIPs (ServerList gc))
       (OutboundMark (Tunnel gc)) (RoutingMode gc = RoutingECMPSticky)"

text \<open>From the pool on, with the WireGuard manager or none in transit mode; then the deferred calls.\<close>

definition run_pool ::
  "('k, 'r) gw_host \<Rightarrow> 'k gw_world \<Rightarrow> GatewayConfig \<Rightarrow> IPNet list \<Rightarrow> wgManager option \<Rightarrow> 'k \<Rightarrow> gw_exit \<times> 'k" where
  "run_pool G W gc subnets wg k =
     (let servers = ServerList gc; T = gh_tools G in
      if \<exists>i<length servers. gi_tokens W i = None then (GToken, k)
      else case ConnectAll (gi_now W) (gi_outcome W) (gi_order W)
                  (NewPool (build_members (TunnelTunName gc) servers (\<lambda>i. the (gi_tokens W i)))) of
        (Inl n, p) \<Rightarrow> (GPoolConnect n, k)
      | (Inr _, p) \<Rightarrow>
          (case provision_all (gi_now W) (gi_req W) (gh_nl G) p k of
             (n, p1, k1) \<Rightarrow>
               if n = 0 then (GNoTun, k1)
               else case Setup T subnets (new_routing gc p1, k1) of
                 (Some e, m, k2) \<Rightarrow> (GRouting e, k2)
               | (None, m, k2) \<Rightarrow>
                   let w = start_watcher (RoutingMode gc = RoutingActiveStdby) p1;
                       (w1, m1, k4) = gi_serve W (w, snd (Apply T (applied w) (m, k2)));
                       k5 = close_ifaces (gh_nl G) (w_pool w1) (Teardown T m1 k4)
                   in (GStopped, case wg of None \<Rightarrow> k5 | Some g \<Rightarrow> wg_Teardown (gh_wg G) g k5)))"

definition runGateway ::
  "('k, 'r) gw_host \<Rightarrow> 'k gw_world \<Rightarrow> load_error + GatewayConfig \<Rightarrow> 'k \<Rightarrow> gw_exit \<times> 'k" where
  "runGateway G W loaded k =
     (case loaded of
        Inl e \<Rightarrow> (GConfig e, k)
      | Inr gc \<Rightarrow>
          if GPSKBytes gc = None then (GBadPSK, k)
          else if ServerList gc = [] then (GNoServers, k)
          else case geoip_New (gh_mmdb G) (gi_download W) (DatabasePath (GeoIP gc)) (CountryCode (GeoIP gc)) (gi_files W) of
            (Inl e, fs) \<Rightarrow> (GGeoip e, k)
          | (Inr db, fs) \<Rightarrow>
              (case ExtractSubnets (gh_mmdb G) db of
                 (Some (Inr subnets), db1) \<Rightarrow>
                   if IsTransitMode gc then run_pool G W gc subnets None k
                   else (case wg_Setup (gh_wg G) (NewWgManager (WireGuard gc), k) of
                           (Some e, g, k1) \<Rightarrow> (GWireguard e, k1)
                         | (None, g, k1) \<Rightarrow> run_pool G W gc subnets (Some g) k1)
               | _ \<Rightarrow> (GExtract, k)))"

section \<open>The members that carry traffic\<close>

text \<open>What connecting, and what provisioning makes of a member.\<close>

definition connected_ok :: "attempt \<Rightarrow> Member \<Rightarrow> Member \<Rightarrow> bool" where
  "connected_ok a m m' \<longleftrightarrow> healthy m' = (\<not> fails a) \<and> m_iface m' = None \<and> IfName m' = IfName m \<and> Token m' = Token m"

definition provisioned_ok :: "(ConnManager \<Rightarrow> IP \<Rightarrow> bytes \<Rightarrow> assign_error + string) \<Rightarrow> Member \<Rightarrow> Member \<Rightarrow> bool" where
  "provisioned_ok req m m' \<longleftrightarrow> IfName m' = IfName m
     \<and> (if healthy m'
        then healthy m \<and> m_iface m' = Some (IfName m) \<and> (\<exists>cidr. req (CM m) IPv4zero (Token m) = Inr cidr
               \<and> assignedIP m' = To4 (case ParseCIDR cidr of Some (ip, _) \<Rightarrow> ip | None \<Rightarrow> []))
        else m_iface m' = None)"

lemma connect_member_spec:
  assumes "i < length (members p)" "\<not> healthy (members p ! i)" "m_iface (members p ! i) = None" "CM (members p ! i) = NewConnManager"
    and "connect_member now outcome i (n, p) = (n', p')"
  shows "length (members p') = length (members p)" "\<And>j. j \<noteq> i \<Longrightarrow> members p' ! j = members p ! j"
    "connected_ok (outcome i) (members p ! i) (members p' ! i)"
proof -
  obtain r cm where c: "Connect (outcome i) NewConnManager = (r, cm)" by fastforce
  have "case r of Inl _ \<Rightarrow> fails (outcome i) | Inr _ \<Rightarrow> \<not> fails (outcome i)"
    using c by (cases "outcome i") (auto simp: Connect_def reconnect_def fails_def NewConnManager_def Let_def)
  then show "length (members p') = length (members p)" "\<And>j. j \<noteq> i \<Longrightarrow> members p' ! j = members p ! j"
    "connected_ok (outcome i) (members p ! i) (members p' ! i)"
    using assms c
    by (auto simp: connect_member_def connected_ok_def setHealthy_def Let_def split: sum.splits)
qed

lemma connect_all_spec:
  assumes "distinct js" "\<forall>i\<in>set js. i < length (members p) \<and> \<not> healthy (members p ! i) \<and> m_iface (members p ! i) = None
      \<and> CM (members p ! i) = NewConnManager"
    and "fold (connect_member now outcome) js (n, p) = (n', p')"
  shows "length (members p') = length (members p) \<and> (\<forall>i. i \<notin> set js \<longrightarrow> members p' ! i = members p ! i)
    \<and> (\<forall>i\<in>set js. connected_ok (outcome i) (members p ! i) (members p' ! i))"
  using assms
proof (induction js arbitrary: n p)
  case (Cons i js)
  obtain n1 p1 where s: "connect_member now outcome i (n, p) = (n1, p1)" by fastforce
  from Cons.prems(2) have i: "i < length (members p)" "\<not> healthy (members p ! i)" "m_iface (members p ! i) = None"
    "CM (members p ! i) = NewConnManager" by simp_all
  note S = connect_member_spec [OF i s]
  have "\<forall>j\<in>set js. j < length (members p1) \<and> \<not> healthy (members p1 ! j) \<and> m_iface (members p1 ! j) = None
      \<and> CM (members p1 ! j) = NewConnManager"
    using Cons.prems(1,2) S(1,2) by (metis distinct.simps(2) list.set_intros(2))
  with Cons.IH [of p1 n1] Cons.prems(1,3) s have
    IH: "length (members p') = length (members p1)" "\<forall>j. j \<notin> set js \<longrightarrow> members p' ! j = members p1 ! j"
      "\<forall>j\<in>set js. connected_ok (outcome j) (members p1 ! j) (members p' ! j)"
    by simp_all
  have "members p' ! i = members p1 ! i" using IH(2) Cons.prems(1) by simp
  moreover have "\<forall>j\<in>set js. members p1 ! j = members p ! j" using S(2) Cons.prems(1) by (metis distinct.simps(2))
  ultimately show ?case using IH S Cons.prems(1) by auto
qed simp

lemma provision_member_spec:
  assumes "i < length (members p)" "healthy (members p ! i)" "m_iface (members p ! i) = None"
    and "provision_member now req nl i (n, p, k) = (n', p', k')"
  shows "length (members p') = length (members p)" "\<And>j. j \<noteq> i \<Longrightarrow> members p' ! j = members p ! j"
    "provisioned_ok req (members p ! i) (members p' ! i)" "n' = n + (if healthy (members p' ! i) then 1 else 0)"
  using assms
  by (auto simp: provision_member_def provisioned_ok_def Mark_members upd_member_def SetIface_def setHealthy_def Let_def
      split: sum.splits prod.splits)

lemma provision_fold_spec:
  assumes "distinct js" "\<forall>i\<in>set js. i < length (members p) \<and> healthy (members p ! i) \<and> m_iface (members p ! i) = None"
    and "fold (provision_member now req nl) js (n, p, k) = (n', p', k')"
  shows "length (members p') = length (members p) \<and> (\<forall>i. i \<notin> set js \<longrightarrow> members p' ! i = members p ! i)
    \<and> (\<forall>i\<in>set js. provisioned_ok req (members p ! i) (members p' ! i))
    \<and> n' = n + length (filter (\<lambda>i. healthy (members p' ! i)) js)"
  using assms
proof (induction js arbitrary: n p k)
  case (Cons i js)
  obtain n1 p1 k1 where s: "provision_member now req nl i (n, p, k) = (n1, p1, k1)" by (metis prod_cases3)
  from Cons.prems(2) have i: "i < length (members p)" "healthy (members p ! i)" "m_iface (members p ! i) = None" by simp_all
  note S = provision_member_spec [OF i s]
  have "\<forall>j\<in>set js. j < length (members p1) \<and> healthy (members p1 ! j) \<and> m_iface (members p1 ! j) = None"
    using Cons.prems(1,2) S(1,2) by (metis distinct.simps(2) list.set_intros(2))
  with Cons.IH [of p1 n1 k1] Cons.prems(1,3) s have
    IH: "length (members p') = length (members p1)" "\<forall>j. j \<notin> set js \<longrightarrow> members p' ! j = members p1 ! j"
      "\<forall>j\<in>set js. provisioned_ok req (members p1 ! j) (members p' ! j)"
      "n' = n1 + length (filter (\<lambda>i. healthy (members p' ! i)) js)"
    by simp_all
  have "members p' ! i = members p1 ! i" using IH(2) Cons.prems(1) by simp
  moreover have "\<forall>j\<in>set js. members p1 ! j = members p ! j" using S(2) Cons.prems(1) by (metis distinct.simps(2))
  ultimately show ?case using IH S Cons.prems(1) by auto
qed simp

lemma start_watch: "watch_start (start_watcher stdby p)"
proof -
  obtain names sel where a: "active p \<lparr>standby = stdby, primary = ''''\<rparr> = (names, sel)" by fastforce
  from active_idem [OF a] show ?thesis by (simp add: start_watcher_def watch_start_def a)
qed

lemma Active_names:
  assumes "\<forall>i<length (members p). healthy (members p ! i) \<longrightarrow> m_iface (members p ! i) = Some (IfName (members p ! i))"
  shows "activeIfaceNames p = map IfName (Active p)"
proof -
  have "m \<in> set (members p) \<Longrightarrow> healthy m \<Longrightarrow> m_iface m = Some (IfName m)" for m
    using assms by (metis in_set_conv_nth)
  then have "\<forall>m\<in>set (Active p). m_iface m = Some (IfName m)" by (simp add: Active_def)
  then have "List.map_filter m_iface ms = map IfName ms" if "set ms \<subseteq> set (Active p)" for ms
    using that by (induction ms) (auto simp: map_filter_simps)
  then show ?thesis by (simp add: activeIfaceNames_def)
qed

lemma gateway_members:
  assumes "ConnectAll now outcome order (NewPool (build_members baseTun servers toks)) = (Inr (), p)"
    and "distinct order" "set order = {..<length servers}"
    and "provision_all now req nl p k = (n, p1, k1)"
  shows "length (members p1) = length servers"
    and "i < length servers \<Longrightarrow> let m = members p1 ! i in
         IfName m = SuggestIfaceName baseTun i (length servers)
         \<and> (if healthy m
            then \<not> fails (outcome i) \<and> m_iface m = Some (IfName m)
              \<and> (\<exists>cidr. req (CM (members p ! i)) IPv4zero (toks i) = Inr cidr
                   \<and> assignedIP m = To4 (case ParseCIDR cidr of Some (ip, _) \<Rightarrow> ip | None \<Rightarrow> []))
            else m_iface m = None)"
    and "n = length (Active p1)"
proof -
  let ?ms = "build_members baseTun servers toks"
  have len: "length ?ms = length servers" by (simp add: build_members_def)
  have ms: "\<not> healthy (?ms ! i)" "m_iface (?ms ! i) = None" "CM (?ms ! i) = NewConnManager"
    "IfName (?ms ! i) = SuggestIfaceName baseTun i (length servers)" "Token (?ms ! i) = toks i" if "i < length servers" for i
    using that by (simp_all add: build_members_def)
  obtain c p0 where f: "fold (connect_member now outcome) order (0, NewPool ?ms) = (c, p0)" by fastforce
  then have p: "members p = members p0"
    using assms(1) by (auto simp: ConnectAll_def split: if_splits)
  have C: "length (members p) = length servers" "\<forall>i<length servers. connected_ok (outcome i) (?ms ! i) (members p ! i)"
    using connect_all_spec [OF assms(2) _ f] ms len assms(3) p by (auto simp: NewPool_def)
  let ?js = "filter (\<lambda>i. healthy (members p ! i)) [0..<length (members p)]"
  have fp: "fold (provision_member now req nl) ?js (0, p, k) = (n, p1, k1)"
    using assms(4) by (simp add: provision_all_def)
  have js: "\<forall>i\<in>set ?js. i < length (members p) \<and> healthy (members p ! i) \<and> m_iface (members p ! i) = None"
    using C by (auto simp: connected_ok_def)
  have P: "length (members p1) = length servers"
    "\<And>i. i \<notin> set ?js \<Longrightarrow> members p1 ! i = members p ! i"
    "\<And>i. i \<in> set ?js \<Longrightarrow> provisioned_ok req (members p ! i) (members p1 ! i)"
    "n = length (filter (\<lambda>i. healthy (members p1 ! i)) ?js)"
    using provision_fold_spec [OF _ js fp] C(1) by simp_all
  show "let m = members p1 ! i in
         IfName m = SuggestIfaceName baseTun i (length servers)
         \<and> (if healthy m
            then \<not> fails (outcome i) \<and> m_iface m = Some (IfName m)
              \<and> (\<exists>cidr. req (CM (members p ! i)) IPv4zero (toks i) = Inr cidr
                   \<and> assignedIP m = To4 (case ParseCIDR cidr of Some (ip, _) \<Rightarrow> ip | None \<Rightarrow> []))
            else m_iface m = None)" if i: "i < length servers" for i
  proof (cases "i \<in> set ?js")
    case True
    from P(3) [OF True] C(2) [rule_format, OF i] ms [OF i] show ?thesis
      by (auto simp: provisioned_ok_def connected_ok_def Let_def split: if_splits)
  next
    case False
    with P(2) [OF False] C i ms [OF i] show ?thesis by (simp add: connected_ok_def Let_def)
  qed
  have was: "healthy (members p ! i)" if "healthy (members p1 ! i)" "i < length servers" for i
    using P(2,3) [of i] that C(1) by (cases "i \<in> set ?js") (auto simp: provisioned_ok_def)
  then have "filter (\<lambda>i. healthy (members p1 ! i)) ?js = filter (\<lambda>i. healthy (members p1 ! i)) [0..<length (members p1)]"
    unfolding filter_filter C(1) P(1) by (intro filter_cong) auto
  moreover have "length (filter (\<lambda>i. healthy (members p1 ! i)) [0..<length (members p1)]) = length (Active p1)"
    unfolding Active_def by (simp add: length_filter_conv_card cong: conj_cong)
  ultimately show "n = length (Active p1)" using P(4) by simp
  show "length (members p1) = length servers" by (rule P(1))
qed

text \<open>
  C22. What the gateway starts with. After connecting the pool in whatever order the attempts end, and
  provisioning it, the healthy members are exactly those that have a device; each of them connected,
  was assigned an address and carries it. Their number is what the check for an unusable pool looks
  at, the first routes go to exactly their devices (or to one of them), and the watcher of health
  changes starts in step with the pool.
\<close>

theorem gateway_start_consistent:
  assumes "ConnectAll now outcome order (NewPool (build_members baseTun servers toks)) = (Inr (), p)"
    and "distinct order" "set order = {..<length servers}"
    and "provision_all now req nl p k = (n, p1, k1)"
  shows "length (members p1) = length servers
    \<and> (\<forall>i<length servers. let m = members p1 ! i in
         IfName m = SuggestIfaceName baseTun i (length servers)
         \<and> (if healthy m
            then \<not> fails (outcome i) \<and> m_iface m = Some (IfName m)
              \<and> (\<exists>cidr. req (CM (members p ! i)) IPv4zero (toks i) = Inr cidr
                   \<and> assignedIP m = To4 (case ParseCIDR cidr of Some (ip, _) \<Rightarrow> ip | None \<Rightarrow> []))
            else m_iface m = None))
    \<and> n = length (Active p1)
    \<and> activeIfaceNames p1 = map IfName (Active p1)
    \<and> watch_start (start_watcher stdby p1)
    \<and> set (applied (start_watcher stdby p1)) \<subseteq> set (map IfName (Active p1))"
proof -
  note L = gateway_members [OF assms]
  have names: "activeIfaceNames p1 = map IfName (Active p1)"
    by (rule Active_names) (use L(2) L(1) in \<open>auto simp: Let_def split: if_splits\<close>)
  have "set (applied (start_watcher stdby p1)) \<subseteq> set (activeIfaceNames p1)"
    by (auto simp: start_watcher_def active_def Let_def split: if_splits list.splits prod.splits)
  with names have "set (applied (start_watcher stdby p1)) \<subseteq> set (map IfName (Active p1))" by simp
  with L names start_watch [of stdby p1] show ?thesis by blast
qed

theorem gateway_start_consistent_witness:
  "\<exists>p p1 k1. ConnectAll 0 (\<lambda>i. if i = 1 then Established [] False else DialFails) [2, 1, 0]
         (NewPool (build_members ''stun'' [''a:1'', ''b:1'', ''c:1''] (\<lambda>i. [of_nat i]))) = (Inr (), p)
     \<and> provision_all 0 (\<lambda>_ _ _. Inr ''10.7.0.2/24'') demo_nl p [] = (1, p1, k1)
     \<and> activeIfaceNames p1 = [''stun1''] \<and> watch_start (start_watcher True p1)"
proof -
  let ?out = "\<lambda>i. if i = 1 then Established [] False else DialFails" and ?servers = "[''a:1'', ''b:1'', ''c:1'']"
  let ?start = "ConnectAll 0 ?out [2, 1, 0] (NewPool (build_members ''stun'' ?servers (\<lambda>i. [of_nat i])))"
  have "fst ?start = Inr ()" by code_simp
  then obtain p where c: "?start = (Inr (), p)" by (metis prod.collapse)
  obtain n p1 k1 where pr: "provision_all 0 (\<lambda>_ _ _. Inr ''10.7.0.2/24'') demo_nl p [] = (n, p1, k1)" by (metis prod_cases3)
  have "fst (provision_all 0 (\<lambda>_ _ _. Inr ''10.7.0.2/24'') demo_nl (snd ?start) []) = 1" by code_simp
  with c pr have n: "n = 1" by simp
  have "distinct [2, 1, 0 :: nat]" "set [2, 1, 0 :: nat] = {..<length ?servers}" by auto
  note S = gateway_start_consistent [OF c this pr, of True]
  note each = S [THEN conjunct2, THEN conjunct1, rule_format]
  have h: "\<not> healthy (members p1 ! 0)" "\<not> healthy (members p1 ! 2)"
    using each [of 0] each [of 2] by (auto simp: fails_def Let_def split: if_splits)
  have l: "length (members p1) = 3" using S by simp
  then obtain a b c where m: "members p1 = [a, b, c]" by (auto simp: length_Suc_conv numeral_eq_Suc)
  have "length (Active p1) = 1" using S [THEN conjunct2, THEN conjunct2, THEN conjunct1] n by simp
  with h m have "Active p1 = [b]" by (simp add: Active_def eval_nat_numeral split: if_splits)
  moreover have "SuggestIfaceName ''stun'' 1 3 = ''stun1''" by code_simp
  with each [of 1] m have "IfName b = ''stun1''" by (simp add: Let_def eval_nat_numeral)
  ultimately have "activeIfaceNames p1 = [''stun1'']"
    using S [THEN conjunct2, THEN conjunct2, THEN conjunct2, THEN conjunct1] by simp
  with c pr n S [THEN conjunct2, THEN conjunct2, THEN conjunct2, THEN conjunct2, THEN conjunct1] show ?thesis by blast
qed

section \<open>Adding a peer when the peers file cannot be read\<close>

definition file_writes :: "'k host \<Rightarrow> ('k \<Rightarrow> string \<Rightarrow> string option) \<Rightarrow> bool" where
  "file_writes H file \<longleftrightarrow> (\<forall>p d k k'. h_write H p d k = (None, k') \<longrightarrow> file k' p = Some d)"

lemma savePeers_writes:
  assumes "file_writes H file" "savePeers H m k = (None, k')"
  shows "\<exists>data. h_marshal H (peers m) = Inr data \<and> file k' (PeersFile (cfg m)) = Some data"
  using assms by (auto simp: savePeers_def file_writes_def split: sum.splits option.splits prod.splits)

lemma InitKeys_keeps:
  "InitKeys H (m, k) = (e, m1, k1) \<Longrightarrow> peers m1 = peers m \<and> PeersFile (cfg m1) = PeersFile (cfg m)
     \<and> Subnet (cfg m1) = Subnet (cfg m) \<and> Address (cfg m1) = Address (cfg m)"
  by (auto simp: InitKeys_def derive_def split: if_splits sum.splits prod.splits)

lemma LoadPeers_failed: "fst (LoadPeers H (m, k)) \<noteq> None \<Longrightarrow> snd (LoadPeers H (m, k)) = (m, k)"
  by (auto simp: LoadPeers_def split: sum.splits)

text \<open>
  Adding a peer forgets peers that could not be read. The command ignores every error of reading
  the peers file, also one of a file that exists and does not parse: when it then succeeds, the file
  holds nothing but the new peer, whose address was chosen as if there were no other peers.
\<close>

theorem add_peer_forgets_peers:
  assumes "file_writes H file"
    and "InitKeys H (NewWgManager (WireGuard gc), k) = (None, m1, k1)"
    and "fst (LoadPeers H (m1, k1)) \<noteq> None"
    and "addPeer H (Inr gc) nm k = Some (PeerDone txt, k')"
  shows "\<exists>peer data ip. peerName peer = nm \<and> h_marshal H [peer] = Inr data
    \<and> file k' (PeersFile (WireGuard gc)) = Some data
    \<and> AllowedIP peer = ip @ ''/32'' \<and> allocateIP (m1\<lparr>peers := []\<rparr>) = Some (Inr ip)"
proof -
  have m1: "peers m1 = []" "PeersFile (cfg m1) = PeersFile (WireGuard gc)"
    using InitKeys_keeps [OF assms(2)] by (simp_all add: NewWgManager_def)
  then have e: "m1\<lparr>peers := []\<rparr> = m1" by simp
  from assms(2-4) LoadPeers_failed [OF assms(3)] obtain m2 where a: "AddPeer H nm (m1, k1) = Some (Inr txt, m2, k')"
    by (auto simp: addPeer_def split: option.splits sum.splits prod.splits)
  then obtain priv pub ip k2 k3 where p: "allocateIP m1 = Some (Inr ip)"
    "m2 = m1\<lparr>peers := peers m1 @ [\<lparr>peerName = nm, PublicKey = pub, PeerPrivateKey = priv, AllowedIP = ip @ ''/32''\<rparr>]\<rparr>"
    "savePeers H m2 k2 = (None, k')"
    by (auto simp: AddPeer_def Let_def split: if_splits option.splits sum.splits prod.splits)
  from savePeers_writes [OF assms(1) p(3)] p(2) m1 obtain data where
    "h_marshal H (peers m2) = Inr data" "file k' (PeersFile (WireGuard gc)) = Some data" by auto
  with p m1 show ?thesis unfolding e
    by (intro exI [of _ "\<lparr>peerName = nm, PublicKey = pub, PeerPrivateKey = priv, AllowedIP = ip @ ''/32''\<rparr>"]
        exI [of _ data] exI [of _ ip]) simp
qed

definition file_host :: "(string \<rightharpoonup> string) host" where
  "file_host = \<lparr>h_run = (\<lambda>_ k. (None, k)), h_read = (\<lambda>p k. case k p of None \<Rightarrow> Inl NotExist | Some t \<Rightarrow> Inr t),
     h_write = (\<lambda>p d k. (None, k(p \<mapsto> d))), h_mkdir = (\<lambda>_ k. (None, k)), h_temp = (\<lambda>k. (Inr ''/tmp/wg-key-1'', k)),
     h_remove = (\<lambda>_ k. k), h_genkey = (\<lambda>k. (Inr ''priv'', k)), h_pubkey = (\<lambda>_. Inr ''pub''),
     h_marshal = (\<lambda>ps. Inr (concat (map peerName ps))), h_unmarshal = (\<lambda>_. Inl ''yaml''), h_get = (\<lambda>_. None),
     h_parse_ip = (\<lambda>_. [])\<rparr>"

definition demo_wg_key :: WireGuardConfig where
  "demo_wg_key = \<lparr>ListenPort = 0, Interface = [], Address = ''10.8.0.1/30'', Subnet = ''10.8.0.0/30'',
     PrivateKey = ''key'', wDNS = [], PeersFile = ''/etc/gateway/peers.yaml''\<rparr>"

theorem add_peer_forgets_peers_witness:
  "\<exists>txt k'. addPeer file_host (Inr (demo_gateway\<lparr>WireGuard := demo_wg_key\<rparr>)) ''new'' [''/etc/gateway/peers.yaml'' \<mapsto> ''- name: old'']
       = Some (PeerDone txt, k') \<and> k' ''/etc/gateway/peers.yaml'' = Some ''new''"
proof -
  let ?gc = "demo_gateway\<lparr>WireGuard := demo_wg_key\<rparr>" and ?k = "[''/etc/gateway/peers.yaml'' \<mapsto> ''- name: old''] :: string \<rightharpoonup> string"
  let ?m1 = "(NewWgManager demo_wg_key)\<lparr>serverPub := ''pub''\<rparr>"
  have f: "file_writes file_host (\<lambda>k. k)" by (auto simp: file_writes_def file_host_def)
  have i: "InitKeys file_host (NewWgManager (WireGuard ?gc), ?k) = (None, ?m1, ?k)"
    by (simp add: InitKeys_def derive_def file_host_def NewWgManager_def demo_wg_key_def)
  have l: "fst (LoadPeers file_host (?m1, ?k)) \<noteq> None"
    by (simp add: LoadPeers_def file_host_def NewWgManager_def demo_wg_key_def)
  have c: "ParseCIDR (Subnet (cfg ?m1)) = Some (v4InV6Prefix @ [10, 8, 0, 0], \<lparr>net_ip = [10, 8, 0, 0], net_ones = 30\<rparr>)"
    by code_simp
  have "find (free_host \<lparr>net_ip = [10, 8, 0, 0], net_ones = 30\<rparr> (used_ips ?m1)) [1..<4] = Some 2" by code_simp
  with allocateIP_eq [OF c] obtain ip where al: "allocateIP ?m1 = Some (Inr ip)" by (simp add: host_count_def)
  have dir: "dir_of ''/etc/gateway/peers.yaml'' = Some ''/etc/gateway''" by code_simp
  have "\<exists>txt m2 k2. AddPeer file_host ''new'' (?m1, ?k) = Some (Inr txt, m2, k2)"
    using al dir by (simp add: AddPeer_def savePeers_def file_host_def addPeerToWG_def wg_run_def NewWgManager_def demo_wg_key_def Let_def)
  moreover have "snd (LoadPeers file_host (?m1, ?k)) = (?m1, ?k)" using l by (rule LoadPeers_failed)
  ultimately obtain out k' where a: "addPeer file_host (Inr ?gc) ''new'' ?k = Some (PeerDone out, k')"
    using i by (auto simp: addPeer_def)
  from add_peer_forgets_peers [OF f i l a] obtain peer data where
    "peerName peer = ''new''" "h_marshal file_host [peer] = Inr data" "k' (PeersFile (WireGuard ?gc)) = Some data" by blast
  then have "k' ''/etc/gateway/peers.yaml'' = Some ''new''"
    by (simp add: file_host_def demo_wg_key_def)
  with a show ?thesis by (intro exI [of _ out] exI [of _ k'] conjI)
qed

text \<open>What a failed start leaves behind: nothing that was set up before is taken back.\<close>

lemma failed_start_leaves_wireguard:
  assumes "runGateway G W (Inr gc) k = (GPoolConnect n, k')" "\<not> IsTransitMode gc"
  shows "\<exists>g. wg_Setup (gh_wg G) (NewWgManager (WireGuard gc), k) = (None, g, k')"
  using assms
  by (auto simp: runGateway_def run_pool_def Let_def split: if_splits sum.splits option.splits prod.splits)

lemma failed_routing_not_torn_down:
  assumes "run_pool G W gc subnets wg k = (GRouting e, k')"
  shows "\<exists>m m' k1. Setup (gh_tools G) subnets (m, k1) = (Some e, m', k')"
  using assms
  by (auto simp: run_pool_def Let_def split: if_splits sum.splits option.splits prod.splits)

end
