(* ===== verification/GatewaySession.thy ===== *)
theory GatewaySession
  imports Gateway "HOL-Library.Sublist"
begin

text \<open>
  All goroutines of the gateway (\<open>cmd/gateway/main.go\<close>) that carry traffic, while it runs: for each member
  of the pool its loop (\<open>memberDataLoop\<close>, \<open>reconnectOrphan\<close>), its reader of the device (\<open>tunReader\<close>) and,
  for each session the loop has started, the writer, the reader and the prober of that session
  (\<open>sessionWriter\<close>, \<open>tunnelToTun\<close>, \<open>probeLoop\<close>) with the goroutines of the cover traffic; and the watcher of
  routes. The goroutines of an old session may still run when the next one starts, unless the code
  waits for them. A step of a session bears a label that says what it does outside of it.
\<close>

section \<open>One session\<close>

record member_env =
  me_chacha :: "bytes \<Rightarrow> AEAD option"
  me_pad :: PaddingConfig

text \<open>
  Where the goroutines of a session are. The writer is in its \<open>select\<close>, about to write a packet's frame, about to run
  its two deferred calls, between them, and gone. The reader is about to read, between the two stores that a
  pong makes last, about to run its deferred call, and gone. The prober waits for a tick, has stored the
  round-trip time, is about to write a ping, to count it, to tear the session down, and gone.
\<close>

datatype writer_phase = WSelect | WHolding bytes bytes | WLeaving | WSignalled | WGone

datatype reader_phase = RReading | RPong | RLeaving | RGone

datatype prober_phase = PWaiting | PTick | PHolding bytes bytes | PCounting | PLeaving | PGone

text \<open>
  \<open>ss_in\<close> is what the stream still delivers. \<open>ss_once\<close> belongs to the \<open>sync.Once\<close> and \<open>ss_done\<close> to the channel
  \<open>sessionDone\<close>; \<open>ss_shut\<close> says that \<open>obfsConn\<close> was closed and \<open>ss_broken\<close> that a write to it has failed.
  The last three fields record the frames that were written whole (type, payload, bytes), the frame whose write
  was cut off, and the pings written since the last pong was dealt with.
\<close>

record session =
  ss_cipher :: Cipher
  ss_in :: bytes
  ss_once :: bool
  ss_done :: bool
  ss_shut :: bool
  ss_broken :: bool
  ss_wr :: writer_phase
  ss_rd :: reader_phase
  ss_pb :: prober_phase
  ss_probe :: rttProbe
  ss_rx :: int
  ss_tx :: int
  ss_frames :: "(byte \<times> bytes \<times> bytes) list"
  ss_cut :: "(byte \<times> bytes \<times> bytes) list"
  ss_pings :: nat

definition new_session :: "Cipher \<Rightarrow> bytes \<Rightarrow> session" where
  "new_session c inp =
     \<lparr>ss_cipher = c, ss_in = inp, ss_once = False, ss_done = False, ss_shut = False, ss_broken = False,
      ss_wr = WSelect, ss_rd = RReading, ss_pb = PWaiting,
      ss_probe = \<lparr>probeRTTus = 0, misses = 0, sawPong = False\<rparr>, ss_rx = 0, ss_tx = 0,
      ss_frames = [], ss_cut = [], ss_pings = 0\<rparr>"

text \<open>\<open>once.Do(close(sessionDone))\<close>: closing the channel twice panics.\<close>

definition signalDone :: "session \<Rightarrow> session option" where
  "signalDone s =
     (if ss_once s then Some s else if ss_done s then None else Some (s\<lparr>ss_once := True, ss_done := True\<rparr>))"

text \<open>
  A write is possible until the stream was closed or a write failed: no deadline is set on the stream in
  this phase, so smux fails a write only when the stream or its session has died.
\<close>

definition can_write :: "session \<Rightarrow> bool" where
  "can_write s \<longleftrightarrow> \<not> ss_shut s \<and> \<not> ss_broken s"

definition wrote :: "byte \<Rightarrow> bytes \<Rightarrow> bytes \<Rightarrow> session \<Rightarrow> session" where
  "wrote ft p f s = s\<lparr>ss_frames := ss_frames s @ [(ft, p, f)]\<rparr>"

definition write_failed :: "byte \<Rightarrow> bytes \<Rightarrow> bytes \<Rightarrow> session \<Rightarrow> session" where
  "write_failed ft p f s = s\<lparr>ss_broken := True, ss_cut := (if can_write s then [(ft, p, f)] else ss_cut s)\<rparr>"

definition fails_after :: "nat \<Rightarrow> bytes \<Rightarrow> session \<Rightarrow> bool" where
  "fails_after n f s \<longleftrightarrow> n \<le> length f \<and> (can_write s \<or> n = 0)"

text \<open>The stores of \<open>onPong\<close>: the round-trip time and \<open>sawPong\<close>, then \<open>misses\<close>.\<close>

definition pong_seen :: "64 word \<Rightarrow> bytes \<Rightarrow> rttProbe \<Rightarrow> rttProbe" where
  "pong_seen now payload p = (onPong now payload p)\<lparr>misses := misses p\<rparr>"

definition pong_clears :: "rttProbe \<Rightarrow> rttProbe" where
  "pong_clears p = p\<lparr>misses := 0\<rparr>"

lemma onPong_stores: "onPong now payload p = pong_clears (pong_seen now payload p)"
  by (simp add: pong_seen_def pong_clears_def onPong_def Let_def)

definition wedged :: "rttProbe \<Rightarrow> bool" where
  "wedged p \<longleftrightarrow> sawPong p \<and> misses p \<ge> probeDeadMisses"

datatype label = Quiet | Took bytes | ToDevice bytes | StoreRTT int

text \<open>The steps of a session's goroutines; \<open>sd\<close> says that the channel \<open>shutdownCh\<close> is closed.\<close>

inductive session_step :: "member_env \<Rightarrow> bool \<Rightarrow> session \<Rightarrow> label \<Rightarrow> session \<Rightarrow> bool" for E sd where
  take_packet: "ss_wr s = WSelect \<Longrightarrow> Encode FrameData pkt (ss_cipher s) (me_pad E) tp = (r, tp')
    \<Longrightarrow> session_step E sd s (Took pkt) (s\<lparr>ss_wr := (case r of Inl e \<Rightarrow> WSelect | Inr f \<Rightarrow> WHolding pkt f)\<rparr>)"
| sent: "ss_wr s = WHolding pkt f \<Longrightarrow> can_write s
    \<Longrightarrow> session_step E sd s Quiet ((wrote FrameData pkt f s)\<lparr>ss_wr := WSelect, ss_tx := ss_tx s + int (length f)\<rparr>)"
| send_failed: "ss_wr s = WHolding pkt f \<Longrightarrow> fails_after n f s
    \<Longrightarrow> session_step E sd s Quiet ((write_failed FrameData pkt f s)\<lparr>ss_wr := WLeaving, ss_tx := ss_tx s + int n\<rparr>)"
| writer_quits: "ss_wr s = WSelect \<Longrightarrow> ss_done s \<or> sd \<Longrightarrow> session_step E sd s Quiet (s\<lparr>ss_wr := WLeaving\<rparr>)"
| writer_signals: "ss_wr s = WLeaving \<Longrightarrow> signalDone s = Some s'
    \<Longrightarrow> session_step E sd s Quiet (s'\<lparr>ss_wr := WSignalled\<rparr>)"
| writer_gone: "ss_wr s = WSignalled \<Longrightarrow> session_step E sd s Quiet (s\<lparr>ss_wr := WGone\<rparr>)"
| read_data: "ss_rd s = RReading \<Longrightarrow> Decode (ss_cipher s) (ss_in s) = Inr ((FrameData, p), rest)
    \<Longrightarrow> session_step E sd s (ToDevice p) (s\<lparr>ss_in := rest, ss_rx := ss_rx s + int (length p)\<rparr>)"
| read_pong: "ss_rd s = RReading \<Longrightarrow> Decode (ss_cipher s) (ss_in s) = Inr ((FramePong, p), rest)
    \<Longrightarrow> session_step E sd s Quiet (s\<lparr>ss_in := rest, ss_rd := RPong, ss_probe := pong_seen now p (ss_probe s)\<rparr>)"
| pong_handled: "ss_rd s = RPong
    \<Longrightarrow> session_step E sd s Quiet (s\<lparr>ss_rd := RReading, ss_probe := pong_clears (ss_probe s), ss_pings := 0\<rparr>)"
| read_close: "ss_rd s = RReading \<Longrightarrow> Decode (ss_cipher s) (ss_in s) = Inr ((FrameClose, p), rest)
    \<Longrightarrow> session_step E sd s Quiet (s\<lparr>ss_in := rest, ss_rd := RLeaving\<rparr>)"
| read_other: "ss_rd s = RReading \<Longrightarrow> Decode (ss_cipher s) (ss_in s) = Inr ((ft, p), rest)
    \<Longrightarrow> ft \<notin> {FrameData, FramePong, FrameClose} \<Longrightarrow> session_step E sd s Quiet (s\<lparr>ss_in := rest\<rparr>)"
| read_failed: "ss_rd s = RReading \<Longrightarrow> session_step E sd s Quiet (s\<lparr>ss_rd := RLeaving\<rparr>)"
| reader_signals: "ss_rd s = RLeaving \<Longrightarrow> signalDone s = Some s'
    \<Longrightarrow> session_step E sd s Quiet (s'\<lparr>ss_rd := RGone\<rparr>)"
| tick: "ss_pb s = PWaiting
    \<Longrightarrow> session_step E sd s (StoreRTT (probeRTTus (ss_probe s))) (s\<lparr>ss_pb := PTick\<rparr>)"
| gives_up: "ss_pb s = PTick \<Longrightarrow> wedged (ss_probe s) \<Longrightarrow> session_step E sd s Quiet (s\<lparr>ss_pb := PLeaving\<rparr>)"
| make_ping: "ss_pb s = PTick \<Longrightarrow> \<not> wedged (ss_probe s)
    \<Longrightarrow> Encode FramePing (put_u64 now) (ss_cipher s) (me_pad E) tp = (r, tp')
    \<Longrightarrow> session_step E sd s Quiet
          (s\<lparr>ss_pb := (case r of Inl e \<Rightarrow> PWaiting | Inr f \<Rightarrow> PHolding (put_u64 now) f)\<rparr>)"
| pinged: "ss_pb s = PHolding b f \<Longrightarrow> can_write s
    \<Longrightarrow> session_step E sd s Quiet ((wrote FramePing b f s)\<lparr>ss_pb := PCounting, ss_pings := ss_pings s + 1\<rparr>)"
| ping_failed: "ss_pb s = PHolding b f \<Longrightarrow> fails_after n f s
    \<Longrightarrow> session_step E sd s Quiet ((write_failed FramePing b f s)\<lparr>ss_pb := PGone\<rparr>)"
| counted: "ss_pb s = PCounting
    \<Longrightarrow> session_step E sd s Quiet
          (s\<lparr>ss_pb := PWaiting, ss_probe := (ss_probe s)\<lparr>misses := misses (ss_probe s) + 1\<rparr>\<rparr>)"
| prober_signals: "ss_pb s = PLeaving \<Longrightarrow> signalDone s = Some s'
    \<Longrightarrow> session_step E sd s Quiet (s'\<lparr>ss_pb := PGone\<rparr>)"
| prober_quits: "ss_pb s = PWaiting \<Longrightarrow> ss_done s \<or> sd \<Longrightarrow> session_step E sd s Quiet (s\<lparr>ss_pb := PGone\<rparr>)"
| cover: "can_write s \<Longrightarrow> ft \<in> {FrameKeepalive, FrameDecoy}
    \<Longrightarrow> Encode ft p (ss_cipher s) (me_pad E) tp = (Inr f, tp')
    \<Longrightarrow> session_step E sd s Quiet (wrote ft p f s)"
| cover_failed: "fails_after n f s \<Longrightarrow> ft \<in> {FrameKeepalive, FrameDecoy}
    \<Longrightarrow> Encode ft p (ss_cipher s) (me_pad E) tp = (Inr f, tp')
    \<Longrightarrow> session_step E sd s Quiet (write_failed ft p f s)"

inductive_cases session_stepE: "session_step E sd s a s'"


section \<open>The loop of a member\<close>

text \<open>
  Where \<open>memberDataLoop\<close> is: about to start a session, in its \<open>select\<close>, waiting for the writer of the
  session that ended after the given time, about to mark the member unhealthy, about to reconnect, about
  to ask for the address, in the hold-down with the address it got. \<open>Orphan\<close> is \<open>reconnectOrphan\<close>, and
  \<open>Unused\<close> a member without a device, for which no loop is started.
\<close>

datatype loop_phase =
    Starting
  | Running
  | Draining int
  | Dropping int
  | Redialling int
  | Assigning int
  | Joining int IP
  | Orphan
  | Unused
  | Exited loop_exit

text \<open>
  \<open>ml_sessions\<close> are the sessions so far, the last one the current one. The last three fields record the packets
  put into the channel, those taken out of it, with the session whose writer took them, and those written to
  the device, with the session they came from.
\<close>

record member_loop =
  ml_phase :: loop_phase
  ml_state :: loop_state
  ml_tun :: bool
  ml_packetCh :: "bytes list"
  ml_sessions :: "session list"
  ml_queued :: "bytes list"
  ml_taken :: "(nat \<times> bytes) list"
  ml_device :: "(nat \<times> bytes) list"

text \<open>The answer to the request for the address, and what the loop does about a new one.\<close>

definition reassign :: "int \<Rightarrow> bool \<Rightarrow> nat \<Rightarrow> assign_error + string \<Rightarrow> IP \<Rightarrow> Pool \<Rightarrow> (loop_exit + IP) \<times> Pool" where
  "reassign now rebind_ok i res ip p =
     (case res of
        Inl e \<Rightarrow> (Inl ReassignFailed, MarkUnhealthy now i p)
      | Inr newCIDR \<Rightarrow>
          let newIP = (case ParseCIDR newCIDR of Some (ip, _) \<Rightarrow> ip | None \<Rightarrow> []) in
          if ip_Equal newIP ip then (Inr ip, p)
          else if \<not> rebind_ok then (Inl RebindFailed, MarkUnhealthy now i p)
          else (Inr (To4 newIP), upd_member i (\<lambda>m. SetIface (the (m_iface m)) (To4 newIP) m) p))"

text \<open>The phases after a session make up the round that \<open>memberDataLoop\<close> describes as a whole.\<close>

lemma memberDataLoop_phases:
  "memberDataLoop env i ls p =
     (case NewCipher (se_chacha env) (snd (GetActiveStream (CM (members p ! i)))) of
        None \<Rightarrow> (Inl CipherInit, 0, MarkUnhealthy (se_now env) i p)
      | Some c \<Rightarrow>
          (case se_lasted env of
             None \<Rightarrow> (Inl ShutDown, 0, p)
           | Some d \<Rightarrow>
               let p1 = MarkUnhealthy (se_now env) i (upd_member i (SetRTTus 0) p) in
               case Reconnect (se_rounds env) initialBackoff (CM (members p1 ! i)) of
                 None \<Rightarrow> (Inl StillReconnecting, 0, p1)
               | Some (Inl e, ws, cm') \<Rightarrow> (Inl ReconnectAborted, 0, upd_member i (\<lambda>m. m\<lparr>CM := cm'\<rparr>) p1)
               | Some (Inr _, ws, cm') \<Rightarrow>
                   let p2 = upd_member i (\<lambda>m. m\<lparr>CM := cm'\<rparr>) p1 in
                   case reassign (se_now env) (se_rebind_ok env) i
                          (se_assign env cm' (ls_ip ls) (Token (members p2 ! i))) (ls_ip ls) p2 of
                     (Inl e, p3) \<Rightarrow> (Inl e, 0, p3)
                   | (Inr ip, p3) \<Rightarrow> rejoin env i d ip ls p3))"
  by (simp add: memberDataLoop_def reassign_def Let_def cong: option.case_cong sum.case_cong split: option.splits sum.splits)

abbreviation set_session :: "nat \<Rightarrow> session \<Rightarrow> member_loop \<Rightarrow> member_loop" where
  "set_session k s l \<equiv> l\<lparr>ml_sessions := (ml_sessions l)[k := s]\<rparr>"

abbreviation cur :: "member_loop \<Rightarrow> nat" where
  "cur l \<equiv> length (ml_sessions l) - 1"

definition shut_session :: "session \<Rightarrow> session" where
  "shut_session s = s\<lparr>ss_shut := True\<rparr>"

text \<open>
  The end at the shutdown: a close frame if it can be made and written, then the stream is closed. The frame
  is written without the mutex of \<open>obfsConn\<close>; smux writes what fits into one of its frames as a whole.
\<close>

definition say_close :: "frame_error + bytes \<Rightarrow> bool \<Rightarrow> session \<Rightarrow> session" where
  "say_close r ok s =
     shut_session
       (case r of Inl e \<Rightarrow> s
        | Inr f \<Rightarrow> if ok \<and> can_write s then wrote FrameClose [] f s else write_failed FrameClose [] f s)"

text \<open>
  The steps of member \<open>i\<close> on its loop and the pool: those of its sessions, those of the reader of the device, and
  those of the loop. How long a session lasted, what the world answers and what time it is are arbitrary.
\<close>

inductive loop_step :: "member_env \<Rightarrow> bool \<Rightarrow> nat \<Rightarrow> member_loop \<times> Pool \<Rightarrow> member_loop \<times> Pool \<Rightarrow> bool" for E sd i where
  quiet: "k < length (ml_sessions l) \<Longrightarrow> session_step E sd (ml_sessions l ! k) Quiet s
    \<Longrightarrow> loop_step E sd i (l, p) (set_session k s l, p)"
| took: "k < length (ml_sessions l) \<Longrightarrow> session_step E sd (ml_sessions l ! k) (Took pkt) s
    \<Longrightarrow> ml_packetCh l = pkt # q
    \<Longrightarrow> loop_step E sd i (l, p) ((set_session k s l)\<lparr>ml_packetCh := q, ml_taken := ml_taken l @ [(k, pkt)]\<rparr>, p)"
| to_device: "k < length (ml_sessions l) \<Longrightarrow> session_step E sd (ml_sessions l ! k) (ToDevice pkt) s
    \<Longrightarrow> loop_step E sd i (l, p) ((set_session k s l)\<lparr>ml_device := ml_device l @ [(k, pkt)]\<rparr>, p)"
| store_rtt: "k < length (ml_sessions l) \<Longrightarrow> session_step E sd (ml_sessions l ! k) (StoreRTT us) s
    \<Longrightarrow> loop_step E sd i (l, p) (set_session k s l, upd_member i (SetRTTus us) p)"
| tun_read: "ml_tun l \<Longrightarrow> tunReader (members p ! i) pkt (ml_packetCh l) = q
    \<Longrightarrow> loop_step E sd i (l, p)
          (l\<lparr>ml_packetCh := q, ml_queued := ml_queued l @ drop (length (ml_packetCh l)) q\<rparr>, p)"
| tun_ended: "ml_tun l \<Longrightarrow> loop_step E sd i (l, p) (l\<lparr>ml_tun := False\<rparr>, p)"
| started: "ml_phase l = Starting
    \<Longrightarrow> NewCipher (me_chacha E) (snd (GetActiveStream (CM (members p ! i)))) = Some c
    \<Longrightarrow> loop_step E sd i (l, p) (l\<lparr>ml_phase := Running, ml_sessions := ml_sessions l @ [new_session c inp]\<rparr>, p)"
| no_cipher: "ml_phase l = Starting
    \<Longrightarrow> NewCipher (me_chacha E) (snd (GetActiveStream (CM (members p ! i)))) = None
    \<Longrightarrow> loop_step E sd i (l, p) (l\<lparr>ml_phase := Exited CipherInit\<rparr>, MarkUnhealthy now i p)"
| lost: "ml_phase l = Running \<Longrightarrow> ss_done (ml_sessions l ! cur l)
    \<Longrightarrow> loop_step E sd i (l, p)
          ((set_session (cur l) (shut_session (ml_sessions l ! cur l)) l)\<lparr>ml_phase := Draining d\<rparr>, p)"
| shut_down: "ml_phase l = Running \<Longrightarrow> sd
    \<Longrightarrow> Encode FrameClose [] (ss_cipher (ml_sessions l ! cur l)) (me_pad E) tp = (r, tp')
    \<Longrightarrow> loop_step E sd i (l, p)
          ((set_session (cur l) (say_close r ok (ml_sessions l ! cur l)) l)\<lparr>ml_phase := Exited ShutDown\<rparr>, p)"
| drained: "ml_phase l = Draining d \<Longrightarrow> ss_wr (ml_sessions l ! cur l) = WGone
    \<Longrightarrow> loop_step E sd i (l, p) (l\<lparr>ml_phase := Dropping d\<rparr>, upd_member i (SetRTTus 0) p)"
| dropped: "ml_phase l = Dropping d
    \<Longrightarrow> loop_step E sd i (l, p) (l\<lparr>ml_phase := Redialling d\<rparr>, MarkUnhealthy now i p)"
| redialled: "ml_phase l = Redialling d
    \<Longrightarrow> Reconnect rounds initialBackoff (CM (members p ! i)) = Some (Inr u, ws, cm')
    \<Longrightarrow> loop_step E sd i (l, p) (l\<lparr>ml_phase := Assigning d\<rparr>, upd_member i (\<lambda>m. m\<lparr>CM := cm'\<rparr>) p)"
| redial_aborted: "ml_phase l = Redialling d
    \<Longrightarrow> Reconnect rounds initialBackoff (CM (members p ! i)) = Some (Inl e, ws, cm')
    \<Longrightarrow> loop_step E sd i (l, p) (l\<lparr>ml_phase := Exited ReconnectAborted\<rparr>, upd_member i (\<lambda>m. m\<lparr>CM := cm'\<rparr>) p)"
| assigned: "ml_phase l = Assigning d
    \<Longrightarrow> reassign now rebind_ok i res (ls_ip (ml_state l)) p = (r, p')
    \<Longrightarrow> loop_step E sd i (l, p) (l\<lparr>ml_phase := (case r of Inl e \<Rightarrow> Exited e | Inr ip \<Rightarrow> Joining d ip)\<rparr>, p')"
| rejoined: "ml_phase l = Joining d ip \<Longrightarrow> rejoin env i d ip (ml_state l) p = (Inr ls, wait, p')
    \<Longrightarrow> loop_step E sd i (l, p) (l\<lparr>ml_phase := Starting, ml_state := ls\<rparr>, p')"
| hold_down_ended: "ml_phase l = Joining d ip \<Longrightarrow> sd \<Longrightarrow> rejoin env i d ip (ml_state l) p = (Inl e, wait, p')
    \<Longrightarrow> loop_step E sd i (l, p) (l\<lparr>ml_phase := Exited e\<rparr>, p')"
| adopted: "ml_phase l = Orphan \<Longrightarrow> reconnectOrphan env create_ok i p = (Inr (Some ls), p')
    \<Longrightarrow> loop_step E sd i (l, p) (l\<lparr>ml_phase := Starting, ml_state := ls, ml_tun := True\<rparr>, p')"
| orphan_retries: "ml_phase l = Orphan \<Longrightarrow> reconnectOrphan env create_ok i p = (Inr None, p')
    \<Longrightarrow> loop_step E sd i (l, p) (l, p')"
| orphan_ends: "ml_phase l = Orphan \<Longrightarrow> reconnectOrphan env create_ok i p = (Inl e, p')
    \<Longrightarrow> e = ReconnectAborted \<or> e = ShutDown \<and> sd
    \<Longrightarrow> loop_step E sd i (l, p) (l\<lparr>ml_phase := Exited e\<rparr>, p')"

section \<open>The whole gateway\<close>

text \<open>
  The loops of all members, the watcher of routes with the pool, and whether \<open>shutdownCh\<close> is closed. The steps of
  the watcher that change members are those of the loops.
\<close>

record gateway_sys =
  gs_watch :: watcher
  gs_loops :: "member_loop list"
  gs_down :: bool

abbreviation gs_pool :: "gateway_sys \<Rightarrow> Pool" where
  "gs_pool s \<equiv> w_pool (gs_watch s)"

inductive gw_step :: "member_env \<Rightarrow> gateway_sys \<Rightarrow> gateway_sys \<Rightarrow> bool" for E where
  member: "i < length (gs_loops s) \<Longrightarrow> loop_step E (gs_down s) i (gs_loops s ! i, gs_pool s) (l, p)
    \<Longrightarrow> gw_step E s (s\<lparr>gs_watch := (gs_watch s)\<lparr>w_pool := p\<rparr>, gs_loops := (gs_loops s)[i := l]\<rparr>)"
| watch: "watch_step (gs_watch s) w \<Longrightarrow> members (w_pool w) = members (gs_pool s)
    \<Longrightarrow> gw_step E s (s\<lparr>gs_watch := w\<rparr>)"
| interrupted: "gw_step E s (s\<lparr>gs_down := True\<rparr>)"

text \<open>What \<open>runGateway\<close> starts for a member after the pool was dialled and the devices were made.\<close>

definition start_loop :: "Member \<Rightarrow> member_loop" where
  "start_loop m =
     (let ph = (if \<not> healthy m then Orphan else if m_iface m = None then Unused else Starting)
      in \<lparr>ml_phase = ph, ml_state = \<lparr>ls_ip = assignedIP m, sessionNum = 1, flapCount = 0\<rparr>,
          ml_tun = (ph = Starting), ml_packetCh = [], ml_sessions = [], ml_queued = [], ml_taken = [],
          ml_device = []\<rparr>)"

definition gw_start :: "gateway_sys \<Rightarrow> bool" where
  "gw_start s \<longleftrightarrow> watch_start (gs_watch s) \<and> gs_loops s = map start_loop (members (gs_pool s)) \<and> \<not> gs_down s"

end
