(* ===== verification/GatewayInv.thy ===== *)
theory GatewayInv
  imports GatewaySession
begin

text \<open>
  The invariant of the running gateway of \<open>GatewaySession\<close>: of a session, of a member's loop, of the pool under
  the steps of the loops, and of the whole. What a loop needs of the goroutines of its sessions is the
  interface \<open>session_goroutines\<close>, which the client's sessions meet too.
\<close>

section \<open>What the goroutines of a session keep\<close>

definition encodes :: "member_env \<Rightarrow> Cipher \<Rightarrow> byte \<Rightarrow> bytes \<Rightarrow> bytes \<Rightarrow> bool" where
  "encodes E c ft p f \<longleftrightarrow> (\<exists>tp tp'. Encode ft p c (me_pad E) tp = (Inr f, tp'))"

text \<open>
  The once and the channel agree, reader and writer have signalled their end before they are gone, all frames written and held are encodings with the session's own cipher,
  at most one frame was cut off and then nothing was written any more, and the count of misses exceeds the pings that are really
  unanswered by at most one, by none between writing a ping and counting it.
\<close>

definition counts_pings :: "session \<Rightarrow> bool" where
  "counts_pings s \<longleftrightarrow> 0 \<le> misses (ss_probe s)
     \<and> misses (ss_probe s) \<le> int (ss_pings s) + (if ss_pb s = PCounting then 0 else 1)"

definition frames_ok :: "member_env \<Rightarrow> session \<Rightarrow> bool" where
  "frames_ok E s \<longleftrightarrow> list_all (\<lambda>(ft, p, f). encodes E (ss_cipher s) ft p f) (ss_frames s @ ss_cut s)
     \<and> (\<forall>p f. ss_wr s = WHolding p f \<longrightarrow> encodes E (ss_cipher s) FrameData p f)
     \<and> (\<forall>p f. ss_pb s = PHolding p f \<longrightarrow> encodes E (ss_cipher s) FramePing p f)
     \<and> (ss_cut s \<noteq> [] \<longrightarrow> ss_broken s)"

definition signalled :: "session \<Rightarrow> bool" where
  "signalled s \<longleftrightarrow> (ss_rd s = RGone \<or> ss_wr s = WSignalled \<or> ss_wr s = WGone \<longrightarrow> ss_done s)"

definition session_inv :: "member_env \<Rightarrow> session \<Rightarrow> bool" where
  "session_inv E s \<longleftrightarrow> (ss_once s \<longleftrightarrow> ss_done s) \<and> signalled s \<and> frames_ok E s \<and> counts_pings s"

text \<open>The packets that the writer of a session has written, tried to write, or is about to write.\<close>

definition data_payloads :: "(byte \<times> bytes \<times> bytes) list \<Rightarrow> bytes list" where
  "data_payloads fs = map (fst \<circ> snd) (filter (\<lambda>x. fst x = FrameData) fs)"

definition held :: "session \<Rightarrow> bytes list" where
  "held s = (case ss_wr s of WHolding p f \<Rightarrow> [p] | _ \<Rightarrow> [])"

definition carried :: "session \<Rightarrow> bytes list" where
  "carried s = data_payloads (ss_frames s @ ss_cut s) @ held s"

fun took_packets :: "label \<Rightarrow> bytes list" where
  "took_packets (Took p) = [p]"
| "took_packets _ = []"

lemma signalDone_Some:
  "ss_once s \<longleftrightarrow> ss_done s \<Longrightarrow> signalDone s = Some (s\<lparr>ss_once := True, ss_done := True\<rparr>)"
  by (cases s) (auto simp: signalDone_def)

lemma signalDone_fields:
  assumes "signalDone s = Some s'"
  shows "s' = s\<lparr>ss_once := ss_once s', ss_done := ss_done s'\<rparr>" "ss_done s \<longrightarrow> ss_done s'" "ss_once s' \<longrightarrow> ss_done s' \<or> ss_once s"
  using assms by (cases s; auto simp: signalDone_def split: if_splits)+

lemma session_step_static:
  "session_step E sd s a s' \<Longrightarrow> ss_cipher s' = ss_cipher s \<and> ss_shut s' = ss_shut s \<and> (ss_done s \<longrightarrow> ss_done s')
     \<and> (ss_broken s \<longrightarrow> ss_broken s')"
  by (induction rule: session_step.induct)
    (auto simp: wrote_def write_failed_def signalDone_def split: if_splits)

lemma session_step_once:
  "session_step E sd s a s' \<Longrightarrow> (ss_once s \<longleftrightarrow> ss_done s) \<Longrightarrow> (ss_once s' \<longleftrightarrow> ss_done s')"
  by (induction rule: session_step.induct)
    (auto simp: wrote_def write_failed_def signalDone_def split: if_splits)

lemma session_step_frames:
  "session_step E sd s a s' \<Longrightarrow> frames_ok E s \<Longrightarrow> frames_ok E s'"
proof (induction rule: session_step.induct)
  case (take_packet s pkt tp r tp')
  then show ?case by (cases r) (auto simp: frames_ok_def encodes_def)
next
  case (make_ping s now tp r tp')
  then show ?case by (cases r) (auto simp: frames_ok_def encodes_def)
next
  case (cover s ft p tp f tp')
  then show ?case by (auto simp: frames_ok_def encodes_def wrote_def)
next
  case (cover_failed n f s ft p tp tp')
  then have "encodes E (ss_cipher s) ft p f" unfolding encodes_def by blast
  with cover_failed(4) show ?case by (auto simp: frames_ok_def write_failed_def can_write_def)
qed (auto simp: frames_ok_def wrote_def write_failed_def can_write_def signalDone_def split: if_splits)

lemma pong_misses [simp]: "misses (pong_seen now p pr) = misses pr" "misses (pong_clears pr) = 0"
  by (simp_all add: pong_seen_def pong_clears_def)

lemma session_step_counts:
  "session_step E sd s a s' \<Longrightarrow> counts_pings s \<Longrightarrow> counts_pings s'"
proof (induction rule: session_step.induct)
  case (make_ping s now tp r tp')
  then show ?case by (cases r) (auto simp: counts_pings_def)
qed (auto simp: counts_pings_def wrote_def write_failed_def signalDone_def split: if_splits)

lemma session_step_signalled:
  "session_step E sd s a s' \<Longrightarrow> (ss_once s \<longleftrightarrow> ss_done s) \<Longrightarrow> signalled s \<Longrightarrow> signalled s'"
proof (induction rule: session_step.induct)
  case (take_packet s pkt tp r tp')
  then show ?case by (cases r) (auto simp: signalled_def)
qed (auto simp: signalled_def wrote_def write_failed_def signalDone_def split: if_splits)

lemma session_step_inv: "session_step E sd s a s' \<Longrightarrow> session_inv E s \<Longrightarrow> session_inv E s'"
  unfolding session_inv_def
  using session_step_once session_step_signalled session_step_frames session_step_counts by blast

lemma new_session_inv [simp]: "session_inv E (new_session c inp)"
  by (simp add: session_inv_def signalled_def frames_ok_def counts_pings_def new_session_def)

text \<open>A packet that was taken is written or lost, and the order stays.\<close>

lemma data_payloads_simps [simp]:
  "data_payloads [] = []" "data_payloads (as @ bs) = data_payloads as @ data_payloads bs"
  "data_payloads ((ft, p, f) # bs) = (if ft = FrameData then p # data_payloads bs else data_payloads bs)"
  by (simp_all add: data_payloads_def)

lemma subseq_appended [simp]: "subseq xs (xs @ ys)"
  by (rule subseq_rev_drop_many) simp

lemma session_step_carried:
  "session_step E sd s a s' \<Longrightarrow> frames_ok E s \<Longrightarrow> subseq (carried s') (carried s @ took_packets a)"
proof (induction rule: session_step.induct)
  case (take_packet s pkt tp r tp')
  then show ?case by (cases r) (auto simp: carried_def held_def)
qed (auto simp: carried_def held_def frames_ok_def can_write_def wrote_def write_failed_def signalDone_def frame_types split: if_splits)

lemma session_step_writer:
  "session_step E sd s a s' \<Longrightarrow> ss_wr s = WGone \<Longrightarrow> ss_wr s' = WGone \<and> took_packets a = []"
  by (induction rule: session_step.induct) (auto simp: wrote_def write_failed_def signalDone_def split: if_splits)


section \<open>What is lost\<close>

text \<open>
  All that a session's writer took was written, except for a packet it holds, or, once it is leaving, one
  packet whose write failed. This needs that every packet can be encoded.
\<close>

definition accounted :: "session \<Rightarrow> bytes list \<Rightarrow> bool" where
  "accounted s ts \<longleftrightarrow> ts = data_payloads (ss_frames s) @ held s
     \<or> (ss_wr s = WLeaving \<or> ss_wr s = WSignalled \<or> ss_wr s = WGone) \<and> (\<exists>p. ts = data_payloads (ss_frames s) @ [p])"

definition encodable :: "member_env \<Rightarrow> bytes list \<Rightarrow> bool" where
  "encodable E ps \<longleftrightarrow> check_padding (me_pad E) = None \<and> list_all (\<lambda>p. length p \<le> MaxPayloadSize) ps"

lemma session_step_accounted:
  "session_step E sd s a s' \<Longrightarrow> took_packets a = [] \<or> encodable E (took_packets a) \<Longrightarrow> accounted s ts \<Longrightarrow> accounted s' (ts @ took_packets a)"
proof (induction rule: session_step.induct)
  case (take_packet s pkt tp r tp')
  then obtain f where "r = Inr f" using Encode_eq [of "me_pad E" pkt FrameData "ss_cipher s" tp] by (auto simp: encodable_def)
  with take_packet show ?case by (auto simp: accounted_def held_def)
qed (auto simp: accounted_def held_def wrote_def write_failed_def signalDone_def frame_types split: if_splits)

section \<open>What a loop keeps\<close>

text \<open>
  Only the writer of the current session can be running, and only while the loop is in this session. A
  session's packets are among those its writer took; the sessions took them one after another; what was
  queued is what was taken and what is in the channel. The member is healthy while it has a session, and
  not while it is reconnecting or has been given up.
\<close>

fun in_session :: "loop_phase \<Rightarrow> bool" where
  "in_session Running = True"
| "in_session (Draining d) = True"
| "in_session (Exited e) = (e = ShutDown)"
| "in_session _ = False"

fun health_ok :: "loop_phase \<Rightarrow> bool \<Rightarrow> bool" where
  "health_ok (Exited e) h = (e = ShutDown \<or> \<not> h)"
| "health_ok (Redialling d) h = (\<not> h)"
| "health_ok (Assigning d) h = (\<not> h)"
| "health_ok (Joining d ip) h = (\<not> h)"
| "health_ok Orphan h = (\<not> h)"
| "health_ok _ h = h"

definition writers_ok :: "member_loop \<Rightarrow> bool" where
  "writers_ok l \<longleftrightarrow>
     (\<forall>k<length (ml_sessions l). ss_wr (ml_sessions l ! k) \<noteq> WGone \<longrightarrow> k = cur l \<and> in_session (ml_phase l))
     \<and> (ml_phase l = Running \<or> (\<exists>d. ml_phase l = Draining d) \<longrightarrow> ml_sessions l \<noteq> [])
     \<and> ((\<exists>d. ml_phase l = Draining d) \<longrightarrow> ss_shut (ml_sessions l ! cur l) \<and> ss_done (ml_sessions l ! cur l))"

definition taken_by :: "nat \<Rightarrow> (nat \<times> bytes) list \<Rightarrow> bytes list" where
  "taken_by k ts = map snd (filter (\<lambda>x. fst x = k) ts)"

definition packets_ok :: "member_loop \<Rightarrow> bool" where
  "packets_ok l \<longleftrightarrow>
     ml_queued l = map snd (ml_taken l) @ ml_packetCh l \<and> length (ml_packetCh l) \<le> packet_cap
     \<and> sorted (map fst (ml_taken l)) \<and> (\<forall>x\<in>set (ml_taken l). fst x < length (ml_sessions l))
     \<and> (\<forall>k<length (ml_sessions l). subseq (carried (ml_sessions l ! k)) (taken_by k (ml_taken l)))"

definition losses_ok :: "member_env \<Rightarrow> member_loop \<Rightarrow> bool" where
  "losses_ok E l \<longleftrightarrow>
     (encodable E (map snd (ml_taken l)) \<longrightarrow>
        (\<forall>k<length (ml_sessions l). accounted (ml_sessions l ! k) (taken_by k (ml_taken l))))"

definition loop_inv :: "member_env \<Rightarrow> member_loop \<Rightarrow> Member \<Rightarrow> bool" where
  "loop_inv E l m \<longleftrightarrow> writers_ok l \<and> packets_ok l \<and> list_all (session_inv E) (ml_sessions l)
     \<and> health_ok (ml_phase l) (healthy m) \<and> losses_ok E l"

text \<open>A session of the loop is replaced.\<close>

lemma list_all_update: "list_all P xs \<Longrightarrow> P x \<Longrightarrow> list_all P (xs[k := x])"
  by (cases "k < length xs") (auto simp: list_all_length nth_list_update list_update_beyond)

lemma writers_set:
  assumes "writers_ok l" "k < length (ml_sessions l)" "ss_wr (ml_sessions l ! k) = WGone \<longrightarrow> ss_wr s = WGone"
    and "ss_shut (ml_sessions l ! k) \<longrightarrow> ss_shut s" "ss_done (ml_sessions l ! k) \<longrightarrow> ss_done s"
  shows "writers_ok (set_session k s l)"
proof -
  let ?ss = "ml_sessions l" and ?tt = "(ml_sessions l)[k := s]"
  have w: "ss_wr (?ss ! j) \<noteq> WGone" if "ss_wr (?tt ! j) \<noteq> WGone" for j
    using that assms(2,3) by (cases "j = k") auto
  have "ss_shut (?ss ! j) \<longrightarrow> ss_shut (?tt ! j)" "ss_done (?ss ! j) \<longrightarrow> ss_done (?tt ! j)" for j
    using assms(2,4,5) by (cases "j = k"; simp)+
  with assms(1) w show ?thesis by (simp add: writers_ok_def)
qed

lemma packets_set:
  assumes "packets_ok l" "k < length (ml_sessions l)" "subseq (carried s) (carried (ml_sessions l ! k))"
  shows "packets_ok (set_session k s l)"
proof -
  have "subseq (carried ((ml_sessions l)[k := s] ! j)) (carried (ml_sessions l ! j))" for j
    using assms(2,3) by (cases "j = k") simp_all
  with assms(1) show ?thesis by (auto simp: packets_ok_def intro: subseq_order.trans)
qed

lemma packets_took:
  assumes l: "packets_ok l" "writers_ok l" and k: "k < length (ml_sessions l)" "ss_wr (ml_sessions l ! k) \<noteq> WGone"
    and s: "subseq (carried s) (carried (ml_sessions l ! k) @ [pkt])" and q: "ml_packetCh l = pkt # q"
  shows "packets_ok ((set_session k s l)\<lparr>ml_packetCh := q, ml_taken := ml_taken l @ [(k, pkt)]\<rparr>)"
proof -
  have "k = cur l" using l(2) k by (auto simp: writers_ok_def)
  then have le: "\<forall>x\<in>set (ml_taken l). fst x \<le> k" using l(1) by (fastforce simp: packets_ok_def)
  have new: "subseq (carried s) (taken_by k (ml_taken l) @ [pkt])"
    using s subseq_order.trans [OF s] l(1) k(1) by (auto simp: packets_ok_def intro: list_emb_append_mono)
  have old: "subseq (carried (ml_sessions l ! j)) (taken_by j (ml_taken l))" if "j < length (ml_sessions l)" for j
    using l(1) that by (simp add: packets_ok_def)
  have "subseq (carried ((ml_sessions l)[k := s] ! j)) (taken_by j (ml_taken l @ [(k, pkt)]))"
    if "j < length (ml_sessions l)" for j
    using new old [OF that] that by (cases "j = k") (simp_all add: taken_by_def)
  with l(1) k(1) q le show ?thesis
    by (auto simp: packets_ok_def sorted_append)
qed

lemma packets_queue:
  assumes "packets_ok l" "tunReader m pkt (ml_packetCh l) = q"
  shows "packets_ok (l\<lparr>ml_packetCh := q, ml_queued := ml_queued l @ drop (length (ml_packetCh l)) q\<rparr>)"
  using assms by (auto simp: packets_ok_def tunReader_def split: option.splits if_splits)

lemma packets_started:
  assumes "packets_ok l"
  shows "packets_ok (l\<lparr>ml_phase := ph, ml_sessions := ml_sessions l @ [new_session c inp]\<rparr>)"
proof -
  have "carried (new_session c inp) = []" by (simp add: carried_def held_def new_session_def)
  with assms show ?thesis by (auto simp: packets_ok_def nth_append less_Suc_eq)
qed

lemma losses_set:
  assumes "losses_ok E l" "\<And>ts. accounted (ml_sessions l ! k) ts \<Longrightarrow> accounted s ts"
  shows "losses_ok E (set_session k s l)"
proof -
  have "accounted ((ml_sessions l)[k := s] ! j) ts" if "accounted (ml_sessions l ! j) ts" "j < length (ml_sessions l)" for j ts
    using assms(2) that by (cases "j = k") auto
  with assms(1) show ?thesis by (simp add: losses_ok_def)
qed

lemma losses_took:
  assumes "losses_ok E l" "k < length (ml_sessions l)"
    and "\<And>ts. encodable E [pkt] \<Longrightarrow> accounted (ml_sessions l ! k) ts \<Longrightarrow> accounted s (ts @ [pkt])"
  shows "losses_ok E ((set_session k s l)\<lparr>ml_packetCh := q, ml_taken := ml_taken l @ [(k, pkt)]\<rparr>)"
  unfolding losses_ok_def
proof (intro impI allI)
  fix j
  assume e: "encodable E (map snd (ml_taken ((set_session k s l)\<lparr>ml_packetCh := q, ml_taken := ml_taken l @ [(k, pkt)]\<rparr>)))"
    and j: "j < length (ml_sessions ((set_session k s l)\<lparr>ml_packetCh := q, ml_taken := ml_taken l @ [(k, pkt)]\<rparr>))"
  from e have "encodable E [pkt]" "encodable E (map snd (ml_taken l))" by (simp_all add: encodable_def)
  with assms(1) j have "accounted (ml_sessions l ! j) (taken_by j (ml_taken l))"
    "accounted (ml_sessions l ! k) ts \<Longrightarrow> accounted s (ts @ [pkt])" for ts
    using assms(3) by (simp_all add: losses_ok_def)
  with assms(2) show "accounted (ml_sessions ((set_session k s l)\<lparr>ml_packetCh := q, ml_taken := ml_taken l @ [(k, pkt)]\<rparr>) ! j)
      (taken_by j (ml_taken ((set_session k s l)\<lparr>ml_packetCh := q, ml_taken := ml_taken l @ [(k, pkt)]\<rparr>)))"
    by (cases "j = k") (simp_all add: taken_by_def)
qed

lemma losses_started:
  assumes "losses_ok E l" "packets_ok l"
  shows "losses_ok E (l\<lparr>ml_phase := ph, ml_sessions := ml_sessions l @ [new_session c inp]\<rparr>)"
proof -
  have "taken_by (length (ml_sessions l)) (ml_taken l) = []"
    using assms(2) by (fastforce simp: packets_ok_def taken_by_def filter_empty_conv)
  moreover have "accounted (new_session c inp) []" by (simp add: accounted_def held_def new_session_def)
  ultimately show ?thesis using assms(1) by (auto simp: losses_ok_def nth_append less_Suc_eq)
qed

section \<open>What the steps of a loop do to the pool\<close>

text \<open>
  Other members are left alone; and either the active devices are the same, or an event is in the channel.
\<close>

definition moves_pool :: "nat \<Rightarrow> Pool \<Rightarrow> Pool \<Rightarrow> bool" where
  "moves_pool i p p' \<longleftrightarrow> length (members p') = length (members p) \<and> (\<forall>j. j \<noteq> i \<longrightarrow> members p' ! j = members p ! j)
     \<and> (activeIfaceNames p' = activeIfaceNames p \<and> events p' = events p \<or> 0 < events p')"

definition active_iface :: "Member \<Rightarrow> string option" where
  "active_iface m = (if healthy m then m_iface m else None)"

lemma activeIfaceNames_map: "activeIfaceNames p = List.map_filter id (map active_iface (members p))"
proof -
  have "List.map_filter m_iface (filter healthy ms) = List.map_filter id (map active_iface ms)" for ms
    by (induction ms) (auto simp: map_filter_simps active_iface_def split: option.splits)
  then show ?thesis by (simp add: activeIfaceNames_def Active_def)
qed

lemma moves_pool_refl [simp]: "moves_pool i p p"
  by (simp add: moves_pool_def)

lemma moves_pool_trans: "moves_pool i p q \<Longrightarrow> moves_pool i q r \<Longrightarrow> moves_pool i p r"
  by (auto simp: moves_pool_def)

lemma moves_pool_upd:
  assumes "active_iface (f (members p ! i)) = active_iface (members p ! i)"
  shows "moves_pool i p (upd_member i f p)"
proof -
  have "map active_iface ((members p)[i := f (members p ! i)]) = map active_iface (members p)"
    using assms by (metis list_update_id map_update)
  then show ?thesis by (simp add: moves_pool_def activeIfaceNames_map upd_member_def)
qed

lemma moves_pool_set_health:
  assumes "set_health now v i p = (changed, q)"
  shows "moves_pool i p (if changed then notify q else q)"
proof (cases changed)
  case True
  have "members (notify q) = (members p)[i := snd (setHealthy now v (members p ! i))]"
    using assms by (auto simp: set_health_def split: prod.splits)
  with True notify_events [of q] show ?thesis by (simp add: moves_pool_def)
next
  case False
  with assms have "q = p" by (auto dest: set_health_unchanged)
  with False show ?thesis by simp
qed

lemma moves_pool_mark [simp]: "moves_pool i p (MarkHealthy now i p)" "moves_pool i p (MarkUnhealthy now i p)"
  unfolding MarkHealthy_def MarkUnhealthy_def
  by (metis (no_types, lifting) case_prod_conv moves_pool_set_health surj_pair)+

lemma active_iface_unhealthy: "\<not> healthy m \<Longrightarrow> \<not> healthy m' \<Longrightarrow> active_iface m = active_iface m'"
  by (simp add: active_iface_def)

lemma moves_pool_CM: "moves_pool i p (upd_member i (\<lambda>m. m\<lparr>CM := cm'\<rparr>) p)"
  by (rule moves_pool_upd) (simp add: active_iface_def)

lemma moves_pool_SetRTTus: "moves_pool i p (upd_member i (SetRTTus us) p)"
  by (rule moves_pool_upd) (simp add: active_iface_def)

lemma reassign_pool:
  assumes "reassign now rebind_ok i res ip p = (r, p')" "i < length (members p)" "\<not> healthy (members p ! i)"
  shows "moves_pool i p p' \<and> \<not> healthy (members p' ! i) \<and> r \<noteq> Inl ShutDown"
proof -
  have "moves_pool i p (upd_member i (\<lambda>m. SetIface (the (m_iface m)) (To4 newIP) m) p)" for newIP
    by (rule moves_pool_upd) (use assms(3) in \<open>simp add: active_iface_def\<close>)
  with assms show ?thesis by (auto simp: reassign_def Let_def split: sum.splits if_splits)
qed

lemma rejoin_pool:
  assumes "rejoin env i d ip ls p = (r, wait, p')" "i < length (members p)" "\<not> healthy (members p ! i)"
  shows "moves_pool i p p' \<and> (healthy (members p' ! i) \<longleftrightarrow> \<not> isl r)"
  using assms by (auto simp: rejoin_def Let_def split: if_splits)

lemma reconnectOrphan_pool:
  assumes "reconnectOrphan env create_ok i p = (r, p')" "i < length (members p)" "\<not> healthy (members p ! i)"
  shows "moves_pool i p p' \<and> (healthy (members p' ! i) \<longleftrightarrow> (\<exists>ls. r = Inr (Some ls)))"
proof -
  have iface: "moves_pool i p (MarkHealthy (se_now env) i
      (upd_member i (\<lambda>m. SetIface (IfName m) ip m) (upd_member i (\<lambda>m. m\<lparr>CM := cm'\<rparr>) p)))" for ip cm'
    by (rule moves_pool_trans [OF moves_pool_trans [OF moves_pool_CM moves_pool_upd] moves_pool_mark(1)])
      (use assms(2,3) in \<open>simp add: active_iface_def\<close>)
  with assms show ?thesis
    by (auto simp: reconnectOrphan_def Let_def moves_pool_CM split: if_splits option.splits sum.splits prod.splits)
qed

lemma watch_moves_pool:
  assumes "watch_inv w" "moves_pool i (w_pool w) p"
  shows "watch_inv (w\<lparr>w_pool := p\<rparr>)"
  using assms active_cong [of p "w_pool w" "w_sel w"] by (auto simp: watch_inv_def pending_def moves_pool_def)


section \<open>The invariant of a loop\<close>

lemma loop_invD:
  assumes "loop_inv E l m"
  shows "writers_ok l" "packets_ok l" "list_all (session_inv E) (ml_sessions l)" "health_ok (ml_phase l) (healthy m)"
    "losses_ok E l"
  using assms by (simp_all add: loop_inv_def)

lemma sessions_inv: "loop_inv E l m \<Longrightarrow> k < length (ml_sessions l) \<Longrightarrow> session_inv E (ml_sessions l ! k)"
  by (drule loop_invD(3)) (simp add: list_all_length)

text \<open>What the loop needs of the goroutines of its sessions.\<close>

locale session_goroutines =
  fixes E :: member_env and step :: "session \<Rightarrow> label \<Rightarrow> session \<Rightarrow> bool"
  assumes step_inv: "step x a y \<Longrightarrow> session_inv E x \<Longrightarrow> session_inv E y"
    and step_carried: "step x a y \<Longrightarrow> session_inv E x \<Longrightarrow> subseq (carried y) (carried x @ took_packets a)"
    and step_writer: "step x a y \<Longrightarrow> ss_wr x = WGone \<Longrightarrow> ss_wr y = WGone \<and> took_packets a = []"
    and step_ends: "step x a y \<Longrightarrow> (ss_shut x \<longrightarrow> ss_shut y) \<and> (ss_done x \<longrightarrow> ss_done y)"
    and step_accounted: "step x a y \<Longrightarrow> took_packets a = [] \<or> encodable E (took_packets a) \<Longrightarrow> accounted x ts
      \<Longrightarrow> accounted y (ts @ took_packets a)"
begin

lemma loop_inv_set:
  assumes l: "loop_inv E l m" and k: "k < length (ml_sessions l)" and s: "step (ml_sessions l ! k) a s"
  shows "writers_ok (set_session k s l)" "list_all (session_inv E) ((ml_sessions l)[k := s])"
    "took_packets a = [] \<Longrightarrow> packets_ok (set_session k s l)" "took_packets a = [] \<Longrightarrow> losses_ok E (set_session k s l)"
proof -
  note D = loop_invD [OF l] and inv = sessions_inv [OF l k]
  show "writers_ok (set_session k s l)"
    using writers_set [OF D(1) k, of s] step_ends [OF s] step_writer [OF s] by blast
  from step_inv [OF s inv] D(3) show "list_all (session_inv E) ((ml_sessions l)[k := s])"
    by (intro list_all_update)
  show "packets_ok (set_session k s l)" if "took_packets a = []"
    using packets_set [OF D(2) k] step_carried [OF s inv] that by simp
  show "losses_ok E (set_session k s l)" if "took_packets a = []"
    using losses_set [OF D(5), of k s] step_accounted [OF s] that by simp
qed

lemma loop_inv_took:
  assumes l: "loop_inv E l m" and k: "k < length (ml_sessions l)" and s: "step (ml_sessions l ! k) (Took pkt) s"
    and q: "ml_packetCh l = pkt # q"
  shows "loop_inv E ((set_session k s l)\<lparr>ml_packetCh := q, ml_taken := ml_taken l @ [(k, pkt)]\<rparr>) m"
proof -
  let ?l = "(set_session k s l)\<lparr>ml_packetCh := q, ml_taken := ml_taken l @ [(k, pkt)]\<rparr>"
  note D = loop_invD [OF l] and S = loop_inv_set [OF l k s]
  from step_writer [OF s] have "ss_wr (ml_sessions l ! k) \<noteq> WGone" by auto
  with packets_took [OF D(2,1) k _ _ q] step_carried [OF s sessions_inv [OF l k]] have "packets_ok ?l" by simp
  moreover have "losses_ok E ?l" using losses_took [OF D(5) k] step_accounted [OF s] by simp
  ultimately show ?thesis using S(1,2) D(4) by (simp add: loop_inv_def writers_ok_def)
qed

lemma loop_inv_quiet:
  assumes l: "loop_inv E l m" and k: "k < length (ml_sessions l)" and s: "step (ml_sessions l ! k) a s"
    and "took_packets a = []" and "healthy m' = healthy m"
  shows "loop_inv E ((set_session k s l)\<lparr>ml_device := dev\<rparr>) m'"
  using loop_inv_set [OF l k s] loop_invD [OF l] assms(4,5)
  by (simp add: loop_inv_def writers_ok_def packets_ok_def losses_ok_def)

end

interpretation gw_goroutines: session_goroutines E "session_step E sd" for E sd
proof unfold_locales
  show "session_step E sd x a y \<Longrightarrow> session_inv E x \<Longrightarrow> subseq (carried y) (carried x @ took_packets a)" for x a y
    unfolding session_inv_def by (blast intro: session_step_carried)
next
  show "session_step E sd x a y \<Longrightarrow> (ss_shut x \<longrightarrow> ss_shut y) \<and> (ss_done x \<longrightarrow> ss_done y)" for x a y
    by (drule session_step_static) simp
qed (erule (1) session_step_inv session_step_writer session_step_accounted)+

text \<open>A step of the loop itself that leaves the sessions alone.\<close>

lemma loop_inv_phase:
  assumes l: "loop_inv E l m" and "health_ok ph (healthy m')" "in_session (ml_phase l) \<longrightarrow> in_session ph"
    and "ph \<noteq> Running" "\<And>d. ph \<noteq> Draining d"
  shows "loop_inv E (l\<lparr>ml_phase := ph, ml_state := ls, ml_tun := b\<rparr>) m'"
  using loop_invD [OF l] assms(2-) by (auto simp: loop_inv_def writers_ok_def packets_ok_def losses_ok_def)

lemma loop_inv_started:
  assumes l: "loop_inv E l m" and "ml_phase l = Starting"
  shows "loop_inv E (l\<lparr>ml_phase := Running, ml_sessions := ml_sessions l @ [new_session c inp]\<rparr>) m"
  using loop_invD [OF l] assms(2) packets_started [of l, where ph = Running and c = c and inp = inp]
    losses_started [of E l, where ph = Running and c = c and inp = inp]
  by (auto simp: loop_inv_def writers_ok_def nth_append)

lemma carried_shut [simp]:
  "carried (shut_session s) = carried s" "frames_ok E s \<Longrightarrow> carried (say_close r ok s) = carried s"
  by (auto simp: carried_def held_def frames_ok_def shut_session_def say_close_def wrote_def write_failed_def
      can_write_def frame_types split: sum.splits)

lemma accounted_shut: "accounted s ts \<Longrightarrow> accounted (shut_session s) ts" "accounted s ts \<Longrightarrow> accounted (say_close r ok s) ts"
  by (auto simp: accounted_def held_def shut_session_def say_close_def wrote_def write_failed_def frame_types split: sum.splits)

lemma say_close_fields [simp]:
  "ss_wr (say_close r ok s) = ss_wr s" "ss_done (say_close r ok s) = ss_done s" "ss_shut (say_close r ok s)"
  by (auto simp: shut_session_def say_close_def wrote_def write_failed_def split: sum.splits)

lemma session_inv_shut: "session_inv E s \<Longrightarrow> session_inv E (shut_session s)"
  by (simp add: session_inv_def signalled_def frames_ok_def counts_pings_def shut_session_def)

lemma session_inv_close:
  assumes "session_inv E s" "Encode FrameClose [] (ss_cipher s) (me_pad E) tp = (r, tp')"
  shows "session_inv E (say_close r ok s)"
proof (cases r)
  case (Inl e)
  with session_inv_shut [OF assms(1)] show ?thesis by (simp add: say_close_def)
next
  case (Inr f)
  with assms(2) have "encodes E (ss_cipher s) FrameClose [] f" unfolding encodes_def by blast
  with assms(1) have "session_inv E (wrote FrameClose [] f s)" "session_inv E (write_failed FrameClose [] f s)"
    by (auto simp: session_inv_def signalled_def frames_ok_def counts_pings_def wrote_def write_failed_def can_write_def)
  with Inr assms(1) show ?thesis by (simp add: say_close_def session_inv_shut)
qed

lemma loop_inv_shut:
  assumes l: "loop_inv E l m" and r: "ml_phase l = Running"
    and s: "session_inv E s" "ss_wr s = ss_wr (ml_sessions l ! cur l)" "ss_shut s" "ss_done s = ss_done (ml_sessions l ! cur l)"
      "carried s = carried (ml_sessions l ! cur l)" "\<And>ts. accounted (ml_sessions l ! cur l) ts \<Longrightarrow> accounted s ts"
    and ph: "ph = Draining d \<and> ss_done s \<or> ph = Exited ShutDown"
  shows "loop_inv E ((set_session (cur l) s l)\<lparr>ml_phase := ph\<rparr>) m"
proof -
  note D = loop_invD [OF l]
  have ne: "cur l < length (ml_sessions l)" using D(1) r by (cases "ml_sessions l") (auto simp: writers_ok_def)
  have "writers_ok (set_session (cur l) s l)" by (rule writers_set [OF D(1) ne]) (simp_all add: s)
  moreover have "packets_ok (set_session (cur l) s l)" by (rule packets_set [OF D(2) ne]) (simp add: s)
  moreover have "list_all (session_inv E) ((ml_sessions l)[cur l := s])" using D(3) s(1) by (rule list_all_update)
  moreover have "losses_ok E (set_session (cur l) s l)" by (rule losses_set [OF D(5) s(6)])
  ultimately show ?thesis using D(4) ph r s(3) ne by (auto simp: loop_inv_def writers_ok_def packets_ok_def losses_ok_def)
qed

lemma loop_inv_drained:
  assumes l: "loop_inv E l m" and "ml_phase l = Draining d" "ss_wr (ml_sessions l ! cur l) = WGone" "healthy m' = healthy m"
  shows "loop_inv E (l\<lparr>ml_phase := Dropping d\<rparr>) m'"
  using loop_invD [OF l] assms(2-) by (auto simp: loop_inv_def writers_ok_def packets_ok_def losses_ok_def)


lemma cur_session_inv:
  assumes "loop_inv E l m" "ml_phase l = Running"
  shows "session_inv E (ml_sessions l ! cur l)"
proof -
  have "ml_sessions l \<noteq> []" using loop_invD(1) [OF assms(1)] assms(2) by (simp add: writers_ok_def)
  with loop_invD(3) [OF assms(1)] show ?thesis by (simp add: list_all_length)
qed

lemma loop_step_inv:
  assumes "loop_step E sd i (l, p) (l', p')" "i < length (members p)" "loop_inv E l (members p ! i)"
  shows "loop_inv E l' (members p' ! i) \<and> moves_pool i p p'"
  using assms(1)
proof cases
  case (quiet k s)
  with gw_goroutines.loop_inv_quiet [OF assms(3) quiet(3,4), of "members p ! i" "ml_device l"] show ?thesis by simp
next
  case (took k pkt s q)
  with gw_goroutines.loop_inv_took [OF assms(3) took(3,4,5)] show ?thesis by simp
next
  case (to_device k pkt s)
  with gw_goroutines.loop_inv_quiet [OF assms(3) to_device(3,4), of "members p ! i"] show ?thesis by simp
next
  case (store_rtt k us s)
  with gw_goroutines.loop_inv_quiet [OF assms(3) store_rtt(3,4), of "members p' ! i" "ml_device l"] assms(2) show ?thesis
    by (simp add: moves_pool_SetRTTus)
next
  case (tun_read pkt q)
  with assms(3) packets_queue [of l "members p ! i" pkt q] show ?thesis
    by (auto simp: loop_inv_def writers_ok_def losses_ok_def)
next
  case tun_ended
  with loop_invD [OF assms(3)] show ?thesis by (simp add: loop_inv_def writers_ok_def packets_ok_def losses_ok_def)
next
  case (started c inp)
  with loop_inv_started [OF assms(3)] show ?thesis by simp
next
  case (no_cipher now)
  with loop_inv_phase [OF assms(3), of "Exited CipherInit" "members p' ! i" "ml_tun l" "ml_state l"] assms(2)
  show ?thesis by simp
next
  case (lost d)
  from loop_inv_shut [OF assms(3) lost(3) session_inv_shut [OF cur_session_inv [OF assms(3) lost(3)]], of "Draining d" d]
  show ?thesis using lost accounted_shut(1) by (simp add: shut_session_def carried_shut(1) [unfolded shut_session_def])
next
  case (shut_down tp r tp' ok)
  from loop_inv_shut [OF assms(3) shut_down(3) session_inv_close [OF cur_session_inv [OF assms(3) shut_down(3)] shut_down(5)],
      of ok "Exited ShutDown"] show ?thesis
    using shut_down cur_session_inv [OF assms(3) shut_down(3)] accounted_shut(2)
    by (simp add: session_inv_def carried_shut(2) [where E = E])
next
  case (drained d)
  with loop_inv_drained [OF assms(3) drained(3,4), of "members p' ! i"] assms(2) show ?thesis
    by (simp add: moves_pool_SetRTTus)
next
  case (dropped d now)
  with loop_inv_phase [OF assms(3), of "Redialling d" "members p' ! i" "ml_tun l" "ml_state l"] assms(2)
  show ?thesis by simp
next
  case (redialled d rounds u ws cm')
  with loop_inv_phase [OF assms(3), of "Assigning d" "members p' ! i" "ml_tun l" "ml_state l"] assms(2)
    loop_invD(4) [OF assms(3)]
  show ?thesis by (simp add: moves_pool_CM)
next
  case (redial_aborted d rounds e ws cm')
  with loop_inv_phase [OF assms(3), of "Exited ReconnectAborted" "members p' ! i" "ml_tun l" "ml_state l"] assms(2)
    loop_invD(4) [OF assms(3)]
  show ?thesis by (simp add: moves_pool_CM)
next
  case (assigned d now rebind_ok res r)
  have "\<not> healthy (members p ! i)" using loop_invD(4) [OF assms(3)] assigned by simp
  note P = reassign_pool [OF assigned(3) assms(2) this]
  with assigned loop_inv_phase [OF assms(3), of "case r of Inl e \<Rightarrow> Exited e | Inr ip \<Rightarrow> Joining d ip" "members p' ! i"
      "ml_tun l" "ml_state l"] show ?thesis by (cases r) auto
next
  case (rejoined d ip env ls wait)
  have "\<not> healthy (members p ! i)" using loop_invD(4) [OF assms(3)] rejoined by simp
  note P = rejoin_pool [OF rejoined(3) assms(2) this]
  with rejoined loop_inv_phase [OF assms(3), of Starting "members p' ! i" "ml_tun l" ls] show ?thesis by simp
next
  case (hold_down_ended d ip env e wait)
  have "\<not> healthy (members p ! i)" using loop_invD(4) [OF assms(3)] hold_down_ended by simp
  note P = rejoin_pool [OF hold_down_ended(4) assms(2) this]
  with hold_down_ended loop_inv_phase [OF assms(3), of "Exited e" "members p' ! i" "ml_tun l" "ml_state l"] show ?thesis by simp
next
  case (adopted env create_ok ls)
  have "\<not> healthy (members p ! i)" using loop_invD(4) [OF assms(3)] adopted by simp
  note P = reconnectOrphan_pool [OF adopted(3) assms(2) this]
  with adopted loop_inv_phase [OF assms(3), of Starting "members p' ! i" True ls] show ?thesis by simp
next
  case (orphan_retries env create_ok)
  have "\<not> healthy (members p ! i)" using loop_invD(4) [OF assms(3)] orphan_retries by simp
  note P = reconnectOrphan_pool [OF orphan_retries(3) assms(2) this]
  with orphan_retries loop_invD [OF assms(3)] show ?thesis by (simp add: loop_inv_def)
next
  case (orphan_ends env create_ok e)
  have "\<not> healthy (members p ! i)" using loop_invD(4) [OF assms(3)] orphan_ends by simp
  note P = reconnectOrphan_pool [OF orphan_ends(3) assms(2) this]
  with orphan_ends loop_inv_phase [OF assms(3), of "Exited e" "members p' ! i" "ml_tun l" "ml_state l"] show ?thesis by simp
qed

section \<open>The invariant of the gateway\<close>

definition gw_inv :: "member_env \<Rightarrow> gateway_sys \<Rightarrow> bool" where
  "gw_inv E s \<longleftrightarrow> watch_inv (gs_watch s) \<and> length (gs_loops s) = length (members (gs_pool s))
     \<and> (\<forall>i<length (gs_loops s). loop_inv E (gs_loops s ! i) (members (gs_pool s) ! i))"

lemma gw_inv_step: "gw_inv E s \<Longrightarrow> gw_step E s s' \<Longrightarrow> gw_inv E s'"
proof -
  assume inv: "gw_inv E s" and step: "gw_step E s s'"
  from step show ?thesis
  proof cases
    case (member i l p)
    have i: "i < length (members (gs_pool s))" using inv member by (simp add: gw_inv_def)
    from loop_step_inv [OF member(3) i] inv member have L: "loop_inv E l (members p ! i)" "moves_pool i (gs_pool s) p"
      by (simp_all add: gw_inv_def)
    have "loop_inv E ((gs_loops s)[i := l] ! j) (members p ! j)" if "j < length (gs_loops s)" for j
      using L inv that by (cases "j = i") (simp_all add: gw_inv_def moves_pool_def)
    moreover have "length (members p) = length (members (gs_pool s))" using L(2) by (simp add: moves_pool_def)
    ultimately show ?thesis using member inv watch_moves_pool [OF _ L(2)] by (simp add: gw_inv_def)
  next
    case (watch w)
    with inv watch_inv_step [of "gs_watch s" w] show ?thesis by (simp add: gw_inv_def)
  next
    case interrupted
    with inv show ?thesis by (simp add: gw_inv_def)
  qed
qed

lemma start_loop_inv: "loop_inv E (start_loop m) m"
  by (auto simp: start_loop_def loop_inv_def writers_ok_def packets_ok_def losses_ok_def packet_cap_def Let_def)

interpretation gateway: invariant_system gw_start "gw_step E" "gw_inv E" for E
proof unfold_locales
  show "gw_start s \<Longrightarrow> gw_inv E s" for s
    using watchers.inv_init by (auto simp: gw_start_def gw_inv_def start_loop_inv)
qed (rule gw_inv_step)

end
