(* ===== verification/GatewaySystem.thy ===== *)
theory GatewaySystem
  imports GatewayInv Tunnel
begin

text \<open>
  What holds of the running gateway of \<open>GatewaySession\<close> in every reachable state: where its packets go and
  which are lost, which goroutines can be running at a time, how a session ends, when the prober gives up,
  and which devices the routes use.
\<close>

section \<open>A stream of frames that is cut anywhere\<close>

lemma read_full_extend: "read_full n r = Inr (a, b) \<Longrightarrow> read_full n (r @ x) = Inr (a, b @ x)"
  by (auto simp: read_full_def split: if_splits)

lemma Decode_extend:
  assumes "Decode c r = Inr (m, rest)"
  shows "Decode c (r @ x) = Inr (m, rest @ x)"
proof -
  obtain header r1 where h: "read_full HeaderSize r = Inr (header, r1)"
    using assms by (auto simp: Decode_def split: sum.splits)
  let ?n = "unat (get_u16 (take 2 (drop 2 header))) + unat (get_u16 (take 2 (drop 4 header))) + Overhead c"
  obtain ct r2 where ct: "read_full ?n r1 = Inr (ct, r2)"
    using assms h by (auto simp: Decode_def Let_def split: sum.splits if_splits)
  from assms show ?thesis
    by (auto simp: Decode_def Let_def h read_full_extend [OF h] ct read_full_extend [OF ct] split: if_splits option.splits)
qed

abbreviation frame_wire :: "Cipher \<Rightarrow> byte \<times> bytes \<times> bytes \<times> bytes \<Rightarrow> bytes" where
  "frame_wire c \<equiv> \<lambda>(ft, p, nonce, padding). frame_of c ft p nonce padding"

lemma Decode_cut:
  assumes "good_frame c g" "n < length (frame_wire c g)"
  shows "\<exists>e. Decode c (take n (frame_wire c g)) = Inl e"
proof (cases "Decode c (take n (frame_wire c g))")
  case (Inr mr)
  obtain m rest where "Decode c (take n (frame_wire c g)) = Inr (m, rest)" using Inr by (cases mr) simp
  from Decode_extend [OF this, of "drop n (frame_wire c g)"]
  have "Decode c (frame_wire c g) = Inr (m, rest @ drop n (frame_wire c g))" by simp
  moreover have "Decode c (frame_wire c g) = Inr ((fst g, fst (snd g)), [])"
    using frames.dec_enc [OF assms(1), of "[]"] by (auto split: prod.splits)
  ultimately show ?thesis using assms(2) by simp
qed simp

lemma serve_loop_stuck:
  assumes "list_all (good_frame c) fs" "Decode c r = Inl e"
  shows "serve_loop c pad ip wok (concat (map (frame_wire c) fs) @ r) st t = serve_loop c pad ip wok (concat (map (frame_wire c) fs)) st t"
  using assms(1)
proof (induction fs arbitrary: st t)
  case Nil
  have "Decode c [] = Inl (ReadHeader EOF)" by (simp add: Decode_def read_full_def HeaderSize_def)
  with assms(2) show ?case by (simp add: serve_loop.simps [of c pad ip wok "[]"] serve_loop.simps [of c pad ip wok r])
next
  case (Cons f fs)
  let ?m = "(fst f, fst (snd f))"
  have d: "Decode c (frame_wire c f @ rest) = Inr (?m, rest)" for rest
    using frames.dec_enc [of c f rest] Cons.prems by (auto split: prod.splits)
  show ?case
    using Cons.IH Cons.prems
    by (simp add: serve_loop.simps [of c pad ip wok "frame_wire c f @ concat (map (frame_wire c) fs) @ r"]
        serve_loop.simps [of c pad ip wok "frame_wire c f @ concat (map (frame_wire c) fs)"] d split: prod.split verdict.split)
qed

lemma take_frames:
  "\<exists>j r. take n (concat (map F fs)) = concat (map F (take j fs)) @ r
     \<and> (r = [] \<or> (\<exists>f\<in>set fs. \<exists>k<length (F f). r = take k (F f)))"
proof (induction fs arbitrary: n)
  case (Cons f fs)
  show ?case
  proof (cases "n < length (F f)")
    case True
    then show ?thesis by (intro exI [of _ 0] exI [of _ "take n (F f)"]) auto
  next
    case False
    from Cons.IH [of "n - length (F f)"] obtain j r where
      "take (n - length (F f)) (concat (map F fs)) = concat (map F (take j fs)) @ r"
      "r = [] \<or> (\<exists>f\<in>set fs. \<exists>k<length (F f). r = take k (F f))" by blast
    with False show ?thesis by (intro exI [of _ "Suc j"] exI [of _ r]) auto
  qed
qed simp

lemma own_packets_subseq:
  "subseq (map snd (filter (own_packet ip) (until_close ms))) (map snd (filter (\<lambda>m. fst m = FrameData) ms))"
  by (induction ms) (auto simp: until_close_def own_packet_def)

lemma data_of_types:
  "map snd (filter (\<lambda>m. fst m = FrameData) (map (\<lambda>(ft, p, _). (ft, p)) fs))
     = map (fst \<circ> snd) (filter (\<lambda>f. fst f = FrameData) fs)"
  by (induction fs) auto

text \<open>Of a stream of frames cut anywhere the server writes the packets of a part of the frames.\<close>

lemma serve_loop_cut:
  assumes "aead_ok c" "check_padding pad = None" "pad_max pad \<le> 65535" "length ip = 4" "list_all (good_frame c) fs"
  shows "subseq (tun_writes (fst (serve_loop c pad ip (\<lambda>_. True) (take n (concat (map (frame_wire c) fs))) st t)))
           (map (fst \<circ> snd) (filter (\<lambda>f. fst f = FrameData) fs))"
proof -
  obtain j r where jr: "take n (concat (map (frame_wire c) fs)) = concat (map (frame_wire c) (take j fs)) @ r"
    "r = [] \<or> (\<exists>f\<in>set fs. \<exists>k<length (frame_wire c f). r = take k (frame_wire c f))"
    using take_frames [of n "frame_wire c" fs] by blast
  have "Decode c [] = Inl (ReadHeader EOF)" by (simp add: Decode_def read_full_def HeaderSize_def)
  have "\<exists>e. Decode c r = Inl e"
    using jr(2)
  proof
    assume "r = []"
    with \<open>Decode c [] = Inl (ReadHeader EOF)\<close> show ?thesis by blast
  next
    assume "\<exists>f\<in>set fs. \<exists>k<length (frame_wire c f). r = take k (frame_wire c f)"
    then obtain f k where "f \<in> set fs" "k < length (frame_wire c f)" "r = take k (frame_wire c f)" by blast
    moreover from this assms(5) have "good_frame c f" by (simp add: list_all_iff)
    ultimately show ?thesis using Decode_cut by blast
  qed
  then obtain e where e: "Decode c r = Inl e" by blast
  have g: "list_all (good_frame c) (take j fs)" using assms(5) by (auto simp: list_all_iff dest: in_set_takeD)
  from serve_loop_stuck [OF g e, of pad ip "\<lambda>_. True" st t] have "serve_loop c pad ip (\<lambda>_. True) (take n (concat (map (frame_wire c) fs))) st t
      = serve_loop c pad ip (\<lambda>_. True) (concat (map (frame_wire c) (take j fs))) st t"
    unfolding jr(1) .
  then have "tun_writes (fst (serve_loop c pad ip (\<lambda>_. True) (take n (concat (map (frame_wire c) fs))) st t))
      = map snd (filter (own_packet ip) (until_close (map (\<lambda>(ft, p, _). (ft, p)) (take j fs))))"
    using serve_loop_frames [OF assms(1-4) g, of st t] by (simp add: Let_def)
  moreover have "subseq \<dots> (map (fst \<circ> snd) (filter (\<lambda>f. fst f = FrameData) (take j fs)))"
    using own_packets_subseq [of ip "map (\<lambda>(ft, p, _). (ft, p)) (take j fs)"] unfolding data_of_types .
  moreover have "subseq (map (fst \<circ> snd) (filter (\<lambda>f. fst f = FrameData) (take j fs)))
      (map (fst \<circ> snd) (filter (\<lambda>f. fst f = FrameData) fs))"
    by (intro subseq_map subseq_filter) (metis append_take_drop_id subseq_appended)
  ultimately show ?thesis by (simp only: subseq_order.trans)
qed

section \<open>From the device of a member to the device of its server\<close>

text \<open>The frames a session put on its stream, the one that was cut off included, are well-formed.\<close>

lemma encodes_good:
  assumes "encodes E c ft p f" "aead_ok c" "check_padding (me_pad E) = None" "pad_max (me_pad E) \<le> 65535"
  shows "\<exists>g. good_frame c g \<and> f = frame_wire c g \<and> fst g = ft \<and> fst (snd g) = p"
proof -
  obtain tp tp' where e: "Encode ft p c (me_pad E) tp = (Inr f, tp')" using assms(1) by (auto simp: encodes_def)
  then have l: "length p \<le> MaxPayloadSize" by (auto simp: Encode_def split: if_splits)
  from Encode_eq [OF assms(3) l, of ft c tp] e obtain nonce padding where g: "f = frame_of c ft p nonce padding"
    "length nonce = NonceSize" "pad_max (me_pad E) = 0 \<longrightarrow> padding = []"
    "0 < pad_max (me_pad E) \<longrightarrow> int (length padding) \<le> pad_max (me_pad E)" by auto
  have "length padding \<le> 65535"
    using g(3,4) assms(3,4) by (cases "pad_max (me_pad E) = 0") (auto simp: check_padding_None)
  with g l assms(2) show ?thesis by (intro exI [of _ "(ft, p, nonce, padding)"]) (simp add: good_frame_def)
qed

lemma frames_good:
  assumes "list_all (\<lambda>(ft, p, f). encodes E c ft p f) fs" "aead_ok c" "check_padding (me_pad E) = None" "pad_max (me_pad E) \<le> 65535"
  shows "\<exists>gs. list_all (good_frame c) gs \<and> map (snd \<circ> snd) fs = map (frame_wire c) gs
     \<and> map (fst \<circ> snd) (filter (\<lambda>f. fst f = FrameData) gs) = data_payloads fs"
  using assms(1)
proof (induction fs)
  case (Cons f fs)
  obtain ft p b where f: "f = (ft, p, b)" by (cases f)
  with Cons.prems have "list_all (\<lambda>(ft, p, f). encodes E c ft p f) fs" by simp
  from Cons.IH [OF this] obtain gs where "list_all (good_frame c) gs" "map (snd \<circ> snd) fs = map (frame_wire c) gs"
    "map (fst \<circ> snd) (filter (\<lambda>f. fst f = FrameData) gs) = data_payloads fs" by blast
  moreover from Cons.prems f encodes_good [OF _ assms(2-4), of ft p b] obtain g where
    "good_frame c g" "b = frame_wire c g" "fst g = ft" "fst (snd g) = p" by fastforce
  ultimately show ?case by (intro exI [of _ "g # gs"]) (auto simp: f o_def)
qed (auto intro: exI [of _ "[]"])

definition session_wire :: "session \<Rightarrow> bytes" where
  "session_wire s = concat (map (snd \<circ> snd) (ss_frames s @ ss_cut s))"

lemma server_gets:
  assumes "session_inv E s" "aead_ok (ss_cipher s)" "check_padding (me_pad E) = None" "pad_max (me_pad E) \<le> 65535"
    and "check_padding pad = None" "pad_max pad \<le> 65535" "length ip = 4"
  shows "subseq (tun_writes (fst (serve_loop (ss_cipher s) pad ip (\<lambda>_. True) (take n (session_wire s)) st t))) (carried s)"
proof -
  from assms(1) have "list_all (\<lambda>(ft, p, f). encodes E (ss_cipher s) ft p f) (ss_frames s @ ss_cut s)"
    by (simp add: session_inv_def frames_ok_def)
  from frames_good [OF this assms(2-4)] obtain gs where gs: "list_all (good_frame (ss_cipher s)) gs"
    "map (snd \<circ> snd) (ss_frames s @ ss_cut s) = map (frame_wire (ss_cipher s)) gs"
    "map (fst \<circ> snd) (filter (\<lambda>f. fst f = FrameData) gs) = data_payloads (ss_frames s @ ss_cut s)" by blast
  from serve_loop_cut [OF assms(2,5-7) gs(1), of n st t] have
    "subseq (tun_writes (fst (serve_loop (ss_cipher s) pad ip (\<lambda>_. True) (take n (session_wire s)) st t)))
       (data_payloads (ss_frames s @ ss_cut s))"
    unfolding session_wire_def gs(2) gs(3) .
  then show ?thesis unfolding carried_def by (rule subseq_order.trans [OF _ subseq_appended])
qed

lemma subseq_concat:
  "(\<And>k. k < n \<Longrightarrow> subseq (f k) (g k)) \<Longrightarrow> subseq (concat (map f [0..<n])) (concat (map g [0..<n]))"
  by (induction n) (auto intro: list_emb_append_mono)

lemma taken_in_order:
  "sorted (map fst ts) \<Longrightarrow> \<forall>x\<in>set ts. fst x < n \<Longrightarrow> concat (map (\<lambda>k. taken_by k ts) [0..<n]) = map snd ts"
proof (induction ts rule: rev_induct)
  case Nil
  then show ?case by (simp add: taken_by_def)
next
  case (snoc x ts)
  obtain k p where x: "x = (k, p)" by fastforce
  from snoc.prems x have k: "k < n" and le: "\<forall>y\<in>set ts. fst y \<le> k" by (auto simp: sorted_append)
  have after: "taken_by j ts = []" if "k < j" for j
    using le that by (fastforce simp: taken_by_def filter_empty_conv)
  have split: "[0..<n] = [0..<k] @ k # [Suc k..<n]" using k by (metis less_imp_add_positive upt_add_eq_append upt_conv_Cons le0 less_imp_le_nat add_gr_0)
  have before: "map (\<lambda>j. taken_by j (ts @ [x])) [0..<k] = map (\<lambda>j. taken_by j ts) [0..<k]"
    by (rule map_cong) (auto simp: taken_by_def x)
  have later: "map (\<lambda>j. taken_by j (ts @ [x])) [Suc k..<n] = map (\<lambda>j. []) [Suc k..<n]"
    by (rule map_cong) (use after in \<open>auto simp: taken_by_def x\<close>)
  have "taken_by k (ts @ [x]) = taken_by k ts @ [p]" by (simp add: taken_by_def x)
  moreover have "map F [0..<n] = map F [0..<k] @ F k # map F [Suc k..<n]" for F :: "nat \<Rightarrow> bytes list"
    by (simp only: split map_append list.map)
  ultimately have "concat (map (\<lambda>j. taken_by j (ts @ [x])) [0..<n])
      = concat (map (\<lambda>j. taken_by j ts) [0..<k]) @ taken_by k ts @ [p]"
    by (simp only: before later) simp
  also have "\<dots> = concat (map (\<lambda>j. taken_by j ts) [0..<n]) @ [p]" using after by (simp add: split)
  finally show ?case using snoc x by (simp add: sorted_append)
qed


lemma gw_loop_inv:
  assumes "reach gw_start (gw_step E) s" "i < length (gs_loops s)"
  shows "loop_inv E (gs_loops s ! i) (members (gs_pool s) ! i)" "i < length (members (gs_pool s))"
  using gateway.reach_inv [OF assms(1)] assms(2) by (simp_all add: gw_inv_def)

text \<open>What the server can have got from the sessions of a loop is part of what was queued, in order.\<close>

lemma served_in_order:
  assumes "loop_inv E l m"
    and "check_padding (me_pad E) = None" "pad_max (me_pad E) \<le> 65535" "check_padding pad = None" "pad_max pad \<le> 65535"
    and "\<forall>x\<in>set (ml_sessions l). aead_ok (ss_cipher x)" "\<forall>k. length (ip k) = 4"
  shows "subseq (concat (map (\<lambda>k. tun_writes (fst (serve_loop (ss_cipher (ml_sessions l ! k)) pad (ip k) (\<lambda>_. True)
                      (take (n k) (session_wire (ml_sessions l ! k))) (st k) (t k)))) [0..<length (ml_sessions l)]))
     (ml_queued l)"
proof -
  let ?srv = "\<lambda>k. tun_writes (fst (serve_loop (ss_cipher (ml_sessions l ! k)) pad (ip k) (\<lambda>_. True)
      (take (n k) (session_wire (ml_sessions l ! k))) (st k) (t k)))"
  from loop_invD(2) [OF assms(1)] have P: "ml_queued l = map snd (ml_taken l) @ ml_packetCh l"
    "sorted (map fst (ml_taken l))" "\<forall>x\<in>set (ml_taken l). fst x < length (ml_sessions l)"
    "\<And>k. k < length (ml_sessions l) \<Longrightarrow> subseq (carried (ml_sessions l ! k)) (taken_by k (ml_taken l))"
    by (simp_all add: packets_ok_def)
  have "subseq (?srv k) (taken_by k (ml_taken l))" if "k < length (ml_sessions l)" for k
  proof -
    have "aead_ok (ss_cipher (ml_sessions l ! k))" using assms(6) that by simp
    from server_gets [OF sessions_inv [OF assms(1) that] this assms(2-5)] assms(7) P(4) [OF that] show ?thesis
      by (blast intro: subseq_order.trans)
  qed
  from subseq_concat [of "length (ml_sessions l)" ?srv "\<lambda>k. taken_by k (ml_taken l)", OF this]
  have "subseq (concat (map ?srv [0..<length (ml_sessions l)])) (map snd (ml_taken l))"
    unfolding taken_in_order [OF P(2,3)] .
  then show ?thesis unfolding P(1) by (rule subseq_rev_drop_many)
qed

text \<open>
  C19. No packet goes through twice or overtakes another, and few are lost. In every reachable state of the
  gateway: what a member's reader queued is what its writers took, session after session, and what is in the
  channel (at most 256). Whatever part of each session's stream has arrived, what the server writes to its
  device, over all sessions in their order, is a subsequence of what was queued. And of the packets that
  its writer took, a session has written all but the one it holds, or, once it is leaving, all but one.
\<close>

theorem gateway_packets_once:
  assumes "reach gw_start (gw_step E) s" "i < length (gs_loops s)"
    and "check_padding (me_pad E) = None" "pad_max (me_pad E) \<le> 65535" "check_padding pad = None" "pad_max pad \<le> 65535"
    and "\<forall>x\<in>set (ml_sessions (gs_loops s ! i)). aead_ok (ss_cipher x)" "\<forall>k. length (ip k) = 4"
  shows "let l = gs_loops s ! i; N = length (ml_sessions l) in
     ml_queued l = map snd (ml_taken l) @ ml_packetCh l \<and> length (ml_packetCh l) \<le> 256 \<and> sorted (map fst (ml_taken l))
     \<and> subseq (concat (map (\<lambda>k. tun_writes (fst (serve_loop (ss_cipher (ml_sessions l ! k)) pad (ip k) (\<lambda>_. True)
                              (take (n k) (session_wire (ml_sessions l ! k))) (st k) (t k)))) [0..<N]))
         (ml_queued l)
     \<and> (list_all (\<lambda>p. length p \<le> MaxPayloadSize) (map snd (ml_taken l)) \<longrightarrow>
          (\<forall>k<N. accounted (ml_sessions l ! k) (taken_by k (ml_taken l))))"
proof -
  note inv = gw_loop_inv(1) [OF assms(1,2)]
  note D = loop_invD [OF inv]
  from D(2) have "ml_queued (gs_loops s ! i) = map snd (ml_taken (gs_loops s ! i)) @ ml_packetCh (gs_loops s ! i)"
    "length (ml_packetCh (gs_loops s ! i)) \<le> 256" "sorted (map fst (ml_taken (gs_loops s ! i)))"
    by (simp_all add: packets_ok_def packet_cap_def)
  with D(5) assms(3) served_in_order [OF inv assms(3-8), of n st t] show ?thesis
    by (simp add: Let_def losses_ok_def encodable_def)
qed

text \<open>
  C18. Sessions of a member exclude each other. In every reachable state: only the newest session's writer can
  be running, and only while the loop is in that session, so that no writer of a dead session takes packets
  from the one that follows; the channel \<open>sessionDone\<close> is never closed twice; the member counts as healthy
  while it has a session, and not while it reconnects or after it was given up.
\<close>

theorem gateway_sessions_exclusive:
  assumes "reach gw_start (gw_step E) s" "i < length (gs_loops s)"
  shows "let l = gs_loops s ! i in
     (\<forall>k<length (ml_sessions l). ss_wr (ml_sessions l ! k) \<noteq> WGone \<longrightarrow> k = cur l \<and> in_session (ml_phase l))
     \<and> (\<forall>x\<in>set (ml_sessions l). signalDone x \<noteq> None)
     \<and> health_ok (ml_phase l) (healthy (members (gs_pool s) ! i))"
proof -
  note D = loop_invD [OF gw_loop_inv(1) [OF assms]]
  have "signalDone x \<noteq> None" if "x \<in> set (ml_sessions (gs_loops s ! i))" for x
  proof -
    have "ss_once x \<longleftrightarrow> ss_done x" using D(3) that by (simp add: list_all_iff session_inv_def)
    then show ?thesis by (simp add: signalDone_Some)
  qed
  with D(1,4) show ?thesis by (simp add: writers_ok_def Let_def)
qed

section \<open>When the prober gives up\<close>

text \<open>
  C32. The prober's verdict, with the reader running beside it. In every reachable state in which the prober of a
  session decides to tear it down, a pong was seen in this session and at least three pings that were
  written whole are without an answer. It is three and not the four of the constant: a pong that arrives
  between the write of a ping and its count is cleared before the ping is counted.
\<close>

theorem prober_verdict:
  assumes "reach gw_start (gw_step E) s" "i < length (gs_loops s)" "k < length (ml_sessions (gs_loops s ! i))"
    and "session_step E sd (ml_sessions (gs_loops s ! i) ! k) a x"
    and "ss_pb (ml_sessions (gs_loops s ! i) ! k) = PTick" "ss_pb x = PLeaving"
  shows "sawPong (ss_probe (ml_sessions (gs_loops s ! i) ! k)) \<and> 3 \<le> ss_pings (ml_sessions (gs_loops s ! i) ! k)"
proof -
  let ?x = "ml_sessions (gs_loops s ! i) ! k"
  have "counts_pings ?x"
    using loop_invD(3) [OF gw_loop_inv(1) [OF assms(1,2)]] assms(3) by (simp add: list_all_length session_inv_def)
  moreover have "wedged (ss_probe ?x)"
    using assms(4-6)
    by cases (auto simp: wrote_def write_failed_def signalDone_def split: if_splits sum.splits)
  ultimately show ?thesis using assms(5) by (auto simp: counts_pings_def wedged_def probeDeadMisses_def)
qed


section \<open>How a session ends\<close>

abbreviation quiet_step :: "member_env \<Rightarrow> bool \<Rightarrow> session \<Rightarrow> session \<Rightarrow> bool" where
  "quiet_step E sd x y \<equiv> session_step E sd x Quiet y"

lemma steps_now: "P x \<Longrightarrow> \<exists>z. R\<^sup>*\<^sup>* x z \<and> P z"
  by blast

lemma steps_then:
  assumes "R x y" "\<exists>z. R\<^sup>*\<^sup>* y z \<and> P z"
  shows "\<exists>z. R\<^sup>*\<^sup>* x z \<and> P z"
  using assms converse_rtranclp_into_rtranclp [of R] by blast

lemma signal_inv: "session_inv E x \<Longrightarrow> signalDone x = Some (x\<lparr>ss_once := True, ss_done := True\<rparr>)"
  by (rule signalDone_Some) (simp add: session_inv_def)

text \<open>A writer whose session is over can always get to its end; this is all that a loop that waits for it needs.\<close>

locale ending_goroutines = session_goroutines +
  assumes writer_quits: "ss_wr x = WSelect \<Longrightarrow> ss_done x \<Longrightarrow> step x Quiet (x\<lparr>ss_wr := WLeaving\<rparr>)"
    and writer_fails: "ss_wr x = WHolding p f \<Longrightarrow> \<exists>y. step x Quiet y \<and> ss_wr y = WLeaving"
    and writer_signals: "ss_wr x = WLeaving \<Longrightarrow> signalDone x = Some y \<Longrightarrow> step x Quiet (y\<lparr>ss_wr := WSignalled\<rparr>)"
    and writer_leaves: "ss_wr x = WSignalled \<Longrightarrow> step x Quiet (x\<lparr>ss_wr := WGone\<rparr>)"
begin

abbreviation writer_ends :: "session \<Rightarrow> bool" where
  "writer_ends x \<equiv> \<exists>y. (\<lambda>x. step x Quiet)\<^sup>*\<^sup>* x y \<and> ss_wr y = WGone"

lemma ends_signalled: "ss_wr x = WSignalled \<Longrightarrow> writer_ends x"
  by (rule steps_then [where R = "\<lambda>x. step x Quiet"], erule writer_leaves) (rule steps_now, simp)

lemma ends_leaving: "ss_wr x = WLeaving \<Longrightarrow> session_inv E x \<Longrightarrow> writer_ends x"
  by (rule steps_then [where R = "\<lambda>x. step x Quiet"], erule writer_signals, erule signal_inv) (rule ends_signalled, simp)

lemma writer_can_end:
  assumes "session_inv E x" "ss_done x"
  shows "writer_ends x"
proof (cases "ss_wr x")
  case WSelect
  note quits = writer_quits [OF WSelect assms(2)]
  show ?thesis
    by (rule steps_then [where R = "\<lambda>x. step x Quiet", OF quits ends_leaving]) (simp, rule step_inv [OF quits assms(1)])
next
  case (WHolding p f)
  from writer_fails [OF this] obtain y where y: "step x Quiet y" "ss_wr y = WLeaving" by blast
  show ?thesis
    by (rule steps_then [where R = "\<lambda>x. step x Quiet", OF y(1) ends_leaving]) (rule y(2), rule step_inv [OF y(1) assms(1)])
next
  case WGone
  then show ?thesis by blast
qed (use ends_signalled ends_leaving assms in blast)+

end

lemma fails_at_once: "fails_after 0 f x"
  by (simp add: fails_after_def)

interpretation gw_endings: ending_goroutines E "session_step E sd" for E sd
proof unfold_locales
  show "\<exists>y. session_step E sd x Quiet y \<and> ss_wr y = WLeaving" if "ss_wr x = WHolding p f" for x p f
    by (rule exI, rule conjI, rule session_step.send_failed [OF that fails_at_once]) simp
qed (blast intro: session_step.intros)+

text \<open>Whatever the reader is doing, it can get to the end.\<close>

lemma reader_can_end:
  assumes "session_inv E x"
  shows "\<exists>y. (quiet_step E sd)\<^sup>*\<^sup>* x y \<and> ss_done y"
proof -
  let ?ends = "\<lambda>x. \<exists>y. (quiet_step E sd)\<^sup>*\<^sup>* x y \<and> ss_done y"
  have leaving: "?ends x" if "ss_rd x = RLeaving" "session_inv E x" for x
    using session_step.reader_signals [OF that(1) signal_inv [OF that(2)]]
    by (rule steps_then) (rule steps_now, simp)
  have reading: "?ends x" if "ss_rd x = RReading" "session_inv E x" for x
  proof -
    note step = session_step.read_failed [OF that(1), of E sd]
    show ?thesis by (rule steps_then [OF step leaving]) (simp, rule session_step_inv [OF step that(2)])
  qed
  show ?thesis
  proof (cases "ss_rd x")
    case RPong
    note step = session_step.pong_handled [OF RPong, of E sd]
    show ?thesis by (rule steps_then [OF step reading]) (simp, rule session_step_inv [OF step assms])
  next
    case RGone
    with assms show ?thesis by (auto simp: session_inv_def signalled_def)
  qed (use reading leaving assms in blast)+
qed

text \<open>Runs of a session are runs of its loop, and these are runs of the gateway.\<close>

lemma session_run:
  assumes "(quiet_step E sd)\<^sup>*\<^sup>* (ml_sessions l ! k) y" "k < length (ml_sessions l)"
  shows "(loop_step E sd i)\<^sup>*\<^sup>* (l, p) (set_session k y l, p)"
  using assms(1)
proof (induction rule: rtranclp_induct)
  case (step y z)
  have "loop_step E sd i (set_session k y l, p) (set_session k z (set_session k y l), p)"
    using assms(2) step(2) by (intro loop_step.quiet) simp_all
  with step.IH show ?case by simp
qed simp

lemma loop_run:
  assumes "(loop_step E (gs_down s) i)\<^sup>*\<^sup>* (gs_loops s ! i, gs_pool s) (l, p)" "i < length (gs_loops s)"
  shows "(gw_step E)\<^sup>*\<^sup>* s (s\<lparr>gs_watch := (gs_watch s)\<lparr>w_pool := p\<rparr>, gs_loops := (gs_loops s)[i := l]\<rparr>)"
  using assms(1)
proof (induction rule: rtranclp_induct2)
  case (step l p l' p')
  let ?s = "s\<lparr>gs_watch := (gs_watch s)\<lparr>w_pool := p\<rparr>, gs_loops := (gs_loops s)[i := l]\<rparr>"
  from step(2) assms(2) gw_step.member [of i ?s E l' p'] have
    "gw_step E ?s (s\<lparr>gs_watch := (gs_watch s)\<lparr>w_pool := p'\<rparr>, gs_loops := (gs_loops s)[i := l']\<rparr>)" by simp
  with step.IH show ?case by simp
qed simp

lemma loop_run_inv:
  assumes "(loop_step E sd i)\<^sup>*\<^sup>* (l, p) (l', p')" "i < length (members p)" "loop_inv E l (members p ! i)"
  shows "loop_inv E l' (members p' ! i) \<and> i < length (members p') \<and> (\<forall>j. j \<noteq> i \<longrightarrow> members p' ! j = members p ! j)"
  using assms(1)
proof (induction rule: rtranclp_induct2)
  case (step l p l' p')
  from loop_step_inv [OF step(2)] step.IH show ?case by (auto simp: moves_pool_def)
qed (use assms(2,3) in simp)

lemma draining_ends:
  assumes "ml_phase l = Draining d" "loop_inv E l (members p ! i)" "i < length (members p)"
  shows "\<exists>l' p'. (loop_step E sd i)\<^sup>*\<^sup>* (l, p) (l', p') \<and> ml_phase l' = Redialling d"
proof -
  let ?x = "ml_sessions l ! cur l"
  note D = loop_invD [OF assms(2)]
  from D(1) assms(1) have ne: "cur l < length (ml_sessions l)" "ss_done ?x"
    by (cases "ml_sessions l"; simp add: writers_ok_def)+
  have "session_inv E ?x" using D(3) ne(1) by (simp add: list_all_length)
  from gw_endings.writer_can_end [OF this ne(2)] obtain y where y: "(quiet_step E sd)\<^sup>*\<^sup>* ?x y" "ss_wr y = WGone" by blast
  let ?l = "set_session (cur l) y l" and ?p = "upd_member i (SetRTTus 0) p"
  have "(loop_step E sd i)\<^sup>*\<^sup>* (l, p) (?l, p)" by (rule session_run [OF y(1) ne(1)])
  also have "loop_step E sd i (?l, p) (?l\<lparr>ml_phase := Dropping d\<rparr>, ?p)"
    using assms(1) ne(1) y(2) by (intro loop_step.drained) simp_all
  also have "loop_step E sd i (?l\<lparr>ml_phase := Dropping d\<rparr>, ?p)
      (?l\<lparr>ml_phase := Dropping d\<rparr>\<lparr>ml_phase := Redialling d\<rparr>, MarkUnhealthy 0 i ?p)"
    by (rule loop_step.dropped) simp
  finally show ?thesis by fastforce
qed

lemma running_ends:
  assumes "ml_phase l = Running" "loop_inv E l (members p ! i)" "i < length (members p)"
  shows "\<exists>l' p'. (loop_step E sd i)\<^sup>*\<^sup>* (l, p) (l', p') \<and> ml_phase l' = Redialling d"
proof -
  let ?x = "ml_sessions l ! cur l"
  from loop_invD(1) [OF assms(2)] assms(1) have ne: "cur l < length (ml_sessions l)"
    by (cases "ml_sessions l"; simp add: writers_ok_def)
  from reader_can_end [OF cur_session_inv [OF assms(2,1)]] obtain y where y: "(quiet_step E sd)\<^sup>*\<^sup>* ?x y" "ss_done y" by blast
  let ?l = "set_session (cur l) y l"
  let ?l' = "(set_session (cur ?l) (shut_session (ml_sessions ?l ! cur ?l)) ?l)\<lparr>ml_phase := Draining d\<rparr>"
  have "(loop_step E sd i)\<^sup>*\<^sup>* (l, p) (?l, p)" by (rule session_run [OF y(1) ne])
  also have "loop_step E sd i (?l, p) (?l', p)"
    by (rule loop_step.lost) (use assms(1) ne y(2) in simp_all)
  finally have run: "(loop_step E sd i)\<^sup>*\<^sup>* (l, p) (?l', p)" .
  from loop_run_inv [OF run assms(3,2)] have "loop_inv E ?l' (members p ! i)" by blast
  from draining_ends [OF _ this assms(3), of d sd] obtain l' p' where
    "(loop_step E sd i)\<^sup>*\<^sup>* (?l', p) (l', p')" "ml_phase l' = Redialling d" by auto
  with run show ?thesis by (meson rtranclp_trans)
qed



section \<open>Routes and sessions\<close>

abbreviation watch_quietly :: "watcher \<Rightarrow> watcher \<Rightarrow> bool" where
  "watch_quietly w w' \<equiv> watch_step w w' \<and> members (w_pool w') = members (w_pool w)"

lemma settles_quietly: "\<exists>w'. watch_quietly\<^sup>*\<^sup>* w w' \<and> \<not> pending w'"
proof (induction "work w" arbitrary: w rule: less_induct)
  case less
  show ?case
  proof (cases "pending w")
    case True
    from work_step [OF this] obtain w1 where w1: "watch_quietly w w1" "work w1 < work w" by blast
    from less [OF w1(2)] obtain w' where "watch_quietly\<^sup>*\<^sup>* w1 w'" "\<not> pending w'" by blast
    with converse_rtranclp_into_rtranclp [of watch_quietly, OF w1(1)] show ?thesis by blast
  qed auto
qed

lemma watch_run:
  assumes "watch_quietly\<^sup>*\<^sup>* (gs_watch s) w"
  shows "(gw_step E)\<^sup>*\<^sup>* s (s\<lparr>gs_watch := w\<rparr>) \<and> members (w_pool w) = members (gs_pool s)"
  using assms
proof (induction rule: rtranclp_induct)
  case (step w w')
  with gw_step.watch [of "s\<lparr>gs_watch := w\<rparr>" w' E] have "gw_step E (s\<lparr>gs_watch := w\<rparr>) (s\<lparr>gs_watch := w'\<rparr>)" by simp
  with step show ?case by (auto intro: rtranclp.rtrancl_into_rtrancl)
qed simp

lemma active_names:
  assumes "x \<in> set (fst (active p r))"
  shows "\<exists>i<length (members p). m_iface (members p ! i) = Some x \<and> healthy (members p ! i)"
proof -
  have "x \<in> set (activeIfaceNames p)"
    using assms by (auto simp: active_def Let_def split: if_splits list.splits)
  then have "\<exists>m\<in>set (members p). healthy m \<and> m_iface m = Some x"
    by (auto simp: activeIfaceNames_def Active_def List.map_filter_def)
  then show ?thesis by (metis in_set_conv_nth)
qed


section \<open>Runs of a gateway with two members\<close>

definition demo_menv :: member_env where
  "demo_menv = \<lparr>me_chacha = (\<lambda>_. Some (cipher_aead demo_aead)), me_pad = \<lparr>pad_min = 0, pad_max = 0\<rparr>\<rparr>"

definition demo_gw :: gateway_sys where
  "demo_gw = \<lparr>gs_watch = demo_watch, gs_loops = map start_loop (members (w_pool demo_watch)), gs_down = False\<rparr>"

lemma demo_gw_reach: "reach gw_start (gw_step demo_menv) demo_gw"
  by (rule reach_init)
    (simp add: gw_start_def demo_gw_def watch_start_def demo_watch_def active_def activeIfaceNames_def Active_def
      NewPool_def demo_member_def map_filter_simps)

definition demo_loop :: "bytes \<Rightarrow> member_loop" where
  "demo_loop inp = (start_loop (demo_member ''stun0''))\<lparr>ml_phase := Running, ml_sessions := [new_session demo_aead inp]\<rparr>"

lemma demo_gw_fields:
  "length (gs_loops demo_gw) = 2" "gs_loops demo_gw ! 0 = start_loop (demo_member ''stun0'')" "gs_down demo_gw = False"
  "members (gs_pool demo_gw) = [demo_member ''stun0'', demo_member ''stun1'']"
  by (simp_all add: demo_gw_def demo_watch_def NewPool_def)

lemma demo_loop_fields:
  "ml_phase (demo_loop inp) = Running" "ml_sessions (demo_loop inp) = [new_session demo_aead inp]"
  "ml_packetCh (demo_loop inp) = []" "ml_tun (demo_loop inp)" "ml_queued (demo_loop inp) = []" "ml_taken (demo_loop inp) = []"
  by (simp_all add: demo_loop_def start_loop_def Let_def demo_member_def)

lemma demo_started:
  "loop_step demo_menv False 0 (gs_loops demo_gw ! 0, gs_pool demo_gw) (demo_loop inp, gs_pool demo_gw)"
proof -
  have c: "NewCipher (me_chacha demo_menv) (snd (GetActiveStream (CM (members (gs_pool demo_gw) ! 0)))) = Some demo_aead"
    by (simp add: demo_menv_def NewCipher_def demo_aead_def)
  have "ml_phase (gs_loops demo_gw ! 0) = Starting" "ml_sessions (gs_loops demo_gw ! 0) = []"
    by (simp_all add: demo_gw_fields start_loop_def demo_member_def)
  with loop_step.started [OF this(1) c, of False inp] show ?thesis by (simp add: demo_loop_def demo_gw_fields)
qed

text \<open>What the first loop can reach from there is reached by the gateway.\<close>

lemma demo_reach:
  assumes "(loop_step demo_menv False 0)\<^sup>*\<^sup>* (demo_loop inp, gs_pool demo_gw) (l, p)"
  shows "\<exists>s. reach gw_start (gw_step demo_menv) s \<and> length (gs_loops s) = 2 \<and> gs_loops s ! 0 = l \<and> gs_pool s = p"
proof -
  from converse_rtranclp_into_rtranclp [OF demo_started assms]
  have "(loop_step demo_menv (gs_down demo_gw) 0)\<^sup>*\<^sup>* (gs_loops demo_gw ! 0, gs_pool demo_gw) (l, p)"
    by (simp only: demo_gw_fields(3))
  from loop_run [OF this] demo_gw_fields(1) reach_rtranclp [OF demo_gw_reach] show ?thesis
    by (intro exI [of _ "demo_gw\<lparr>gs_watch := (gs_watch demo_gw)\<lparr>w_pool := p\<rparr>, gs_loops := (gs_loops demo_gw)[0 := l]\<rparr>"]) simp
qed

theorem gateway_sessions_exclusive_witness:
  "\<exists>s. ml_sessions (gs_loops s ! 0) = [new_session demo_aead []]
     \<and> in_session (ml_phase (gs_loops s ! 0)) \<and> healthy (members (gs_pool s) ! 0)"
proof -
  from demo_reach [OF rtranclp.rtrancl_refl, of "[]"] obtain s where s: "reach gw_start (gw_step demo_menv) s"
    "length (gs_loops s) = 2" "gs_loops s ! 0 = demo_loop []" by blast
  from gateway_sessions_exclusive [OF s(1), of 0] s(2,3) show ?thesis
    by (intro exI [of _ s]) (simp add: Let_def demo_loop_fields new_session_def)
qed




section \<open>Runs of the prober\<close>

definition free_step :: "member_env \<Rightarrow> bool \<Rightarrow> session \<Rightarrow> session \<Rightarrow> bool" where
  "free_step E sd x y \<longleftrightarrow> (\<exists>a. session_step E sd x a y \<and> took_packets a = [])"

text \<open>Runs of a session in which its writer takes no packet, as runs of the loop.\<close>

lemma free_run:
  assumes "(free_step E sd)\<^sup>*\<^sup>* (ml_sessions l ! k) y" "k < length (ml_sessions l)"
  shows "\<exists>l' p'. (loop_step E sd i)\<^sup>*\<^sup>* (l, p) (l', p') \<and> ml_sessions l' = (ml_sessions l)[k := y]
     \<and> ml_phase l' = ml_phase l \<and> ml_packetCh l' = ml_packetCh l"
  using assms(1)
proof (induction rule: rtranclp_induct)
  case base
  show ?case by (intro exI [of _ l] exI [of _ p]) simp
next
  case (step y z)
  then obtain l' p' a where l': "(loop_step E sd i)\<^sup>*\<^sup>* (l, p) (l', p')" "ml_sessions l' = (ml_sessions l)[k := y]"
    "ml_phase l' = ml_phase l" "ml_packetCh l' = ml_packetCh l"
    and a: "session_step E sd y a z" "took_packets a = []" by (auto simp: free_step_def)
  have k: "k < length (ml_sessions l')" "ml_sessions l' ! k = y" using assms(2) by (simp_all add: l'(2))
  have "\<exists>l2 p2. loop_step E sd i (l', p') (l2, p2) \<and> ml_sessions l2 = (ml_sessions l')[k := z]
      \<and> ml_phase l2 = ml_phase l' \<and> ml_packetCh l2 = ml_packetCh l'"
  proof (cases a)
    case Quiet
    with loop_step.quiet [OF k(1), of E sd z i p'] a k(2) show ?thesis by fastforce
  next
    case (ToDevice q)
    with loop_step.to_device [OF k(1), of E sd q z i p'] a k(2) show ?thesis by fastforce
  next
    case (StoreRTT us)
    with loop_step.store_rtt [OF k(1), of E sd us z i p'] a k(2) show ?thesis by fastforce
  qed (use a in simp)
  then obtain l2 p2 where l2: "loop_step E sd i (l', p') (l2, p2)" "ml_sessions l2 = (ml_sessions l')[k := z]"
    "ml_phase l2 = ml_phase l'" "ml_packetCh l2 = ml_packetCh l'" by blast
  from rtranclp.rtrancl_into_rtrancl [OF l'(1) l2(1)] l'(2-4) l2(2-4) show ?case
    by (intro exI [of _ l2] exI [of _ p2]) simp
qed

lemma free_now: "P x \<Longrightarrow> \<exists>z. (free_step E sd)\<^sup>*\<^sup>* x z \<and> P z"
  by blast

lemma free_then:
  assumes "session_step E sd x a y" "took_packets a = []" "\<exists>z. (free_step E sd)\<^sup>*\<^sup>* y z \<and> P z"
  shows "\<exists>z. (free_step E sd)\<^sup>*\<^sup>* x z \<and> P z"
proof -
  have "free_step E sd x y" using assms(1,2) by (auto simp: free_step_def)
  with assms(3) converse_rtranclp_into_rtranclp [of "free_step E sd"] show ?thesis by blast
qed

text \<open>A tick up to the point where the ping can be written, and to where it was.\<close>

lemma ping_made:
  assumes "ss_pb x = PWaiting" "\<not> wedged (ss_probe x)" "check_padding (me_pad E) = None"
    and "\<And>f. \<exists>z. (free_step E sd)\<^sup>*\<^sup>* (x\<lparr>ss_pb := PHolding (put_u64 0) f\<rparr>) z \<and> P z"
  shows "\<exists>z. (free_step E sd)\<^sup>*\<^sup>* x z \<and> P z"
proof (rule free_then [OF session_step.tick [OF assms(1)]])
  obtain f t where f: "Encode FramePing (put_u64 0) (ss_cipher x) (me_pad E) (\<lambda>_. 0) = (Inr f, t)"
    using ping_encodes [OF assms(3)] by blast
  have "session_step E sd (x\<lparr>ss_pb := PTick\<rparr>) Quiet (x\<lparr>ss_pb := PHolding (put_u64 0) f\<rparr>)"
    using session_step.make_ping [of "x\<lparr>ss_pb := PTick\<rparr>" 0 E "\<lambda>_. 0" "Inr f" t sd] assms(2) f by simp
  then show "\<exists>z. (free_step E sd)\<^sup>*\<^sup>* (x\<lparr>ss_pb := PTick\<rparr>) z \<and> P z" by (rule free_then) (simp_all add: assms(4))
qed simp

lemma ping_written:
  assumes "ss_pb x = PWaiting" "\<not> wedged (ss_probe x)" "can_write x" "check_padding (me_pad E) = None"
    and "\<And>fs. \<exists>z. (free_step E sd)\<^sup>*\<^sup>* (x\<lparr>ss_frames := fs, ss_pb := PCounting, ss_pings := ss_pings x + 1\<rparr>) z \<and> P z"
  shows "\<exists>z. (free_step E sd)\<^sup>*\<^sup>* x z \<and> P z"
proof (rule ping_made [OF assms(1,2,4)])
  fix f
  let ?x = "x\<lparr>ss_pb := PHolding (put_u64 0) f\<rparr>"
  let ?y = "x\<lparr>ss_frames := ss_frames x @ [(FramePing, put_u64 0, f)], ss_pb := PCounting, ss_pings := ss_pings x + 1\<rparr>"
  have "can_write ?x" using assms(3) by (simp add: can_write_def)
  from session_step.pinged [OF _ this, of "put_u64 0" f E sd] have "session_step E sd ?x Quiet ?y"
    by (simp add: wrote_def)
  then show "\<exists>z. (free_step E sd)\<^sup>*\<^sup>* ?x z \<and> P z" by (rule free_then) (simp, rule assms(5))
qed

text \<open>A round without an answer: one more ping and one more miss.\<close>

lemma ping_unanswered:
  assumes "ss_pb x = PWaiting" "\<not> wedged (ss_probe x)" "can_write x" "check_padding (me_pad E) = None"
    and "\<And>fs. \<exists>z. (free_step E sd)\<^sup>*\<^sup>* (x\<lparr>ss_frames := fs, ss_pings := ss_pings x + 1,
             ss_probe := (ss_probe x)\<lparr>misses := misses (ss_probe x) + 1\<rparr>\<rparr>) z \<and> P z"
  shows "\<exists>z. (free_step E sd)\<^sup>*\<^sup>* x z \<and> P z"
proof (rule ping_written [OF assms(1-4)])
  fix fs
  let ?y = "x\<lparr>ss_frames := fs, ss_pb := PCounting, ss_pings := ss_pings x + 1\<rparr>"
  have "session_step E sd ?y Quiet (x\<lparr>ss_frames := fs, ss_pings := ss_pings x + 1,
      ss_probe := (ss_probe x)\<lparr>misses := misses (ss_probe x) + 1\<rparr>\<rparr>)"
    using session_step.counted [of ?y E sd] assms(1) by (cases x) simp
  from free_then [OF this _ assms(5)] show "\<exists>z. (free_step E sd)\<^sup>*\<^sup>* ?y z \<and> P z" by simp
qed


text \<open>A session after a pong whose ping was counted late: \<open>n\<close> pings without an answer, \<open>m\<close> misses.\<close>

definition probed :: "(byte \<times> bytes \<times> bytes) list \<Rightarrow> nat \<Rightarrow> int \<Rightarrow> session" where
  "probed fs n m = (new_session demo_aead [])\<lparr>ss_frames := fs, ss_pings := n,
     ss_probe := \<lparr>probeRTTus = 0, misses = m, sawPong = True\<rparr>\<rparr>"

definition demo_pong :: bytes where
  "demo_pong = frame_of demo_aead FramePong [] (replicate 12 0) []"

lemma demo_pong_decodes: "Decode demo_aead demo_pong = Inr ((FramePong, []), [])"
  using demo_decode [of "[]" FramePong "[]"] by (simp add: demo_pong_def)

lemma demo_menv_padding: "check_padding (me_pad demo_menv) = None" "pad_max (me_pad demo_menv) \<le> 65535"
  by (simp_all add: demo_menv_def check_padding_def)

lemma probed_round:
  assumes "m < 4" "\<And>fs. \<exists>z. (free_step demo_menv sd)\<^sup>*\<^sup>* (probed fs (n + 1) (m + 1)) z \<and> P z"
  shows "\<exists>z. (free_step demo_menv sd)\<^sup>*\<^sup>* (probed fs n m) z \<and> P z"
proof (rule ping_unanswered)
  fix fs'
  have "probed fs n m\<lparr>ss_frames := fs', ss_pings := ss_pings (probed fs n m) + 1,
      ss_probe := (ss_probe (probed fs n m))\<lparr>misses := misses (ss_probe (probed fs n m)) + 1\<rparr>\<rparr> = probed fs' (n + 1) (m + 1)"
    by (simp add: probed_def)
  with assms(2) [of fs'] show "\<exists>z. (free_step demo_menv sd)\<^sup>*\<^sup>* (probed fs n m\<lparr>ss_frames := fs',
      ss_pings := ss_pings (probed fs n m) + 1,
      ss_probe := (ss_probe (probed fs n m))\<lparr>misses := misses (ss_probe (probed fs n m)) + 1\<rparr>\<rparr>) z \<and> P z" by simp
qed (use assms(1) in \<open>simp_all add: probed_def new_session_def wedged_def probeDeadMisses_def can_write_def demo_menv_padding\<close>)

lemma pong_counted_late:
  assumes "\<And>fs. \<exists>z. (free_step demo_menv sd)\<^sup>*\<^sup>* (probed fs 0 1) z \<and> P z"
  shows "\<exists>z. (free_step demo_menv sd)\<^sup>*\<^sup>* (new_session demo_aead demo_pong) z \<and> P z"
proof (rule ping_written)
  fix fs
  let ?x = "new_session demo_aead demo_pong"
  let ?y = "?x\<lparr>ss_frames := fs, ss_pb := PCounting, ss_pings := ss_pings ?x + 1\<rparr>"
  let ?y1 = "?y\<lparr>ss_in := [], ss_rd := RPong, ss_probe := pong_seen 0 [] (ss_probe ?y)\<rparr>"
  let ?y2 = "?y1\<lparr>ss_rd := RReading, ss_probe := pong_clears (ss_probe ?y1), ss_pings := 0\<rparr>"
  have 1: "session_step demo_menv sd ?y Quiet ?y1"
    by (rule session_step.read_pong [where p = "[]"]) (simp_all add: new_session_def demo_pong_decodes)
  have 2: "session_step demo_menv sd ?y1 Quiet ?y2"
    by (rule session_step.pong_handled) simp
  have 3: "session_step demo_menv sd ?y2 Quiet (probed fs 0 1)"
    using session_step.counted [of ?y2 demo_menv sd]
    by (simp add: probed_def new_session_def pong_clears_def pong_seen_def onPong_def)
  show "\<exists>z. (free_step demo_menv sd)\<^sup>*\<^sup>* ?y z \<and> P z"
    by (rule free_then [OF 1 _ free_then [OF 2 _ free_then [OF 3 _ assms]]]) simp_all
qed (simp_all add: new_session_def wedged_def can_write_def demo_menv_padding)

lemma three_unanswered:
  "\<exists>z. (free_step demo_menv sd)\<^sup>*\<^sup>* (new_session demo_aead demo_pong) z
     \<and> (ss_pb z = PTick \<and> wedged (ss_probe z) \<and> ss_pings z = 3)"
proof (rule pong_counted_late)
  fix fs
  have tick: "\<exists>z. (free_step demo_menv sd)\<^sup>*\<^sup>* (probed fs 3 4) z
      \<and> (ss_pb z = PTick \<and> wedged (ss_probe z) \<and> ss_pings z = 3)" for fs
  proof (rule free_then [OF session_step.tick])
    show "ss_pb (probed fs 3 4) = PWaiting" by (simp add: probed_def new_session_def)
    show "\<exists>z. (free_step demo_menv sd)\<^sup>*\<^sup>* (probed fs 3 4\<lparr>ss_pb := PTick\<rparr>) z
        \<and> (ss_pb z = PTick \<and> wedged (ss_probe z) \<and> ss_pings z = 3)"
      by (rule free_now) (simp add: probed_def wedged_def probeDeadMisses_def)
  qed simp
  show "\<exists>z. (free_step demo_menv sd)\<^sup>*\<^sup>* (probed fs 0 1) z
      \<and> (ss_pb z = PTick \<and> wedged (ss_probe z) \<and> ss_pings z = 3)"
    by (rule probed_round, simp, rule probed_round, simp, rule probed_round, simp)
      (use tick in \<open>simp add: numeral_eq_Suc\<close>)
qed

theorem prober_verdict_witness:
  "\<exists>s x. reach gw_start (gw_step demo_menv) s
     \<and> session_step demo_menv False (ml_sessions (gs_loops s ! 0) ! 0) Quiet x \<and> ss_pb x = PLeaving
     \<and> sawPong (ss_probe (ml_sessions (gs_loops s ! 0) ! 0)) \<and> ss_pings (ml_sessions (gs_loops s ! 0) ! 0) = 3"
proof -
  obtain z where z: "(free_step demo_menv False)\<^sup>*\<^sup>* (new_session demo_aead demo_pong) z"
    "ss_pb z = PTick" "wedged (ss_probe z)" "ss_pings z = 3" using three_unanswered by blast
  then have "(free_step demo_menv False)\<^sup>*\<^sup>* (ml_sessions (demo_loop demo_pong) ! 0) z" by (simp add: demo_loop_fields)
  from free_run [OF this, of 0 "gs_pool demo_gw"] obtain l p where
    l: "(loop_step demo_menv False 0)\<^sup>*\<^sup>* (demo_loop demo_pong, gs_pool demo_gw) (l, p)" "ml_sessions l = [z]"
    by (auto simp: demo_loop_fields)
  from demo_reach [OF l(1)] obtain s where s: "reach gw_start (gw_step demo_menv) s" "length (gs_loops s) = 2"
    "gs_loops s ! 0 = l" by blast
  have x: "session_step demo_menv False (ml_sessions (gs_loops s ! 0) ! 0) Quiet (z\<lparr>ss_pb := PLeaving\<rparr>)"
    using session_step.gives_up [OF z(2,3)] by (simp add: s(3) l(2))
  from prober_verdict [OF s(1) _ _ x] s(2,3) l(2) z(2,4) x s(1) show ?thesis
    by (intro exI [of _ s] exI [of _ "z\<lparr>ss_pb := PLeaving\<rparr>"]) simp
qed


text \<open>
  The first pong of a session can end it. The reader stores that a pong was seen before it clears the misses; when four
  or more pings went out before the first answer, a prober that ticks between the two stores gives up
  although the server has just answered.
\<close>

definition waiting :: "(byte \<times> bytes \<times> bytes) list \<Rightarrow> nat \<Rightarrow> int \<Rightarrow> session" where
  "waiting fs n m = (new_session demo_aead demo_pong)\<lparr>ss_frames := fs, ss_pings := n,
     ss_probe := \<lparr>probeRTTus = 0, misses = m, sawPong = False\<rparr>\<rparr>"

lemma waiting_round:
  assumes "\<And>fs. \<exists>z. (free_step demo_menv sd)\<^sup>*\<^sup>* (waiting fs (n + 1) (m + 1)) z \<and> P z"
  shows "\<exists>z. (free_step demo_menv sd)\<^sup>*\<^sup>* (waiting fs n m) z \<and> P z"
proof (rule ping_unanswered)
  fix fs'
  have "waiting fs n m\<lparr>ss_frames := fs', ss_pings := ss_pings (waiting fs n m) + 1,
      ss_probe := (ss_probe (waiting fs n m))\<lparr>misses := misses (ss_probe (waiting fs n m)) + 1\<rparr>\<rparr> = waiting fs' (n + 1) (m + 1)"
    by (simp add: waiting_def)
  with assms [of fs'] show "\<exists>z. (free_step demo_menv sd)\<^sup>*\<^sup>* (waiting fs n m\<lparr>ss_frames := fs',
      ss_pings := ss_pings (waiting fs n m) + 1,
      ss_probe := (ss_probe (waiting fs n m))\<lparr>misses := misses (ss_probe (waiting fs n m)) + 1\<rparr>\<rparr>) z \<and> P z" by simp
qed (simp_all add: waiting_def new_session_def wedged_def can_write_def demo_menv_padding)

lemma first_pong_can_end_session:
  "\<exists>z y. (free_step demo_menv sd)\<^sup>*\<^sup>* (new_session demo_aead demo_pong) z
     \<and> ss_rd z = RPong \<and> ss_in z = [] \<and> session_step demo_menv sd z Quiet y \<and> ss_pb y = PLeaving"
proof -
  have pong: "\<exists>z. (free_step demo_menv sd)\<^sup>*\<^sup>* (waiting fs 4 4) z
      \<and> (ss_rd z = RPong \<and> ss_in z = [] \<and> ss_pb z = PTick \<and> wedged (ss_probe z))" for fs
  proof -
    let ?x = "waiting fs 4 4"
    let ?y = "?x\<lparr>ss_in := [], ss_rd := RPong, ss_probe := pong_seen 0 [] (ss_probe ?x)\<rparr>"
    have 1: "session_step demo_menv sd ?x Quiet ?y"
      by (rule session_step.read_pong [where p = "[]"]) (simp_all add: waiting_def new_session_def demo_pong_decodes)
    have 2: "session_step demo_menv sd ?y (StoreRTT (probeRTTus (ss_probe ?y))) (?y\<lparr>ss_pb := PTick\<rparr>)"
      by (rule session_step.tick) (simp add: waiting_def new_session_def)
    show ?thesis
      by (rule free_then [OF 1 _ free_then [OF 2 _ free_now]])
        (simp_all add: waiting_def wedged_def probeDeadMisses_def pong_seen_def onPong_def)
  qed
  have "new_session demo_aead demo_pong = waiting [] 0 0" by (simp add: waiting_def new_session_def)
  moreover have "\<exists>z. (free_step demo_menv sd)\<^sup>*\<^sup>* (waiting [] 0 0) z
      \<and> (ss_rd z = RPong \<and> ss_in z = [] \<and> ss_pb z = PTick \<and> wedged (ss_probe z))"
    by (rule waiting_round, rule waiting_round, rule waiting_round, rule waiting_round)
      (use pong in \<open>simp add: numeral_eq_Suc\<close>)
  ultimately obtain z where z: "(free_step demo_menv sd)\<^sup>*\<^sup>* (new_session demo_aead demo_pong) z"
    "ss_rd z = RPong" "ss_in z = []" "ss_pb z = PTick" "wedged (ss_probe z)" by auto
  from session_step.gives_up [OF z(4,5)] z(1-3) show ?thesis
    by (intro exI [of _ z] exI [of _ "z\<lparr>ss_pb := PLeaving\<rparr>"]) simp
qed

text \<open>
  A dead stream can go unnoticed. When the write of a ping fails the prober returns without a signal, as
  the writer will fail too; but the writer writes only when there is a packet, and until the reader's
  deadline of a minute the member stays healthy.
\<close>

lemma prober_leaves_silently:
  "\<exists>s. reach gw_start (gw_step demo_menv) s \<and> ml_phase (gs_loops s ! 0) = Running
     \<and> healthy (members (gs_pool s) ! 0) \<and> ml_packetCh (gs_loops s ! 0) = []
     \<and> (\<exists>x. ml_sessions (gs_loops s ! 0) = [x] \<and> ss_broken x \<and> ss_pb x = PGone \<and> ss_wr x = WSelect \<and> \<not> ss_done x)"
proof -
  let ?P = "\<lambda>x. ss_broken x \<and> ss_pb x = PGone \<and> ss_wr x = WSelect \<and> \<not> ss_done x"
  have "\<exists>z. (free_step demo_menv False)\<^sup>*\<^sup>* (new_session demo_aead []) z \<and> ?P z"
  proof (rule ping_made)
    fix f
    let ?x = "(new_session demo_aead [])\<lparr>ss_pb := PHolding (put_u64 0) f\<rparr>"
    have "session_step demo_menv False ?x Quiet ((write_failed FramePing (put_u64 0) f ?x)\<lparr>ss_pb := PGone\<rparr>)"
      by (rule session_step.ping_failed [where n = 0]) (simp_all add: fails_after_def)
    then show "\<exists>z. (free_step demo_menv False)\<^sup>*\<^sup>* ?x z \<and> ?P z"
      by (rule free_then) (simp, rule free_now, simp add: write_failed_def new_session_def)
  qed (simp_all add: new_session_def wedged_def demo_menv_padding)
  then obtain z where z: "(free_step demo_menv False)\<^sup>*\<^sup>* (ml_sessions (demo_loop []) ! 0) z" "?P z"
    by (auto simp: demo_loop_fields)
  from free_run [OF z(1), of 0 "gs_pool demo_gw"] obtain l p where
    l: "(loop_step demo_menv False 0)\<^sup>*\<^sup>* (demo_loop [], gs_pool demo_gw) (l, p)" "ml_sessions l = [z]"
    "ml_phase l = Running" "ml_packetCh l = []" by (auto simp: demo_loop_fields)
  from demo_reach [OF l(1)] obtain s where s: "reach gw_start (gw_step demo_menv) s" "length (gs_loops s) = 2"
    "gs_loops s ! 0 = l" by blast
  from loop_invD(4) [OF gw_loop_inv(1) [OF s(1), of 0]] s(2,3) l(3) have "healthy (members (gs_pool s) ! 0)" by simp
  with s l z(2) show ?thesis by (intro exI [of _ s]) simp
qed

section \<open>A packet on its way\<close>

definition demo_tun_packet :: bytes where
  "demo_tun_packet = [0x45, 0, 0, 20, 0, 0, 0, 0, 64, 17, 0, 0, 10, 9, 9, 9, 8, 8, 8, 8]"

lemma demo_tunnelled:
  "\<exists>q. tun_packet (demo_member ''stun0'') demo_tun_packet = Some q"
  by (simp add: tun_packet_def demo_tun_packet_def demo_member_def slice_def ip_Equal_def IPv4bcast_def IPv4zero_def
      To4_def v4InV6Prefix_def)

text \<open>Read from the device, taken by the writer, and written to the stream.\<close>

lemma demo_packet_run:
  assumes q: "tun_packet (demo_member ''stun0'') demo_tun_packet = Some q"
    and f: "Encode FrameData q demo_aead (me_pad demo_menv) tp = (Inr f, tp')"
  shows "\<exists>l x. (loop_step demo_menv False 0)\<^sup>*\<^sup>* (demo_loop [], gs_pool demo_gw) (l, gs_pool demo_gw)
     \<and> ml_sessions l = [x] \<and> ss_cipher x = demo_aead \<and> ss_frames x = [(FrameData, q, f)] \<and> ss_cut x = []
     \<and> ml_queued l = [q] \<and> ml_taken l = [(0, q)]"
proof -
  let ?l0 = "demo_loop []" and ?p = "gs_pool demo_gw" and ?x0 = "new_session demo_aead []"
  let ?l1 = "?l0\<lparr>ml_packetCh := [q], ml_queued := [q]\<rparr>"
  let ?x1 = "?x0\<lparr>ss_wr := WHolding q f\<rparr>"
  let ?l2 = "(set_session 0 ?x1 ?l1)\<lparr>ml_packetCh := [], ml_taken := [(0, q)]\<rparr>"
  let ?x2 = "(wrote FrameData q f ?x1)\<lparr>ss_wr := WSelect, ss_tx := int (length f)\<rparr>"
  let ?l3 = "set_session 0 ?x2 ?l2"
  have "tunReader (members ?p ! 0) demo_tun_packet (ml_packetCh ?l0) = [q]"
    by (simp add: tunReader_def demo_gw_fields demo_loop_fields q packet_cap_def)
  from loop_step.tun_read [OF _ this, of demo_menv False] have 1: "loop_step demo_menv False 0 (?l0, ?p) (?l1, ?p)"
    by (simp add: demo_loop_fields)
  have "session_step demo_menv False (ml_sessions ?l1 ! 0) (Took q) ?x1"
    using session_step.take_packet [of ?x0 q demo_menv tp "Inr f" tp' False] f
    by (simp add: demo_loop_fields) (simp add: new_session_def)
  from loop_step.took [OF _ this, of "[]" 0 ?p] have 2: "loop_step demo_menv False 0 (?l1, ?p) (?l2, ?p)"
    by (simp add: demo_loop_fields)
  have "session_step demo_menv False (ml_sessions ?l2 ! 0) Quiet ?x2"
    using session_step.sent [of ?x1 q f demo_menv False]
    by (simp add: demo_loop_fields) (simp add: new_session_def can_write_def)
  from loop_step.quiet [OF _ this, of 0 ?p] have 3: "loop_step demo_menv False 0 (?l2, ?p) (?l3, ?p)"
    by (simp add: demo_loop_fields)
  have "(loop_step demo_menv False 0)\<^sup>*\<^sup>* (?l0, ?p) (?l3, ?p)"
    by (rule converse_rtranclp_into_rtranclp, rule 1, rule converse_rtranclp_into_rtranclp, rule 2,
        rule r_into_rtranclp, rule 3)
  then show ?thesis by (intro exI [of _ ?l3] exI [of _ ?x2]) (simp add: demo_loop_fields wrote_def new_session_def)
qed

theorem gateway_packets_once_witness:
  "\<exists>s x q. reach gw_start (gw_step demo_menv) s \<and> ml_sessions (gs_loops s ! 0) = [x] \<and> ml_queued (gs_loops s ! 0) = [q]
     \<and> tun_writes (fst (serve_loop demo_aead \<lparr>pad_min = 0, pad_max = 0\<rparr> [10, 7, 0, 2] (\<lambda>_. True) (session_wire x)
          \<lparr>rxData = 0, rxBytes = 0, pings = 0\<rparr> (\<lambda>_. 0))) = [q]
     \<and> accounted x [q]"
proof -
  let ?pad = "\<lparr>pad_min = 0, pad_max = 0\<rparr>" and ?st = "\<lparr>rxData = 0, rxBytes = 0, pings = 0\<rparr>"
  obtain q where q: "tun_packet (demo_member ''stun0'') demo_tun_packet = Some q" using demo_tunnelled by blast
  have ip: "assignedIP (demo_member ''stun0'') = [10, 7, 0, 2]" by (simp add: demo_member_def)
  note spec = tun_packet_spec [OF q, unfolded ip, simplified]
  have len: "length q \<le> MaxPayloadSize" using spec(1) by (simp add: demo_tun_packet_def MaxPayloadSize_def)
  from Encode_eq [OF demo_menv_padding(1) len, of FrameData demo_aead "\<lambda>_. 0"] obtain f tp' where
    f: "Encode FrameData q demo_aead (me_pad demo_menv) (\<lambda>_. 0) = (Inr f, tp')" by blast
  from demo_packet_run [OF q f] obtain l x where
    l: "(loop_step demo_menv False 0)\<^sup>*\<^sup>* (demo_loop [], gs_pool demo_gw) (l, gs_pool demo_gw)" "ml_sessions l = [x]"
    "ss_cipher x = demo_aead" "ss_frames x = [(FrameData, q, f)]" "ss_cut x = []" "ml_queued l = [q]" "ml_taken l = [(0, q)]" by blast
  from demo_reach [OF l(1)] obtain s where s: "reach gw_start (gw_step demo_menv) s" "length (gs_loops s) = 2"
    "gs_loops s ! 0 = l" by blast
  have pad: "check_padding ?pad = None" "pad_max ?pad \<le> 65535" by (simp_all add: check_padding_def)
  have i: "0 < length (gs_loops s)" and ok: "\<forall>x\<in>set (ml_sessions (gs_loops s ! 0)). aead_ok (ss_cipher x)"
    and ip4: "\<forall>k::nat. length [10, 7, 0, 2 :: byte] = 4" by (simp_all add: s(2,3) l(2,3) demo_aead_ok)
  note T = gateway_packets_once [OF s(1) i demo_menv_padding pad ok ip4, of "\<lambda>_. length (session_wire x)" "\<lambda>_. ?st" "\<lambda>_ _. 0",
      unfolded Let_def s(3) l(2,6,7), THEN conjunct2, THEN conjunct2, THEN conjunct2, THEN conjunct2, THEN mp]
  have "taken_by 0 [(0, q)] = [q]" "list_all (\<lambda>p. length p \<le> MaxPayloadSize) (map snd [(0::nat, q)])"
    using len by (simp_all add: taken_by_def)
  from T [OF this(2), rule_format, of 0] this(1) have "accounted x [q]" by simp
  moreover
  from encodes_good [of demo_menv demo_aead FrameData q f] f demo_aead_ok demo_menv_padding obtain g where
    g: "good_frame demo_aead g" "f = frame_wire demo_aead g" "fst g = FrameData" "fst (snd g) = q"
    unfolding encodes_def by blast
  have w: "session_wire x = concat (map (frame_wire demo_aead) [g])" using l(4,5) g(2) by (simp add: session_wire_def)
  have ms: "map (\<lambda>(ft, p, _). (ft, p)) [g] = [(FrameData, q)]" using g(3,4) by (cases g) auto
  have "own_packet [10, 7, 0, 2] (FrameData, q)" using spec(2,3) by (simp add: own_packet_def)
  with serve_loop_frames [OF demo_aead_ok pad, of "[10, 7, 0, 2]" "[g]" ?st "\<lambda>_. 0"] g(1)
  have "tun_writes (fst (serve_loop demo_aead ?pad [10, 7, 0, 2] (\<lambda>_. True) (session_wire x) ?st (\<lambda>_. 0))) = [q]"
    unfolding w Let_def ms by (simp only: until_close_def takeWhile.simps filter.simps list.map split_conv frame_types) simp
  ultimately show ?thesis using s l by blast
qed

end
