(* ===== verification/ClientSystem.thy ===== *)
theory ClientSystem
  imports Client GatewaySystem
begin

text \<open>
  The Linux client of \<open>cmd/client/main.go\<close> while its tunnel is up: the loop of \<open>runConnect\<close>, the reader of
  the device (\<open>clientTunReader\<close>), a goroutine for each DNS query it intercepts (\<open>handleDNS\<close>) and, for each
  session so far, its writer and its reader (\<open>clientSessionWriter\<close>, \<open>serverToTun\<close>) and the cover traffic. The
  states of sessions and loop are those of \<open>GatewaySession\<close>, whose lemmas carry the proofs; a client has
  no prober and no counters of bytes (these fields keep their first values), its reader ignores pongs, and a
  failure after the reconnection ends the process.
\<close>

section \<open>Sessions of a client\<close>

inductive client_session_step :: "member_env \<Rightarrow> bool \<Rightarrow> session \<Rightarrow> label \<Rightarrow> session \<Rightarrow> bool" for E sd where
  c_take_packet: "ss_wr s = WSelect \<Longrightarrow> Encode FrameData pkt (ss_cipher s) (me_pad E) tp = (r, tp')
    \<Longrightarrow> client_session_step E sd s (Took pkt) (s\<lparr>ss_wr := (case r of Inl e \<Rightarrow> WSelect | Inr f \<Rightarrow> WHolding pkt f)\<rparr>)"
| c_sent: "ss_wr s = WHolding pkt f \<Longrightarrow> can_write s
    \<Longrightarrow> client_session_step E sd s Quiet ((wrote FrameData pkt f s)\<lparr>ss_wr := WSelect\<rparr>)"
| c_send_failed: "ss_wr s = WHolding pkt f \<Longrightarrow> fails_after n f s
    \<Longrightarrow> client_session_step E sd s Quiet ((write_failed FrameData pkt f s)\<lparr>ss_wr := WLeaving\<rparr>)"
| c_writer_quits: "ss_wr s = WSelect \<Longrightarrow> ss_done s \<or> sd \<Longrightarrow> client_session_step E sd s Quiet (s\<lparr>ss_wr := WLeaving\<rparr>)"
| c_writer_signals: "ss_wr s = WLeaving \<Longrightarrow> signalDone s = Some s'
    \<Longrightarrow> client_session_step E sd s Quiet (s'\<lparr>ss_wr := WSignalled\<rparr>)"
| c_writer_gone: "ss_wr s = WSignalled \<Longrightarrow> client_session_step E sd s Quiet (s\<lparr>ss_wr := WGone\<rparr>)"
| c_read_data: "ss_rd s = RReading \<Longrightarrow> Decode (ss_cipher s) (ss_in s) = Inr ((FrameData, p), rest)
    \<Longrightarrow> client_session_step E sd s (ToDevice p) (s\<lparr>ss_in := rest\<rparr>)"
| c_read_close: "ss_rd s = RReading \<Longrightarrow> Decode (ss_cipher s) (ss_in s) = Inr ((FrameClose, p), rest)
    \<Longrightarrow> client_session_step E sd s Quiet (s\<lparr>ss_in := rest, ss_rd := RLeaving\<rparr>)"
| c_read_other: "ss_rd s = RReading \<Longrightarrow> Decode (ss_cipher s) (ss_in s) = Inr ((ft, p), rest)
    \<Longrightarrow> ft \<notin> {FrameData, FrameClose} \<Longrightarrow> client_session_step E sd s Quiet (s\<lparr>ss_in := rest\<rparr>)"
| c_read_failed: "ss_rd s = RReading \<Longrightarrow> client_session_step E sd s Quiet (s\<lparr>ss_rd := RLeaving\<rparr>)"
| c_reader_signals: "ss_rd s = RLeaving \<Longrightarrow> signalDone s = Some s'
    \<Longrightarrow> client_session_step E sd s Quiet (s'\<lparr>ss_rd := RGone\<rparr>)"
| c_cover: "can_write s \<Longrightarrow> ft \<in> {FrameKeepalive, FrameDecoy}
    \<Longrightarrow> Encode ft p (ss_cipher s) (me_pad E) tp = (Inr f, tp')
    \<Longrightarrow> client_session_step E sd s Quiet (wrote ft p f s)"
| c_cover_failed: "fails_after n f s \<Longrightarrow> ft \<in> {FrameKeepalive, FrameDecoy}
    \<Longrightarrow> Encode ft p (ss_cipher s) (me_pad E) tp = (Inr f, tp')
    \<Longrightarrow> client_session_step E sd s Quiet (write_failed ft p f s)"

section \<open>The client\<close>

text \<open>
  \<open>cl_queries\<close> are the queries that goroutines are resolving and \<open>cl_answers\<close> the packets these wrote to the device.
  After an exit nothing happens any more: the process has ended.
\<close>

record client_sys =
  cl_loop :: member_loop
  cl_cm :: ConnManager
  cl_queries :: "(bytes \<times> bytes) list"
  cl_answers :: "bytes list"
  cl_down :: bool
  cl_exit :: "client_exit option"

record link_env =
  ce_env :: member_env
  ce_resolver :: bool
  ce_assigned :: IP

abbreviation in_phase :: "client_sys \<Rightarrow> loop_phase \<Rightarrow> bool" where
  "in_phase s ph \<equiv> cl_exit s = None \<and> ml_phase (cl_loop s) = ph"

abbreviation cur_session :: "client_sys \<Rightarrow> session" where
  "cur_session s \<equiv> ml_sessions (cl_loop s) ! cur (cl_loop s)"

abbreviation with_phase :: "loop_phase \<Rightarrow> client_sys \<Rightarrow> client_sys" where
  "with_phase ph s \<equiv> s\<lparr>cl_loop := (cl_loop s)\<lparr>ml_phase := ph\<rparr>\<rparr>"

abbreviation session_moves :: "link_env \<Rightarrow> client_sys \<Rightarrow> nat \<Rightarrow> label \<Rightarrow> session \<Rightarrow> bool" where
  "session_moves C s k a x \<equiv> cl_exit s = None \<and> k < length (ml_sessions (cl_loop s))
     \<and> client_session_step (ce_env C) (cl_down s) (ml_sessions (cl_loop s) ! k) a x"

text \<open>The answer to the renewed request: the client goes on only with the address it had.\<close>

definition same_address :: "IP \<Rightarrow> assign_error + string \<Rightarrow> client_fail option" where
  "same_address assigned res =
     (case res of
        Inl e \<Rightarrow> Some (NoReassignment e)
      | Inr newCIDR \<Rightarrow>
          let newIP = (case ParseCIDR newCIDR of Some (ip, _) \<Rightarrow> ip | None \<Rightarrow> []) in
          if ip_Equal newIP assigned then None else Some (OtherAddress newCIDR))"

text \<open>The goroutines beside the loop.\<close>

inductive client_side :: "link_env \<Rightarrow> client_sys \<Rightarrow> client_sys \<Rightarrow> bool" for C where
  quiet: "session_moves C s k Quiet x \<Longrightarrow> client_side C s (s\<lparr>cl_loop := set_session k x (cl_loop s)\<rparr>)"
| took: "session_moves C s k (Took pkt) x \<Longrightarrow> ml_packetCh (cl_loop s) = pkt # q
    \<Longrightarrow> client_side C s (s\<lparr>cl_loop := (set_session k x (cl_loop s))
          \<lparr>ml_packetCh := q, ml_taken := ml_taken (cl_loop s) @ [(k, pkt)]\<rparr>\<rparr>)"
| to_device: "session_moves C s k (ToDevice pkt) x
    \<Longrightarrow> client_side C s (s\<lparr>cl_loop := (set_session k x (cl_loop s))\<lparr>ml_device := ml_device (cl_loop s) @ [(k, pkt)]\<rparr>\<rparr>)"
| tun_read: "cl_exit s = None \<Longrightarrow> ml_tun (cl_loop s) \<Longrightarrow> ReadPacket dev = Inr pkt
    \<Longrightarrow> client_read (ce_resolver C) pkt (ml_packetCh (cl_loop s), cl_queries s) = (q, qs)
    \<Longrightarrow> client_side C s (s\<lparr>cl_loop := (cl_loop s)\<lparr>ml_packetCh := q,
            ml_queued := ml_queued (cl_loop s) @ drop (length (ml_packetCh (cl_loop s))) q\<rparr>, cl_queries := qs\<rparr>)"
| tun_ended: "cl_exit s = None \<Longrightarrow> ml_tun (cl_loop s)
    \<Longrightarrow> client_side C s (s\<lparr>cl_loop := (cl_loop s)\<lparr>ml_tun := False\<rparr>\<rparr>)"
| resolved: "cl_exit s = None \<Longrightarrow> cl_queries s = as @ (pkt, query) # bs
    \<Longrightarrow> handleDNS doh now now' unow pkt query cache lg = Some (out, cache', lg')
    \<Longrightarrow> client_side C s (s\<lparr>cl_queries := as @ bs,
          cl_answers := cl_answers s @ (case out of None \<Rightarrow> [] | Some p \<Rightarrow> [p])\<rparr>)"

text \<open>These and the loop. A step of the loop is a section of it between two points at which it can wait.\<close>

inductive client_step :: "link_env \<Rightarrow> client_sys \<Rightarrow> client_sys \<Rightarrow> bool" for C where
  beside: "client_side C s s' \<Longrightarrow> client_step C s s'"
| started: "in_phase s Starting \<Longrightarrow> NewCipher (me_chacha (ce_env C)) (snd (GetActiveStream (cl_cm s))) = Some c
    \<Longrightarrow> client_step C s (s\<lparr>cl_loop := (cl_loop s)\<lparr>ml_phase := Running,
          ml_sessions := ml_sessions (cl_loop s) @ [new_session c inp]\<rparr>\<rparr>)"
| no_cipher: "in_phase s Starting \<Longrightarrow> NewCipher (me_chacha (ce_env C)) (snd (GetActiveStream (cl_cm s))) = None
    \<Longrightarrow> client_step C s (s\<lparr>cl_exit := Some (FatalExit NoCipher)\<rparr>)"
| lost: "in_phase s Running \<Longrightarrow> ss_done (cur_session s)
    \<Longrightarrow> client_step C s (s\<lparr>cl_loop := (set_session (cur (cl_loop s)) (shut_session (cur_session s)) (cl_loop s))
          \<lparr>ml_phase := Draining 0\<rparr>\<rparr>)"
| interrupted: "in_phase s Running
    \<Longrightarrow> Encode FrameClose [] (ss_cipher (cur_session s)) (me_pad (ce_env C)) tp = (r, tp')
    \<Longrightarrow> client_step C s (s\<lparr>cl_loop := (set_session (cur (cl_loop s)) (say_close r ok (cur_session s)) (cl_loop s))
            \<lparr>ml_phase := Exited ShutDown\<rparr>, cl_down := True, cl_exit := Some Returned\<rparr>)"
| drained: "in_phase s (Draining d) \<Longrightarrow> ss_wr (cur_session s) = WGone \<Longrightarrow> client_step C s (with_phase (Redialling d) s)"
| redialled: "in_phase s (Redialling d) \<Longrightarrow> Reconnect rounds initialBackoff (cl_cm s) = Some (Inr u, ws, cm')
    \<Longrightarrow> client_step C s ((with_phase (Assigning d) s)\<lparr>cl_cm := cm'\<rparr>)"
| redial_aborted: "in_phase s (Redialling d) \<Longrightarrow> Reconnect rounds initialBackoff (cl_cm s) = Some (Inl e, ws, cm')
    \<Longrightarrow> client_step C s (s\<lparr>cl_cm := cm', cl_exit := Some (FatalExit (NoReconnect e))\<rparr>)"
| reassigned: "in_phase s (Assigning d) \<Longrightarrow> same_address (ce_assigned C) res = None
    \<Longrightarrow> client_step C s (with_phase Starting s)"
| not_reassigned: "in_phase s (Assigning d) \<Longrightarrow> same_address (ce_assigned C) res = Some f
    \<Longrightarrow> client_step C s (s\<lparr>cl_exit := Some (FatalExit f)\<rparr>)"

text \<open>The tunnel loop begins when connection, device and routes are there.\<close>

definition tunnel_start :: "link_env \<Rightarrow> client_sys \<Rightarrow> bool" where
  "tunnel_start C s \<longleftrightarrow>
     cl_loop s = \<lparr>ml_phase = Starting, ml_state = \<lparr>ls_ip = ce_assigned C, sessionNum = 1, flapCount = 0\<rparr>,
        ml_tun = True, ml_packetCh = [], ml_sessions = [], ml_queued = [], ml_taken = [], ml_device = []\<rparr>
     \<and> cl_queries s = [] \<and> cl_answers s = [] \<and> \<not> cl_down s \<and> cl_exit s = None"

section \<open>The client's sessions are the gateway's without a prober\<close>

definition like_gateway :: "member_env \<Rightarrow> bool \<Rightarrow> session \<Rightarrow> label \<Rightarrow> session \<Rightarrow> bool" where
  "like_gateway E sd s a s' \<longleftrightarrow> (\<exists>rx tx. session_step E sd s a (s'\<lparr>ss_rx := rx, ss_tx := tx\<rparr>)) \<or> a = Quiet \<and> (\<exists>x. s' = s\<lparr>ss_in := x\<rparr>)"

lemma like_gatewayI: "session_step E sd s a s' \<Longrightarrow> like_gateway E sd s a s'"
  unfolding like_gateway_def by (intro disjI1 exI [of _ "ss_rx s'"] exI [of _ "ss_tx s'"]) simp

lemma client_session_gateway: "client_session_step E sd s a s' \<Longrightarrow> like_gateway E sd s a s'"
proof (induction rule: client_session_step.induct)
  case (c_sent s pkt f)
  let ?y = "(wrote FrameData pkt f s)\<lparr>ss_wr := WSelect\<rparr>"
  from session_step.sent [OF c_sent, of E sd] show ?case
    unfolding like_gateway_def
    by (intro disjI1 exI [of _ "ss_rx ?y"] exI [of _ "ss_tx s + int (length f)"]) simp
next
  case (c_send_failed s pkt f n)
  let ?y = "(write_failed FrameData pkt f s)\<lparr>ss_wr := WLeaving\<rparr>"
  from session_step.send_failed [OF c_send_failed, of E sd] show ?case
    unfolding like_gateway_def
    by (intro disjI1 exI [of _ "ss_rx ?y"] exI [of _ "ss_tx s + int n"]) simp
next
  case (c_read_data s p rest)
  let ?y = "s\<lparr>ss_in := rest\<rparr>"
  from session_step.read_data [OF c_read_data, of E sd] show ?case
    unfolding like_gateway_def
    by (intro disjI1 exI [of _ "ss_rx s + int (length p)"] exI [of _ "ss_tx ?y"]) simp
next
  case (c_read_other s ft p rest)
  then show ?case by (auto simp: like_gateway_def)
qed (rule like_gatewayI, rule session_step.intros; assumption)+


lemma counters_irrelevant [simp]:
  "session_inv E (s\<lparr>ss_tx := n\<rparr>) = session_inv E s" "carried (s\<lparr>ss_tx := n\<rparr>) = carried s"
  "accounted (s\<lparr>ss_tx := n\<rparr>) ts = accounted s ts"
  "session_inv E (s\<lparr>ss_rx := n\<rparr>) = session_inv E s" "session_inv E (s\<lparr>ss_in := b\<rparr>) = session_inv E s"
  "carried (s\<lparr>ss_rx := n\<rparr>) = carried s" "carried (s\<lparr>ss_in := b\<rparr>) = carried s"
  "accounted (s\<lparr>ss_rx := n\<rparr>) ts = accounted s ts" "accounted (s\<lparr>ss_in := b\<rparr>) ts = accounted s ts"
  by (simp_all add: session_inv_def signalled_def frames_ok_def counts_pings_def carried_def held_def accounted_def)

interpretation client_goroutines: session_goroutines E "client_session_step E sd" for E sd
proof
  fix x a y ts
  assume "client_session_step E sd x a y"
  then have "like_gateway E sd x a y" by (rule client_session_gateway)
  then consider rx tx where "session_step E sd x a (y\<lparr>ss_rx := rx, ss_tx := tx\<rparr>)" | b where "a = Quiet" "y = x\<lparr>ss_in := b\<rparr>"
    by (auto simp: like_gateway_def)
  note cases = this
  show "session_inv E x \<Longrightarrow> session_inv E y"
    by (rule cases) (auto dest: gw_goroutines.step_inv)
  show "session_inv E x \<Longrightarrow> subseq (carried y) (carried x @ took_packets a)"
    by (rule cases) (auto dest: gw_goroutines.step_carried)
  show "ss_wr x = WGone \<Longrightarrow> ss_wr y = WGone \<and> took_packets a = []"
    by (rule cases) (auto dest: gw_goroutines.step_writer)
  show "(ss_shut x \<longrightarrow> ss_shut y) \<and> (ss_done x \<longrightarrow> ss_done y)"
    by (rule cases) (auto dest: gw_goroutines.step_ends)
  show "took_packets a = [] \<or> encodable E (took_packets a) \<Longrightarrow> accounted x ts \<Longrightarrow> accounted y (ts @ took_packets a)"
    by (rule cases) (auto dest: gw_goroutines.step_accounted)
qed

interpretation client_endings: ending_goroutines E "client_session_step E sd" for E sd
proof unfold_locales
  show "\<exists>y. client_session_step E sd x Quiet y \<and> ss_wr y = WLeaving" if "ss_wr x = WHolding p f" for x p f
    by (rule exI, rule conjI, rule client_session_step.c_send_failed [OF that fails_at_once]) simp
qed (blast intro: client_session_step.intros)+

section \<open>The invariant\<close>

text \<open>
  The loop keeps the invariant of a gateway's loop, for a member that is as healthy as the phase wants. DNS packets
  and the others part ways at the reader.
\<close>

definition dns_apart :: "link_env \<Rightarrow> client_sys \<Rightarrow> bool" where
  "dns_apart C s \<longleftrightarrow>
     list_all (\<lambda>p. length p \<le> readBufSize \<and> \<not> (ce_resolver C \<and> fst (IsDNSPacket p))) (ml_queued (cl_loop s))
     \<and> list_all (\<lambda>(p, q). ce_resolver C \<and> IsDNSPacket p = (True, q)) (cl_queries s)"

definition client_inv :: "link_env \<Rightarrow> client_sys \<Rightarrow> bool" where
  "client_inv C s \<longleftrightarrow> (\<exists>m. loop_inv (ce_env C) (cl_loop s) m) \<and> dns_apart C s"

lemma some_health:
  obtains m :: Member where "health_ok ph (healthy m)"
proof -
  have "\<exists>b. health_ok ph b" by (cases ph) auto
  then obtain b where "health_ok ph b" by blast
  then have "health_ok ph (healthy ((undefined :: Member)\<lparr>healthy := b\<rparr>))" by simp
  then show thesis by (rule that)
qed

lemma client_phase:
  assumes "loop_inv E l m" "in_session (ml_phase l) \<longrightarrow> in_session ph" "ph \<noteq> Running" "\<And>d. ph \<noteq> Draining d"
  shows "\<exists>m. loop_inv E (l\<lparr>ml_phase := ph\<rparr>) m"
proof -
  obtain m' :: Member where "health_ok ph (healthy m')" by (rule some_health)
  from loop_inv_phase [OF assms(1) this assms(2-4), of "ml_tun l" "ml_state l"] show ?thesis by auto
qed

lemma client_read_queue:
  assumes "client_read res pkt (ch, qs) = (q, qs')"
  shows "\<exists>new. q = ch @ new \<and> (length ch \<le> packet_cap \<longrightarrow> length q \<le> packet_cap)
     \<and> (new = [] \<or> new = [pkt] \<and> \<not> (res \<and> fst (IsDNSPacket pkt)))
     \<and> (qs' = qs \<or> qs' = qs @ [(pkt, snd (IsDNSPacket pkt))] \<and> res \<and> fst (IsDNSPacket pkt))"
  using assms by (auto simp: client_read_def split: if_splits)

lemma client_loop_read:
  assumes l: "loop_inv E l m" and q: "client_read res pkt (ml_packetCh l, qs) = (q, qs')"
  shows "loop_inv E (l\<lparr>ml_packetCh := q, ml_queued := ml_queued l @ drop (length (ml_packetCh l)) q\<rparr>) m"
  using loop_invD [OF l] client_read_queue [OF q]
  by (auto simp: loop_inv_def writers_ok_def packets_ok_def losses_ok_def)

lemma client_inv_loop:
  "loop_inv (ce_env C) l m \<Longrightarrow> ml_queued l = ml_queued (cl_loop s) \<Longrightarrow> client_inv C s \<Longrightarrow> client_inv C (s\<lparr>cl_loop := l\<rparr>)"
  by (auto simp: client_inv_def dns_apart_def)

lemma client_inv_fields [simp]:
  "client_inv C (s\<lparr>cl_cm := cm\<rparr>) = client_inv C s" "client_inv C (s\<lparr>cl_exit := e\<rparr>) = client_inv C s"
  "client_inv C (s\<lparr>cl_down := b\<rparr>) = client_inv C s"
  by (simp_all add: client_inv_def dns_apart_def)

lemma client_inv_phase:
  assumes "client_inv C s" "in_session (ml_phase (cl_loop s)) \<longrightarrow> in_session ph" "ph \<noteq> Running" "\<And>d. ph \<noteq> Draining d"
  shows "client_inv C (with_phase ph s)"
proof -
  from assms(1) obtain m where "loop_inv (ce_env C) (cl_loop s) m" by (auto simp: client_inv_def)
  from client_phase [OF this assms(2-4)] assms(1) show ?thesis by (auto intro: client_inv_loop)
qed

lemma client_inv_moves:
  assumes "client_inv C s" "session_moves C s k a x" "took_packets a = []"
  shows "client_inv C (s\<lparr>cl_loop := (set_session k x (cl_loop s))\<lparr>ml_device := dev\<rparr>\<rparr>)"
proof -
  from assms(1) obtain m where "loop_inv (ce_env C) (cl_loop s) m" by (auto simp: client_inv_def)
  from client_goroutines.loop_inv_quiet [OF this _ _ assms(3), of k "cl_down s" x m dev] assms(1,2) show ?thesis
    by (intro client_inv_loop) auto
qed

text \<open>The sections of the loop, for any program that has such a loop.\<close>

lemma client_inv_started:
  assumes "client_inv C s" "ml_phase (cl_loop s) = Starting"
  shows "client_inv C (s\<lparr>cl_loop := (cl_loop s)\<lparr>ml_phase := Running, ml_sessions := ml_sessions (cl_loop s) @ [new_session c inp]\<rparr>\<rparr>)"
proof -
  from assms(1) obtain m where "loop_inv (ce_env C) (cl_loop s) m" by (auto simp: client_inv_def)
  from loop_inv_started [OF this assms(2), of c inp] assms(1) show ?thesis by (intro client_inv_loop) auto
qed

lemma client_inv_lost:
  assumes "client_inv C s" "ml_phase (cl_loop s) = Running" "ss_done (cur_session s)"
  shows "client_inv C (s\<lparr>cl_loop := (set_session (cur (cl_loop s)) (shut_session (cur_session s)) (cl_loop s))\<lparr>ml_phase := Draining 0\<rparr>\<rparr>)"
proof -
  from assms(1) obtain m where m: "loop_inv (ce_env C) (cl_loop s) m" by (auto simp: client_inv_def)
  from loop_inv_shut [OF m assms(2) session_inv_shut [OF cur_session_inv [OF m assms(2)]], of "Draining 0" 0] assms(3) accounted_shut(1)
  have "loop_inv (ce_env C) ((set_session (cur (cl_loop s)) (shut_session (cur_session s)) (cl_loop s))\<lparr>ml_phase := Draining 0\<rparr>) m"
    by (simp add: shut_session_def carried_shut(1) [unfolded shut_session_def])
  then show ?thesis using assms(1) by (intro client_inv_loop) auto
qed

lemma client_inv_close:
  assumes "client_inv C s" "ml_phase (cl_loop s) = Running"
    and "Encode FrameClose [] (ss_cipher (cur_session s)) (me_pad (ce_env C)) tp = (r, tp')"
  shows "client_inv C (s\<lparr>cl_loop := (set_session (cur (cl_loop s)) (say_close r ok (cur_session s)) (cl_loop s))\<lparr>ml_phase := Exited ShutDown\<rparr>\<rparr>)"
proof -
  from assms(1) obtain m where m: "loop_inv (ce_env C) (cl_loop s) m" by (auto simp: client_inv_def)
  note c = cur_session_inv [OF m assms(2)]
  from loop_inv_shut [OF m assms(2) session_inv_close [OF c assms(3)], of ok "Exited ShutDown"] accounted_shut(2) c
  have "loop_inv (ce_env C) ((set_session (cur (cl_loop s)) (say_close r ok (cur_session s)) (cl_loop s))\<lparr>ml_phase := Exited ShutDown\<rparr>) m"
    by (simp add: session_inv_def carried_shut(2) [where E = "ce_env C"])
  from client_inv_loop [OF this] assms(1) show ?thesis by simp
qed

lemma client_inv_drained:
  assumes "client_inv C s" "ml_phase (cl_loop s) = Draining d" "ss_wr (cur_session s) = WGone"
  shows "client_inv C (with_phase (Redialling d) s)"
proof -
  from assms(1) obtain m where m: "loop_inv (ce_env C) (cl_loop s) m" by (auto simp: client_inv_def)
  obtain m' :: Member where "health_ok (Redialling d) (healthy m')" by (rule some_health)
  with assms loop_invD [OF m] have "loop_inv (ce_env C) ((cl_loop s)\<lparr>ml_phase := Redialling d\<rparr>) m'"
    by (auto simp: loop_inv_def writers_ok_def packets_ok_def losses_ok_def)
  then show ?thesis using assms(1) by (intro client_inv_loop) auto
qed

lemma client_side_inv: "client_side C s s' \<Longrightarrow> client_inv C s \<Longrightarrow> client_inv C s'"
proof (induction rule: client_side.induct)
  case (quiet s k x)
  from client_inv_moves [OF quiet(2,1), of "ml_device (cl_loop s)"] show ?case by simp
next
  case (to_device s k pkt x)
  from client_inv_moves [OF to_device(2,1)] show ?case by simp
next
  case (took s k pkt x q)
  then obtain m where m: "loop_inv (ce_env C) (cl_loop s) m" by (auto simp: client_inv_def)
  from client_goroutines.loop_inv_took [OF m, of k "cl_down s" pkt x q] took show ?case by (intro client_inv_loop) auto
next
  case (tun_read s dev pkt q qs)
  then obtain m where m: "loop_inv (ce_env C) (cl_loop s) m" by (auto simp: client_inv_def)
  have "length pkt \<le> readBufSize" using tun_read(3) by (auto simp: ReadPacket_def split: sum.splits)
  with client_loop_read [OF m tun_read(4)] client_read_queue [OF tun_read(4)] tun_read(5) show ?case
    by (cases "IsDNSPacket pkt") (auto simp: client_inv_def dns_apart_def)
next
  case (tun_ended s)
  then show ?case by (auto simp: client_inv_def dns_apart_def loop_inv_def writers_ok_def packets_ok_def losses_ok_def)
next
  case (resolved s as pkt query bs doh now now' unow cache lg out cache' lg')
  then show ?case by (auto simp: client_inv_def dns_apart_def)
qed

lemma client_inv_step: "client_step C s s' \<Longrightarrow> client_inv C s \<Longrightarrow> client_inv C s'"
proof (induction rule: client_step.induct)
  case (beside s s')
  then show ?case by (rule client_side_inv)
next
  case (started s c inp)
  then show ?case using client_inv_started by blast
next
  case (lost s)
  then show ?case using client_inv_lost by blast
next
  case (interrupted s tp r tp' ok)
  from client_inv_close [OF interrupted(3) _ interrupted(2)] interrupted(1) show ?case by simp
next
  case (drained s d)
  then show ?case using client_inv_drained by blast
next
  case (redialled s d rounds u ws cm')
  from client_inv_phase [OF redialled(3), of "Assigning d"] redialled(1) show ?case by simp
next
  case (reassigned s d res)
  from client_inv_phase [OF reassigned(3), of Starting] reassigned(1) show ?case by simp
qed simp_all

interpretation client: invariant_system "tunnel_start C" "client_step C" "client_inv C" for C
proof unfold_locales
  fix s assume s: "tunnel_start C s"
  obtain m :: Member where "health_ok Starting (healthy m)" by (rule some_health)
  with s show "client_inv C s"
    by (auto simp: tunnel_start_def client_inv_def dns_apart_def loop_inv_def writers_ok_def packets_ok_def losses_ok_def
        packet_cap_def)
qed (rule client_inv_step)


section \<open>What the client promises\<close>

text \<open>A packet that the resolver gets has the fields the answer needs.\<close>

lemma dns_query_fields: "IsDNSPacket p = (True, q) \<Longrightarrow> ExtractDNSInfo p \<noteq> None"
  by (auto simp: IsDNSPacket_def ExtractDNSInfo_def Let_def split: if_splits)

text \<open>What the invariant says of packets and queries.\<close>

lemma client_inv_packets:
  assumes "client_inv C s" "check_padding (me_pad (ce_env C)) = None"
  shows "let l = cl_loop s in
     ml_queued l = map snd (ml_taken l) @ ml_packetCh l \<and> length (ml_packetCh l) \<le> 256
     \<and> (\<forall>p\<in>set (ml_queued l). \<not> (ce_resolver C \<and> fst (IsDNSPacket p)))
     \<and> (\<forall>(p, q)\<in>set (cl_queries s). \<forall>doh now now' unow cache lg. handleDNS doh now now' unow p q cache lg \<noteq> None)
     \<and> (\<forall>k<length (ml_sessions l). accounted (ml_sessions l ! k) (taken_by k (ml_taken l))
            \<and> (ss_wr (ml_sessions l ! k) \<noteq> WGone \<longrightarrow> k = cur l \<and> in_session (ml_phase l)))"
proof -
  from assms(1) obtain m where
    inv: "loop_inv (ce_env C) (cl_loop s) m" and dns: "dns_apart C s" by (auto simp: client_inv_def)
  note D = loop_invD [OF inv]
  from D(2) have q: "ml_queued (cl_loop s) = map snd (ml_taken (cl_loop s)) @ ml_packetCh (cl_loop s)"
    "length (ml_packetCh (cl_loop s)) \<le> 256" by (simp_all add: packets_ok_def packet_cap_def)
  have "readBufSize \<le> MaxPayloadSize" by (simp add: readBufSize_def DefaultMTU_def MaxPayloadSize_def)
  moreover have "\<forall>p\<in>set (map snd (ml_taken (cl_loop s))). length p \<le> readBufSize"
    using dns q(1) by (simp add: dns_apart_def list_all_iff)
  ultimately have "\<forall>p\<in>set (map snd (ml_taken (cl_loop s))). length p \<le> MaxPayloadSize" by (meson le_trans)
  with assms(2) have "encodable (ce_env C) (map snd (ml_taken (cl_loop s)))"
    by (simp add: encodable_def list_all_iff)
  with D(5) have "\<forall>k<length (ml_sessions (cl_loop s)). accounted (ml_sessions (cl_loop s) ! k) (taken_by k (ml_taken (cl_loop s)))"
    by (simp add: losses_ok_def)
  moreover have "\<forall>(p, q)\<in>set (cl_queries s). \<forall>doh now now' unow cache lg. handleDNS doh now now' unow p q cache lg \<noteq> None"
    using dns dns_query_fields by (fastforce simp: dns_apart_def list_all_iff handleDNS_def split: option.splits sum.splits prod.splits)
  ultimately show ?thesis
    using q D(1) dns by (simp add: Let_def dns_apart_def list_all_iff writers_ok_def)
qed

text \<open>
  C28. The client's packets, with all its goroutines running. In every reachable state of the client: no DNS packet
  is among those queued for the tunnel while there is a resolver, and no resolving goroutine panics; what was
  queued is what the writers took, session after session, and what is in the channel; whatever part of each
  stream has arrived, what the server writes to its device over all sessions is a subsequence of it; a session
  loses at most one packet; and only the newest session's writer can be running.
\<close>

theorem client_packets_once:
  assumes "reach (tunnel_start C) (client_step C) s"
    and "check_padding (me_pad (ce_env C)) = None" "pad_max (me_pad (ce_env C)) \<le> 65535"
    and "check_padding pad = None" "pad_max pad \<le> 65535"
    and "\<forall>x\<in>set (ml_sessions (cl_loop s)). aead_ok (ss_cipher x)" "\<forall>k. length (ip k) = 4"
  shows "let l = cl_loop s; N = length (ml_sessions l) in
     ml_queued l = map snd (ml_taken l) @ ml_packetCh l \<and> length (ml_packetCh l) \<le> 256
     \<and> (\<forall>p\<in>set (ml_queued l). \<not> (ce_resolver C \<and> fst (IsDNSPacket p)))
     \<and> (\<forall>(p, q)\<in>set (cl_queries s). \<forall>doh now now' unow cache lg. handleDNS doh now now' unow p q cache lg \<noteq> None)
     \<and> subseq (concat (map (\<lambda>k. tun_writes (fst (serve_loop (ss_cipher (ml_sessions l ! k)) pad (ip k) (\<lambda>_. True)
                              (take (n k) (session_wire (ml_sessions l ! k))) (st k) (t k)))) [0..<N]))
         (ml_queued l)
     \<and> (\<forall>k<N. accounted (ml_sessions l ! k) (taken_by k (ml_taken l))
            \<and> (ss_wr (ml_sessions l ! k) \<noteq> WGone \<longrightarrow> k = cur l \<and> in_session (ml_phase l)))"
proof -
  from client.reach_inv [OF assms(1)] have inv: "client_inv C s" .
  then obtain m where "loop_inv (ce_env C) (cl_loop s) m" by (auto simp: client_inv_def)
  from served_in_order [OF this assms(2-7), of n st t] client_inv_packets [OF inv assms(2)] show ?thesis
    by (simp add: Let_def)
qed

text \<open>A query that goes to the resolver, and a packet that is taken by the writer and written.\<close>

definition demo_link_env :: link_env where
  "demo_link_env = \<lparr>ce_env = demo_menv, ce_resolver = True, ce_assigned = [10, 7, 0, 2]\<rparr>"

definition demo_client :: client_sys where
  "demo_client = \<lparr>cl_loop = \<lparr>ml_phase = Starting, ml_state = \<lparr>ls_ip = [10, 7, 0, 2], sessionNum = 1, flapCount = 0\<rparr>,
        ml_tun = True, ml_packetCh = [], ml_sessions = [], ml_queued = [], ml_taken = [], ml_device = []\<rparr>,
     cl_cm = NewConnManager, cl_queries = [], cl_answers = [], cl_down = False, cl_exit = None\<rparr>"

lemma demo_client_packets:
  "IsDNSPacket demo_dns_packet = (True, [1, 2])" "\<not> fst (IsDNSPacket demo_client_packet)"
  by code_simp+

lemma demo_client_reads:
  "ReadPacket (Inr demo_dns_packet) = Inr demo_dns_packet" "ReadPacket (Inr demo_client_packet) = Inr demo_client_packet"
  "length demo_client_packet \<le> MaxPayloadSize"
  by (simp_all add: ReadPacket_def MaxPayloadSize_def readBufSize_def DefaultMTU_def demo_dns_packet_def demo_client_packet_def)

lemma demo_client_run:
  assumes f: "Encode FrameData demo_client_packet demo_aead (me_pad demo_menv) tp = (Inr f, tp')"
  shows "\<exists>s x. reach (tunnel_start demo_link_env) (client_step demo_link_env) s
     \<and> ml_sessions (cl_loop s) = [x] \<and> ss_cipher x = demo_aead \<and> ml_queued (cl_loop s) = [demo_client_packet]
     \<and> ml_taken (cl_loop s) = [(0, demo_client_packet)] \<and> cl_queries s = [(demo_dns_packet, [1, 2])]"
proof -
  let ?C = demo_link_env and ?q = demo_client_packet and ?x0 = "new_session demo_aead []"
  let ?R = "reach (tunnel_start ?C) (client_step ?C)"
  define s1 where "s1 = demo_client\<lparr>cl_loop := (cl_loop demo_client)\<lparr>ml_phase := Running, ml_sessions := [?x0]\<rparr>\<rparr>"
  define s2 where "s2 = s1\<lparr>cl_queries := [(demo_dns_packet, [1, 2])]\<rparr>"
  define s3 where "s3 = s2\<lparr>cl_loop := (cl_loop s2)\<lparr>ml_packetCh := [?q], ml_queued := [?q]\<rparr>\<rparr>"
  let ?x1 = "?x0\<lparr>ss_wr := WHolding ?q f\<rparr>"
  define s4 where "s4 = s3\<lparr>cl_loop := (set_session 0 ?x1 (cl_loop s3))
      \<lparr>ml_packetCh := [], ml_taken := ml_taken (cl_loop s3) @ [(0, ?q)]\<rparr>\<rparr>"
  have "?R demo_client" by (rule reach_init) (simp add: tunnel_start_def demo_client_def demo_link_env_def)
  moreover have "client_step ?C demo_client s1"
    using client_step.started [of demo_client ?C demo_aead "[]"]
    by (simp add: s1_def demo_client_def demo_link_env_def demo_menv_def NewCipher_def demo_aead_def)
  ultimately have 1: "?R s1" by (rule reach_step)
  have "client_read (ce_resolver ?C) demo_dns_packet (ml_packetCh (cl_loop s1), cl_queries s1) = ([], [(demo_dns_packet, [1, 2])])"
    by (simp add: client_read_def demo_client_packets demo_link_env_def s1_def demo_client_def)
  from client_step.beside [OF client_side.tun_read [OF _ _ demo_client_reads(1) this]] have "client_step ?C s1 s2"
    by (simp add: s1_def s2_def demo_client_def)
  with 1 have 2: "?R s2" by (rule reach_step)
  have "client_read (ce_resolver ?C) ?q (ml_packetCh (cl_loop s2), cl_queries s2) = ([?q], cl_queries s2)"
    by (simp add: client_read_def demo_client_packets s1_def s2_def demo_client_def packet_cap_def)
  from client_step.beside [OF client_side.tun_read [OF _ _ demo_client_reads(2) this]] have "client_step ?C s2 s3"
    by (simp add: s1_def s2_def s3_def demo_client_def)
  with 2 have 3: "?R s3" by (rule reach_step)
  have "client_session_step (ce_env ?C) (cl_down s3) ?x0 (Took ?q) ?x1"
    using client_session_step.c_take_packet [of ?x0 ?q "ce_env ?C" tp "Inr f" tp' "cl_down s3"] f
    by (simp add: demo_link_env_def) (simp add: new_session_def)
  then have "client_step ?C s3 s4"
    unfolding s4_def by (intro client_step.beside client_side.took) (simp_all add: s1_def s2_def s3_def demo_client_def)
  from reach_step [OF 3 this] show ?thesis
    by (intro exI [of _ s4] exI [of _ ?x1] conjI) (simp_all add: s1_def s2_def s3_def s4_def demo_client_def, simp add: new_session_def)
qed

theorem client_packets_once_witness:
  "\<exists>s x. reach (tunnel_start demo_link_env) (client_step demo_link_env) s
     \<and> ml_sessions (cl_loop s) = [x] \<and> ml_queued (cl_loop s) = [demo_client_packet]
     \<and> accounted x [demo_client_packet]
     \<and> handleDNS (\<lambda>_. Inl DohRequest) 0 0 0 demo_dns_packet [1, 2] (\<lambda>_. None) \<lparr>dnsErrCount = 0, dnsErrLogged = 0\<rparr> \<noteq> None"
proof -
  let ?pad = "\<lparr>pad_min = 0, pad_max = 0\<rparr>"
  from Encode_eq [OF demo_menv_padding(1) demo_client_reads(3), of FrameData demo_aead "\<lambda>_. 0"] obtain f tp' where
    "Encode FrameData demo_client_packet demo_aead (me_pad demo_menv) (\<lambda>_. 0) = (Inr f, tp')" by blast
  from demo_client_run [OF this] obtain s x where s: "reach (tunnel_start demo_link_env) (client_step demo_link_env) s"
    "ml_sessions (cl_loop s) = [x]" "ss_cipher x = demo_aead" "ml_queued (cl_loop s) = [demo_client_packet]"
    "ml_taken (cl_loop s) = [(0, demo_client_packet)]" "cl_queries s = [(demo_dns_packet, [1, 2])]" by blast
  have pad: "check_padding ?pad = None" "pad_max ?pad \<le> 65535" by (simp_all add: check_padding_def)
  have env: "check_padding (me_pad (ce_env demo_link_env)) = None" "pad_max (me_pad (ce_env demo_link_env)) \<le> 65535"
    using demo_menv_padding by (simp_all add: demo_link_env_def)
  have ok: "\<forall>x\<in>set (ml_sessions (cl_loop s)). aead_ok (ss_cipher x)" and ip4: "\<forall>k::nat. length [10, 7, 0, 2 :: byte] = 4"
    by (simp_all add: s(2,3) demo_aead_ok)
  have "taken_by 0 [(0, demo_client_packet)] = [demo_client_packet]" by (simp add: taken_by_def)
  with client_packets_once [OF s(1) env pad ok ip4, of "\<lambda>_. 0" "\<lambda>_. undefined" "\<lambda>_. undefined"] s
  show ?thesis by (intro exI [of _ s] exI [of _ x]) (simp add: Let_def)
qed

end
