(* ===== verification/TraySystem.thy ===== *)
theory TraySystem
  imports Tray ClientSystem
begin

text \<open>
  The tray application with the goroutines of its tunnels: the controller of \<open>Tray\<close> (\<open>TunnelController\<close> in
  \<open>cmd/tray/tunnel.go\<close>), the loop of \<open>run\<close> in detail, and for every tunnel so far \<open>trayTunReader\<close>,
  \<open>traySessionWriter\<close>, \<open>serverToTun\<close> and \<open>handleDNS\<close>, which do what those of the client do (\<open>ClientSystem\<close>).
  A tunnel has its own channels, device and connection manager; goroutines of one that is over may
  linger, and whether its stop channel was closed is left open for them.
\<close>

section \<open>Controller and tunnels\<close>

text \<open>The last tunnel is the one of \<open>run\<close> while that is in its loop.\<close>

record tray_sys =
  ts_ctl :: TunnelController
  ts_tunnels :: "client_sys list"

definition in_tunnel :: "run_phase \<Rightarrow> bool" where
  "in_tunnel p \<longleftrightarrow> p \<in> {RSession, RLost, RReconnect, RLeave}"

abbreviation this_tunnel :: "tray_sys \<Rightarrow> client_sys" where
  "this_tunnel s \<equiv> last (ts_tunnels s)"

abbreviation with_tunnel :: "client_sys \<Rightarrow> tray_sys \<Rightarrow> tray_sys" where
  "with_tunnel t s \<equiv> s\<lparr>ts_tunnels := butlast (ts_tunnels s) @ [t]\<rparr>"

abbreviation in_loop :: "tray_sys \<Rightarrow> loop_phase \<Rightarrow> bool" where
  "in_loop s ph \<equiv> runs (ts_ctl s) = RSession \<and> ml_phase (cl_loop (this_tunnel s)) = ph"

definition control_event :: "tray_event \<Rightarrow> bool" where
  "control_event e \<longleftrightarrow> e \<notin> {Announce, CipherFails, SessionLost, SessionStopped, LostStopped, ReconnectOk}"

inductive tray_sys_step :: "link_env \<Rightarrow> tray_sys \<Rightarrow> tray_sys \<Rightarrow> bool" for C where
  control: "tray_step (ts_ctl s) e c \<Longrightarrow> control_event e \<Longrightarrow> tray_sys_step C s (s\<lparr>ts_ctl := c\<rparr>)"
| announced: "tray_step (ts_ctl s) Announce c \<Longrightarrow> tunnel_start C t
    \<Longrightarrow> tray_sys_step C s (s\<lparr>ts_ctl := c, ts_tunnels := ts_tunnels s @ [t]\<rparr>)"
| goroutine: "j < length (ts_tunnels s)
    \<Longrightarrow> Suc j = length (ts_tunnels s) \<and> in_tunnel (runs (ts_ctl s)) \<longrightarrow> sd = stopClosed (ts_ctl s)
    \<Longrightarrow> client_side C ((ts_tunnels s ! j)\<lparr>cl_down := sd\<rparr>) t
    \<Longrightarrow> tray_sys_step C s (s\<lparr>ts_tunnels := (ts_tunnels s)[j := t]\<rparr>)"
| started: "in_loop s Starting \<Longrightarrow> t = this_tunnel s
    \<Longrightarrow> NewCipher (me_chacha (ce_env C)) (snd (GetActiveStream (cl_cm t))) = Some c
    \<Longrightarrow> tray_sys_step C s (with_tunnel (t\<lparr>cl_loop := (cl_loop t)\<lparr>ml_phase := Running,
          ml_sessions := ml_sessions (cl_loop t) @ [new_session c inp]\<rparr>\<rparr>) s)"
| cipher_failed: "in_loop s Starting \<Longrightarrow> t = this_tunnel s
    \<Longrightarrow> NewCipher (me_chacha (ce_env C)) (snd (GetActiveStream (cl_cm t))) = None
    \<Longrightarrow> tray_step (ts_ctl s) CipherFails c
    \<Longrightarrow> tray_sys_step C s (with_tunnel (with_phase (Exited CipherInit) t) (s\<lparr>ts_ctl := c\<rparr>))"
| lost: "in_loop s Running \<Longrightarrow> t = this_tunnel s \<Longrightarrow> ss_done (cur_session t)
    \<Longrightarrow> tray_sys_step C s (with_tunnel (t\<lparr>cl_loop := (set_session (cur (cl_loop t)) (shut_session (cur_session t)) (cl_loop t))
          \<lparr>ml_phase := Draining 0\<rparr>\<rparr>) s)"
| drained: "in_loop s (Draining d) \<Longrightarrow> t = this_tunnel s \<Longrightarrow> ss_wr (cur_session t) = WGone
    \<Longrightarrow> tray_step (ts_ctl s) SessionLost c
    \<Longrightarrow> tray_sys_step C s (with_tunnel (with_phase (Redialling d) t) (s\<lparr>ts_ctl := c\<rparr>))"
| stopped: "in_loop s Running \<Longrightarrow> t = this_tunnel s \<Longrightarrow> tray_step (ts_ctl s) SessionStopped c
    \<Longrightarrow> Encode FrameClose [] (ss_cipher (cur_session t)) (me_pad (ce_env C)) tp = (r, tp')
    \<Longrightarrow> tray_sys_step C s (with_tunnel (t\<lparr>cl_loop := (set_session (cur (cl_loop t)) (say_close r ok (cur_session t)) (cl_loop t))
          \<lparr>ml_phase := Exited ShutDown\<rparr>\<rparr>) (s\<lparr>ts_ctl := c\<rparr>))"
| lost_stopped: "tray_step (ts_ctl s) LostStopped c \<Longrightarrow> t = this_tunnel s
    \<Longrightarrow> tray_sys_step C s (with_tunnel (with_phase (Exited ShutDown) t) (s\<lparr>ts_ctl := c\<rparr>))"
| reconnected: "tray_step (ts_ctl s) ReconnectOk c \<Longrightarrow> t = this_tunnel s
    \<Longrightarrow> Reconnect rounds initialBackoff (cl_cm t) = Some (Inr u, ws, cm')
    \<Longrightarrow> tray_sys_step C s (with_tunnel ((with_phase Starting t)\<lparr>cl_cm := cm'\<rparr>) (s\<lparr>ts_ctl := c\<rparr>))"

definition tray_sys_start :: "tray_sys \<Rightarrow> bool" where
  "tray_sys_start s \<longleftrightarrow> s = \<lparr>ts_ctl = NewTunnelController, ts_tunnels = []\<rparr>"

text \<open>A query that fails is logged here without a counter; the packets are the same.\<close>

lemma tray_handleDNS_client:
  "tray_handleDNS doh now now' pkt q cache = map_option (\<lambda>(out, cache', lg). (out, cache')) (handleDNS doh now now' unow pkt q cache lg)"
  by (auto simp: tray_handleDNS_def handleDNS_def split: option.splits prod.splits sum.splits)

section \<open>Refinement and invariant\<close>

text \<open>Every step is one of the controller or none.\<close>

lemma tray_sys_refines:
  "tray_sys_step C s s' \<Longrightarrow> tray_next (ts_ctl s) (ts_ctl s') \<or> ts_ctl s' = ts_ctl s"
  by (induction rule: tray_sys_step.induct) (auto intro: tray_nextI)

text \<open>Where the loop of the last tunnel is while \<open>run\<close> is in a phase.\<close>

fun phase_fits :: "run_phase \<Rightarrow> loop_phase \<Rightarrow> bool" where
  "phase_fits RSession ph = (ph = Starting \<or> ph = Running \<or> (\<exists>d. ph = Draining d))"
| "phase_fits RLost ph = (\<exists>d. ph = Redialling d)"
| "phase_fits RReconnect ph = (\<exists>d. ph = Redialling d)"
| "phase_fits RLeave ph = (\<exists>e. ph = Exited e)"
| "phase_fits _ ph = True"

definition tray_sys_inv :: "link_env \<Rightarrow> tray_sys \<Rightarrow> bool" where
  "tray_sys_inv C s \<longleftrightarrow> tray_inv (ts_ctl s) \<and> list_all (\<lambda>t. client_inv C t \<and> cl_exit t = None) (ts_tunnels s)
     \<and> (in_tunnel (runs (ts_ctl s)) \<longrightarrow> ts_tunnels s \<noteq> []
          \<and> phase_fits (runs (ts_ctl s)) (ml_phase (cl_loop (this_tunnel s))))"

lemma client_side_keeps: "client_side C s s' \<Longrightarrow> ml_phase (cl_loop s') = ml_phase (cl_loop s) \<and> cl_exit s' = cl_exit s"
  by (induction rule: client_side.induct) auto

lemma control_phase:
  assumes "tray_step c e c'" "control_event e" "tray_inv c"
  shows "runs c' = runs c \<or> \<not> in_tunnel (runs c') \<or> runs c = RLost \<and> runs c' = RReconnect"
  using assms by cases (auto simp: control_event_def in_tunnel_def tray_defs Let_def tray_inv_def resources_ok_def
      split: State.splits if_splits)

lemma tunnels_replaced:
  assumes "tray_sys_inv C s" "tray_inv c" "client_inv C t" "cl_exit t = None" "phase_fits (runs c) (ml_phase (cl_loop t))"
  shows "tray_sys_inv C (with_tunnel t (s\<lparr>ts_ctl := c\<rparr>))"
  using assms by (auto simp: tray_sys_inv_def list_all_iff dest: in_set_butlastD)

lemma tunnel_moved:
  assumes "tray_sys_inv C s" "client_inv C t" "cl_exit t = None" "phase_fits (runs (ts_ctl s)) (ml_phase (cl_loop t))"
  shows "tray_sys_inv C (with_tunnel t s)"
  using assms by (auto simp: tray_sys_inv_def list_all_iff dest: in_set_butlastD)

lemma this_tunnel_inv:
  assumes "tray_sys_inv C s" "in_tunnel (runs (ts_ctl s))"
  shows "client_inv C (this_tunnel s)" "cl_exit (this_tunnel s) = None" "phase_fits (runs (ts_ctl s)) (ml_phase (cl_loop (this_tunnel s)))"
    "tray_inv (ts_ctl s)" "ts_tunnels s \<noteq> []"
  using assms by (auto simp: tray_sys_inv_def list_all_iff)

lemma in_tunnel_simps [simp]:
  "in_tunnel RSession" "in_tunnel RLost" "in_tunnel RReconnect" "in_tunnel RLeave" "\<not> in_tunnel RAnnounce" "\<not> in_tunnel RIdle"
  by (simp_all add: in_tunnel_def)

lemma tunnel_start_inv: "tunnel_start C t \<Longrightarrow> client_inv C t \<and> cl_exit t = None \<and> ml_phase (cl_loop t) = Starting"
  using client.inv_init by (auto simp: tunnel_start_def)

lemma tray_sys_inv_step: "tray_sys_step C s s' \<Longrightarrow> tray_sys_inv C s \<Longrightarrow> tray_sys_inv C s'"
proof (induction rule: tray_sys_step.induct)
  case (control s e c)
  then have "tray_inv c" by (auto simp: tray_sys_inv_def intro: tray_inv_step)
  moreover from control have "runs c = runs (ts_ctl s) \<or> \<not> in_tunnel (runs c) \<or> runs (ts_ctl s) = RLost \<and> runs c = RReconnect"
    by (intro control_phase) (auto simp: tray_sys_inv_def)
  ultimately show ?case using control(3) by (auto simp: tray_sys_inv_def)
next
  case (announced s c t)
  then have "tray_inv c" by (auto simp: tray_sys_inv_def intro: tray_inv_step)
  with announced tunnel_start_inv [OF announced(2)] show ?case
    by (auto simp: tray_sys_inv_def tray_step_simps setState_def)
next
  case (goroutine j s sd t)
  let ?t = "(ts_tunnels s ! j)\<lparr>cl_down := sd\<rparr>"
  from goroutine have "client_inv C ?t" "cl_exit ?t = None" by (simp_all add: tray_sys_inv_def list_all_length)
  with client_side_inv [OF goroutine(3)] client_side_keeps [OF goroutine(3)]
  have t: "client_inv C t" "cl_exit t = None" "ml_phase (cl_loop t) = ml_phase (cl_loop (ts_tunnels s ! j))" by simp_all
  have "ml_phase (cl_loop (last ((ts_tunnels s)[j := t]))) = ml_phase (cl_loop (this_tunnel s))" if "ts_tunnels s \<noteq> []"
    using that t(3) by (cases "j = length (ts_tunnels s) - 1") (auto simp: last_conv_nth)
  with goroutine(4) t(1,2) show ?case
    by (auto simp: tray_sys_inv_def intro: list_all_update)
next
  case (started s t c inp)
  note I = this_tunnel_inv [OF started(4)]
  from started I client_inv_started [of C t c inp] show ?case
    by (intro tunnel_moved) auto
next
  case (cipher_failed s t c)
  note I = this_tunnel_inv [OF cipher_failed(5)]
  from cipher_failed I client_inv_phase [of C t "Exited CipherInit"] tray_inv_step [OF I(4) cipher_failed(4)] show ?case
    by (intro tunnels_replaced) (auto simp: tray_step_simps)
next
  case (lost s t)
  note I = this_tunnel_inv [OF lost(4)]
  from lost I client_inv_lost [of C t] show ?case
    by (intro tunnel_moved) auto
next
  case (drained s d t c)
  note I = this_tunnel_inv [OF drained(5)]
  from drained I client_inv_drained [of C t] tray_inv_step [OF I(4) drained(4)] show ?case
    by (intro tunnels_replaced) (auto simp: tray_step_simps)
next
  case (stopped s t c tp r tp' ok)
  note I = this_tunnel_inv [OF stopped(5)]
  from stopped I client_inv_close [of C t tp r tp' ok] tray_inv_step [OF I(4) stopped(3)] show ?case
    by (intro tunnels_replaced) (auto simp: tray_step_simps)
next
  case (lost_stopped s c t)
  then have r: "runs (ts_ctl s) = RLost" by (simp add: tray_step_simps)
  note I = this_tunnel_inv [OF lost_stopped(3)]
  from lost_stopped r I client_inv_phase [of C t "Exited ShutDown"] tray_inv_step [OF I(4) lost_stopped(1)] show ?case
    by (intro tunnels_replaced) (auto simp: tray_step_simps)
next
  case (reconnected s c t rounds u ws cm')
  then have r: "runs (ts_ctl s) = RReconnect" by (simp add: tray_step_simps)
  note I = this_tunnel_inv [OF reconnected(4)]
  from reconnected r I client_inv_phase [of C t Starting] tray_inv_step [OF I(4) reconnected(1)] show ?case
    by (intro tunnels_replaced) (auto simp: tray_step_simps)
qed

interpretation tray_system: invariant_system tray_sys_start "tray_sys_step C" "tray_sys_inv C" for C
proof unfold_locales
  show "tray_sys_start s \<Longrightarrow> tray_sys_inv C s" for s
    using tray_inv_start by (simp add: tray_sys_start_def tray_sys_inv_def in_tunnel_def) (simp add: NewTunnelController_def)
qed (rule tray_sys_inv_step)

section \<open>A disconnection completes\<close>

text \<open>Runs of a session of the present tunnel.\<close>

lemma tray_session_step:
  assumes "ts_tunnels s \<noteq> []" "t = this_tunnel s" "cl_exit t = None" "k < length (ml_sessions (cl_loop t))"
    and "client_session_step (ce_env C) (stopClosed (ts_ctl s)) (ml_sessions (cl_loop t) ! k) Quiet x"
  shows "tray_sys_step C s (with_tunnel (t\<lparr>cl_down := stopClosed (ts_ctl s), cl_loop := set_session k x (cl_loop t)\<rparr>) s)"
proof -
  let ?j = "length (ts_tunnels s) - 1" and ?d = "t\<lparr>cl_down := stopClosed (ts_ctl s)\<rparr>"
  have t: "ts_tunnels s ! ?j = t" using assms(1,2) by (simp add: last_conv_nth)
  have "client_side C ?d (?d\<lparr>cl_loop := set_session k x (cl_loop ?d)\<rparr>)" using assms(3-5) by (intro client_side.quiet) simp
  then have "client_side C ((ts_tunnels s ! ?j)\<lparr>cl_down := stopClosed (ts_ctl s)\<rparr>) (?d\<lparr>cl_loop := set_session k x (cl_loop t)\<rparr>)"
    unfolding t by simp
  from tray_sys_step.goroutine [OF _ _ this] assms(1) have
    "tray_sys_step C s (s\<lparr>ts_tunnels := (ts_tunnels s)[?j := ?d\<lparr>cl_loop := set_session k x (cl_loop t)\<rparr>]\<rparr>)" by simp
  moreover have "(ts_tunnels s)[?j := y] = butlast (ts_tunnels s) @ [y]" for y
    using assms(1) by (cases "ts_tunnels s" rule: rev_cases) simp_all
  ultimately show ?thesis by simp
qed

lemma tray_session_run:
  assumes "(\<lambda>x y. client_session_step (ce_env C) (stopClosed (ts_ctl s)) x Quiet y)\<^sup>*\<^sup>* (ml_sessions (cl_loop (this_tunnel s)) ! k) y"
    and "ts_tunnels s \<noteq> []" "cl_exit (this_tunnel s) = None" "k < length (ml_sessions (cl_loop (this_tunnel s)))"
  shows "\<exists>t. (tray_sys_step C)\<^sup>*\<^sup>* s (with_tunnel t s) \<and> cl_exit t = None \<and> cl_loop t = set_session k y (cl_loop (this_tunnel s))"
  using assms(1)
proof (induction rule: rtranclp_induct)
  case base
  have "with_tunnel (this_tunnel s) s = s" using assms(2) by simp
  then show ?case using assms(3) by (intro exI [of _ "this_tunnel s"]) simp
next
  case (step y z)
  then obtain t where t: "(tray_sys_step C)\<^sup>*\<^sup>* s (with_tunnel t s)" "cl_exit t = None"
    "cl_loop t = set_session k y (cl_loop (this_tunnel s))" by blast
  from tray_session_step [of "with_tunnel t s" t k C z] t assms(4) step(2) have
    "tray_sys_step C (with_tunnel t s) (with_tunnel (t\<lparr>cl_down := stopClosed (ts_ctl s), cl_loop := set_session k z (cl_loop t)\<rparr>) s)"
    by simp
  from rtranclp.rtrancl_into_rtrancl [OF t(1) this] t(2,3) show ?case by (intro exI conjI) (assumption, simp_all)
qed

text \<open>From each place in the loop, once the stop channel is closed.\<close>

definition all_closed :: "tray_sys \<Rightarrow> bool" where
  "all_closed s \<longleftrightarrow> tstate (ts_ctl s) = Disconnected \<and> runs (ts_ctl s) = RIdle
     \<and> \<not> cmOpen (ts_ctl s) \<and> \<not> tunOpen (ts_ctl s) \<and> \<not> routesUp (ts_ctl s)"

abbreviation can_close :: "link_env \<Rightarrow> tray_sys \<Rightarrow> bool" where
  "can_close C s \<equiv> \<exists>s'. (tray_sys_step C)\<^sup>*\<^sup>* s s' \<and> all_closed s'"

lemma close_leaving:
  assumes "runs (ts_ctl s) = RLeave"
  shows "can_close C s"
proof (rule steps_then)
  show "tray_sys_step C s (s\<lparr>ts_ctl := leave (ts_ctl s)\<rparr>)"
    using assms by (intro tray_sys_step.control [where e = Leave]) (simp_all add: tray_step_simps control_event_def)
qed (rule steps_now, simp add: all_closed_def leave_def setState_def)

lemma close_lost:
  assumes "runs (ts_ctl s) = RLost" "stopClosed (ts_ctl s)"
  shows "can_close C s"
proof -
  from assms have "tray_step (ts_ctl s) LostStopped ((ts_ctl s)\<lparr>runs := RLeave\<rparr>)" by (simp add: tray_step_simps)
  from tray_sys_step.lost_stopped [OF this refl] show ?thesis by (rule steps_then) (rule close_leaving, simp)
qed

lemma close_running:
  assumes "in_loop s Running" "stopClosed (ts_ctl s)"
  shows "can_close C s"
proof -
  obtain r tp' where e: "Encode FrameClose [] (ss_cipher (cur_session (this_tunnel s))) (me_pad (ce_env C)) (\<lambda>_. 0) = (r, tp')" by fastforce
  from assms have "tray_step (ts_ctl s) SessionStopped ((ts_ctl s)\<lparr>runs := RLeave\<rparr>)" by (simp add: tray_step_simps)
  from tray_sys_step.stopped [OF assms(1) refl this e] show ?thesis by (rule steps_then) (rule close_leaving, simp)
qed

lemma close_starting:
  assumes "in_loop s Starting" "stopClosed (ts_ctl s)"
  shows "can_close C s"
proof (cases "NewCipher (me_chacha (ce_env C)) (snd (GetActiveStream (cl_cm (this_tunnel s))))")
  case None
  from assms have "tray_step (ts_ctl s) CipherFails ((ts_ctl s)\<lparr>runs := RLeave\<rparr>)" by (simp add: tray_step_simps)
  from tray_sys_step.cipher_failed [OF assms(1) refl None this] show ?thesis by (rule steps_then) (rule close_leaving, simp)
next
  case (Some c)
  from tray_sys_step.started [OF assms(1) refl Some] show ?thesis
    by (rule steps_then) (rule close_running, use assms in simp_all)
qed

lemma close_draining:
  assumes "in_loop s (Draining d)" "stopClosed (ts_ctl s)" "tray_sys_inv C s"
  shows "can_close C s"
proof -
  let ?t = "this_tunnel s"
  have "in_tunnel (runs (ts_ctl s))" using assms(1) by simp
  note I = this_tunnel_inv [OF assms(3) this]
  from I(1) obtain m where m: "loop_inv (ce_env C) (cl_loop ?t) m" by (auto simp: client_inv_def)
  from loop_invD(1) [OF m] assms(1) have ne: "cur (cl_loop ?t) < length (ml_sessions (cl_loop ?t))" "ss_done (cur_session ?t)"
    by (cases "ml_sessions (cl_loop ?t)"; simp add: writers_ok_def)+
  from client_endings.writer_can_end [OF sessions_inv [OF m ne(1)] ne(2), of "stopClosed (ts_ctl s)"] obtain y where
    y: "(\<lambda>x y. client_session_step (ce_env C) (stopClosed (ts_ctl s)) x Quiet y)\<^sup>*\<^sup>* (cur_session ?t) y" "ss_wr y = WGone" by blast
  from tray_session_run [OF y(1) I(5,2) ne(1)] obtain t where
    t: "(tray_sys_step C)\<^sup>*\<^sup>* s (with_tunnel t s)" "cl_loop t = set_session (cur (cl_loop ?t)) y (cl_loop ?t)" by blast
  let ?c = "(ts_ctl s)\<lparr>runs := RLost\<rparr>" and ?s = "with_tunnel t s"
  from assms(1) have "tray_step (ts_ctl ?s) SessionLost ?c" by (simp add: tray_step_simps)
  moreover have "in_loop ?s (Draining d)" "ss_wr (cur_session (this_tunnel ?s)) = WGone" using assms(1) t(2) y(2) ne(1) by simp_all
  ultimately have "tray_sys_step C ?s (with_tunnel (with_phase (Redialling d) (this_tunnel ?s)) (?s\<lparr>ts_ctl := ?c\<rparr>))"
    by (intro tray_sys_step.drained) (rule refl | assumption)+
  then have "can_close C ?s" by (rule steps_then) (rule close_lost, use assms(2) in simp_all)
  with t(1) show ?thesis by (meson rtranclp_trans)
qed

section \<open>What the tray promises\<close>

lemma ctl_reach: "reach tray_sys_start (tray_sys_step C) s \<Longrightarrow> reach (\<lambda>tc. tc = NewTunnelController) tray_next (ts_ctl s)"
proof (induction rule: reach.induct)
  case (reach_step s s')
  from tray_sys_refines [OF reach_step(2)] reach_step(3) show ?case by (auto intro: reach.reach_step)
qed (auto simp: tray_sys_start_def intro: reach_init)


text \<open>Connected, in a session, and then disconnected from the menu.\<close>

lemma control_path:
  "tray_path c es c' \<Longrightarrow> list_all control_event es \<Longrightarrow> reach tray_sys_start (tray_sys_step C) (s\<lparr>ts_ctl := c\<rparr>)
     \<Longrightarrow> reach tray_sys_start (tray_sys_step C) (s\<lparr>ts_ctl := c'\<rparr>)"
proof (induction rule: tray_path.induct)
  case (path_cons c e c1 es c2)
  with tray_sys_step.control [of "s\<lparr>ts_ctl := c\<rparr>" e c1 C] have "tray_sys_step C (s\<lparr>ts_ctl := c\<rparr>) (s\<lparr>ts_ctl := c1\<rparr>)" by simp
  from reach_step [OF path_cons(5) this] path_cons show ?case by simp
qed

lemma demo_tray_paths:
  "\<exists>c1 c2 c3. tray_path NewTunnelController (take 7 demo_connect) c1 \<and> tray_step c1 Announce c2
     \<and> tray_path c2 [Notify Connected, UIReceive, Toggle, UIDisconnect, UISend] c3
     \<and> runs c2 = RSession \<and> runs c3 = RSession \<and> stopClosed c3"
proof -
  have "(case tray_run NewTunnelController (take 7 demo_connect) of None \<Rightarrow> False
      | Some c1 \<Rightarrow> (case tray_exec c1 Announce of None \<Rightarrow> False
      | Some c2 \<Rightarrow> (case tray_run c2 [Notify Connected, UIReceive, Toggle, UIDisconnect, UISend] of None \<Rightarrow> False
      | Some c3 \<Rightarrow> runs c2 = RSession \<and> runs c3 = RSession \<and> stopClosed c3)))" by code_simp
  then show ?thesis
    unfolding tray_path_run tray_step_exec by (auto simp del: tray_run.simps tray_exec.simps split: option.splits)
qed


end
