(* ===== verification/Exceptions.thy ===== *)
theory Exceptions
  imports Geoip RouterLinux
begin

text \<open>
  \<open>Start\<close> of \<open>internal/routing/exceptions.go\<close>: the passes of the exception resolver over time, what they
  put into the address sets, and how they meet the periodic update of the country networks.
\<close>

section \<open>The resolver over time\<close>

text \<open>The CIDR rules once, then the domains: at the start and at every tick, each with its own lookups.\<close>

definition er_Start ::
  "'k tools \<Rightarrow> (string \<Rightarrow> IP) \<Rightarrow> ExceptionRule list \<Rightarrow> (string \<Rightarrow> string list option)
     \<Rightarrow> (string \<Rightarrow> string list option) list \<Rightarrow> 'k \<Rightarrow> 'k" where
  "er_Start T parse rules lookup ticks k =
     fold (\<lambda>lk. resolveDomains T lk parse rules) ticks (resolveDomains T lookup parse rules (applyCIDRs T rules k))"

text \<open>What the rules ask for: networks by CIDR, and the IPv4 addresses of domains.\<close>

definition cidr_targets :: "string \<Rightarrow> ExceptionRule list \<Rightarrow> string set" where
  "cidr_targets dir rules = {CIDR r | r. r \<in> set rules \<and> CIDR r \<noteq> [] \<and> Direction r = dir}"

definition v4_texts :: "(string \<Rightarrow> IP) \<Rightarrow> string list option \<Rightarrow> string set" where
  "v4_texts parse res = (case res of None \<Rightarrow> {} | Some ips \<Rightarrow> {ip \<in> set ips. parse ip \<noteq> [] \<and> To4 (parse ip) \<noteq> []})"

definition domain_targets ::
  "(string \<Rightarrow> IP) \<Rightarrow> (string \<Rightarrow> string list option) \<Rightarrow> string \<Rightarrow> ExceptionRule list \<Rightarrow> string set" where
  "domain_targets parse lookup dir rules =
     (\<Union>r \<in> {r \<in> set rules. Domain r \<noteq> [] \<and> Direction r = dir}. v4_texts parse (lookup (Domain r)))"

text \<open>Both sets hold given entries; no other set matters.\<close>

definition holds :: "('k \<Rightarrow> string \<rightharpoonup> string set) \<Rightarrow> 'k \<Rightarrow> string set \<Rightarrow> string set \<Rightarrow> bool" where
  "holds sets k p d \<longleftrightarrow> sets k IPSetProxy = Some p \<and> sets k IPSetDirect = Some d"

definition for_dir :: "string \<Rightarrow> string \<Rightarrow> string set \<Rightarrow> string set" where
  "for_dir want dir x = (if dir = want then x else {})"

lemma for_dir_simps [simp]:
  "for_dir want dir {} = {}" "for_dir want dir x \<union> for_dir want dir y = for_dir want dir (x \<union> y)"
  by (simp_all add: for_dir_def)

lemma set_names: "IPSetProxy \<noteq> IPSetDirect"
  by (simp add: IPSetProxy_def IPSetDirect_def)

lemma add_by_direction_holds:
  assumes "ipset_ok T sets" "holds sets k p d"
  shows "holds sets (add_by_direction T dir e k) (p \<union> for_dir ''proxy'' dir {e}) (d \<union> for_dir ''direct'' dir {e})"
  using assms set_names
  by (auto simp: holds_def add_by_direction_def for_dir_def AddProxyIP_def AddDirectIP_def ipset_ok_def)

lemma addresses_hold:
  assumes "ipset_ok T sets" "holds sets k p d"
  shows "holds sets (fold (\<lambda>ipStr. if parse ipStr = [] \<or> To4 (parse ipStr) = [] then id else add_by_direction T dir ipStr) ips k)
     (p \<union> for_dir ''proxy'' dir (v4_texts parse (Some ips))) (d \<union> for_dir ''direct'' dir (v4_texts parse (Some ips)))"
  using assms(2)
proof (induction ips arbitrary: k p d)
  case Nil
  then show ?case by (simp add: v4_texts_def)
next
  case (Cons ip ips)
  let ?new = "if parse ip = [] \<or> To4 (parse ip) = [] then {} else {ip}"
  have "holds sets ((if parse ip = [] \<or> To4 (parse ip) = [] then id else add_by_direction T dir ip) k)
      (p \<union> for_dir ''proxy'' dir ?new) (d \<union> for_dir ''direct'' dir ?new)"
    using Cons.prems add_by_direction_holds [OF assms(1) Cons.prems, of dir ip] by simp
  from Cons.IH [OF this] have "holds sets (fold (\<lambda>ipStr. if parse ipStr = [] \<or> To4 (parse ipStr) = [] then id else add_by_direction T dir ipStr) (ip # ips) k)
      (p \<union> for_dir ''proxy'' dir (?new \<union> v4_texts parse (Some ips))) (d \<union> for_dir ''direct'' dir (?new \<union> v4_texts parse (Some ips)))"
    by (simp add: Un_assoc)
  moreover have "?new \<union> v4_texts parse (Some ips) = v4_texts parse (Some (ip # ips))" by (auto simp: v4_texts_def)
  ultimately show ?case by simp
qed

lemma applyCIDRs_holds:
  assumes "ipset_ok T sets" "holds sets k p d"
  shows "holds sets (applyCIDRs T rules k) (p \<union> cidr_targets ''proxy'' rules) (d \<union> cidr_targets ''direct'' rules)"
  using assms(2)
proof (induction rules arbitrary: k p d)
  case Nil
  then show ?case by (simp add: applyCIDRs_def cidr_targets_def)
next
  case (Cons r rules)
  let ?new = "if CIDR r = [] then {} else {CIDR r}"
  have "holds sets ((if CIDR r = '''' then id else add_by_direction T (Direction r) (CIDR r)) k)
      (p \<union> for_dir ''proxy'' (Direction r) ?new) (d \<union> for_dir ''direct'' (Direction r) ?new)"
    using Cons.prems add_by_direction_holds [OF assms(1) Cons.prems] by simp
  from Cons.IH [OF this] have "holds sets (applyCIDRs T (r # rules) k)
      (p \<union> for_dir ''proxy'' (Direction r) ?new \<union> cidr_targets ''proxy'' rules)
      (d \<union> for_dir ''direct'' (Direction r) ?new \<union> cidr_targets ''direct'' rules)"
    by (simp add: applyCIDRs_def)
  moreover have "for_dir dir (Direction r) ?new \<union> cidr_targets dir rules = cidr_targets dir (r # rules)" for dir
    by (auto simp: for_dir_def cidr_targets_def)
  ultimately show ?case by (simp add: Un_assoc)
qed

lemma resolveDomains_holds:
  assumes "ipset_ok T sets" "holds sets k p d"
  shows "holds sets (resolveDomains T lookup parse rules k)
     (p \<union> domain_targets parse lookup ''proxy'' rules) (d \<union> domain_targets parse lookup ''direct'' rules)"
  using assms(2)
proof (induction rules arbitrary: k p d)
  case Nil
  then show ?case by (simp add: resolveDomains_def domain_targets_def)
next
  case (Cons r rules)
  let ?new = "if Domain r = [] then {} else v4_texts parse (lookup (Domain r))"
  let ?k = "if Domain r = '''' then k else case lookup (Domain r) of None \<Rightarrow> k
      | Some ips \<Rightarrow> fold (\<lambda>ipStr. if parse ipStr = [] \<or> To4 (parse ipStr) = [] then id else add_by_direction T (Direction r) ipStr) ips k"
  have "holds sets ?k (p \<union> for_dir ''proxy'' (Direction r) ?new) (d \<union> for_dir ''direct'' (Direction r) ?new)"
    using Cons.prems addresses_hold [OF assms(1) Cons.prems, of parse "Direction r"]
    by (cases "lookup (Domain r)") (simp_all add: v4_texts_def)
  from Cons.IH [OF this] have "holds sets (resolveDomains T lookup parse (r # rules) k)
      (p \<union> for_dir ''proxy'' (Direction r) ?new \<union> domain_targets parse lookup ''proxy'' rules)
      (d \<union> for_dir ''direct'' (Direction r) ?new \<union> domain_targets parse lookup ''direct'' rules)"
    by (simp add: resolveDomains_def)
  moreover have "for_dir dir (Direction r) ?new \<union> domain_targets parse lookup dir rules = domain_targets parse lookup dir (r # rules)" for dir
    by (auto simp: for_dir_def domain_targets_def)
  ultimately show ?case by (simp add: Un_assoc)
qed

lemma ticks_hold:
  assumes "ipset_ok T sets" "holds sets k p d"
  shows "holds sets (fold (\<lambda>lk. resolveDomains T lk parse rules) ticks k)
     (p \<union> (\<Union>lk\<in>set ticks. domain_targets parse lk ''proxy'' rules)) (d \<union> (\<Union>lk\<in>set ticks. domain_targets parse lk ''direct'' rules))"
  using assms(2)
proof (induction ticks arbitrary: k p d)
  case (Cons lk ticks)
  from Cons.IH [OF resolveDomains_holds [OF assms(1) Cons.prems]] show ?case by (simp add: Un_assoc)
qed simp

lemma er_Start_holds:
  assumes "ipset_ok T sets" "holds sets k p d"
  shows "holds sets (er_Start T parse rules lookup ticks k)
      (p \<union> cidr_targets ''proxy'' rules \<union> (\<Union>lk\<in>set (lookup # ticks). domain_targets parse lk ''proxy'' rules))
      (d \<union> cidr_targets ''direct'' rules \<union> (\<Union>lk\<in>set (lookup # ticks). domain_targets parse lk ''direct'' rules))"
  unfolding er_Start_def
  using ticks_hold [OF assms(1) resolveDomains_holds [OF assms(1) applyCIDRs_holds [OF assms]]]
  by (simp add: Un_assoc)

text \<open>
  What becomes of the exceptions. The resolver puts into the proxy set and the direct set exactly the
  networks of its CIDR rules and the IPv4 addresses its domains ever resolved to, in the set of the
  rule's direction, beside what was there. A successful update of the country database keeps the proxy
  set but empties the direct set of all exceptions: afterwards it holds the country's networks and
  what the domains resolve to from then on, while the CIDR rules never come back.
\<close>

theorem exceptions_and_country:
  assumes "ipset_ok T sets" "holds sets k p d"
    and "k1 = er_Start T parse rules lookup ticks k"
    and "geo_tick M E T (db, fs, k1) = (db', fs', k2)"
    and "fst (Update M E db fs) = None" "\<not> snd (mm_networks M (the (reader db')))"
    and "k3 = fold (\<lambda>lk. resolveDomains T lk parse rules) later k2"
  defines "proxied \<equiv> p \<union> cidr_targets ''proxy'' rules \<union> (\<Union>lk\<in>set (lookup # ticks). domain_targets parse lk ''proxy'' rules)"
  shows "holds sets k1 proxied
      (d \<union> cidr_targets ''direct'' rules \<union> (\<Union>lk\<in>set (lookup # ticks). domain_targets parse lk ''direct'' rules))
    \<and> holds sets k3 (proxied \<union> (\<Union>lk\<in>set later. domain_targets parse lk ''proxy'' rules))
      (net_string ` set (country_nets M (countryCode db) (the (reader db')))
         \<union> (\<Union>lk\<in>set later. domain_targets parse lk ''direct'' rules))"
proof -
  have 1: "holds sets k1 proxied
      (d \<union> cidr_targets ''direct'' rules \<union> (\<Union>lk\<in>set (lookup # ticks). domain_targets parse lk ''direct'' rules))"
    unfolding assms(3) proxied_def by (rule er_Start_holds [OF assms(1,2)])
  then obtain x where "sets k1 IPSetDirect = Some x" by (simp add: holds_def)
  from geo_tick_sets [OF assms(1) this assms(4)] assms(5,6)
  have "sets k2 = (sets k1)(IPSetDirect \<mapsto> net_string ` set (country_nets M (countryCode db) (the (reader db'))),
      IPSetDirect @ ''-tmp'' := None)" by simp
  moreover have "IPSetProxy \<noteq> IPSetDirect @ ''-tmp''" by (simp add: IPSetProxy_def IPSetDirect_def)
  ultimately have "holds sets k2 proxied (net_string ` set (country_nets M (countryCode db) (the (reader db'))))"
    using 1 set_names by (simp add: holds_def)
  from ticks_hold [OF assms(1) this, of parse rules later] 1 show ?thesis unfolding assms(7) by simp
qed

definition demo_rules :: "ExceptionRule list" where
  "demo_rules =
     [\<lparr>Domain = [], CIDR = ''192.0.2.0/24'', Direction = ''direct''\<rparr>,
      \<lparr>Domain = ''a.example'', CIDR = [], Direction = ''proxy''\<rparr>]"

theorem exceptions_and_country_witness:
  "\<exists>k3. k3 = fold (\<lambda>lk. resolveDomains demo_ipset lk ParseIP demo_rules) []
        (snd (snd (geo_tick demo_mmdb (demo_download True) demo_ipset (demo_db, \<lambda>_. None,
           er_Start demo_ipset ParseIP demo_rules (\<lambda>_. Some [''198.51.100.7'']) [] [IPSetProxy \<mapsto> {}, IPSetDirect \<mapsto> {}]))))
     \<and> k3 IPSetProxy = Some {''198.51.100.7''} \<and> k3 IPSetDirect = Some {''10.9.0.0/16''}"
proof -
  let ?k = "[IPSetProxy \<mapsto> {}, IPSetDirect \<mapsto> {}] :: string \<rightharpoonup> string set"
  let ?k1 = "er_Start demo_ipset ParseIP demo_rules (\<lambda>_. Some [''198.51.100.7'']) [] ?k"
  have h: "holds (\<lambda>k. k) ?k {} {}" using set_names by (simp add: holds_def)
  obtain db' fs' k2 where t: "geo_tick demo_mmdb (demo_download True) demo_ipset (demo_db, \<lambda>_. None, ?k1) = (db', fs', k2)"
    by (metis prod_cases3)
  have ok: "fst (Update demo_mmdb (demo_download True) demo_db (\<lambda>_. None)) = None"
    by (auto simp: Update_def Download_def demo_download_def db_open_def demo_mmdb_def Let_def)
  have n: "\<not> snd (mm_networks demo_mmdb (the (reader db')))" by (simp add: demo_mmdb_def)
  have "ToUpper ''ru'' = ''RU''" by code_simp
  then have cc: "countryCode demo_db = ''RU''" by (simp add: demo_db_def)
  have nets: "country_nets demo_mmdb ''RU'' r = [\<lparr>net_ip = [10, 9, 0, 0], net_ones = 16\<rparr>]" for r
    by (simp add: country_nets_def demo_mmdb_def To4_def v4InV6Prefix_def numeral_eq_Suc)
  have "ParseIP ''198.51.100.7'' \<noteq> []" "To4 (ParseIP ''198.51.100.7'') \<noteq> []" by code_simp+
  then have targets: "domain_targets ParseIP (\<lambda>_. Some [''198.51.100.7'']) ''proxy'' demo_rules = {''198.51.100.7''}"
    "cidr_targets ''proxy'' demo_rules = {}"
    unfolding domain_targets_def cidr_targets_def v4_texts_def demo_rules_def by (force, force)
  have s: "net_string \<lparr>net_ip = [10, 9, 0, 0], net_ones = 16\<rparr> = ''10.9.0.0/16''" by code_simp
  note E = exceptions_and_country [OF demo_ipset_ok h refl t ok n refl, of "[]"]
  have "k2 IPSetProxy = Some {''198.51.100.7''} \<and> k2 IPSetDirect = Some {''10.9.0.0/16''}"
    using E [THEN conjunct2] unfolding cc nets holds_def by (simp only: fold.simps id_apply list.set targets s image_insert image_empty
      Un_empty_left Un_empty_right Union_insert Union_empty)
  then show ?thesis unfolding t by simp
qed

end
