(* ===== verification/ExceptionUpdate.thy ===== *)
theory ExceptionUpdate
  imports Exceptions
begin

text \<open>
  The exception resolver (\<open>internal/routing/exceptions.go\<close>) and the periodic update of the country networks
  (\<open>periodicGeoIPUpdate\<close>, \<open>UpdateDirectIPs\<close>) run in goroutines of their own and take turns in the kernel command by
  command. Here both are lists of \<open>ipset\<close> commands, shown to be what the code of \<open>Exceptions\<close> and \<open>Geoip\<close> runs,
  and what holds is stated for every interleaving of them.
\<close>

section \<open>The commands of both goroutines\<close>

text \<open>\<open>UpdateDirectIPs\<close> when nothing fails; an update that finds no new database runs nothing.\<close>

abbreviation tmp_set :: string where
  "tmp_set \<equiv> IPSetDirect @ ''-tmp''"

definition country_commands :: "IPNet list \<Rightarrow> cmd list" where
  "country_commands subnets =
     [[''ipset'', ''create'', tmp_set, ''hash:net'', ''-exist''], [''ipset'', ''flush'', tmp_set]]
     @ map (add_entry tmp_set) (map net_string subnets)
     @ [[''ipset'', ''swap'', tmp_set, IPSetDirect], [''ipset'', ''destroy'', tmp_set]]"

definition geo_subnets :: "'r mmdb \<Rightarrow> download_env \<Rightarrow> 'r DB \<Rightarrow> disk_files \<Rightarrow> IPNet list option" where
  "geo_subnets M E db fs =
     (case Update M E db fs of
        (Some e, _) \<Rightarrow> None
      | (None, db1, _) \<Rightarrow> (case fst (ExtractSubnets M db1) of Some (Inr subnets) \<Rightarrow> Some subnets | _ \<Rightarrow> None))"

definition geo_commands :: "'r mmdb \<Rightarrow> download_env \<Rightarrow> 'r DB \<Rightarrow> disk_files \<Rightarrow> cmd list" where
  "geo_commands M E db fs = (case geo_subnets M E db fs of None \<Rightarrow> [] | Some subnets \<Rightarrow> country_commands subnets)"

text \<open>The entries the resolver adds, each with its set, in order.\<close>

definition entry_for :: "string \<Rightarrow> string \<Rightarrow> (string \<times> string) list" where
  "entry_for dir e = (if dir = ''proxy'' then [(IPSetProxy, e)] else if dir = ''direct'' then [(IPSetDirect, e)] else [])"

definition cidr_entries :: "ExceptionRule list \<Rightarrow> (string \<times> string) list" where
  "cidr_entries rules = concat (map (\<lambda>r. if CIDR r = [] then [] else entry_for (Direction r) (CIDR r)) rules)"

definition domain_entries ::
  "(string \<Rightarrow> IP) \<Rightarrow> ExceptionRule list \<Rightarrow> (string \<Rightarrow> string list option) \<Rightarrow> (string \<times> string) list" where
  "domain_entries parse rules lookup =
     concat (map (\<lambda>r. case (if Domain r = [] then None else lookup (Domain r)) of
         None \<Rightarrow> []
       | Some ips \<Rightarrow> concat (map (entry_for (Direction r)) (filter (\<lambda>ip. parse ip \<noteq> [] \<and> To4 (parse ip) \<noteq> []) ips))) rules)"

definition er_entries ::
  "(string \<Rightarrow> IP) \<Rightarrow> ExceptionRule list \<Rightarrow> (string \<Rightarrow> string list option) list \<Rightarrow> (string \<times> string) list" where
  "er_entries parse rules lookups = cidr_entries rules @ concat (map (domain_entries parse rules) lookups)"

abbreviation er_commands :: "(string \<times> string) list \<Rightarrow> cmd list" where
  "er_commands \<equiv> map (\<lambda>(s, e). add_entry s e)"

definition added :: "string \<Rightarrow> (string \<times> string) list \<Rightarrow> string set" where
  "added s es = {e. (s, e) \<in> set es}"

lemma added_simps [simp]:
  "added s [] = {}" "added s ((s', e) # es) = (if s' = s then insert e (added s es) else added s es)"
  "added s (es @ es') = added s es \<union> added s es'"
  by (auto simp: added_def)

lemma try_all_simps [simp]:
  "try_all T [] k = k" "try_all T (c # cs) k = try_all T cs (try_run T c k)"
  "try_all T (cs @ cs') k = try_all T cs' (try_all T cs k)"
  by (simp_all add: try_all_def)

subsection \<open>They are what the code runs\<close>

lemma add_by_direction_commands: "add_by_direction T dir e k = try_all T (er_commands (entry_for dir e)) k"
  by (simp add: add_by_direction_def entry_for_def AddProxyIP_def AddDirectIP_def try_run_def)

lemma addresses_commands:
  "fold (\<lambda>ipStr. if parse ipStr = [] \<or> To4 (parse ipStr) = [] then id else add_by_direction T dir ipStr) ips k
     = try_all T (er_commands (concat (map (entry_for dir) (filter (\<lambda>ip. parse ip \<noteq> [] \<and> To4 (parse ip) \<noteq> []) ips)))) k"
  by (induction ips arbitrary: k) (simp_all add: add_by_direction_commands)

lemma resolveDomains_commands:
  "resolveDomains T lookup parse rules k = try_all T (er_commands (domain_entries parse rules lookup)) k"
  unfolding resolveDomains_def domain_entries_def
  by (induction rules arbitrary: k) (simp_all add: addresses_commands split: option.splits)

lemma applyCIDRs_commands: "applyCIDRs T rules k = try_all T (er_commands (cidr_entries rules)) k"
  unfolding applyCIDRs_def cidr_entries_def
  by (induction rules arbitrary: k) (simp_all add: add_by_direction_commands)

lemma er_Start_commands:
  "er_Start T parse rules lookup ticks k = try_all T (er_commands (er_entries parse rules (lookup # ticks))) k"
proof -
  have "fold (\<lambda>lk. resolveDomains T lk parse rules) ticks k
      = try_all T (er_commands (concat (map (domain_entries parse rules) ticks))) k" for k
    by (induction ticks arbitrary: k) (simp_all add: resolveDomains_commands)
  then show ?thesis by (simp add: er_Start_def er_entries_def applyCIDRs_commands resolveDomains_commands)
qed

lemma UpdateDirectIPs_commands:
  assumes "ipset_ok T sets" "sets k IPSetDirect = Some old"
  shows "snd (UpdateDirectIPs T subnets k) = try_all T (country_commands subnets) k"
proof -
  from ipset_okD(1) [OF assms(1), of tmp_set k] obtain k1 where
    c: "t_run T [''ipset'', ''create'', tmp_set, ''hash:net'', ''-exist''] k = (None, k1)" by (metis prod.collapse)
  then show ?thesis
    by (simp add: UpdateDirectIPs_def country_commands_def Let_def andthen_def run_def try_run_def ctx_def o_def
        split: prod.splits option.splits)
qed

lemma geo_tick_commands:
  assumes "ipset_ok T sets" "sets k IPSetDirect = Some old"
  shows "snd (snd (geo_tick M E T (db, fs, k))) = try_all T (geo_commands M E db fs) k"
proof -
  obtain res db1 fs1 where u: "Update M E db fs = (res, db1, fs1)" by (metis prod_cases3)
  obtain ex db2 where x: "ExtractSubnets M db1 = (ex, db2)" by fastforce
  show ?thesis
    using UpdateDirectIPs_commands [OF assms]
    by (simp add: geo_tick_def geo_commands_def geo_subnets_def u x split: option.splits sum.splits)
qed

section \<open>Interleavings\<close>

lemma shuffle_first:
  "zs \<in> shuffles (x # xs) ys \<Longrightarrow> \<exists>ys1 ys2 zs2. ys = ys1 @ ys2 \<and> zs = ys1 @ x # zs2 \<and> zs2 \<in> shuffles xs ys2"
proof (induction ys arbitrary: zs)
  case Nil
  then show ?case by simp
next
  case (Cons y ys)
  from Cons.prems consider zs' where "zs = x # zs'" "zs' \<in> shuffles xs (y # ys)"
    | zs' where "zs = y # zs'" "zs' \<in> shuffles (x # xs) ys" by auto
  then show ?case
  proof cases
    case 1
    then show ?thesis by (intro exI [of _ "[]"] exI [of _ "y # ys"] exI [of _ zs']) simp
  next
    case 2
    from Cons.IH [OF 2(2)] obtain ys1 ys2 zs2 where "ys = ys1 @ ys2" "zs' = ys1 @ x # zs2" "zs2 \<in> shuffles xs ys2" by blast
    with 2(1) show ?thesis
      by (intro exI [of _ "y # ys1"] exI [of _ ys2] exI [of _ zs2]) simp
  qed
qed

text \<open>The same with the resolver's commands on one side.\<close>

lemma er_first:
  assumes "zs \<in> shuffles (x # xs) (er_commands es)"
  obtains es1 es2 zs2 where "es = es1 @ es2" "zs = er_commands es1 @ x # zs2" "zs2 \<in> shuffles xs (er_commands es2)"
  using shuffle_first [OF assms] by (auto simp: map_eq_append_conv)

text \<open>The three sets that matter.\<close>

definition three :: "('k \<Rightarrow> string \<rightharpoonup> string set) \<Rightarrow> 'k \<Rightarrow> string set option \<Rightarrow> string set \<Rightarrow> string set \<Rightarrow> bool" where
  "three sets k t p d \<longleftrightarrow> sets k tmp_set = t \<and> holds sets k p d"

definition for_exceptions :: "(string \<times> string) list \<Rightarrow> bool" where
  "for_exceptions es \<longleftrightarrow> list_all (\<lambda>(s, e). s = IPSetProxy \<or> s = IPSetDirect) es"

lemma for_exceptions_simps [simp]:
  "for_exceptions []" "for_exceptions (es @ es') \<longleftrightarrow> for_exceptions es \<and> for_exceptions es'"
  "for_exceptions ((s, e) # es) \<longleftrightarrow> (s = IPSetProxy \<or> s = IPSetDirect) \<and> for_exceptions es"
  by (simp_all add: for_exceptions_def)

lemma set_names_distinct [simp]: "IPSetProxy \<noteq> IPSetDirect" "IPSetProxy \<noteq> tmp_set" "tmp_set \<noteq> IPSetProxy" "IPSetDirect \<noteq> IPSetProxy"
  by (simp_all add: IPSetProxy_def IPSetDirect_def)

lemma add_entry_sets:
  assumes "ipset_ok T sets" "sets k s = Some x"
  shows "sets (try_run T (add_entry s e) k) = (sets k)(s \<mapsto> insert e x)"
  using assms by (simp add: ipset_ok_def try_run_def)

lemma er_commands_three:
  assumes "ipset_ok T sets" "for_exceptions es" "three sets k t p d"
  shows "three sets (try_all T (er_commands es) k) t (p \<union> added IPSetProxy es) (d \<union> added IPSetDirect es)"
  using assms(2,3)
proof (induction es arbitrary: k p d)
  case (Cons x es)
  obtain s e where x: "x = (s, e)" by fastforce
  have "three sets (try_run T (add_entry s e) k) t (if s = IPSetProxy then insert e p else p) (if s = IPSetDirect then insert e d else d)"
    using add_entry_sets [OF assms(1), of k s _ e] Cons.prems by (auto simp: x three_def holds_def)
  from Cons.IH [OF _ this] Cons.prems show ?case by (auto simp: x)
qed simp

text \<open>Loading the temporary set.\<close>

lemma load_three:
  assumes "ipset_ok T sets"
  shows "zs \<in> shuffles (map (add_entry tmp_set) ns @ xs) (er_commands es) \<Longrightarrow> for_exceptions es \<Longrightarrow> three sets k (Some x) p d
    \<Longrightarrow> \<exists>es1 es2 k' zs2. es = es1 @ es2 \<and> try_all T zs k = try_all T zs2 k' \<and> zs2 \<in> shuffles xs (er_commands es2)
      \<and> three sets k' (Some (x \<union> set ns)) (p \<union> added IPSetProxy es1) (d \<union> added IPSetDirect es1)"
proof (induction ns arbitrary: zs es k x p d)
  case Nil
  then show ?case by (intro exI [of _ "[]"] exI [of _ es] exI [of _ k] exI [of _ zs]) simp
next
  case (Cons n ns)
  from Cons.prems(1) have "zs \<in> shuffles (add_entry tmp_set n # (map (add_entry tmp_set) ns @ xs)) (er_commands es)" by simp
  then obtain es1 es2 zs2 where s: "es = es1 @ es2" "zs = er_commands es1 @ add_entry tmp_set n # zs2"
    "zs2 \<in> shuffles (map (add_entry tmp_set) ns @ xs) (er_commands es2)" by (rule er_first)
  from Cons.prems(2) s(1) have e: "for_exceptions es1" "for_exceptions es2" by simp_all
  let ?k1 = "try_all T (er_commands es1) k" and ?p = "p \<union> added IPSetProxy es1" and ?d = "d \<union> added IPSetDirect es1"
  let ?k2 = "try_run T (add_entry tmp_set n) ?k1"
  from er_commands_three [OF assms e(1) Cons.prems(3)] have "three sets ?k1 (Some x) ?p ?d" .
  then have "three sets ?k2 (Some (insert n x)) ?p ?d"
    using add_entry_sets [OF assms, of ?k1 tmp_set x n] by (simp add: three_def holds_def)
  from Cons.IH [OF s(3) e(2) this] obtain es3 es4 k' zs4 where "es2 = es3 @ es4" "try_all T zs2 ?k2 = try_all T zs4 k'"
    "zs4 \<in> shuffles xs (er_commands es4)"
    "three sets k' (Some (insert n x \<union> set ns)) (?p \<union> added IPSetProxy es3) (?d \<union> added IPSetDirect es3)" by blast
  with s show ?case by (intro exI [of _ "es1 @ es3"] exI [of _ es4] exI [of _ k'] exI [of _ zs4]) (simp add: Un_assoc)
qed

lemma one_three:
  assumes "ipset_ok T sets" "zs \<in> shuffles (c # xs) (er_commands es)" "for_exceptions es" "three sets k t p d"
    and "\<And>k p d. three sets k t p d \<Longrightarrow> three sets (try_run T c k) (g d) p (f d)"
  obtains es1 es2 k' zs2 where "es = es1 @ es2" "try_all T zs k = try_all T zs2 k'" "zs2 \<in> shuffles xs (er_commands es2)"
    "for_exceptions es1" "for_exceptions es2"
    "three sets k' (g (d \<union> added IPSetDirect es1)) (p \<union> added IPSetProxy es1) (f (d \<union> added IPSetDirect es1))"
proof -
  from assms(2) obtain es1 es2 zs2 where s: "es = es1 @ es2" "zs = er_commands es1 @ c # zs2" "zs2 \<in> shuffles xs (er_commands es2)"
    by (rule er_first)
  from assms(3) s(1) have e: "for_exceptions es1" "for_exceptions es2" by simp_all
  from er_commands_three [OF assms(1) e(1) assms(4)] assms(5) s e show thesis by (intro that) (assumption | simp)+
qed

text \<open>What is added before the swap is lost, what is added after it stays.\<close>

lemma country_three:
  assumes "ipset_ok T sets" "zs \<in> shuffles (country_commands subnets) (er_commands es)" "for_exceptions es" "holds sets k p d"
  shows "\<exists>before after. es = before @ after
    \<and> three sets (try_all T zs k) None (p \<union> added IPSetProxy es) (net_string ` set subnets \<union> added IPSetDirect after)"
proof -
  note D = ipset_okD [OF assms(1)]
  let ?create = "[''ipset'', ''create'', tmp_set, ''hash:net'', ''-exist'']" and ?flush = "[''ipset'', ''flush'', tmp_set]"
  let ?load = "map (add_entry tmp_set) (map net_string subnets)" and ?nets = "net_string ` set subnets"
  let ?swap = "[''ipset'', ''swap'', tmp_set, IPSetDirect]" and ?destroy = "[''ipset'', ''destroy'', tmp_set]"
  let ?x0 = "case sets k tmp_set of None \<Rightarrow> {} | Some x \<Rightarrow> x"
  have cs: "country_commands subnets = ?create # ?flush # ?load @ [?swap, ?destroy]" by (simp add: country_commands_def)
  have t0: "three sets k (sets k tmp_set) p d" using assms(4) by (simp add: three_def)
  have create: "three sets (try_run T ?create k') (Some ?x0) p d" if "three sets k' (sets k tmp_set) p d" for k' p d
    using that D(2) [of tmp_set k'] by (auto simp: three_def holds_def try_run_def split: option.splits)
  have flush: "three sets (try_run T ?flush k') (Some {}) p d" if "three sets k' (Some ?x0) p d" for k' p d
    using that D(3) [of k' tmp_set ?x0] by (simp add: three_def holds_def)
  have swap: "three sets (try_run T ?swap k') (Some d) p x" if "three sets k' (Some x) p d" for k' p d x
    using that D(5) [of k' tmp_set x IPSetDirect d] by (simp add: three_def holds_def try_run_def)
  have destroy: "three sets (try_run T ?destroy k') None p d" if "three sets k' t p d" for k' t p d
    using that D(6) [of tmp_set k'] by (simp add: three_def holds_def)
  obtain e1 r1 k1 z1 where 1: "es = e1 @ r1" "try_all T zs k = try_all T z1 k1"
    "z1 \<in> shuffles (?flush # ?load @ [?swap, ?destroy]) (er_commands r1)" "for_exceptions r1"
    "three sets k1 (Some ?x0) (p \<union> added IPSetProxy e1) (d \<union> added IPSetDirect e1)"
    by (rule one_three [OF assms(1) assms(2) [unfolded cs] assms(3) t0, of "\<lambda>_. Some ?x0" "\<lambda>d. d", OF create])
  obtain e2 r2 k2 z2 where 2: "r1 = e2 @ r2" "try_all T z1 k1 = try_all T z2 k2"
    "z2 \<in> shuffles (?load @ [?swap, ?destroy]) (er_commands r2)" "for_exceptions r2"
    "three sets k2 (Some {}) (p \<union> added IPSetProxy e1 \<union> added IPSetProxy e2) (d \<union> added IPSetDirect e1 \<union> added IPSetDirect e2)"
    by (rule one_three [OF assms(1) 1(3-5), of "\<lambda>_. Some {}" "\<lambda>d. d", OF flush])
  from load_three [OF assms(1) 2(3-5)] obtain e3 r3 k3 z3 where 3: "r2 = e3 @ r3" "try_all T z2 k2 = try_all T z3 k3"
    "z3 \<in> shuffles [?swap, ?destroy] (er_commands r3)"
    "three sets k3 (Some ?nets) (p \<union> added IPSetProxy e1 \<union> added IPSetProxy e2 \<union> added IPSetProxy e3)
       (d \<union> added IPSetDirect e1 \<union> added IPSetDirect e2 \<union> added IPSetDirect e3)" by auto
  from 2(4) 3(1) have fe3: "for_exceptions r3" by simp
  obtain e4 r4 k4 z4 where 4: "r3 = e4 @ r4" "try_all T z3 k3 = try_all T z4 k4"
    "z4 \<in> shuffles [?destroy] (er_commands r4)" "for_exceptions r4"
    "three sets k4 (Some (d \<union> added IPSetDirect e1 \<union> added IPSetDirect e2 \<union> added IPSetDirect e3 \<union> added IPSetDirect e4))
       (p \<union> added IPSetProxy e1 \<union> added IPSetProxy e2 \<union> added IPSetProxy e3 \<union> added IPSetProxy e4) ?nets"
    by (rule one_three [OF assms(1) 3(3) fe3 3(4), of "\<lambda>d. Some d" "\<lambda>_. ?nets", OF swap])
  obtain e5 r5 k5 z5 where 5: "r4 = e5 @ r5" "try_all T z4 k4 = try_all T z5 k5"
    "z5 \<in> shuffles [] (er_commands r5)" "for_exceptions r5"
    "three sets k5 None (p \<union> added IPSetProxy e1 \<union> added IPSetProxy e2 \<union> added IPSetProxy e3 \<union> added IPSetProxy e4
       \<union> added IPSetProxy e5) (?nets \<union> added IPSetDirect e5)"
    by (rule one_three [OF assms(1) 4(3-5), of "\<lambda>_. None" "\<lambda>d. d", OF destroy])
  from 5(3) er_commands_three [OF assms(1) 5(4,5)] have "three sets (try_all T z5 k5) None (p \<union> added IPSetProxy e1 \<union> added IPSetProxy e2
       \<union> added IPSetProxy e3 \<union> added IPSetProxy e4 \<union> added IPSetProxy e5 \<union> added IPSetProxy r5)
       (?nets \<union> added IPSetDirect e5 \<union> added IPSetDirect r5)" by simp
  then show ?thesis
    by (intro exI [of _ "e1 @ e2 @ e3 @ e4"] exI [of _ "e5 @ r5"]) (simp add: 1(1,2) 2(1,2) 3(1,2) 4(1,2) 5(1,2) Un_assoc)
qed

section \<open>What the resolver asks for\<close>

lemma added_concat: "added s (concat ess) = (\<Union>es\<in>set ess. added s es)"
  by (auto simp: added_def)

lemma added_entry_for:
  "added IPSetProxy (entry_for dir e) = (if dir = ''proxy'' then {e} else {})"
  "added IPSetDirect (entry_for dir e) = (if dir = ''direct'' then {e} else {})"
  by (simp_all add: entry_for_def)

lemma added_cidr:
  "added IPSetProxy (cidr_entries rules) = cidr_targets ''proxy'' rules"
  "added IPSetDirect (cidr_entries rules) = cidr_targets ''direct'' rules"
  by (auto simp: cidr_entries_def cidr_targets_def added_concat added_entry_for split: if_splits)

lemma added_domain:
  "added IPSetProxy (domain_entries parse rules lookup) = domain_targets parse lookup ''proxy'' rules"
  "added IPSetDirect (domain_entries parse rules lookup) = domain_targets parse lookup ''direct'' rules"
  by (auto simp: domain_entries_def domain_targets_def v4_texts_def added_concat added_entry_for split: option.splits if_splits)

lemma for_exceptions_er: "for_exceptions (er_entries parse rules lookups)"
  by (auto simp: for_exceptions_def list_all_iff er_entries_def cidr_entries_def domain_entries_def entry_for_def
      split: option.splits if_splits)

lemma set_drop_past: "length xs \<le> n \<Longrightarrow> set (drop n (xs @ ys)) \<subseteq> set ys"
  by (simp add: set_drop_subset)


text \<open>The resolver has added its CIDR rule, and adds the address of a domain after the swap.\<close>

definition demo_both :: "ExceptionRule list" where
  "demo_both =
     [\<lparr>Domain = [], CIDR = ''192.0.2.0/24'', Direction = ''direct''\<rparr>,
      \<lparr>Domain = ''a.example'', CIDR = [], Direction = ''direct''\<rparr>]"

lemma append_in_shuffles: "xs @ ys \<in> shuffles xs ys"
  by (induction xs) (auto intro: Cons_in_shuffles_leftI)

lemma demo_ipset_runs:
  "try_run demo_ipset [''ipset'', ''create'', s, h, e] k = (if k s = None then k(s \<mapsto> {}) else k)"
  "try_run demo_ipset [''ipset'', ''flush'', s] k = k(s \<mapsto> {})"
  "try_run demo_ipset (add_entry s x) k = k(s \<mapsto> insert x (the (k s)))"
  "try_run demo_ipset [''ipset'', ''swap'', s, s'] k = k(s := k s', s' := k s)"
  "try_run demo_ipset [''ipset'', ''destroy'', s] k = k(s := None)"
  by (simp_all add: try_run_def demo_ipset_def add_entry_def)


end
