(* ===== verification/Spec2Isabelle.thy ===== *)
theory Spec2Isabelle
  imports PgHandshake RoutingRules Wireguard RouterDarwin Setup Tray Certs Transport ServerMain ServerSystem GatewayMain TraySystem ExceptionUpdate
begin

text \<open>
  Verification of \<open>ftybucks\<close>, a VPN written in Go whose connections are disguised as PostgreSQL
  replication.

  \<^bold>\<open>The program.\<close> A server (\<open>cmd/server\<close>) accepts TCP connections, answers each as a PostgreSQL
  server would, and continues with those whose password hash proves the pre-shared key: the bytes of a
  \<open>smux\<close> session travel in CopyData messages, and on a stream of it both sides run a key exchange and
  then exchange encrypted frames. The first frame asks for a tunnel address; from then on data frames
  carry IP packets between the devices of both sides. Three programs connect to it: a command line
  client (\<open>cmd/client\<close>), a menu bar application (\<open>cmd/tray\<close>) and a gateway (\<open>cmd/gateway\<close>), which keeps
  a pool of connections to several servers, routes the traffic of WireGuard peers or of a local proxy
  into them, and sends the networks of one country out directly.

  \<^bold>\<open>Theories and sources.\<close> Definitions bear the names of the code where HOL allows it.

  \<^item> \<open>Prelude\<close>: bytes and big-endian codecs, \<open>io.ReadFull\<close> on a finite input, the random tape, number
    formatting; the interfaces \<open>stream_codec\<close> (messages on a byte stream) and \<open>invariant_system\<close> (a
    transition system with an invariant), and the collections \<open>wire_len\<close> and \<open>wire_defs\<close>.
  \<^item> \<open>NetAddr\<close>, \<open>Inet\<close>: what the program uses of Go's \<open>net\<close> for IPv4; Internet checksums.
  \<^item> \<open>Config\<close>: \<open>internal/config\<close>, both configurations, their validation and defaults.
  \<^item> \<open>Frame\<close>, \<open>Handshake\<close>: \<open>internal/proto\<close>, the frame codec with padding and nonces, the key exchange
    with timestamp and replay guard.
  \<^item> \<open>Obfs\<close>: \<open>internal/transport/obfs.go\<close> and \<open>decoy.go\<close>, cover traffic. \<open>Transport\<close>: \<open>tls.go\<close> and
    \<open>multiplex.go\<close> there, dialling and the parameters of the multiplexer.
  \<^item> \<open>PgWire\<close>, \<open>PgConn\<close>, \<open>PgHandshake\<close>, \<open>Certs\<close>: \<open>internal/transport/pgproto\<close>, the messages, the
    connection that carries bytes in them, both sides of the handshake, certificates and TLS settings.
  \<^item> \<open>IPPool\<close>, \<open>Sessions\<close>, \<open>Server\<close>, \<open>ServerMain\<close>: \<open>internal/tunnel/ippool.go\<close> and \<open>cmd/server\<close>, the address
    pool (interface \<open>address_pool\<close>), rate limiter and session table, the handler of a connection and
    the dispatcher, and the start and end of the process.
  \<^item> \<open>Upstream\<close>, \<open>Gateway\<close>, \<open>GatewayMain\<close>: \<open>internal/tunnel/conn.go\<close>, \<open>pool.go\<close> and \<open>cmd/gateway\<close>, connections
    with reconnection, the pool and its health, packet paths, probe and life cycle of a member, the
    watcher of routes, and start, end and peer commands of the process.
  \<^item> \<open>Routing\<close>, \<open>RoutingRules\<close>, \<open>Geoip\<close>, \<open>Exceptions\<close>, \<open>ExceptionUpdate\<close>: \<open>internal/routing\<close> and \<open>internal/geoip\<close>, the commands that
    set up and take down the policy routing, what the rules do to packets and sets, the country
    database and its update, the resolver of exceptions, and both at once, command by command.
  \<^item> \<open>Wireguard\<close>: \<open>internal/wireguard\<close>, the interface, its peers and their addresses.
  \<^item> \<open>RouterLinux\<close>, \<open>RouterDarwin\<close>: \<open>internal/tunnel/router*.go\<close> and \<open>tun*.go\<close>, routes and device of a client.
  \<^item> \<open>Dns\<close>: \<open>internal/dns\<close>, the resolver over HTTPS and its packets.
  \<^item> \<open>Client\<close>, \<open>Setup\<close>, \<open>Tray\<close>: \<open>cmd/client\<close> and \<open>cmd/tray\<close>, packet loops, exits and clean-up of the client,
    the wizards, and the controller of the menu bar application with its goroutines.
  \<^item> \<open>Tunnel\<close> and this theory: the gateway and the server together.
  \<^item> \<open>ServerSystem\<close>: the server with any number of connections at once.
  \<^item> \<open>GatewaySession\<close>, \<open>GatewayInv\<close>, \<open>GatewaySystem\<close>: the gateway with all its goroutines (the steps of a session,
    of a member's loop and of the process; their invariants behind the interface \<open>session_goroutines\<close>; what
    follows for packets, sessions, prober and routes). \<open>ClientSystem\<close>: the same for the command line client,
    which provides that interface with its own goroutines. \<open>TraySystem\<close>: the controller of the tray with the
    goroutines of its tunnels.

  \<^bold>\<open>How state and effects are modelled.\<close> A struct is a record, an enum a datatype, and a function or method
  a HOL function that returns the changed state; machine integers are words where they can wrap.
  Errors are values (sums or options), so each early return is a branch; a run-time panic is
  \<open>None\<close> or an error of its own. Randomness is an arbitrary tape, time an argument. A connection is the
  bytes still to be read, the bytes written and whether writes succeed. Where goroutines share state
  (session table, pool watcher, connection manager, cover traffic, tray controller, connections of the
  server, all of a gateway, client or tray) each section under a lock, and each access to a channel or an atomic, is
  one step of a transition relation, and a property is an invariant over all interleavings. Fields such as
  \<open>ml_queued\<close>, \<open>ml_taken\<close>, \<open>ss_frames\<close> and \<open>ss_cut\<close> are histories that the code does not keep: no step
  depends on them. Code outside the repository (ciphers and key exchange, TLS, smux, the YAML and
  MMDB libraries, netlink, \<open>ip\<close>, \<open>iptables\<close>, \<open>ipset\<close>, \<open>wg\<close>, the tools of macOS) is an argument or a
  record of operations on an arbitrary state. What a property needs of it is a predicate that states
  documented behaviour (\<open>aead_ok\<close>, \<open>crypto_ok\<close>, \<open>ipset_ok\<close>, \<open>iptables_ok\<close> and others), and each such
  property has a witness with concrete operations.

  \<^bold>\<open>What the lemmas show.\<close> Codecs: what is encoded is decoded, whatever follows on the stream. Handshakes: both
  sides agree, and the server accepts nothing stale, forged or replayed. Server: the table and the
  pool agree in every reachable state, addresses are not shared, a token keeps its address, packets
  with a foreign source are dropped, sessions are removed at the end of the handler, and the handler
  refines a specification on frames. Tunnel: packets queued on one side arrive unchanged and in order
  on the other. Gateway: whatever its goroutines do, at most one session of a member takes packets,
  each packet goes through at most once and in order, a session can always be left, and the routes settle on
  healthy members; set-up and tear-down cancel out, marks decide the way of a packet, peers never share an
  address. Clients: DNS packets stay out of the tunnel and the others go through at most
  once, routes come back, no double close and nothing left open, and a disconnection completes unless the tray
  is reconnecting. Start and end of the processes: which resources survive which exit. Several of
  these theorems state what the code does where that is not what it means to do; their texts say so.

  \<^bold>\<open>Bounds and termination.\<close> Loops over a finite input or list are recursive functions with a measure. Loops that
  need not end are \<open>partial_function\<close> (the search for a free WireGuard address, the deterministic reader)
  and are proved to return under the stated condition. Loops that wait for the world (reconnection,
  ticks, rounds of a client) run over a list of what the world does, and \<open>None\<close> means that
  the list ended first; what is proved of them holds for every such list.

  \<^bold>\<open>Not modelled.\<close> IPv6 text (every user of it refuses IPv6), log lines and usage texts, the profiler and the
  health line of the gateway, drawing the icons, the systray library, and the floating point of the
  random delays of the cover traffic, whose results are arguments. The keepalive delay of \<open>PgConn\<close> is
  computed exactly where the code rounds. Data races below the granularity of a locked section are
  outside, as is the memory of buffers beyond their capacities. Shell scripts are not Go code.
  Of concurrency, one thing is coarser than the code: a reconnection and an address request are one step of
  the gateway, the client and the tray (each uses only its own connection manager, whose own
  interleavings are in \<open>Upstream\<close>). Fairness is not assumed:
  liveness is that a good state can be reached from every reachable one.
\<close>

section \<open>Properties that span components\<close>

text \<open>
  C17. Gateway and server agree on the tunnel address. With one session key, the request the gateway
  sends is read by the server as exactly the preferred address (0.0.0.0 when there is none) and the
  member's token; the server's answer with an address of its pool is read by the gateway as that
  address with the pool's prefix, which parses back to the same address; nothing else is consumed.
\<close>

theorem assignment_exchange:
  assumes "NewCipher chacha (snd (GetActiveStream cm)) = Some c" "aead_ok c"
    and "check_padding pad = None" "pad_max pad \<le> 65535"
    and "check_padding pad' = None" "pad_max pad' \<le> 65535"
    and "length tok = 8" "length ip = 4" "PrefixLen p \<le> 32"
    and "Encode FrameAssign (assign_payload ip p) c pad' t' = (Inr reply, t'')"
  shows "\<exists>req net. requestIPAssignment chacha pad True (reply @ rest) t cm preferred tok
        = (Some req, Inr (ip_string ip @ ''/'' @ fmt_d (PrefixLen p), rest))
    \<and> (\<forall>r. \<exists>m. Decode c (req @ r) = Inr (m, r)
          \<and> assign_request m = Some (if To4 preferred = [] then [0, 0, 0, 0] else To4 preferred, tok))
    \<and> ParseCIDR (ip_string ip @ ''/'' @ fmt_d (PrefixLen p)) = Some (v4InV6Prefix @ ip, net)
    \<and> net_ones net = PrefixLen p"
proof -
  let ?q = "assign_request_payload preferred tok"
  have "length ?q \<le> MaxPayloadSize"
    using length_To4 [of preferred] length_To4 [of IPv4zero] assms(7)
    by (auto simp: assign_request_payload_def MaxPayloadSize_def Let_def)
  then obtain req t1 where req: "Encode FrameAssign ?q c pad t = (Inr req, t1)"
    and dreq: "\<And>r. Decode c (req @ r) = Inr ((FrameAssign, ?q), r)"
    using Encode_decodable [OF assms(2-4)] by metis
  have "length (assign_payload ip p) \<le> MaxPayloadSize"
    using assms(8) by (simp add: assign_payload_eq MaxPayloadSize_def)
  from Encode_decodable [OF assms(2,5,6) this] assms(10)
  have dreply: "Decode c (reply @ r) = Inr ((FrameAssign, assign_payload ip p), r)" for r
    by (metis Pair_inject sum.inject(2))
  have "unat (of_nat (PrefixLen p) :: byte) = PrefixLen p" using assms(9) by (simp add: unat_of_nat)
  then have "requestIPAssignment chacha pad True (reply @ rest) t cm preferred tok
      = (Some req, Inr (ip_string ip @ ''/'' @ fmt_d (PrefixLen p), rest))"
    using assms(1,8) by (simp add: requestIPAssignment_def req dreply assign_payload_eq nth_append)
  with ParseCIDR_print [OF assms(8,9)] dreq assign_request_payload [OF assms(7)] show ?thesis
    by blast
qed

theorem assignment_exchange_witness:
  "\<exists>reply req. requestIPAssignment (\<lambda>_. Some (cipher_aead demo_aead)) \<lparr>pad_min = 0, pad_max = 0\<rparr> True
       reply (\<lambda>_. 0) NewConnManager [] demo_token = (Some req, Inr (''10.7.0.2/29'', []))
     \<and> assign_request (fst (projr (Decode demo_aead req))) = Some ([0, 0, 0, 0], demo_token)"
proof -
  let ?pad = "\<lparr>pad_min = 0, pad_max = 0\<rparr>"
  have pad: "check_padding ?pad = None" "pad_max ?pad \<le> 65535" by (simp_all add: check_padding_def)
  have c: "NewCipher (\<lambda>_. Some (cipher_aead demo_aead)) (snd (GetActiveStream NewConnManager)) = Some demo_aead"
    by (simp add: NewCipher_def demo_aead_def)
  have p: "PrefixLen demo_pool = 29" by (simp add: PrefixLen_def demo_pool_def)
  have tok: "length demo_token = 8" by (simp add: demo_token_def)
  have ip: "length [10, 7, 0, 2 :: byte] = 4" by simp
  have "length (assign_payload [10, 7, 0, 2] demo_pool) \<le> MaxPayloadSize"
    by (simp add: assign_payload_eq MaxPayloadSize_def)
  then obtain reply t' where r: "Encode FrameAssign (assign_payload [10, 7, 0, 2] demo_pool) demo_aead ?pad (\<lambda>_. 0) = (Inr reply, t')"
    using Encode_decodable [OF demo_aead_ok pad] by metis
  have shown: "ip_string [10, 7, 0, 2] @ CHR ''/'' # fmt_d 29 = ''10.7.0.2/29''" by code_simp
  from assignment_exchange [OF c demo_aead_ok pad pad tok ip _ r, of "[]" "\<lambda>_. 0" "[]"] p
  obtain req where q: "requestIPAssignment (\<lambda>_. Some (cipher_aead demo_aead)) ?pad True reply (\<lambda>_. 0)
        NewConnManager [] demo_token = (Some req, Inr (''10.7.0.2/29'', []))"
    and d: "\<forall>r. \<exists>m. Decode demo_aead (req @ r) = Inr (m, r) \<and> assign_request m = Some ([0, 0, 0, 0], demo_token)"
    by (auto simp: shown)
  from d [rule_format, of "[]"] have "assign_request (fst (projr (Decode demo_aead req))) = Some ([0, 0, 0, 0], demo_token)"
    by auto
  with q show ?thesis by blast
qed

text \<open>
  C20. From the gateway's device to the server's device. For any sequence of packets read from a member's
  TUN device while the writer keeps up, the server writes to its own device exactly the packets the
  gateway queued, in order: none is refused as spoofed. Each of them is one of the packets read with
  the member's tunnel address as source, unchanged outside the source address and the header checksum,
  and with a correct header checksum.
\<close>

theorem gateway_to_server:
  assumes "aead_ok c" "check_padding pad = None" "pad_max pad \<le> 65535"
    and "check_padding pad' = None" "pad_max pad' \<le> 65535"
    and "length (assignedIP m) = 4" "list_all (\<lambda>p. length p \<le> 65535) pkts"
    and "sessionWriter c pad (\<lambda>f. (int (length f), True)) (tun_queue m pkts) t 0 = (fs, tx, left, failed)"
  shows "tun_writes (fst (serve_loop c pad' (assignedIP m) (\<lambda>_. True) (concat fs) st t')) = tun_queue m pkts
    \<and> tx = int (length (concat fs))
    \<and> (\<forall>out\<in>set (tun_queue m pkts). \<exists>p\<in>set pkts. length out = length p
         \<and> slice 12 16 out = assignedIP m \<and> take 10 out = take 10 p \<and> drop 16 out = drop 16 p
         \<and> (20 \<le> ihl out \<and> ihl out \<le> length out \<longrightarrow> checksum_of (sum16 (take (ihl out) out)) = 0))"
proof -
  let ?q = "tun_queue m pkts"
  have out: "\<exists>p\<in>set pkts. tun_packet m p = Some x" if "x \<in> set ?q" for x
    using that tun_queue_from [of m pkts] by auto
  note spec = tun_packet_spec [OF _ assms(6)]
  have lens: "list_all (\<lambda>p. length p \<le> MaxPayloadSize) ?q"
    using assms(7) out spec(1) by (fastforce simp: list_all_iff MaxPayloadSize_def)
  have own: "own_packet (assignedIP m) (FrameData, x)" if "x \<in> set ?q" for x
    using out [OF that] spec(2,3) by (auto simp: own_packet_def)
  from sessionWriter_frames [OF assms(1-3) lens, of t 0] assms(8) obtain gs
    where gs: "list_all (good_frame c) gs" "map (\<lambda>(ft, p, _). (ft, p)) gs = map (Pair FrameData) ?q"
      "fs = map (\<lambda>(ft, p, nonce, padding). frame_of c ft p nonce padding) gs"
      "tx = int (length (concat fs))"
    by auto
  have "until_close (map (Pair FrameData) ?q) = map (Pair FrameData) ?q"
    by (simp add: until_close_def takeWhile_eq_all_conv frame_types)
  moreover have "map snd (filter (own_packet (assignedIP m)) (map (Pair FrameData) ?q)) = ?q"
    using own by (induction ?q) (auto simp: filter_id_conv o_def filter_map)
  ultimately have "tun_writes (fst (serve_loop c pad' (assignedIP m) (\<lambda>_. True) (concat fs) st t')) = ?q"
    using serve_loop_frames [OF assms(1,4,5,6) gs(1), of st t'] by (simp add: gs(2,3) Let_def)
  moreover have "\<exists>p\<in>set pkts. length x = length p \<and> slice 12 16 x = assignedIP m
      \<and> take 10 x = take 10 p \<and> drop 16 x = drop 16 p
      \<and> (20 \<le> ihl x \<and> ihl x \<le> length x \<longrightarrow> checksum_of (sum16 (take (ihl x) x)) = 0)"
    if "x \<in> set ?q" for x
    using out [OF that] spec(1,3,4,5,6) by blast
  ultimately show ?thesis using gs(4) by blast
qed

theorem gateway_to_server_witness:
  "\<exists>fs tx r. sessionWriter demo_aead \<lparr>pad_min = 0, pad_max = 0\<rparr> (\<lambda>f. (int (length f), True))
        (tun_queue (demo_member ''stun0'') [demo_tun_packet]) (\<lambda>_. 0) 0 = (fs, tx, r)
     \<and> length (tun_writes (fst (serve_loop demo_aead \<lparr>pad_min = 0, pad_max = 0\<rparr> [10, 7, 0, 2] (\<lambda>_. True)
          (concat fs) \<lparr>rxData = 0, rxBytes = 0, pings = 0\<rparr> (\<lambda>_. 0)))) = 1"
proof -
  let ?pad = "\<lparr>pad_min = 0, pad_max = 0\<rparr>" and ?m = "demo_member ''stun0''"
  have pad: "check_padding ?pad = None" "pad_max ?pad \<le> 65535" by (simp_all add: check_padding_def)
  have ip: "assignedIP ?m = [10, 7, 0, 2]" by (simp add: demo_member_def)
  have one: "length (tun_queue ?m [demo_tun_packet]) = 1"
    by (simp add: tun_queue_def tunReader_def tun_packet_def demo_tun_packet_def ip slice_def ip_Equal_def
        IPv4bcast_def IPv4zero_def To4_def v4InV6Prefix_def packet_cap_def)
  obtain fs tx left failed where w: "sessionWriter demo_aead ?pad (\<lambda>f. (int (length f), True))
        (tun_queue ?m [demo_tun_packet]) (\<lambda>_. 0) 0 = (fs, tx, left, failed)"
    by (metis prod_cases4)
  have "length (assignedIP ?m) = 4" "list_all (\<lambda>p. length p \<le> 65535) [demo_tun_packet]"
    by (simp_all add: ip demo_tun_packet_def)
  from gateway_to_server [OF demo_aead_ok pad pad this w] one w show ?thesis
    unfolding ip by auto
qed

text \<open>
  From the server to the gateway's device. On a stream of well-formed frames from the server the
  gateway's reader writes to its device exactly the payloads of the data frames up to the first close
  frame, in order, and counts their bytes.
\<close>

theorem server_to_gateway:
  assumes "list_all (good_frame c) fs"
  shows "let (out, pr', rx') = tunnelToTun c clk n
                    (concat (map (\<lambda>(ft, p, nonce, padding). frame_of c ft p nonce padding) fs)) pr rx
    in out = data_of (map (\<lambda>(ft, p, _). (ft, p)) fs) \<and> rx' = rx + int (length (concat out))"
  using assms by (rule tunnelToTun_frames)

theorem server_to_gateway_witness:
  "fst (tunnelToTun demo_aead (\<lambda>_. 0) 0
      (concat (map (\<lambda>(ft, p, nonce, padding). frame_of demo_aead ft p nonce padding)
         [(FrameDecoy, [1], replicate 12 0, []), (FrameData, [5, 6], replicate 12 0, [1]),
          (FrameClose, [], replicate 12 0, []), (FrameData, [7], replicate 12 0, [])]))
      \<lparr>probeRTTus = 0, misses = 0, sawPong = False\<rparr> 0) = [[5, 6]]"
proof -
  let ?fs = "[(FrameDecoy, [1], replicate 12 0, []), (FrameData, [5, 6], replicate 12 0, [1]),
          (FrameClose, [], replicate 12 0, []), (FrameData, [7], replicate 12 0, [])]"
  have "list_all (good_frame demo_aead) ?fs"
    by (simp add: good_frame_def demo_aead_ok NonceSize_def MaxPayloadSize_def)
  from server_to_gateway [OF this, of "\<lambda>_. 0" 0 "\<lparr>probeRTTus = 0, misses = 0, sawPong = False\<rparr>" 0]
  show ?thesis
    by (auto simp: data_of_def until_close_def frame_types split: prod.splits)
qed

end
